(* ===== verification/Kernel_Prelude.thy ===== *)
theory Kernel_Prelude imports Main "HOL-Library.Word" "HOL-Library.Monad_Syntax" begin

text \<open>
  What every component shares.

  Result values: an operation that can fail a \<open>KASSERT\<close> or a \<open>PANIC_IF\<close>
  (\<open>include/geekos/kassert.h\<close>), or that dereferences a null pointer, returns an
  \<open>option\<close>; \<open>None\<close> is "the kernel stops here" (\<open>HALT\<close> loops for ever, and page 0
  is left unmapped so that a null dereference faults into the handler that halts).  The
  operations are composed with the \<open>do\<close> notation of the option monad and pass their
  state explicitly.

  Integers: \<open>u32_t\<close>, \<open>ulong_t\<close>, \<open>size_t\<close> and \<open>unsigned\<close> are 32 bits wide on
  the target (i686) and are \<open>32 word\<close>; \<open>u16_t\<close> and \<open>u8_t\<close> are \<open>16 word\<close> and
  \<open>8 word\<close>.  A C \<open>int\<close> is an \<open>int\<close> unless its width matters.

  Error codes: \<open>include/geekos/errno.h\<close>.
\<close>

unbundle bit_operations_syntax

type_synonym u8 = "8 word"
type_synonym u16 = "16 word"
type_synonym u32 = "32 word"

named_theorems halt_simps \<open>unfolding of assertions and of their composition\<close>
named_theorems word_bounds \<open>values of unsigned operations that do not wrap\<close>

section \<open>Assertions\<close>

definition kassert :: "bool \<Rightarrow> unit option" where
  "kassert b = (if b then Some () else None)"

definition panic_if :: "bool \<Rightarrow> unit option" where
  "panic_if b = (if b then None else Some ())"

lemma kassert_simps [simp, halt_simps]:
  "kassert True = Some ()" "kassert False = None"
  by (simp_all add: kassert_def)

lemma kassert_eq_Some [simp, halt_simps]: "kassert b = Some u \<longleftrightarrow> b"
  by (simp add: kassert_def)

lemma kassert_eq_None [simp, halt_simps]: "kassert b = None \<longleftrightarrow> \<not> b"
  by (simp add: kassert_def)

lemma bind_kassert [halt_simps]: "Option.bind (kassert b) f = (if b then f () else None)"
  by (simp add: kassert_def)

lemma bind_kassert_eq_Some [simp]:
  "Option.bind (kassert b) f = Some r \<longleftrightarrow> b \<and> f () = Some r"
  by (simp add: kassert_def)

lemma panic_if_eq_Some [simp, halt_simps]: "panic_if b = Some u \<longleftrightarrow> \<not> b"
  by (simp add: panic_if_def)

lemma panic_if_simps [simp, halt_simps]:
  "panic_if True = None" "panic_if False = Some ()"
  by (simp_all add: panic_if_def)

section \<open>Error codes\<close>

definition ENOMEM :: int where "ENOMEM = -1"
definition EEXIST :: int where "EEXIST = -2"
definition ENOTDIR :: int where "ENOTDIR = -3"
definition EINVAL :: int where "EINVAL = -4"
definition ENODEV :: int where "ENODEV = -5"
definition EIO :: int where "EIO = -6"
definition ENOTSUP :: int where "ENOTSUP = -7"

lemmas errno_defs =
  ENOMEM_def EEXIST_def ENOTDIR_def EINVAL_def ENODEV_def EIO_def ENOTSUP_def

lemma errno_nonzero [simp]:
  "ENOMEM \<noteq> 0" "EEXIST \<noteq> 0" "ENOTDIR \<noteq> 0" "EINVAL \<noteq> 0" "ENODEV \<noteq> 0" "EIO \<noteq> 0" "ENOTSUP \<noteq> 0"
  by (simp_all add: errno_defs)

section \<open>Unsigned arithmetic that does not wrap\<close>

lemma unat_less_32: "unat (w :: u32) < 4294967296"
  using unsigned_less [where 'a = nat, of w] by simp

lemma unat_plus_no_wrap [word_bounds]:
  "unat x + unat y < 2 ^ 32 \<Longrightarrow> unat (x + y) = unat x + unat (y :: u32)"
  by (simp add: unat_word_ariths)

lemma unat_minus_no_wrap [word_bounds]:
  "y \<le> x \<Longrightarrow> unat (x - y) = unat x - unat (y :: u32)"
  by (simp add: unat_sub)

lemma unat_times_no_wrap [word_bounds]:
  "unat x * unat y < 2 ^ 32 \<Longrightarrow> unat (x * y) = unat x * unat (y :: u32)"
  by (simp add: unat_word_ariths)

lemma unat_u32_less [simp]: "unat (x :: u32) < 4294967296"
  using unsigned_less [of x] by simp

lemma unat_u32_wrap: "unat (x + y) = (unat x + unat (y :: u32)) mod 4294967296"
  by (simp add: unat_word_ariths)

lemma ceil_div_nat:
  assumes "0 < (s :: nat)"
  shows "(t + s - 1) div s = t div s + (if t mod s = 0 then 0 else 1)"
proof -
  define q r where "q = t div s" and "r = t mod s"
  have t: "t = r + q * s" and "r < s"
    using assms by (simp_all add: q_def r_def mod_less_divisor)
  show ?thesis
  proof (cases "r = 0")
    case True
    then have "t + s - 1 = (s - 1) + q * s" using assms t by simp
    moreover have "((s - 1) + q * s) div s = q + (s - 1) div s"
      using assms by (intro div_mult_self1) simp
    ultimately show ?thesis using assms True by (simp add: q_def r_def)
  next
    case False
    then have "t + s - 1 = (r - 1) + (q + 1) * s" using t by simp
    moreover have "((r - 1) + (q + 1) * s) div s = (q + 1) + (r - 1) div s"
      using assms by (intro div_mult_self1) simp
    ultimately show ?thesis using \<open>r < s\<close> False by (simp add: q_def r_def)
  qed
qed

section \<open>Lists\<close>

definition first_or :: "'a list \<Rightarrow> 'a option \<Rightarrow> 'a option" where
  "first_or xs b = (case xs of [] \<Rightarrow> b | x # _ \<Rightarrow> Some x)"

definition last_or :: "'a option \<Rightarrow> 'a list \<Rightarrow> 'a option" where
  "last_or a xs = (if xs = [] then a else Some (last xs))"

lemma first_or_simps [simp]:
  "first_or [] b = b" "first_or (x # xs) b = Some x"
  by (simp_all add: first_or_def)

lemma last_or_simps [simp]:
  "last_or a [] = a" "last_or a (xs @ [x]) = Some x"
  by (simp_all add: last_or_def)

lemma last_or_Cons [simp]: "last_or a (x # xs) = last_or (Some x) xs"
  by (simp add: last_or_def)

lemma last_or_append [simp]: "last_or a (xs @ ys) = last_or (last_or a xs) ys"
  by (simp add: last_or_def)

lemma first_or_append [simp]: "first_or (xs @ ys) b = first_or xs (first_or ys b)"
  by (simp add: first_or_def split: list.splits)

lemma first_or_None_iff [simp]: "first_or xs None = None \<longleftrightarrow> xs = []"
  by (simp add: first_or_def split: list.splits)

lemma last_or_None_iff [simp]: "last_or None xs = None \<longleftrightarrow> xs = []"
  by (simp add: last_or_def)

lemma last_or_nonempty: "xs \<noteq> [] \<Longrightarrow> last_or a xs = Some (last xs)"
  by (simp add: last_or_def)

lemma first_or_nonempty: "xs \<noteq> [] \<Longrightarrow> first_or xs b = Some (hd xs)"
  by (cases xs) simp_all

lemma first_or_Some_ex [simp]: "\<exists>y. first_or xs (Some x) = Some y"
  by (cases xs) simp_all

lemma last_or_Some_ex [simp]: "\<exists>y. last_or (Some x) xs = Some y"
  by (simp add: last_or_def)

lemma first_or_in: "first_or xs None = Some x \<Longrightarrow> x \<in> set xs"
  by (cases xs) simp_all

lemma last_or_in: "last_or None xs = Some x \<Longrightarrow> x \<in> set xs"
  by (auto simp: last_or_def split: if_splits)

section \<open>Polling\<close>

text \<open>
  A loop that reads a device or a clock until it is no longer busy: \<open>busy n\<close> is what read number \<open>n\<close>
  finds, the result is the number of the next read.  The loops of the keyboard controller, the disk and
  \<open>busy_wait\<close> are instances.
\<close>

locale poll_loop =
  fixes busy :: "nat \<Rightarrow> bool" and loop :: "nat \<Rightarrow> nat option"
  assumes unfold: "loop n = (if busy n then loop (n + 1) else Some (n + 1))"
begin

lemma exact: "\<not> busy (n + m) \<Longrightarrow> \<forall>j < m. busy (n + j) \<Longrightarrow> loop n = Some (n + m + 1)"
proof (induction m arbitrary: n)
  case 0
  then show ?case using unfold [of n] by simp
next
  case (Suc m)
  have "busy n" using Suc.prems(2) by force
  moreover have "\<forall>j < m. busy (n + 1 + j)" using Suc.prems(2) by (metis Suc_less_eq add.assoc plus_1_eq_Suc)
  ultimately show ?case using Suc.IH [of "n + 1"] Suc.prems(1) unfold [of n] by simp
qed

lemma ends:
  assumes "\<not> busy k" and "n \<le> k"
  shows "\<exists>j. n \<le> j \<and> j \<le> k \<and> \<not> busy j \<and> loop n = Some (j + 1)"
proof -
  define m where "m = (LEAST m. \<not> busy (n + m))"
  have "\<not> busy (n + (k - n))" using assms by simp
  then have m: "\<not> busy (n + m)" "m \<le> k - n" unfolding m_def by (rule LeastI, rule Least_le)
  moreover have "\<forall>j < m. busy (n + j)" unfolding m_def using not_less_Least by blast
  ultimately show ?thesis using exact [of n m] assms(2) by (intro exI [of _ "n + m"]) auto
qed

end

end
