(* ===== verification/Kernel_List.thy ===== *)
theory Kernel_List imports Kernel_Prelude begin

text \<open>
  The generic intrusive doubly linked lists of \<open>include/geekos/list.h\<close>.  The macros are
  instantiated for thread queues, frame lists, inode lists, device lists and filesystem
  instance lists; each operation below is the body of one macro, over the pointers the C code
  has: the \<open>head\<close> and \<open>tail\<close> fields of every list object and the \<open>next\<close> and \<open>prev\<close>
  link fields of every node.  A node has one pair of links per list type, so a node that is put
  on two lists corrupts both; the representation predicate \<open>lists_rep\<close> says that this has not
  happened, and each operation is proved to refine the corresponding list operation under it.
\<close>

section \<open>Lists in the store\<close>

record ('q, 'n) lstore =
  l_head :: "'q \<Rightarrow> 'n option"
  l_tail :: "'q \<Rightarrow> 'n option"
  l_next :: "'n \<Rightarrow> 'n option"
  l_prev :: "'n \<Rightarrow> 'n option"

definition set_head :: "'q \<Rightarrow> 'n option \<Rightarrow> ('q, 'n) lstore \<Rightarrow> ('q, 'n) lstore" where
  "set_head q p s = s\<lparr>l_head := (l_head s)(q := p)\<rparr>"

definition set_tail :: "'q \<Rightarrow> 'n option \<Rightarrow> ('q, 'n) lstore \<Rightarrow> ('q, 'n) lstore" where
  "set_tail q p s = s\<lparr>l_tail := (l_tail s)(q := p)\<rparr>"

definition set_next :: "'n \<Rightarrow> 'n option \<Rightarrow> ('q, 'n) lstore \<Rightarrow> ('q, 'n) lstore" where
  "set_next n p s = s\<lparr>l_next := (l_next s)(n := p)\<rparr>"

definition set_prev :: "'n \<Rightarrow> 'n option \<Rightarrow> ('q, 'n) lstore \<Rightarrow> ('q, 'n) lstore" where
  "set_prev n p s = s\<lparr>l_prev := (l_prev s)(n := p)\<rparr>"

lemmas lstore_set_defs = set_head_def set_tail_def set_next_def set_prev_def

lemma lstore_sel_set [simp]:
  "l_head (set_head q p s) = (l_head s)(q := p)" "l_tail (set_head q p s) = l_tail s"
  "l_next (set_head q p s) = l_next s" "l_prev (set_head q p s) = l_prev s"
  "l_head (set_tail q p s) = l_head s" "l_tail (set_tail q p s) = (l_tail s)(q := p)"
  "l_next (set_tail q p s) = l_next s" "l_prev (set_tail q p s) = l_prev s"
  "l_head (set_next n p' s) = l_head s" "l_tail (set_next n p' s) = l_tail s"
  "l_next (set_next n p' s) = (l_next s)(n := p')" "l_prev (set_next n p' s) = l_prev s"
  "l_head (set_prev n p' s) = l_head s" "l_tail (set_prev n p' s) = l_tail s"
  "l_next (set_prev n p' s) = l_next s" "l_prev (set_prev n p' s) = (l_prev s)(n := p')"
  by (simp_all add: lstore_set_defs)

section \<open>The macros\<close>

definition list_is_empty :: "'q \<Rightarrow> ('q, 'n) lstore \<Rightarrow> bool" where
  "list_is_empty q s = (l_head s q = None)"

definition list_clear :: "'q \<Rightarrow> ('q, 'n) lstore \<Rightarrow> ('q, 'n) lstore" where
  "list_clear q s = set_head q None (set_tail q None s)"

definition list_append :: "'q \<Rightarrow> 'n \<Rightarrow> ('q, 'n) lstore \<Rightarrow> ('q, 'n) lstore option" where
  "list_append q n s = (
     let s = set_next n None (set_prev n None s) in
     if l_head s q = None then Some (set_head q (Some n) (set_tail q (Some n) s))
     else do {
       let s = set_prev n (l_tail s q) s;
       t \<leftarrow> l_tail s q;
       let s = set_next t (Some n) s;
       Some (set_tail q (Some n) s)
     })"

definition list_append_all :: "'q \<Rightarrow> 'q \<Rightarrow> ('q, 'n) lstore \<Rightarrow> ('q, 'n) lstore option" where
  "list_append_all q to_append s = (
     if l_head s to_append = None then Some s
     else do {
       s \<leftarrow> (if l_head s q = None
             then Some (set_tail q (l_tail s to_append) (set_head q (l_head s to_append) s))
             else do {
               t \<leftarrow> l_tail s q;
               let s = set_next t (l_head s to_append) s;
               h \<leftarrow> l_head s to_append;
               let s = set_prev h (l_tail s q) s;
               Some (set_tail q (l_tail s to_append) s)
             });
       Some (list_clear to_append s)
     })"

definition list_prepend :: "'q \<Rightarrow> 'n \<Rightarrow> ('q, 'n) lstore \<Rightarrow> ('q, 'n) lstore option" where
  "list_prepend q n s = (
     let s = set_next n None (set_prev n None s) in
     if l_head s q = None then Some (set_head q (Some n) (set_tail q (Some n) s))
     else do {
       let s = set_next n (l_head s q) s;
       h \<leftarrow> l_head s q;
       let s = set_prev h (Some n) s;
       Some (set_head q (Some n) s)
     })"

definition list_get_last :: "'q \<Rightarrow> ('q, 'n) lstore \<Rightarrow> 'n option" where
  "list_get_last q s = l_tail s q"

definition list_get_first :: "'q \<Rightarrow> ('q, 'n) lstore \<Rightarrow> 'n option" where
  "list_get_first q s = l_head s q"

definition list_remove_last :: "'q \<Rightarrow> ('q, 'n) lstore \<Rightarrow> ('n \<times> ('q, 'n) lstore) option" where
  "list_remove_last q s = do {
     kassert (l_head s q \<noteq> None);
     if l_head s q = l_tail s q then do {
       result \<leftarrow> l_head s q;
       Some (result, set_head q None (set_tail q None s))
     } else do {
       result \<leftarrow> l_tail s q;
       let s = set_tail q (l_prev s result) s;
       t \<leftarrow> l_tail s q;
       Some (result, set_next t None s)
     }
   }"

definition list_remove_first :: "'q \<Rightarrow> ('q, 'n) lstore \<Rightarrow> ('n \<times> ('q, 'n) lstore) option" where
  "list_remove_first q s = do {
     kassert (l_head s q \<noteq> None);
     if l_head s q = l_tail s q then do {
       result \<leftarrow> l_head s q;
       Some (result, set_head q None (set_tail q None s))
     } else do {
       result \<leftarrow> l_head s q;
       let s = set_head q (l_next s result) s;
       h \<leftarrow> l_head s q;
       Some (result, set_prev h None s)
     }
   }"

definition list_remove :: "'q \<Rightarrow> 'n \<Rightarrow> ('q, 'n) lstore \<Rightarrow> ('q, 'n) lstore" where
  "list_remove q n s = (
     let s = (case l_prev s n of
                Some p \<Rightarrow> set_next p (l_next s n) s
              | None \<Rightarrow> set_head q (l_next s n) s) in
     (case l_next s n of
        Some x \<Rightarrow> set_prev x (l_prev s n) s
      | None \<Rightarrow> set_tail q (l_prev s n) s))"

definition list_next :: "'n \<Rightarrow> ('q, 'n) lstore \<Rightarrow> 'n option" where
  "list_next n s = l_next s n"

definition list_prev :: "'n \<Rightarrow> ('q, 'n) lstore \<Rightarrow> 'n option" where
  "list_prev n s = l_prev s n"

definition empty_lists :: "('q, 'n) lstore" where
  "empty_lists = \<lparr>l_head = (\<lambda>_. None), l_tail = (\<lambda>_. None),
                  l_next = (\<lambda>_. None), l_prev = (\<lambda>_. None)\<rparr>"

section \<open>Doubly linked segments\<close>

text \<open>
  \<open>dseg nx pv a xs b\<close>: the nodes \<open>xs\<close> are linked in this order in both directions, the
  first one's \<open>prev\<close> is \<open>a\<close> and the last one's \<open>next\<close> is \<open>b\<close>.
\<close>

fun dseg :: "('n \<Rightarrow> 'n option) \<Rightarrow> ('n \<Rightarrow> 'n option) \<Rightarrow> 'n option \<Rightarrow> 'n list \<Rightarrow> 'n option \<Rightarrow> bool"
where
  "dseg nx pv a [] b = True"
| "dseg nx pv a (x # xs) b = (pv x = a \<and> nx x = first_or xs b \<and> dseg nx pv (Some x) xs b)"

lemma dseg_append [simp]:
  "dseg nx pv a (xs @ ys) b \<longleftrightarrow> dseg nx pv a xs (first_or ys b) \<and> dseg nx pv (last_or a xs) ys b"
  by (induction xs arbitrary: a) auto

lemma dseg_next_upd [simp]: "n \<notin> set xs \<Longrightarrow> dseg (nx(n := p)) pv a xs b = dseg nx pv a xs b"
  by (induction xs arbitrary: a) auto

lemma dseg_prev_upd [simp]: "n \<notin> set xs \<Longrightarrow> dseg nx (pv(n := p)) a xs b = dseg nx pv a xs b"
  by (induction xs arbitrary: a) auto

lemma dseg_set_last:
  "x \<notin> set xs \<Longrightarrow> dseg nx pv a (xs @ [x]) b \<Longrightarrow> dseg (nx(x := b')) pv a (xs @ [x]) b'"
  by simp

lemma dseg_set_first:
  "dseg nx pv a (x # xs) b \<Longrightarrow> x \<notin> set xs \<Longrightarrow> dseg nx (pv(x := a')) a' (x # xs) b"
  by simp

definition list_rep :: "('q, 'n) lstore \<Rightarrow> 'q \<Rightarrow> 'n list \<Rightarrow> bool" where
  "list_rep s q xs \<longleftrightarrow>
     l_head s q = first_or xs None \<and> l_tail s q = last_or None xs
     \<and> dseg (l_next s) (l_prev s) None xs None \<and> distinct xs"

text \<open>Every list object of the store at once: \<open>A q\<close> is the content of list \<open>q\<close>.\<close>

definition lists_rep :: "('q, 'n) lstore \<Rightarrow> ('q \<Rightarrow> 'n list) \<Rightarrow> bool" where
  "lists_rep s A \<longleftrightarrow>
     (\<forall>q. list_rep s q (A q)) \<and> (\<forall>q r. q \<noteq> r \<longrightarrow> set (A q) \<inter> set (A r) = {})"

definition on_no_list :: "'n \<Rightarrow> ('q \<Rightarrow> 'n list) \<Rightarrow> bool" where
  "on_no_list n A \<longleftrightarrow> (\<forall>q. n \<notin> set (A q))"

lemma list_rep_empty [simp]: "list_rep empty_lists q []"
  by (simp add: list_rep_def empty_lists_def)

lemma lists_rep_empty [simp]: "lists_rep empty_lists (\<lambda>_. [])"
  by (simp add: lists_rep_def)

lemma lists_repD: "lists_rep s A \<Longrightarrow> list_rep s q (A q)"
  by (simp add: lists_rep_def)

lemma lists_rep_disj: "lists_rep s A \<Longrightarrow> q \<noteq> r \<Longrightarrow> x \<in> set (A q) \<Longrightarrow> x \<notin> set (A r)"
  by (auto simp: lists_rep_def)

lemma lists_rep_distinct: "lists_rep s A \<Longrightarrow> distinct (A q)"
  by (simp add: lists_rep_def list_rep_def)

lemma list_is_empty_iff: "list_rep s q xs \<Longrightarrow> list_is_empty q s \<longleftrightarrow> xs = []"
  by (simp add: list_rep_def list_is_empty_def)

lemma lists_is_empty_iff: "lists_rep s A \<Longrightarrow> list_is_empty q s \<longleftrightarrow> A q = []"
  by (rule list_is_empty_iff) (rule lists_repD)

lemma list_get_first_rep: "list_rep s q xs \<Longrightarrow> list_get_first q s = first_or xs None"
  by (simp add: list_get_first_def list_rep_def)

lemma list_get_last_rep: "list_rep s q xs \<Longrightarrow> list_get_last q s = last_or None xs"
  by (simp add: list_get_last_def list_rep_def)

lemma list_next_rep:
  "list_rep s q (xs @ x # ys) \<Longrightarrow> list_next x s = first_or ys None"
  by (simp add: list_next_def list_rep_def)

lemma list_prev_rep:
  "list_rep s q (xs @ x # ys) \<Longrightarrow> list_prev x s = last_or None xs"
  by (simp add: list_prev_def list_rep_def)

text \<open>
  The frame rule of the store: an operation on list \<open>q\<close> that writes the head and tail of
  \<open>q\<close> only, and links of nodes that are on no other list, keeps every other list.
\<close>

definition only_touches :: "'q \<Rightarrow> 'n set \<Rightarrow> ('q, 'n) lstore \<Rightarrow> ('q, 'n) lstore \<Rightarrow> bool" where
  "only_touches q N s s' \<longleftrightarrow>
     (\<forall>r. r \<noteq> q \<longrightarrow> l_head s' r = l_head s r \<and> l_tail s' r = l_tail s r)
     \<and> (\<forall>n. n \<notin> N \<longrightarrow> l_next s' n = l_next s n \<and> l_prev s' n = l_prev s n)"

lemma dseg_cong:
  "(\<And>x. x \<in> set xs \<Longrightarrow> nx' x = nx x \<and> pv' x = pv x) \<Longrightarrow> dseg nx' pv' a xs b = dseg nx pv a xs b"
  by (induction xs arbitrary: a) auto

lemma list_rep_frame:
  assumes "only_touches q N s s'" and "r \<noteq> q" and "set xs \<inter> N = {}" and "list_rep s r xs"
  shows "list_rep s' r xs"
proof -
  have "dseg (l_next s') (l_prev s') None xs None = dseg (l_next s) (l_prev s) None xs None"
    using assms(1,3) by (intro dseg_cong) (auto simp: only_touches_def)
  with assms show ?thesis by (simp add: list_rep_def only_touches_def)
qed

lemma lists_rep_upd:
  assumes rep: "lists_rep s A" and touch: "only_touches q N s s'"
    and N: "\<And>r. r \<noteq> q \<Longrightarrow> set (A r) \<inter> N = {}"
    and xs: "list_rep s' q xs" and sub: "set xs \<subseteq> N"
  shows "lists_rep s' (A(q := xs))"
proof -
  have "list_rep s' r (A r)" if "r \<noteq> q" for r
    using list_rep_frame [OF touch that N [OF that] lists_repD [OF rep]] .
  moreover have "set (A r) \<inter> set xs = {}" if "r \<noteq> q" for r
    using N [OF that] sub by blast
  moreover have "set xs \<inter> set (A r) = {}" if "r \<noteq> q" for r
    using N [OF that] sub by blast
  ultimately show ?thesis
    using rep xs by (simp add: lists_rep_def)
qed

section \<open>Each macro refines its list operation\<close>

lemma list_append_rep:
  assumes "list_rep s q xs" and "n \<notin> set xs"
  shows "\<exists>s'. list_append q n s = Some s' \<and> list_rep s' q (xs @ [n])
    \<and> only_touches q (insert n (set xs)) s s'"
proof (cases xs rule: rev_cases)
  case Nil
  with assms show ?thesis
    by (auto simp: list_append_def list_rep_def only_touches_def Let_def)
next
  case (snoc ys y)
  with assms show ?thesis
    by (auto simp: list_append_def list_rep_def only_touches_def Let_def
        first_or_nonempty fun_upd_twist)
qed

lemma list_prepend_rep:
  assumes "list_rep s q xs" and "n \<notin> set xs"
  shows "\<exists>s'. list_prepend q n s = Some s' \<and> list_rep s' q (n # xs)
    \<and> only_touches q (insert n (set xs)) s s'"
  using assms
  by (cases xs) (auto simp: list_prepend_def list_rep_def only_touches_def Let_def)

lemma list_remove_first_rep:
  assumes "list_rep s q (x # xs)"
  shows "\<exists>s'. list_remove_first q s = Some (x, s') \<and> list_rep s' q xs
    \<and> only_touches q (insert x (set xs)) s s'"
proof (cases xs)
  case Nil
  with assms show ?thesis
    by (auto simp: list_remove_first_def list_rep_def only_touches_def)
next
  case (Cons y ys)
  moreover from this assms have "last_or (Some y) ys \<noteq> Some x"
    by (auto simp: list_rep_def last_or_def)
  ultimately show ?thesis
    using assms by (auto simp: list_remove_first_def list_rep_def only_touches_def Let_def)
qed

lemma list_remove_first_empty: "list_rep s q [] \<Longrightarrow> list_remove_first q s = None"
  by (simp add: list_remove_first_def list_rep_def)

lemma list_remove_last_rep:
  assumes "list_rep s q (xs @ [x])"
  shows "\<exists>s'. list_remove_last q s = Some (x, s') \<and> list_rep s' q xs
    \<and> only_touches q (insert x (set xs)) s s'"
proof (cases xs rule: rev_cases)
  case Nil
  with assms show ?thesis
    by (auto simp: list_remove_last_def list_rep_def only_touches_def)
next
  case (snoc ys y)
  moreover from this assms have "first_or ys (Some y) \<noteq> Some x"
    by (auto simp: list_rep_def first_or_def split: list.splits)
  ultimately show ?thesis
    using assms
    by (auto simp: list_remove_last_def list_rep_def only_touches_def Let_def first_or_nonempty)
qed

lemma list_remove_rep:
  assumes "list_rep s q (xs @ x # ys)"
  shows "list_rep (list_remove q x s) q (xs @ ys)
    \<and> only_touches q (set (xs @ x # ys)) s (list_remove q x s)"
  using assms
  by (cases xs rule: rev_cases; cases ys)
    (auto simp: list_remove_def list_rep_def only_touches_def Let_def)

lemma list_append_all_rep:
  assumes "list_rep s q xs" and "list_rep s r ys" and "q \<noteq> r" and "set xs \<inter> set ys = {}"
  shows "\<exists>s'. list_append_all q r s = Some s' \<and> list_rep s' q (xs @ ys) \<and> list_rep s' r []"
  using assms
  by (cases xs rule: rev_cases; cases ys)
    (auto simp: list_append_all_def list_clear_def list_rep_def Let_def)

section \<open>The same for all lists of a store\<close>

lemma lists_append:
  assumes "lists_rep s A" and "on_no_list n A"
  shows "\<exists>s'. list_append q n s = Some s' \<and> lists_rep s' (A(q := A q @ [n]))"
proof -
  have "n \<notin> set (A q)" using assms(2) by (simp add: on_no_list_def)
  from list_append_rep [OF lists_repD [OF assms(1)] this] obtain s' where
    s': "list_append q n s = Some s'" "list_rep s' q (A q @ [n])"
    and t: "only_touches q (insert n (set (A q))) s s'" by blast
  have "set (A r) \<inter> insert n (set (A q)) = {}" if "r \<noteq> q" for r
    using assms that by (auto simp: on_no_list_def dest: lists_rep_disj)
  from lists_rep_upd [OF assms(1) t this s'(2)] s'(1) show ?thesis by auto
qed

lemma lists_remove_first:
  assumes "lists_rep s A" and "A q = x # xs"
  shows "\<exists>s'. list_remove_first q s = Some (x, s') \<and> lists_rep s' (A(q := xs))"
proof -
  have "list_rep s q (x # xs)" using lists_repD [OF assms(1), of q] assms(2) by simp
  from list_remove_first_rep [OF this] obtain s' where
    s': "list_remove_first q s = Some (x, s')" "list_rep s' q xs"
    and t: "only_touches q (insert x (set xs)) s s'" by blast
  have "set (A r) \<inter> insert x (set xs) = {}" if "r \<noteq> q" for r
    using lists_rep_disj [OF assms(1) that] assms(2) by fastforce
  from lists_rep_upd [OF assms(1) t this s'(2)] s'(1) show ?thesis by auto
qed

lemma lists_remove_first_empty:
  "lists_rep s A \<Longrightarrow> A q = [] \<Longrightarrow> list_remove_first q s = None"
  using lists_repD list_remove_first_empty by metis

lemma lists_remove:
  assumes "lists_rep s A" and "A q = xs @ x # ys"
  shows "lists_rep (list_remove q x s) (A(q := xs @ ys))"
proof -
  have "list_rep s q (xs @ x # ys)" using lists_repD [OF assms(1), of q] assms(2) by simp
  from list_remove_rep [OF this] have
    s': "list_rep (list_remove q x s) q (xs @ ys)"
    and t: "only_touches q (set (xs @ x # ys)) s (list_remove q x s)" by auto
  have "set (A r) \<inter> set (xs @ x # ys) = {}" if "r \<noteq> q" for r
    using lists_rep_disj [OF assms(1) that] assms(2) by fastforce
  from lists_rep_upd [OF assms(1) t this s'] show ?thesis by auto
qed

lemma lists_clear:
  assumes "lists_rep s A"
  shows "lists_rep (list_clear q s) (A(q := []))"
proof -
  have "list_rep (list_clear q s) q []" by (simp add: list_rep_def list_clear_def)
  moreover have "only_touches q {} s (list_clear q s)"
    by (simp add: only_touches_def list_clear_def)
  ultimately show ?thesis using assms by (intro lists_rep_upd) auto
qed

lemma on_no_list_after_removal:
  "lists_rep s A \<Longrightarrow> A q = xs @ x # ys \<Longrightarrow> on_no_list x (A(q := xs @ ys))"
  using lists_rep_distinct [of s A q] lists_rep_disj [of s A q _ x]
  by (auto simp: on_no_list_def)

lemma on_no_list_head: "lists_rep s A \<Longrightarrow> A q = x # xs \<Longrightarrow> on_no_list x (A(q := xs))"
  using on_no_list_after_removal [of s A q "[]" x xs] by simp

section \<open>First in, first out: the interface\<close>

text \<open>
  The contract that the queues of the kernel offer to their clients (the scheduler's queues,
  the frame free list, the keyboard buffer and the work queue): \<open>rep\<close> relates a state of the
  provider to the list of waiting items; \<open>admits\<close> says when an item may be added.  Two client
  loops are stated over the operations: a producer that adds a list of items and a consumer
  that takes a given number of them.
\<close>

fun enq_list :: "('a \<Rightarrow> 's \<Rightarrow> 's option) \<Rightarrow> 'a list \<Rightarrow> 's \<Rightarrow> 's option" where
  "enq_list enq [] s = Some s"
| "enq_list enq (x # xs) s = do { s \<leftarrow> enq x s; enq_list enq xs s }"

fun deq_many :: "('s \<Rightarrow> ('a \<times> 's) option) \<Rightarrow> nat \<Rightarrow> 's \<Rightarrow> ('a list \<times> 's) option" where
  "deq_many deq 0 s = Some ([], s)"
| "deq_many deq (Suc n) s = do {
     (x, s) \<leftarrow> deq s;
     (xs, s) \<leftarrow> deq_many deq n s;
     Some (x # xs, s)
   }"

locale fifo_queue =
  fixes rep :: "'s \<Rightarrow> 'a list \<Rightarrow> bool"
    and is_empty :: "'s \<Rightarrow> bool"
    and enq :: "'a \<Rightarrow> 's \<Rightarrow> 's option"
    and deq :: "'s \<Rightarrow> ('a \<times> 's) option"
    and admits :: "'a \<Rightarrow> 'a list \<Rightarrow> bool"
  assumes is_empty_iff: "rep s xs \<Longrightarrow> is_empty s \<longleftrightarrow> xs = []"
    and enq_rep: "rep s xs \<Longrightarrow> admits x xs \<Longrightarrow> \<exists>s'. enq x s = Some s' \<and> rep s' (xs @ [x])"
    and deq_rep: "rep s (x # xs) \<Longrightarrow> \<exists>s'. deq s = Some (x, s') \<and> rep s' xs"
    and deq_halts: "rep s [] \<Longrightarrow> deq s = None"
begin

lemma enq_list_rep:
  assumes "rep s xs" and "\<And>us x vs. ys = us @ x # vs \<Longrightarrow> admits x (xs @ us)"
  shows "\<exists>s'. enq_list enq ys s = Some s' \<and> rep s' (xs @ ys)"
  using assms
proof (induction ys arbitrary: s xs)
  case Nil
  then show ?case by simp
next
  case (Cons y ys)
  from Cons.prems(2) [of "[]"] have "admits y xs" by simp
  then obtain s1 where s1: "enq y s = Some s1" "rep s1 (xs @ [y])"
    using enq_rep Cons.prems(1) by blast
  have "admits x ((xs @ [y]) @ us)" if "ys = us @ x # vs" for us x vs
    using Cons.prems(2) [of "y # us"] that by simp
  from Cons.IH [OF s1(2) this] s1(1) show ?case by simp
qed

lemma deq_many_rep:
  "rep s (xs @ ys) \<Longrightarrow> \<exists>s'. deq_many deq (length xs) s = Some (xs, s') \<and> rep s' ys"
proof (induction xs arbitrary: s)
  case Nil
  then show ?case by simp
next
  case (Cons x xs)
  then obtain s1 where "deq s = Some (x, s1)" "rep s1 (xs @ ys)"
    using deq_rep by fastforce
  with Cons.IH show ?case by fastforce
qed

lemma fifo_order:
  assumes "rep s []" and "\<And>us x vs. xs = us @ x # vs \<Longrightarrow> admits x us"
  shows "\<exists>s' s''. enq_list enq xs s = Some s' \<and> deq_many deq (length xs) s' = Some (xs, s'')
    \<and> rep s'' [] \<and> is_empty s''"
proof -
  obtain s' where s': "enq_list enq xs s = Some s'" "rep s' xs"
    using enq_list_rep [OF assms(1), of xs] assms(2) by auto
  with deq_many_rep [of s' xs "[]"] is_empty_iff show ?thesis by force
qed

end

interpretation intrusive: fifo_queue
  "\<lambda>s xs. list_rep s q xs" "list_is_empty q" "list_append q" "list_remove_first q"
  "\<lambda>n xs. n \<notin> set xs" for q
  by unfold_locales
    (use list_is_empty_iff list_append_rep list_remove_first_rep list_remove_first_empty in fast)+

end
