(* ===== verification/Sched_Queue.thy ===== *)
theory Sched_Queue imports Kernel_List "HOL-Library.Multiset" begin

text \<open>
  The queue disciplines of the short-term schedulers (\<open>src/60-330/scheduler.c\<close>) and
  \<open>thread_queue_insert_at_priority\<close> of \<open>src/60-330/kernel/thread.c\<close>: the pointer walk of
  the code, the list insertion it implements, and the contract that both disciplines offer to
  the dispatcher.  \<open>pr n\<close> is the value of \<open>n->process->priority\<close> (\<open>None\<close> is a null
  dereference); a larger number is a lower priority.
\<close>

datatype scheduler = FCFS | SJF | PRIORITY | RR

section \<open>Insertion by priority on the pointers\<close>

partial_function (option) prio_search ::
  "('n \<Rightarrow> int option) \<Rightarrow> ('n \<Rightarrow> 'n option) \<Rightarrow> 'n \<Rightarrow> 'n \<Rightarrow> 'n option"
where
  "prio_search pr pv node temp =
     Option.bind (pr node) (\<lambda>pn. Option.bind (pr temp) (\<lambda>pt.
       if pn < pt then
         (case pv temp of None \<Rightarrow> Some temp | Some p \<Rightarrow> prio_search pr pv node p)
       else Some temp))"

definition thread_queue_insert_at_priority ::
  "('n \<Rightarrow> int option) \<Rightarrow> 'q \<Rightarrow> 'n \<Rightarrow> ('q, 'n) lstore \<Rightarrow> ('q, 'n) lstore option"
where
  "thread_queue_insert_at_priority pr q node s = (
     let s = set_next node None (set_prev node None s) in
     if list_is_empty q s then Some (set_head q (Some node) (set_tail q (Some node) s))
     else do {
       pn \<leftarrow> pr node;
       tl \<leftarrow> l_tail s q;
       pt \<leftarrow> pr tl;
       if pn \<ge> pt then
         Some (set_tail q (Some node) (set_next tl (Some node) (set_prev node (Some tl) s)))
       else do {
         hd \<leftarrow> l_head s q;
         ph \<leftarrow> pr hd;
         if pn < ph then
           Some (set_head q (Some node) (set_prev hd (Some node) (set_next node (Some hd) s)))
         else do {
           temp \<leftarrow> prio_search pr (l_prev s) node tl;
           let s = set_prev node (Some temp) s;
           let s = set_next node (l_next s temp) s;
           x \<leftarrow> l_next s temp;
           let s = set_prev x (Some node) s;
           Some (set_next temp (Some node) s)
         }
       }
     })"

definition FCFS_scheduler :: "'q \<Rightarrow> 'n \<Rightarrow> ('q, 'n) lstore \<Rightarrow> ('q, 'n) lstore option" where
  "FCFS_scheduler runqueue t s = list_append runqueue t s"

definition SJF_scheduler ::
  "('n \<Rightarrow> int option) \<Rightarrow> 'q \<Rightarrow> 'n \<Rightarrow> ('q, 'n) lstore \<Rightarrow> ('q, 'n) lstore option" where
  "SJF_scheduler pr runqueue t s = thread_queue_insert_at_priority pr runqueue t s"

definition PRIORITY_scheduler ::
  "('n \<Rightarrow> int option) \<Rightarrow> 'q \<Rightarrow> 'n \<Rightarrow> ('q, 'n) lstore \<Rightarrow> ('q, 'n) lstore option" where
  "PRIORITY_scheduler pr runqueue t s = thread_queue_insert_at_priority pr runqueue t s"

text \<open>The constant array of scheduler functions; entry 3 (\<open>RR\<close>) is \<open>FCFS_scheduler\<close>.\<close>

definition SCHEDULER ::
  "scheduler \<Rightarrow> ('n \<Rightarrow> int option) \<Rightarrow> 'q \<Rightarrow> 'n \<Rightarrow> ('q, 'n) lstore \<Rightarrow> ('q, 'n) lstore option"
where
  "SCHEDULER sc pr = (case sc of
     FCFS \<Rightarrow> FCFS_scheduler | SJF \<Rightarrow> SJF_scheduler pr
   | PRIORITY \<Rightarrow> PRIORITY_scheduler pr | RR \<Rightarrow> FCFS_scheduler)"

section \<open>Insertion by priority on lists\<close>

text \<open>What the code computes on any queue, sorted or not.\<close>

definition ins_behind :: "('n \<Rightarrow> int) \<Rightarrow> 'n \<Rightarrow> 'n list \<Rightarrow> 'n list" where
  "ins_behind p n xs = (
     rev (dropWhile (\<lambda>x. p n < p x) (rev xs)) @ n # rev (takeWhile (\<lambda>x. p n < p x) (rev xs)))"

definition ins_at_priority :: "('n \<Rightarrow> int) \<Rightarrow> 'n \<Rightarrow> 'n list \<Rightarrow> 'n list" where
  "ins_at_priority p n xs = (
     if xs = [] then [n]
     else if p n \<ge> p (last xs) then xs @ [n]
     else if p n < p (hd xs) then n # xs
     else ins_behind p n xs)"

text \<open>What it computes on a sorted queue: a stable insertion.\<close>

definition ins_stable :: "('n \<Rightarrow> int) \<Rightarrow> 'n \<Rightarrow> 'n list \<Rightarrow> 'n list" where
  "ins_stable p n xs = takeWhile (\<lambda>x. p x \<le> p n) xs @ n # dropWhile (\<lambda>x. p x \<le> p n) xs"

definition sched_insert :: "scheduler \<Rightarrow> ('n \<Rightarrow> int) \<Rightarrow> 'n \<Rightarrow> 'n list \<Rightarrow> 'n list" where
  "sched_insert sc p n xs =
     (if sc = SJF \<or> sc = PRIORITY then ins_at_priority p n xs else xs @ [n])"

lemma ins_behind_split:
  "\<exists>us vs. xs = us @ vs \<and> ins_behind p n xs = us @ n # vs
     \<and> (\<forall>v \<in> set vs. p n < p v) \<and> (us \<noteq> [] \<longrightarrow> \<not> p n < p (last us))"
proof -
  let ?P = "\<lambda>x. p n < p x"
  let ?us = "rev (dropWhile ?P (rev xs))" and ?vs = "rev (takeWhile ?P (rev xs))"
  have "rev (takeWhile ?P (rev xs) @ dropWhile ?P (rev xs)) = xs" by simp
  then have "xs = ?us @ ?vs" by (simp only: rev_append)
  moreover have "ins_behind p n xs = ?us @ n # ?vs" by (simp only: ins_behind_def)
  moreover have "\<forall>v \<in> set ?vs. ?P v" by (auto dest: set_takeWhileD)
  moreover have "?us \<noteq> [] \<longrightarrow> \<not> ?P (last ?us)"
    using hd_dropWhile [of ?P "rev xs"] by (simp add: last_rev)
  ultimately show ?thesis by blast
qed

lemma ins_at_priority_split:
  "\<exists>us vs. xs = us @ vs \<and> ins_at_priority p n xs = us @ n # vs"
proof -
  have "ins_at_priority p n xs = xs @ n # [] \<or> ins_at_priority p n xs = [] @ n # xs
      \<or> ins_at_priority p n xs = ins_behind p n xs"
    by (simp add: ins_at_priority_def)
  then show ?thesis using ins_behind_split [of xs p n] by (metis append_Nil append_Nil2)
qed

lemma mset_ins_at_priority: "mset (ins_at_priority p n xs) = add_mset n (mset xs)"
  using ins_at_priority_split [of xs p n] by auto

lemma ins_stable_unique:
  assumes "xs = us @ vs" and "\<forall>u \<in> set us. p u \<le> p n" and "\<forall>v \<in> set vs. p n < p v"
  shows "ins_stable p n xs = us @ n # vs"
proof -
  have "takeWhile (\<lambda>x. p x \<le> p n) vs = [] \<and> dropWhile (\<lambda>x. p x \<le> p n) vs = vs"
    using assms(3) by (cases vs) auto
  with assms(1,2) show ?thesis by (simp add: ins_stable_def)
qed

lemma sorted_le_last: "sorted (map p us) \<Longrightarrow> u \<in> set us \<Longrightarrow> p u \<le> (p (last us) :: int)"
  by (induction us) auto

lemma sorted_hd_le: "sorted (map p us) \<Longrightarrow> u \<in> set us \<Longrightarrow> (p (hd us) :: int) \<le> p u"
  by (cases us) auto

lemma ins_at_priority_stable:
  assumes "sorted (map p xs)"
  shows "ins_at_priority p n xs = ins_stable p n xs"
proof -
  consider "xs = []" | "xs \<noteq> []" "p (last xs) \<le> p n" | "xs \<noteq> []" "p n < p (hd xs)" "p n < p (last xs)"
    | "xs \<noteq> []" "p (hd xs) \<le> p n" "p n < p (last xs)" by (meson not_le)
  then show ?thesis
  proof cases
    case 1
    then show ?thesis by (simp add: ins_at_priority_def ins_stable_def)
  next
    case 2
    then have "ins_stable p n xs = xs @ [n]"
      using sorted_le_last [OF assms] by (intro ins_stable_unique) (auto intro: order_trans)
    with 2 show ?thesis by (simp add: ins_at_priority_def)
  next
    case 3
    then have "ins_stable p n xs = [] @ n # xs"
      using sorted_hd_le [OF assms] by (intro ins_stable_unique) (auto intro: less_le_trans)
    with 3 show ?thesis by (simp add: ins_at_priority_def)
  next
    case 4
    obtain us vs where s: "xs = us @ vs" "ins_behind p n xs = us @ n # vs"
      "\<forall>v \<in> set vs. p n < p v" "us \<noteq> [] \<longrightarrow> \<not> p n < p (last us)"
      using ins_behind_split [of xs p n] by blast
    have "sorted (map p us)" using assms s(1) by (simp add: sorted_append)
    then have "\<forall>u \<in> set us. p u \<le> p n" using s(4) sorted_le_last [of p us] by fastforce
    from ins_stable_unique [OF s(1) this s(3)] have "ins_stable p n xs = us @ n # vs" .
    with 4 s(2) show ?thesis by (simp add: ins_at_priority_def)
  qed
qed

lemma sorted_ins_stable: "sorted (map p xs) \<Longrightarrow> sorted (map p (ins_stable p n xs))"
proof -
  assume s: "sorted (map p xs)"
  let ?P = "\<lambda>x. p x \<le> p n"
  have "sorted (map p (takeWhile ?P xs @ dropWhile ?P xs))" using s by simp
  then have "sorted (map p (takeWhile ?P xs))" "sorted (map p (dropWhile ?P xs))"
    unfolding map_append sorted_append by blast+
  moreover have "\<forall>u \<in> set (takeWhile ?P xs). p u \<le> p n" by (auto dest: set_takeWhileD)
  moreover have "\<forall>v \<in> set (dropWhile ?P xs). p n \<le> p v"
  proof
    fix v assume v: "v \<in> set (dropWhile ?P xs)"
    then have "\<not> ?P (hd (dropWhile ?P xs))" by (metis empty_iff hd_dropWhile list.set(1))
    with sorted_hd_le [OF \<open>sorted (map p (dropWhile ?P xs))\<close> v] show "p n \<le> p v" by linarith
  qed
  ultimately show ?thesis by (auto simp: ins_stable_def sorted_append intro: order_trans)
qed

lemma sorted_ins_at_priority:
  "sorted (map p xs) \<Longrightarrow> sorted (map p (ins_at_priority p n xs))"
  by (simp add: ins_at_priority_stable sorted_ins_stable)

text \<open>Threads of equal priority keep their order of arrival.\<close>

lemma ins_stable_filter:
  assumes "sorted (map p xs)"
  shows "filter (\<lambda>x. p x = k) (ins_stable p n xs)
    = filter (\<lambda>x. p x = k) xs @ (if p n = k then [n] else [])"
proof -
  let ?P = "\<lambda>x. p x \<le> p n"
  have "filter (\<lambda>x. p x = p n) (dropWhile ?P xs) = []"
  proof -
    have "sorted (map p (takeWhile ?P xs @ dropWhile ?P xs))" using assms by simp
    then have d: "sorted (map p (dropWhile ?P xs))" unfolding map_append sorted_append by blast
    have "p n < p v" if "v \<in> set (dropWhile ?P xs)" for v
    proof -
      from that have "\<not> ?P (hd (dropWhile ?P xs))" by (metis empty_iff hd_dropWhile list.set(1))
      with sorted_hd_le [OF d that] show ?thesis by linarith
    qed
    then show ?thesis by (force simp: filter_empty_conv)
  qed
  moreover have "filter (\<lambda>x. p x = k) xs
      = filter (\<lambda>x. p x = k) (takeWhile ?P xs) @ filter (\<lambda>x. p x = k) (dropWhile ?P xs)"
    by (metis filter_append takeWhile_dropWhile_id)
  ultimately show ?thesis by (auto simp: ins_stable_def)
qed

section \<open>The walk refines the insertion\<close>

lemma prio_search_rep:
  assumes "dseg nx pv None (us @ [x]) b"
    and "\<And>y. y \<in> insert n (set (us @ [x])) \<Longrightarrow> pr y = Some (p y)"
  shows "prio_search pr pv n x = Some
    (case dropWhile (\<lambda>y. p n < p y) (rev (us @ [x])) of [] \<Rightarrow> hd (us @ [x]) | y # _ \<Rightarrow> y)"
  using assms
proof (induction us arbitrary: x b rule: rev_induct)
  case Nil
  then show ?case by (subst prio_search.simps) simp
next
  case (snoc y us)
  have px: "pr x = Some (p x)" "pr n = Some (p n)" "pv x = Some y"
    using snoc.prems by auto
  have IH: "prio_search pr pv n y = Some
    (case dropWhile (\<lambda>z. p n < p z) (rev (us @ [y])) of [] \<Rightarrow> hd (us @ [y]) | z # _ \<Rightarrow> z)"
    by (rule snoc.IH [of y "Some x"]) (use snoc.prems in auto)
  show ?case
  proof (cases "p n < p x")
    case True
    have "dropWhile (\<lambda>y. p n < p y) (rev ((us @ [y]) @ [x])) = dropWhile (\<lambda>y. p n < p y) (rev (us @ [y]))"
      using True by simp
    moreover have "hd ((us @ [y]) @ [x]) = hd (us @ [y])" by (simp add: hd_append)
    moreover have "prio_search pr pv n x = prio_search pr pv n y"
      using px True by (subst prio_search.simps) simp
    ultimately show ?thesis using IH by (simp only:)
  next
    case False
    with px show ?thesis by (subst prio_search.simps) simp
  qed
qed

lemma insert_at_priority_rep:
  assumes rep: "list_rep s q xs" and n: "n \<notin> set xs"
    and pr: "\<And>y. y \<in> insert n (set xs) \<Longrightarrow> pr y = Some (p y)"
  shows "\<exists>s'. thread_queue_insert_at_priority pr q n s = Some s'
    \<and> list_rep s' q (ins_at_priority p n xs) \<and> only_touches q (insert n (set xs)) s s'"
proof (cases "xs = []")
  case True
  with rep show ?thesis
    by (auto simp: thread_queue_insert_at_priority_def ins_at_priority_def list_rep_def
        list_is_empty_def only_touches_def Let_def)
next
  case nonempty: False
  then obtain ws t where ws: "xs = ws @ [t]" by (metis append_butlast_last_id)
  obtain h zs where zs: "xs = h # zs" using nonempty by (cases xs) auto
  have t: "l_tail s q = Some t" "pr t = Some (p t)"
    using rep ws pr by (simp_all add: list_rep_def)
  have h: "l_head s q = Some h" "pr h = Some (p h)"
    using rep zs pr by (simp_all add: list_rep_def)
  have pn: "pr n = Some (p n)" using pr by simp
  have ht: "last xs = t" "hd xs = h" using ws by simp (use zs in simp)
  show ?thesis
  proof (cases "p t \<le> p n")
    case True
    have "\<exists>s'. list_append q n s = Some s' \<and> list_rep s' q (xs @ [n])
        \<and> only_touches q (insert n (set xs)) s s'"
      by (rule list_append_rep [OF rep n])
    moreover have "thread_queue_insert_at_priority pr q n s = list_append q n s"
      using True t h pn n ws
      by (auto simp: thread_queue_insert_at_priority_def list_append_def list_is_empty_def Let_def
          lstore_set_defs)
    ultimately show ?thesis using True nonempty ht by (simp add: ins_at_priority_def)
  next
    case lt: False
    show ?thesis
    proof (cases "p n < p h")
      case True
      have "\<exists>s'. list_prepend q n s = Some s' \<and> list_rep s' q (n # xs)
          \<and> only_touches q (insert n (set xs)) s s'"
        by (rule list_prepend_rep [OF rep n])
      moreover have "thread_queue_insert_at_priority pr q n s = list_prepend q n s"
        using True lt t h pn
        by (auto simp: thread_queue_insert_at_priority_def list_prepend_def list_is_empty_def
            Let_def lstore_set_defs)
      ultimately show ?thesis using True lt nonempty ht by (simp add: ins_at_priority_def)
    next
      case ge: False
      obtain us vs where uv: "xs = us @ vs" "ins_behind p n xs = us @ n # vs"
        and vs: "\<forall>v \<in> set vs. p n < p v" and us: "us \<noteq> [] \<longrightarrow> \<not> p n < p (last us)"
        using ins_behind_split [of xs p n] by blast
      have "us \<noteq> []" using uv(1) vs zs ge by auto
      then obtain us' u where u: "us = us' @ [u]" by (metis append_butlast_last_id)
      have "vs \<noteq> []" using uv(1) us u ws lt by (auto simp: not_less)
      then obtain v vs' where v: "vs = v # vs'" by (cases vs) auto
      have dseg: "dseg (l_next s) ((l_prev s)(n := None)) None (ws @ [t]) None"
        using rep n ws by (auto simp: list_rep_def)
      have drop: "dropWhile (\<lambda>y. p n < p y) (rev (ws @ [t])) = u # rev us'"
      proof -
        have "ws @ [t] = (us' @ [u]) @ vs" using ws uv(1) u by simp
        then have "rev (ws @ [t]) = rev ((us' @ [u]) @ vs)" by (simp only:)
        then have "rev (ws @ [t]) = rev vs @ u # rev us'" by simp
        moreover have "dropWhile (\<lambda>y. p n < p y) (rev vs @ u # rev us') = u # rev us'"
          using vs us u by (subst dropWhile_append2) auto
        ultimately show ?thesis by simp
      qed
      have search: "prio_search pr ((l_prev s)(n := None)) n t = Some u"
        using prio_search_rep [OF dseg, of n pr p] pr ws drop by auto
      have nodes: "u \<noteq> v" "u \<notin> set us'" "v \<notin> set vs'" "n \<noteq> u" "n \<noteq> v" "n \<notin> set us'" "n \<notin> set vs'"
        "v \<notin> set us'" "u \<notin> set vs'" "set us' \<inter> set vs' = {}" "distinct us'" "distinct vs'"
        using rep n uv(1) u v by (auto simp: list_rep_def)
      have links: "dseg (l_next s) (l_prev s) None us' (Some u)" "l_prev s u = last_or None us'"
        "l_next s u = Some v" "l_prev s v = Some u" "l_next s v = first_or vs' None"
        "dseg (l_next s) (l_prev s) (Some v) vs' None"
        "l_tail s q = last_or (Some v) vs'" "l_head s q = first_or us' (Some u)"
        using rep uv(1) u v by (auto simp: list_rep_def)
      have "\<exists>s'. thread_queue_insert_at_priority pr q n s = Some s'
          \<and> list_rep s' q (us' @ u # n # v # vs') \<and> only_touches q (insert n (set xs)) s s'"
        using t h pn lt ge search nodes links uv(1) u v
        by (auto simp: thread_queue_insert_at_priority_def list_is_empty_def Let_def not_le not_less
            list_rep_def only_touches_def)
      moreover have "ins_at_priority p n xs = us' @ u # n # v # vs'"
        using lt ge nonempty ht uv(2) u v by (simp add: ins_at_priority_def)
      ultimately show ?thesis by simp
    qed
  qed
qed

section \<open>The contract of a discipline\<close>

text \<open>
  What the dispatcher relies on: an insertion adds the thread and loses none.  A discipline by
  priority also keeps the queue sorted and is stable.  A client that fills a queue from a batch
  (\<open>merge_new_with_runnable\<close>) folds the insertion over it.
\<close>

locale enqueue_policy =
  fixes ins :: "('n \<Rightarrow> int) \<Rightarrow> 'n \<Rightarrow> 'n list \<Rightarrow> 'n list"
  assumes ins_mset: "mset (ins p n xs) = add_mset n (mset xs)"
begin

lemma ins_set: "set (ins p n xs) = insert n (set xs)"
  using ins_mset [of p n xs] by (metis set_mset_add_mset_insert set_mset_mset)

lemma ins_length: "length (ins p n xs) = Suc (length xs)"
  using ins_mset [of p n xs] by (metis size_add_mset size_mset)

lemma ins_distinct: "distinct (ins p n xs) \<longleftrightarrow> n \<notin> set xs \<and> distinct xs"
  using ins_mset [of p n xs] by (metis distinct.simps(2) mset.simps(2) mset_eq_imp_distinct_iff)

lemma ins_nonempty: "ins p n xs \<noteq> []"
  using ins_length [of p n xs] by auto

lemma fold_ins_mset: "mset (fold (ins p) ns xs) = mset ns + mset xs"
  by (induction ns arbitrary: xs) (auto simp: ins_mset)

end

locale priority_policy = enqueue_policy ins
  for ins :: "('n \<Rightarrow> int) \<Rightarrow> 'n \<Rightarrow> 'n list \<Rightarrow> 'n list" +
  assumes ins_sorted: "sorted (map p xs) \<Longrightarrow> sorted (map p (ins p n xs))"
    and ins_stable_law: "sorted (map p xs) \<Longrightarrow>
      filter (\<lambda>x. p x = k) (ins p n xs) = filter (\<lambda>x. p x = k) xs @ (if p n = k then [n] else [])"
begin

lemma fold_ins_sorted: "sorted (map p xs) \<Longrightarrow> sorted (map p (fold (ins p) ns xs))"
  by (induction ns arbitrary: xs) (auto simp: ins_sorted)

lemma fold_ins_stable:
  "sorted (map p xs) \<Longrightarrow>
    filter (\<lambda>x. p x = k) (fold (ins p) ns xs) = filter (\<lambda>x. p x = k) (xs @ ns)"
  by (induction ns arbitrary: xs) (simp_all add: ins_sorted ins_stable_law)

text \<open>The head, which the dispatcher runs next, has a best priority of all.\<close>

lemma head_is_best:
  assumes "sorted (map p xs)" and "x \<in> set (ins p n xs)"
  shows "p (hd (ins p n xs)) \<le> p x"
  using sorted_hd_le [OF ins_sorted [OF assms(1)] assms(2)] .

text \<open>A thread that is strictly better than every waiting one is inserted at the head.\<close>

lemma best_goes_first:
  assumes "sorted (map p xs)" and "\<forall>x \<in> set xs. p n < p x"
  shows "hd (ins p n xs) = n"
proof -
  have "hd (ins p n xs) \<in> insert n (set xs)"
    using ins_set [of p n xs] ins_nonempty [of p n xs] hd_in_set by blast
  moreover have "p (hd (ins p n xs)) \<le> p n" using assms(1) by (rule head_is_best) (simp add: ins_set)
  ultimately show ?thesis using assms(2) by fastforce
qed

end

interpretation fcfs: enqueue_policy "\<lambda>p n xs. xs @ [n]"
  by unfold_locales simp

interpretation prio: priority_policy ins_at_priority
  by unfold_locales
    (simp_all add: mset_ins_at_priority ins_at_priority_stable sorted_ins_stable ins_stable_filter)

interpretation sched: enqueue_policy "sched_insert sc" for sc
  by unfold_locales (simp add: sched_insert_def mset_ins_at_priority)

section \<open>The scheduler functions refine their discipline\<close>

lemma SCHEDULER_rep:
  assumes "list_rep s q xs" and "n \<notin> set xs"
    and pr: "\<forall>y \<in> insert n (set xs). pr y = Some (p y)"
  shows "\<exists>s'. SCHEDULER sc pr q n s = Some s' \<and> list_rep s' q (sched_insert sc p n xs)
    \<and> only_touches q (insert n (set xs)) s s'"
proof (cases "sc = SJF \<or> sc = PRIORITY")
  case True
  then have "SCHEDULER sc pr q n s = thread_queue_insert_at_priority pr q n s"
    by (auto simp: SCHEDULER_def SJF_scheduler_def PRIORITY_scheduler_def)
  with True insert_at_priority_rep [OF assms(1,2), of pr p] pr show ?thesis by (simp add: sched_insert_def)
next
  case False
  then have "SCHEDULER sc pr q n s = list_append q n s"
    by (cases sc) (auto simp: SCHEDULER_def FCFS_scheduler_def)
  with False list_append_rep [OF assms(1,2)] show ?thesis by (simp add: sched_insert_def)
qed

lemma lists_SCHEDULER:
  assumes rep: "lists_rep s A" and n: "on_no_list n A"
    and pr: "\<forall>y \<in> insert n (set (A q)). pr y = Some (p y)"
  shows "\<exists>s'. SCHEDULER sc pr q n s = Some s' \<and> lists_rep s' (A(q := sched_insert sc p n (A q)))"
proof -
  have "n \<notin> set (A q)" using n by (simp add: on_no_list_def)
  from SCHEDULER_rep [OF lists_repD [OF rep] this pr] obtain s' where
    s': "SCHEDULER sc pr q n s = Some s'" "list_rep s' q (sched_insert sc p n (A q))"
    and t: "only_touches q (insert n (set (A q))) s s'" by blast
  have "set (A r) \<inter> insert n (set (A q)) = {}" if "r \<noteq> q" for r
    using rep n that by (auto simp: on_no_list_def dest: lists_rep_disj)
  from lists_rep_upd [OF rep t this s'(2)] s'(1) show ?thesis by (simp add: sched.ins_set)
qed

end
