(* ===== verification/Run_Stat.thy ===== *)
theory Run_Stat imports Kernel_Prelude begin

text \<open>
  Runtime statistics: \<open>src/60-330/stat.c\<close> and \<open>include/60-330/stat.h\<close>.  The tick counters
  are unsigned 32-bit words and the differences are computed modulo \<open>2 ^ 32\<close>, as the code
  does; the assertions on unset counters and the division by an empty table are \<open>None\<close>.
\<close>

record time_stat =
  arrival :: u32
  first_resp :: u32
  running :: u32
  termination_t :: u32

record simulation_stat =
  st_pid :: int
  st_wait :: u32
  st_response :: u32
  st_turnaround :: u32

definition calculate_wait_time :: "time_stat \<Rightarrow> u32 option" where
  "calculate_wait_time time = do {
     kassert (termination_t time \<noteq> 0 \<and> arrival time \<noteq> 0 \<and> running time \<noteq> 0);
     Some (termination_t time - arrival time - running time)
   }"

definition calculate_turnaround_time :: "time_stat \<Rightarrow> u32 option" where
  "calculate_turnaround_time time = do {
     kassert (termination_t time \<noteq> 0 \<and> arrival time \<noteq> 0);
     Some (termination_t time - arrival time)
   }"

definition calculate_response_time :: "time_stat \<Rightarrow> u32 option" where
  "calculate_response_time time = do {
     kassert (first_resp time \<noteq> 0 \<and> arrival time \<noteq> 0);
     Some (first_resp time - arrival time)
   }"

definition calculate_simulation_stat :: "time_stat \<Rightarrow> int \<Rightarrow> simulation_stat option" where
  "calculate_simulation_stat time p = do {
     w \<leftarrow> calculate_wait_time time;
     r \<leftarrow> calculate_response_time time;
     t \<leftarrow> calculate_turnaround_time time;
     Some \<lparr>st_pid = p, st_wait = w, st_response = r, st_turnaround = t\<rparr>
   }"

fun sum_simulation_stat :: "simulation_stat \<Rightarrow> simulation_stat list \<Rightarrow> simulation_stat" where
  "sum_simulation_stat average [] = average"
| "sum_simulation_stat average (st # sts) =
     sum_simulation_stat
       (average\<lparr>st_wait := st_wait average + st_wait st,
                st_response := st_response average + st_response st,
                st_turnaround := st_turnaround average + st_turnaround st\<rparr>) sts"

definition calculate_simulation_stat_average :: "simulation_stat list \<Rightarrow> simulation_stat option"
where
  "calculate_simulation_stat_average statlist = (
     let average = \<lparr>st_pid = 0, st_wait = 0, st_response = 0, st_turnaround = 0\<rparr>;
         average = sum_simulation_stat average statlist;
         n = of_nat (length statlist) :: u32
     in if n = 0 then None
        else Some (average\<lparr>st_wait := st_wait average div n,
                           st_response := st_response average div n,
                           st_turnaround := st_turnaround average div n\<rparr>))"

lemmas stat_defs = calculate_wait_time_def calculate_turnaround_time_def
  calculate_response_time_def calculate_simulation_stat_def

section \<open>Consistency of the three times\<close>

lemma simulation_stat_defined_iff:
  "(\<exists>st. calculate_simulation_stat time p = Some st) \<longleftrightarrow>
     termination_t time \<noteq> 0 \<and> arrival time \<noteq> 0 \<and> running time \<noteq> 0 \<and> first_resp time \<noteq> 0"
  by (auto simp: stat_defs bind_kassert)

lemma simulation_stat_pid: "calculate_simulation_stat time p = Some st \<Longrightarrow> st_pid st = p"
  by (auto simp: calculate_simulation_stat_def bind_eq_Some_conv)

lemma sum_simulation_stat_fields:
  "st_wait (sum_simulation_stat a sts) = st_wait a + sum_list (map st_wait sts)"
  "st_response (sum_simulation_stat a sts) = st_response a + sum_list (map st_response sts)"
  "st_turnaround (sum_simulation_stat a sts) = st_turnaround a + sum_list (map st_turnaround sts)"
  "st_pid (sum_simulation_stat a sts) = st_pid a"
  by (induction sts arbitrary: a) (simp_all add: add.assoc)

lemma unat_sum_list_no_wrap:
  "sum_list (map (unat \<circ> f) xs) < 2 ^ 32 \<Longrightarrow>
     unat (sum_list (map f xs) :: u32) = sum_list (map (unat \<circ> f) xs)"
  by (induction xs) (simp_all add: unat_plus_no_wrap)

lemma average_field:
  assumes "sum_list (map (unat \<circ> f) sts) < 2 ^ 32" and "length sts < 2 ^ 32"
  shows "unat (sum_list (map f sts) div of_nat (length sts) :: u32)
    = sum_list (map (unat \<circ> f) sts) div length sts"
  using assms
  by (simp add: unat_div_distrib unat_sum_list_no_wrap unat_of_nat take_bit_nat_eq_self)

lemma average_nothing: "calculate_simulation_stat_average [] = None"
  by (simp add: calculate_simulation_stat_average_def)

lemma average_wait:
  assumes "sum_list (map (unat \<circ> st_wait) sts) < 2 ^ 32" and "0 < length sts" and "length sts < 2 ^ 32"
  shows "\<exists>a. calculate_simulation_stat_average sts = Some a
    \<and> unat (st_wait a) = sum_list (map (unat \<circ> st_wait) sts) div length sts"
proof -
  have "unat (of_nat (length sts) :: u32) = length sts" using assms(3) by (simp add: unat_of_nat)
  then have "(of_nat (length sts) :: u32) \<noteq> 0" using assms(2) by auto
  then show ?thesis using average_field [OF assms(1,3)]
    by (simp add: calculate_simulation_stat_average_def sum_simulation_stat_fields Let_def)
qed

end
