(* ===== verification/Malloc.thy ===== *)
theory Malloc imports Kernel_Prelude begin

text \<open>
  The heap allocator \<open>src/kernel/malloc.c\<close>.  A chunk at address \<open>a\<close> has its size in the
  word at \<open>a\<close> (field \<open>sz\<close>) and, while it is free, the next free chunk in the word at
  \<open>a + 4\<close> (field \<open>nx\<close>); an allocated chunk is named by the address \<open>a + 4\<close>.  The two
  fields are two stores \<open>h_sz\<close> and \<open>h_nx\<close>, indexed by the address of the chunk.  Addresses
  and sizes are natural numbers with 0 the null pointer; sums and differences of \<open>size_t\<close>
  are taken modulo \<open>2 ^ 32\<close> as the code does.

  The walks over the free list are \<open>partial_function\<close>s: on a cyclic list they do not return.
  \<open>heap_inv\<close> is the invariant; under it both operations are proved to return.
\<close>

definition w32 :: "nat \<Rightarrow> nat" where
  "w32 n = n mod 2 ^ 32"

record heap =
  h_start :: nat      \<comment> \<open>\<open>g_heapstart\<close>\<close>
  h_end :: nat        \<comment> \<open>\<open>g_heapend\<close>\<close>
  h_brkval :: nat     \<comment> \<open>\<open>__brkval\<close>\<close>
  h_flp :: nat        \<comment> \<open>\<open>__flp\<close>\<close>
  h_sz :: "nat \<Rightarrow> nat"
  h_nx :: "nat \<Rightarrow> nat"

text \<open>\<open>sizeof(size_t)\<close> and \<open>sizeof(struct __freelist)\<close>.\<close>

abbreviation sz_t :: nat where "sz_t \<equiv> 4"
abbreviation sz_fl :: nat where "sz_fl \<equiv> 8"

definition mem_heap_init :: "nat \<Rightarrow> nat \<Rightarrow> heap \<Rightarrow> heap" where
  "mem_heap_init start fin h = h\<lparr>h_start := start, h_end := fin\<rparr>"

definition empty_heap :: heap where
  "empty_heap = \<lparr>h_start = 0, h_end = 0, h_brkval = 0, h_flp = 0, h_sz = (\<lambda>_. 0), h_nx = (\<lambda>_. 0)\<rparr>"

section \<open>malloc\<close>

text \<open>Step 1: an exact match (\<open>Inl\<close>, with its predecessor), or the closest larger size.\<close>

partial_function (option) malloc_exact ::
  "heap \<Rightarrow> nat \<Rightarrow> nat \<Rightarrow> nat \<Rightarrow> nat \<Rightarrow> (nat \<times> nat + nat) option"
where
  "malloc_exact h len s fp1 fp2 =
     (if fp1 = 0 then Some (Inr s)
      else if h_sz h fp1 = len then Some (Inl (fp1, fp2))
      else malloc_exact h len
        (if h_sz h fp1 > len \<and> (s = 0 \<or> h_sz h fp1 < s) then h_sz h fp1 else s)
        (h_nx h fp1) fp1)"

text \<open>Step 2: the first chunk of that size.\<close>

partial_function (option) malloc_closest ::
  "heap \<Rightarrow> nat \<Rightarrow> nat \<Rightarrow> nat \<Rightarrow> (nat \<times> nat) option option"
where
  "malloc_closest h s fp1 fp2 =
     (if fp1 = 0 then Some None
      else if h_sz h fp1 = s then Some (Some (fp1, fp2))
      else malloc_closest h s (h_nx h fp1) fp1)"

definition malloc_disconnect :: "nat \<Rightarrow> nat \<Rightarrow> heap \<Rightarrow> heap" where
  "malloc_disconnect fp1 fp2 h =
     (if fp2 \<noteq> 0 then h\<lparr>h_nx := (h_nx h)(fp2 := h_nx h fp1)\<rparr> else h\<lparr>h_flp := h_nx h fp1\<rparr>)"

text \<open>Step 3: take new space above the break.\<close>

definition malloc_extend :: "nat \<Rightarrow> heap \<Rightarrow> nat \<times> heap" where
  "malloc_extend len h = (
     let brk = (if h_brkval h = 0 then h_start h else h_brkval h);
         avail = w32 (h_end h + 2 ^ 32 - brk)
     in if avail \<ge> len \<and> avail \<ge> w32 (len + sz_t)
        then (brk + sz_t, h\<lparr>h_brkval := brk + w32 (len + sz_t), h_sz := (h_sz h)(brk := len)\<rparr>)
        else (0, h\<lparr>h_brkval := brk\<rparr>))"

definition malloc :: "nat \<Rightarrow> heap \<Rightarrow> (nat \<times> heap) option" where
  "malloc len h = (
     let len = (if len < sz_fl - sz_t then sz_fl - sz_t else len) in
     do {
       r \<leftarrow> malloc_exact h len 0 (h_flp h) 0;
       case r of
         Inl (fp1, fp2) \<Rightarrow> Some (fp1 + sz_t, malloc_disconnect fp1 fp2 h)
       | Inr s \<Rightarrow>
           if s = 0 then Some (malloc_extend len h)
           else do {
             let len = (if s - len < sz_fl then s else len);
             r \<leftarrow> malloc_closest h s (h_flp h) 0;
             case r of
               None \<Rightarrow> Some (malloc_extend len h)
             | Some (fp1, fp2) \<Rightarrow>
                 if len = s then Some (fp1 + sz_t, malloc_disconnect fp1 fp2 h)
                 else let s = s - len; cp = fp1 + s in
                   Some (cp + sz_t, h\<lparr>h_sz := (h_sz h)(cp := len, fp1 := s - sz_t)\<rparr>)
           }
     })"

section \<open>free\<close>

partial_function (option) free_pos ::
  "heap \<Rightarrow> nat \<Rightarrow> nat \<Rightarrow> nat \<Rightarrow> (nat \<times> nat) option"
where
  "free_pos h fpnew fp1 fp2 =
     (if fp1 = 0 then Some (0, fp2)
      else if fp1 < fpnew then free_pos h fpnew (h_nx h fp1) fp1
      else Some (fp1, fp2))"

text \<open>Link the chunk in front of \<open>fp1\<close>, assimilating it when it is adjacent.\<close>

definition free_upper :: "nat \<Rightarrow> nat \<Rightarrow> heap \<Rightarrow> heap" where
  "free_upper fpnew fp1 h = (
     let h = h\<lparr>h_nx := (h_nx h)(fpnew := fp1)\<rparr> in
     if fpnew + sz_t + h_sz h fpnew = fp1
     then h\<lparr>h_sz := (h_sz h)(fpnew := w32 (h_sz h fpnew + (h_sz h fp1 + sz_t))),
            h_nx := (h_nx h)(fpnew := h_nx h fp1)\<rparr>
     else h)"

text \<open>Link the chunk behind \<open>fp2\<close>, merging the two when they are adjacent.\<close>

definition free_lower :: "nat \<Rightarrow> nat \<Rightarrow> heap \<Rightarrow> heap" where
  "free_lower fpnew fp2 h = (
     let h = h\<lparr>h_nx := (h_nx h)(fp2 := fpnew)\<rparr> in
     if fp2 + sz_t + h_sz h fp2 = fpnew
     then h\<lparr>h_sz := (h_sz h)(fp2 := w32 (h_sz h fp2 + (h_sz h fpnew + sz_t))),
            h_nx := (h_nx h)(fp2 := h_nx h fpnew)\<rparr>
     else h)"

definition free :: "nat \<Rightarrow> heap \<Rightarrow> heap option" where
  "free p h = (
     if p = 0 then Some h
     else
       let fpnew = p - sz_t;
           h = h\<lparr>h_nx := (h_nx h)(fpnew := 0)\<rparr>
       in if h_flp h = 0 then Some (h\<lparr>h_flp := fpnew\<rparr>)
       else do {
         (fp1, fp2) \<leftarrow> free_pos h fpnew (h_flp h) 0;
         let h = (if fp1 \<noteq> 0 then free_upper fpnew fp1 h else h);
         if fp1 \<noteq> 0 \<and> fp2 = 0 then Some (h\<lparr>h_flp := fpnew\<rparr>)
         else do {
           kassert (fp2 \<noteq> 0);
           Some (free_lower fpnew fp2 h)
         }
       })"

section \<open>The invariant\<close>

text \<open>A chunk is a pair of its address and its size; it occupies the header and the body.\<close>

type_synonym chunk = "nat \<times> nat"

definition top :: "chunk \<Rightarrow> nat" where
  "top c = fst c + sz_t + snd c"

definition separate :: "chunk \<Rightarrow> chunk \<Rightarrow> bool" where
  "separate c d \<longleftrightarrow> top c \<le> fst d \<or> top d \<le> fst c"

text \<open>Chunks that tile an interval: disjoint, inside it, covering it.\<close>

definition tiles :: "chunk set \<Rightarrow> nat \<Rightarrow> nat \<Rightarrow> bool" where
  "tiles C lo hi \<longleftrightarrow>
     (\<forall>c \<in> C. lo \<le> fst c \<and> top c \<le> hi \<and> sz_t \<le> snd c)
     \<and> (\<forall>c \<in> C. \<forall>d \<in> C. c \<noteq> d \<longrightarrow> separate c d)
     \<and> (\<forall>x. lo \<le> x \<and> x < hi \<longrightarrow> (\<exists>c \<in> C. fst c \<le> x \<and> x < top c))"

text \<open>The chunks \<open>F\<close> are linked from \<open>fp\<close> on, up to the pointer \<open>fq\<close>.\<close>

fun freelist :: "heap \<Rightarrow> nat \<Rightarrow> chunk list \<Rightarrow> nat \<Rightarrow> bool" where
  "freelist h fp [] fq = (fp = fq)"
| "freelist h fp (c # F) fq =
     (fp = fst c \<and> fp \<noteq> 0 \<and> h_sz h fp = snd c \<and> freelist h (h_nx h fp) F fq)"

text \<open>Free chunks are in address order and no two of them are adjacent.\<close>

abbreviation apart :: "chunk list \<Rightarrow> bool" where
  "apart F \<equiv> sorted_wrt (\<lambda>c d. top c < fst d) F"

definition allocated :: "(nat \<rightharpoonup> nat) \<Rightarrow> chunk set" where
  "allocated A = {(a, n). A a = Some n}"

definition brk :: "heap \<Rightarrow> nat" where
  "brk h = (if h_brkval h = 0 then h_start h else h_brkval h)"

definition heap_inv :: "heap \<Rightarrow> chunk list \<Rightarrow> (nat \<rightharpoonup> nat) \<Rightarrow> bool" where
  "heap_inv h F A \<longleftrightarrow>
     freelist h (h_flp h) F 0 \<and> apart F
     \<and> tiles (set F \<union> allocated A) (h_start h) (brk h)
     \<and> set F \<inter> allocated A = {}
     \<and> (\<forall>a n. A a = Some n \<longrightarrow> h_sz h a = n)
     \<and> sz_t \<le> h_start h \<and> h_start h \<le> brk h \<and> brk h \<le> h_end h \<and> h_end h < 2 ^ 32"

section \<open>Tilings\<close>

lemma top_pair [simp]: "top (a, n) = a + sz_t + n"
  by (simp add: top_def)

lemma tiles_empty [simp]: "tiles {} lo lo"
  by (simp add: tiles_def)

lemma tiles_bounds: "tiles C lo hi \<Longrightarrow> c \<in> C \<Longrightarrow> lo \<le> fst c \<and> top c \<le> hi \<and> sz_t \<le> snd c"
  by (simp add: tiles_def)

lemma separate_sym: "separate c d \<Longrightarrow> separate d c"
  by (auto simp: separate_def)

lemma separate_insert:
  "(\<forall>c \<in> insert x C. \<forall>d \<in> insert x C. c \<noteq> d \<longrightarrow> separate c d) \<longleftrightarrow>
   (\<forall>d \<in> C. x \<noteq> d \<longrightarrow> separate x d) \<and> (\<forall>c \<in> C. \<forall>d \<in> C. c \<noteq> d \<longrightarrow> separate c d)"
proof (intro iffI ballI impI)
  fix c d
  assume H: "(\<forall>d \<in> C. x \<noteq> d \<longrightarrow> separate x d) \<and> (\<forall>c \<in> C. \<forall>d \<in> C. c \<noteq> d \<longrightarrow> separate c d)"
    and "c \<in> insert x C" "d \<in> insert x C" "c \<noteq> d"
  then consider "c = x" "d \<in> C" | "c \<in> C" "d = x" | "c \<in> C" "d \<in> C" by fast
  then show "separate c d"
  proof cases
    case 1 with H \<open>c \<noteq> d\<close> show ?thesis by simp
  next
    case 2
    with H \<open>c \<noteq> d\<close> have "separate x c" by simp
    with 2 show ?thesis by (simp add: separate_sym)
  next
    case 3 with H \<open>c \<noteq> d\<close> show ?thesis by simp
  qed
qed simp

lemma tiles_insert:
  "tiles (insert x C) lo hi \<longleftrightarrow>
     lo \<le> fst x \<and> top x \<le> hi \<and> sz_t \<le> snd x
     \<and> (\<forall>c \<in> C. lo \<le> fst c \<and> top c \<le> hi \<and> sz_t \<le> snd c)
     \<and> (\<forall>d \<in> C. x \<noteq> d \<longrightarrow> separate x d) \<and> (\<forall>c \<in> C. \<forall>d \<in> C. c \<noteq> d \<longrightarrow> separate c d)
     \<and> (\<forall>y. lo \<le> y \<and> y < hi \<longrightarrow> (\<exists>c \<in> insert x C. fst c \<le> y \<and> y < top c))"
  unfolding tiles_def separate_insert by (simp only: ball_simps(7) conj_assoc)

lemma tiles_separate: "tiles C lo hi \<Longrightarrow> c \<in> C \<Longrightarrow> d \<in> C \<Longrightarrow> c \<noteq> d \<Longrightarrow> separate c d"
  by (simp add: tiles_def)

lemma tiles_addr_inj:
  assumes "tiles C lo hi" and "c \<in> C" and "d \<in> C" and "fst c = fst d"
  shows "c = d"
proof -
  have "\<not> separate c d" using assms(4) by (simp add: separate_def top_def)
  with tiles_separate [OF assms(1-3)] show ?thesis by blast
qed

lemma tiles_split:
  assumes t: "tiles (insert (a, m + sz_t + n) C) lo hi" and "(a, m + sz_t + n) \<notin> C"
    and "sz_t \<le> m" and "sz_t \<le> n"
  shows "tiles (insert (a, m) (insert (a + sz_t + m, n) C)) lo hi"
proof -
  let ?c = "(a, m + sz_t + n)"
  note T = t [unfolded tiles_insert]
  have cd: "separate ?c d" if "d \<in> C" for d
    using tiles_separate [OF t, of ?c d] that assms(2) by auto
  have sep: "separate (a, m) d" "separate (a + sz_t + m, n) d" if "d \<in> C" for d
    using cd [OF that] by (auto simp: separate_def)
  have self: "separate (a, m) (a + sz_t + m, n)" by (simp add: separate_def)
  have cover: "\<exists>d \<in> insert (a, m) (insert (a + sz_t + m, n) C). fst d \<le> x \<and> x < top d"
    if x: "lo \<le> x" "x < hi" for x
  proof -
    obtain d where d: "d \<in> insert ?c C" "fst d \<le> x" "x < top d" using T x by meson
    show ?thesis
    proof (cases "d = ?c")
      case True
      with d show ?thesis by (cases "x < a + sz_t + m") auto
    qed (use d in blast)
  qed
  have bounds: "lo \<le> a" "a + sz_t + m \<le> hi" "a + sz_t + m + sz_t + n \<le> hi"
    using T by simp_all
  show ?thesis
    unfolding tiles_insert separate_insert
    using T bounds sep self cover assms(3,4) by (simp add: ball_simps(7))
qed

lemma tiles_merge:
  assumes t: "tiles (insert (a, m) (insert (a + sz_t + m, n) C)) lo hi"
    and "(a, m) \<notin> C" and "(a + sz_t + m, n) \<notin> C"
  shows "tiles (insert (a, m + sz_t + n) C) lo hi"
proof -
  let ?u = "(a, m)" and ?v = "(a + sz_t + m, n)" and ?c = "(a, m + sz_t + n)"
  have bounds: "lo \<le> a" "top ?v \<le> hi" "sz_t \<le> m"
    using tiles_bounds [OF t, of ?u] tiles_bounds [OF t, of ?v] by auto
  have C: "lo \<le> fst d \<and> top d \<le> hi \<and> sz_t \<le> snd d" if "d \<in> C" for d
    using tiles_bounds [OF t] that by blast
  have CC: "separate d e" if "d \<in> C" "e \<in> C" "d \<noteq> e" for d e
    using tiles_separate [OF t] that by blast
  have cd: "separate ?c d" if "d \<in> C" for d
  proof -
    have "separate ?u d" "separate ?v d"
      using tiles_separate [OF t, of ?u d] tiles_separate [OF t, of ?v d] that assms(2,3) by auto
    moreover have "fst d < top d" by (simp add: top_def)
    ultimately show ?thesis by (auto simp: separate_def)
  qed
  have "\<exists>d \<in> insert ?c C. fst d \<le> x \<and> x < top d" if x: "lo \<le> x" "x < hi" for x
  proof -
    obtain d where d: "d \<in> insert ?u (insert ?v C)" "fst d \<le> x" "x < top d"
      using t x unfolding tiles_def by meson
    then consider "d = ?u" | "d = ?v" | "d \<in> C" by blast
    then show ?thesis using d by cases auto
  qed
  then show ?thesis unfolding tiles_insert using bounds C CC cd by simp
qed

lemma tiles_extend:
  assumes t: "tiles C lo hi" and "sz_t \<le> n" and "lo \<le> hi"
  shows "tiles (insert (hi, n) C) lo (hi + sz_t + n)"
proof -
  have "\<exists>d \<in> insert (hi, n) C. fst d \<le> x \<and> x < top d" if "lo \<le> x" "x < hi + sz_t + n" for x
    using that t by (cases "x < hi") (auto simp: tiles_def)
  moreover have "separate (hi, n) d" if "d \<in> C" for d
    using tiles_bounds [OF t that] by (simp add: separate_def)
  moreover have "lo \<le> fst d \<and> top d \<le> hi + sz_t + n \<and> sz_t \<le> snd d" if "d \<in> C" for d
    using tiles_bounds [OF t that] by simp
  ultimately show ?thesis
    unfolding tiles_insert using assms tiles_separate [OF t] by simp
qed

section \<open>The walks\<close>

definition addr_or :: "chunk list \<Rightarrow> nat \<Rightarrow> nat" where
  "addr_or F fq = (case F of [] \<Rightarrow> fq | c # _ \<Rightarrow> fst c)"

definition pred_or :: "nat \<Rightarrow> chunk list \<Rightarrow> nat" where
  "pred_or fp F = (if F = [] then fp else fst (last F))"

lemma addr_or_simps [simp]: "addr_or [] fq = fq" "addr_or (c # F) fq = fst c"
  by (simp_all add: addr_or_def)

lemma pred_or_simps [simp]:
  "pred_or fp [] = fp" "pred_or fp (c # F) = pred_or (fst c) F" "pred_or fp (F @ [c]) = fst c"
  by (simp_all add: pred_or_def)

lemma freelist_addr: "freelist h fp F fq \<Longrightarrow> fp = addr_or F fq"
  by (cases F) auto

lemma freelist_append [simp]:
  "freelist h fp (us @ vs) fq \<longleftrightarrow>
     freelist h fp us (addr_or vs fq) \<and> freelist h (addr_or vs fq) vs fq"
proof (induction us arbitrary: fp)
  case Nil
  then show ?case using freelist_addr [of h fp vs fq] by auto
qed auto

lemma freelist_nonnull: "freelist h fp F fq \<Longrightarrow> c \<in> set F \<Longrightarrow> fst c \<noteq> 0"
  by (induction F arbitrary: fp) auto

lemma freelist_sz: "freelist h fp F fq \<Longrightarrow> c \<in> set F \<Longrightarrow> h_sz h (fst c) = snd c"
  by (induction F arbitrary: fp) auto

lemma freelist_cong:
  "(\<And>c. c \<in> set F \<Longrightarrow> h_sz h' (fst c) = h_sz h (fst c) \<and> h_nx h' (fst c) = h_nx h (fst c))
   \<Longrightarrow> freelist h' fp F fq = freelist h fp F fq"
proof (induction F arbitrary: fp)
  case (Cons c F)
  have "h_sz h' (fst c) = h_sz h (fst c)" "h_nx h' (fst c) = h_nx h (fst c)"
    using Cons.prems [of c] by auto
  moreover have "freelist h' fq' F fq = freelist h fq' F fq" for fq'
    using Cons by simp
  ultimately show ?case by (cases "fp = fst c") simp_all
qed simp

lemma freelist_nx_upd [simp]:
  "a \<notin> fst ` set F \<Longrightarrow> freelist (h\<lparr>h_nx := (h_nx h)(a := v)\<rparr>) fp F fq = freelist h fp F fq"
  by (rule freelist_cong) auto

lemma freelist_sz_upd [simp]:
  "a \<notin> fst ` set F \<Longrightarrow> freelist (h\<lparr>h_sz := (h_sz h)(a := v)\<rparr>) fp F fq = freelist h fp F fq"
  by (rule freelist_cong) auto

lemma freelist_both_upd [simp]:
  "a \<notin> fst ` set F \<Longrightarrow>
    freelist (h\<lparr>h_sz := (h_sz h)(a := v), h_nx := (h_nx h)(a := w)\<rparr>) fp F fq = freelist h fp F fq"
  by (rule freelist_cong) auto

lemma freelist_flp_upd [simp]: "freelist (h\<lparr>h_flp := v\<rparr>) fp F fq = freelist h fp F fq"
  by (rule freelist_cong) simp

lemma freelist_brkval_upd [simp]: "freelist (h\<lparr>h_brkval := v\<rparr>) fp F fq = freelist h fp F fq"
  by (rule freelist_cong) simp

text \<open>Step 1 finds an exact match, or else the least size that is large enough.\<close>

lemma malloc_exact_walk:
  assumes "freelist h fp F 0"
  shows "(\<exists>us a vs. F = us @ (a, len) # vs \<and> malloc_exact h len s fp fp2 = Some (Inl (a, pred_or fp2 us)))
    \<or> len \<notin> snd ` set F \<and> (\<exists>s'. malloc_exact h len s fp fp2 = Some (Inr s')
        \<and> (s' = s \<or> s' \<in> snd ` set F \<and> len < s')
        \<and> (\<forall>n \<in> snd ` set F. len < n \<longrightarrow> s' \<noteq> 0 \<and> s' \<le> n) \<and> (s \<noteq> 0 \<longrightarrow> s' \<noteq> 0 \<and> s' \<le> s))"
  using assms
proof (induction F arbitrary: fp fp2 s)
  case Nil
  then show ?case by (subst (2) malloc_exact.simps) simp
next
  case (Cons c F)
  obtain a n where c: "c = (a, n)" by fastforce
  have fp: "fp = a" "a \<noteq> 0" "h_sz h a = n" "freelist h (h_nx h a) F 0" using Cons.prems c by auto
  show ?case
  proof (cases "n = len")
    case True
    with fp have "malloc_exact h len s fp fp2 = Some (Inl (a, fp2))"
      by (subst malloc_exact.simps) simp
    with True c show ?thesis by (intro disjI1 exI [of _ "[]"]) simp
  next
    case False
    let ?s = "if len < n \<and> (s = 0 \<or> n < s) then n else s"
    have step: "malloc_exact h len s fp fp2 = malloc_exact h len ?s (h_nx h a) a"
      using fp False by (subst malloc_exact.simps) auto
    from Cons.IH [OF fp(4), of ?s a] show ?thesis
    proof (rule disjE, goal_cases)
      case 1
      then obtain us b vs where "F = us @ (b, len) # vs"
        "malloc_exact h len ?s (h_nx h a) a = Some (Inl (b, pred_or a us))" by blast
      with step c show ?thesis by (intro disjI1 exI [of _ "c # us"]) auto
    next
      case 2
      then obtain s' where s': "len \<notin> snd ` set F" "malloc_exact h len ?s (h_nx h a) a = Some (Inr s')"
        "\<forall>n \<in> snd ` set F. len < n \<longrightarrow> s' \<noteq> 0 \<and> s' \<le> n" "?s \<noteq> 0 \<longrightarrow> s' \<noteq> 0 \<and> s' \<le> ?s"
        and d: "s' = ?s \<or> s' \<in> snd ` set F \<and> len < s'" by blast
      have "s' = s \<or> s' \<in> snd ` set (c # F) \<and> len < s'" using d c by (auto split: if_splits)
      moreover have "\<forall>n \<in> snd ` set (c # F). len < n \<longrightarrow> s' \<noteq> 0 \<and> s' \<le> n"
        using s'(3,4) c by (auto split: if_splits)
      moreover have "s \<noteq> 0 \<longrightarrow> s' \<noteq> 0 \<and> s' \<le> s" using s'(4) by (auto split: if_splits)
      moreover have "len \<notin> snd ` set (c # F)" using s'(1) False c by simp
      ultimately show ?thesis using step s'(2) by auto
    qed
  qed
qed

lemma malloc_closest_walk:
  assumes "freelist h fp F 0" and "s \<in> snd ` set F"
  shows "\<exists>us a vs. F = us @ (a, s) # vs \<and> malloc_closest h s fp fp2 = Some (Some (a, pred_or fp2 us))"
  using assms
proof (induction F arbitrary: fp fp2)
  case (Cons c F)
  obtain a n where c: "c = (a, n)" by fastforce
  have fp: "fp = a" "a \<noteq> 0" "h_sz h a = n" "freelist h (h_nx h a) F 0" using Cons.prems(1) c by auto
  show ?case
  proof (cases "n = s")
    case True
    with fp have "malloc_closest h s fp fp2 = Some (Some (a, fp2))"
      by (subst malloc_closest.simps) simp
    with True c show ?thesis by (intro exI [of _ "[]"]) simp
  next
    case False
    then have "s \<in> snd ` set F" using Cons.prems(2) c by auto
    with Cons.IH [OF fp(4), of a] obtain us b vs where
      "F = us @ (b, s) # vs" "malloc_closest h s (h_nx h a) a = Some (Some (b, pred_or a us))" by blast
    moreover have "malloc_closest h s fp fp2 = malloc_closest h s (h_nx h a) a"
      using fp False by (subst malloc_closest.simps) simp
    ultimately show ?thesis using c by (intro exI [of _ "c # us"]) auto
  qed
qed simp

lemma free_pos_walk:
  assumes "freelist h fp (us @ vs) 0" and "\<forall>c \<in> set us. fst c < new" and "\<forall>c \<in> set vs. new \<le> fst c"
  shows "free_pos h new fp fp2 = Some (addr_or vs 0, pred_or fp2 us)"
  using assms
proof (induction us arbitrary: fp fp2)
  case Nil
  then show ?case by (cases vs) (auto simp: free_pos.simps)
next
  case (Cons c us)
  then have "free_pos h new fp fp2 = free_pos h new (h_nx h fp) fp"
    by (subst free_pos.simps) auto
  with Cons show ?case by auto
qed

section \<open>Disconnecting a chunk\<close>

lemma apart_addrs: "apart F \<Longrightarrow> distinct (map fst F)"
proof (induction F)
  case (Cons c F)
  have "fst c \<noteq> fst d" if "d \<in> set F" for d
  proof -
    have "top c < fst d" using Cons.prems that by simp
    then show ?thesis by (simp add: top_def)
  qed
  with Cons show ?case by auto
qed simp

lemma disconnect_freelist:
  assumes "freelist h (h_flp h) (us @ (a, n) # vs) 0" and "distinct (map fst (us @ (a, n) # vs))"
  shows "freelist (malloc_disconnect a (pred_or 0 us) h) (h_flp (malloc_disconnect a (pred_or 0 us) h)) (us @ vs) 0"
proof (cases us rule: rev_cases)
  case Nil
  with assms show ?thesis by (auto simp: malloc_disconnect_def)
next
  case (snoc us' c)
  have c0: "fst c \<noteq> 0" using freelist_nonnull [OF assms(1), of c] snoc by simp
  have parts: "freelist h (h_flp h) us' (fst c)" "h_sz h (fst c) = snd c" "freelist h (h_nx h a) vs 0"
    using assms(1) snoc by auto
  have dis: "fst c \<notin> fst ` set us'" "fst c \<notin> fst ` set vs" using assms(2) snoc by auto
  show ?thesis
    using snoc c0 parts dis freelist_addr [OF parts(3)] by (simp add: malloc_disconnect_def)
qed

section \<open>malloc keeps the invariant\<close>

lemma allocated_upd: "A a = None \<Longrightarrow> allocated (A(a \<mapsto> n)) = insert (a, n) (allocated A)"
  by (auto simp: allocated_def split: if_splits)

lemma not_addr: "a \<notin> fst ` S \<longleftrightarrow> (\<forall>n. (a, n) \<notin> S)"
  by (auto simp: image_iff)

lemma allocated_remove: "A a = Some n \<Longrightarrow> allocated A = insert (a, n) (allocated (A(a := None)))"
  by (auto simp: allocated_def split: if_splits)

lemma allocated_None: "A a = None \<Longrightarrow> (a, n) \<notin> allocated A"
  by (simp add: allocated_def)

lemma heap_invD:
  assumes "heap_inv h F A"
  shows "freelist h (h_flp h) F 0" "apart F" "distinct (map fst F)"
    "tiles (set F \<union> allocated A) (h_start h) (brk h)" "set F \<inter> allocated A = {}"
    "\<And>a n. A a = Some n \<Longrightarrow> h_sz h a = n"
    "sz_t \<le> h_start h" "h_start h \<le> brk h" "brk h \<le> h_end h" "h_end h < 2 ^ 32"
  using assms apart_addrs by (auto simp: heap_inv_def)

lemma chunk_of_addr:
  "heap_inv h F A \<Longrightarrow> c \<in> set F \<union> allocated A \<Longrightarrow> d \<in> set F \<union> allocated A \<Longrightarrow> fst c = fst d \<Longrightarrow> c = d"
  using tiles_addr_inj [OF heap_invD(4)] by blast

lemma free_not_allocated:
  assumes "heap_inv h F A" and "(a, n) \<in> set F"
  shows "A a = None"
proof (rule ccontr)
  assume "A a \<noteq> None"
  then obtain m where "(a, m) \<in> allocated A" by (auto simp: allocated_def)
  with chunk_of_addr [OF assms(1), of "(a, n)" "(a, m)"] assms heap_invD(5) [OF assms(1)]
  show False by auto
qed

lemma inside_not_chunk:
  assumes "heap_inv h F A" and c: "c \<in> set F \<union> allocated A" and "fst c < b" and "b < top c"
  shows "A b = None" "b \<notin> fst ` set F"
proof -
  have "fst d \<noteq> b" if d: "d \<in> set F \<union> allocated A" for d
  proof
    assume "fst d = b"
    then have "separate c d" using tiles_separate [OF heap_invD(4) [OF assms(1)] c d] assms(3) by auto
    then show False using \<open>fst d = b\<close> assms(3,4) by (auto simp: separate_def top_def)
  qed
  then have "(b, n) \<notin> set F" "(b, n) \<notin> allocated A" for n by force+
  then show "A b = None" "b \<notin> fst ` set F"
    unfolding not_addr by (simp_all add: allocated_def not_Some_eq [symmetric] del: not_Some_eq)
qed

lemma heap_inv_disconnect:
  assumes inv: "heap_inv h F A" and F: "F = us @ (a, n) # vs"
  shows "A a = None \<and> heap_inv (malloc_disconnect a (pred_or 0 us) h) (us @ vs) (A(a \<mapsto> n))"
proof -
  let ?h = "malloc_disconnect a (pred_or 0 us) h"
  have A: "A a = None" using free_not_allocated [OF inv, of a n] F by simp
  have fl: "freelist ?h (h_flp ?h) (us @ vs) 0"
    using disconnect_freelist heap_invD(1,3) [OF inv] F by blast
  have same: "h_start ?h = h_start h" "h_end ?h = h_end h" "brk ?h = brk h" "h_sz ?h = h_sz h"
    by (simp_all add: malloc_disconnect_def brk_def)
  have "set (us @ vs) \<union> allocated (A(a \<mapsto> n)) = set F \<union> allocated A"
    using F A by (auto simp: allocated_upd)
  moreover have "set (us @ vs) \<inter> allocated (A(a \<mapsto> n)) = {}"
    using heap_invD(3,5) [OF inv] F A by (auto simp: allocated_upd not_addr)
  moreover have "apart (us @ vs)" using heap_invD(2) [OF inv] F by (auto simp: sorted_wrt_append)
  moreover have "h_sz h a = n" using freelist_sz [OF heap_invD(1) [OF inv], of "(a, n)"] F by simp
  ultimately show ?thesis
    using A fl same heap_invD [OF inv] by (auto simp: heap_inv_def)
qed

lemma heap_inv_split:
  assumes inv: "heap_inv h F A" and F: "F = us @ (a, m + sz_t + n) # vs" and "sz_t \<le> m" "sz_t \<le> n"
  shows "A (a + sz_t + m) = None
    \<and> heap_inv (h\<lparr>h_sz := (h_sz h)(a + sz_t + m := n, a := m)\<rparr>) (us @ (a, m) # vs) (A(a + sz_t + m \<mapsto> n))"
proof -
  let ?b = "a + sz_t + m" and ?h = "h\<lparr>h_sz := (h_sz h)(a + sz_t + m := n, a := m)\<rparr>"
  have in_F: "(a, m + sz_t + n) \<in> set F \<union> allocated A" using F by simp
  have b: "A ?b = None" "?b \<notin> fst ` set F"
    using inside_not_chunk [OF inv in_F, of ?b] by simp_all
  have dis: "a \<notin> fst ` set us" "a \<notin> fst ` set vs" "distinct (map fst us)"
    using heap_invD(3) [OF inv] F by auto
  have a: "A a = None" using free_not_allocated [OF inv, of a "m + sz_t + n"] F by simp
  have "freelist h (h_flp h) (us @ (a, m + sz_t + n) # vs) 0" using heap_invD(1) [OF inv] F by simp
  then have fl: "freelist ?h (h_flp ?h) (us @ (a, m) # vs) 0"
  proof -
    assume l: "freelist h (h_flp h) (us @ (a, m + sz_t + n) # vs) 0"
    have "freelist ?h fp us fq = freelist h fp us fq" "freelist ?h fp vs fq = freelist h fp vs fq" for fp fq
      using dis b(2) F by (auto intro!: freelist_cong simp: not_addr)
    with l show ?thesis by auto
  qed
  let ?C = "set us \<union> set vs \<union> allocated A"
  have "(a, k) \<notin> ?C" for k using dis a by (auto simp: allocated_def not_addr)
  moreover have "tiles (insert (a, m + sz_t + n) ?C) (h_start h) (brk h)"
    using heap_invD(4) [OF inv] F by (simp add: Un_assoc Un_left_commute)
  ultimately have "tiles (insert (a, m) (insert (?b, n) ?C)) (h_start h) (brk h)"
    using assms(3,4) by (intro tiles_split) auto
  moreover have "set (us @ (a, m) # vs) \<union> allocated (A(?b \<mapsto> n)) = insert (a, m) (insert (?b, n) ?C)"
    using b(1) by (auto simp: allocated_upd)
  moreover have "apart (us @ (a, m) # vs)"
    using heap_invD(2) [OF inv] F by (auto simp: sorted_wrt_append)
  moreover have "set (us @ (a, m) # vs) \<inter> allocated (A(?b \<mapsto> n)) = {}"
    using heap_invD(5) [OF inv] F b a by (auto simp: allocated_upd allocated_None not_addr)
  moreover have "h_sz ?h c = k" if "(A(?b \<mapsto> n)) c = Some k" for c k
    using that a heap_invD(6) [OF inv] by (auto split: if_splits)
  moreover have "brk ?h = brk h" by (simp add: brk_def)
  ultimately show ?thesis
    using b(1) fl heap_invD(7-10) [OF inv] unfolding heap_inv_def by auto
qed

lemma heap_inv_extend:
  assumes inv: "heap_inv h F A" and n: "sz_t \<le> n"
  shows "malloc_extend n h = (if brk h + sz_t + n \<le> h_end h
           then (brk h + sz_t, h\<lparr>h_brkval := brk h + sz_t + n, h_sz := (h_sz h)(brk h := n)\<rparr>)
           else (0, h\<lparr>h_brkval := brk h\<rparr>))" (is ?E)
    and "brk h + sz_t + n \<le> h_end h \<Longrightarrow> A (brk h) = None \<and>
      heap_inv (h\<lparr>h_brkval := brk h + sz_t + n, h_sz := (h_sz h)(brk h := n)\<rparr>) F (A(brk h \<mapsto> n))"
    and "heap_inv (h\<lparr>h_brkval := brk h\<rparr>) F A"
proof -
  note I = heap_invD [OF inv]
  have avail: "w32 (h_end h + 2 ^ 32 - brk h) = h_end h - brk h"
  proof -
    have "h_end h + 2 ^ 32 - brk h = (h_end h - brk h) + 2 ^ 32" using I(9) by simp
    moreover have "h_end h - brk h < 2 ^ 32" using I(10) by linarith
    ultimately show ?thesis by (simp only: w32_def mod_add_self2 mod_less)
  qed
  have test: "h_end h - brk h \<ge> n \<and> h_end h - brk h \<ge> w32 (n + sz_t) \<longleftrightarrow> brk h + sz_t + n \<le> h_end h"
  proof (cases "n + sz_t < 2 ^ 32")
    case True
    then have "w32 (n + sz_t) = n + sz_t" by (simp add: w32_def)
    then show ?thesis using I(9) n by linarith
  next
    case False
    then have "\<not> n \<le> h_end h - brk h" using I(7,8,10) by simp
    then show ?thesis using False I(10) by simp
  qed
  have "w32 (n + sz_t) = n + sz_t" if "brk h + sz_t + n \<le> h_end h"
    using that I(10) by (simp add: w32_def)
  then show ?E
    unfolding malloc_extend_def Let_def brk_def [symmetric] avail test by (simp add: ac_simps)
  have above: "fst c < brk h" if "c \<in> set F \<union> allocated A" for c
    using tiles_bounds [OF I(4) that] by (simp add: top_def)
  have A: "A (brk h) = None"
  proof (rule ccontr)
    assume "A (brk h) \<noteq> None"
    then obtain m where "(brk h, m) \<in> allocated A" by (auto simp: allocated_def)
    with above [of "(brk h, m)"] show False by simp
  qed
  have F: "brk h \<notin> fst ` set F" unfolding not_addr using above by force
  have "brk (h\<lparr>h_brkval := brk h\<rparr>) = brk h" by (simp add: brk_def)
  then show "heap_inv (h\<lparr>h_brkval := brk h\<rparr>) F A"
    using inv by (simp add: heap_inv_def)
  assume room: "brk h + sz_t + n \<le> h_end h"
  let ?h = "h\<lparr>h_brkval := brk h + sz_t + n, h_sz := (h_sz h)(brk h := n)\<rparr>"
  have "tiles (insert (brk h, n) (set F \<union> allocated A)) (h_start h) (brk h + sz_t + n)"
    using tiles_extend [OF I(4) n I(8)] .
  moreover have "set F \<union> allocated (A(brk h \<mapsto> n)) = insert (brk h, n) (set F \<union> allocated A)"
    using A by (simp add: allocated_upd)
  moreover have "freelist ?h (h_flp h) F 0" using I(1) F by (subst freelist_cong [where h = h]) (auto simp: not_addr)
  moreover have "set F \<inter> allocated (A(brk h \<mapsto> n)) = {}" using I(5) F A by (auto simp: allocated_upd not_addr)
  moreover have "brk ?h = brk h + sz_t + n" by (simp add: brk_def)
  ultimately show "A (brk h) = None \<and> heap_inv ?h F (A(brk h \<mapsto> n))"
    using A I(2,6,7,8,10) room by (simp add: heap_inv_def)
qed

definition chunk_len :: "nat \<Rightarrow> nat" where
  "chunk_len len = (if len < sz_fl - sz_t then sz_fl - sz_t else len)"

lemma malloc_unfold:
  "malloc len h = do {
     r \<leftarrow> malloc_exact h (chunk_len len) 0 (h_flp h) 0;
     case r of
       Inl (fp1, fp2) \<Rightarrow> Some (fp1 + sz_t, malloc_disconnect fp1 fp2 h)
     | Inr s \<Rightarrow>
         if s = 0 then Some (malloc_extend (chunk_len len) h)
         else do {
           let len = (if s - chunk_len len < sz_fl then s else chunk_len len);
           r \<leftarrow> malloc_closest h s (h_flp h) 0;
           case r of
             None \<Rightarrow> Some (malloc_extend len h)
           | Some (fp1, fp2) \<Rightarrow>
               if len = s then Some (fp1 + sz_t, malloc_disconnect fp1 fp2 h)
               else let s = s - len; cp = fp1 + s in
                 Some (cp + sz_t, h\<lparr>h_sz := (h_sz h)(cp := len, fp1 := s - sz_t)\<rparr>)
         }
   }"
  by (simp only: malloc_def chunk_len_def Let_def)

lemma malloc_cases:
  assumes inv: "heap_inv h F A"
  shows "(\<exists>a n h' F'. malloc len h = Some (a + sz_t, h') \<and> A a = None \<and> 0 < a
       \<and> chunk_len len \<le> n \<and> n < chunk_len len + sz_fl \<and> heap_inv h' F' (A(a \<mapsto> n))
       \<and> brk h' \<le> brk h + sz_t + chunk_len len \<and> h_end h' = h_end h)
    \<or> (\<exists>h'. malloc len h = Some (0, h') \<and> heap_inv h' F A
       \<and> (\<forall>c \<in> set F. snd c < chunk_len len) \<and> h_end h < brk h + sz_t + chunk_len len)"
proof -
  let ?len = "chunk_len len"
  have len: "sz_t \<le> ?len" by (simp add: chunk_len_def)
  note I = heap_invD [OF inv]
  have same: "brk (malloc_disconnect a p h) = brk h" "h_end (malloc_disconnect a p h) = h_end h" for a p
    by (simp_all add: malloc_disconnect_def brk_def)
  have fl0: "0 < a" if "(a, n) \<in> set F" for a n using freelist_nonnull [OF I(1) that] by simp
  from malloc_exact_walk [OF I(1), of ?len 0 0] show ?thesis
  proof (rule disjE, goal_cases)
    case 1
    then obtain us a vs where F: "F = us @ (a, ?len) # vs"
      and w: "malloc_exact h ?len 0 (h_flp h) 0 = Some (Inl (a, pred_or 0 us))" by blast
    from w have "malloc len h = Some (a + sz_t, malloc_disconnect a (pred_or 0 us) h)"
      by (simp add: malloc_unfold)
    with heap_inv_disconnect [OF inv F] fl0 [of a ?len] F same [of a "pred_or 0 us"] show ?thesis by fastforce
  next
    case 2
    then obtain s where w: "malloc_exact h ?len 0 (h_flp h) 0 = Some (Inr s)"
      and s: "s = 0 \<or> s \<in> snd ` set F \<and> ?len < s"
      and big: "\<forall>n \<in> snd ` set F. ?len < n \<longrightarrow> s \<noteq> 0 \<and> s \<le> n"
      and none: "?len \<notin> snd ` set F" by blast
    show ?thesis
    proof (cases "s = 0")
      case True
      with w have m: "malloc len h = Some (malloc_extend ?len h)"
        by (simp add: malloc_unfold)
      have small: "\<forall>c \<in> set F. snd c < ?len"
        using big none True by (metis image_eqI linorder_neqE_nat)
      show ?thesis
      proof (cases "brk h + sz_t + ?len \<le> h_end h")
        case True
        have "0 < brk h" using I(7,8) by simp
        have "brk (h\<lparr>h_brkval := brk h + sz_t + ?len, h_sz := (h_sz h)(brk h := ?len)\<rparr>) = brk h + sz_t + ?len" by (simp add: brk_def)
        with m heap_inv_extend [OF inv len] True \<open>0 < brk h\<close> show ?thesis by fastforce
      next
        case False
        with m heap_inv_extend [OF inv len] small show ?thesis by auto
      qed
    next
      case False
      with s have s: "s \<in> snd ` set F" "?len < s" by auto
      let ?n = "if s - ?len < sz_fl then s else ?len"
      from malloc_closest_walk [OF I(1) s(1), of 0] obtain us a vs where
        F: "F = us @ (a, s) # vs"
        and c: "malloc_closest h s (h_flp h) 0 = Some (Some (a, pred_or 0 us))" by blast
      have a: "0 < a" using fl0 [of a s] F by simp
      show ?thesis
      proof (cases "s - ?len < sz_fl")
        case True
        with w c False s(2) have "malloc len h = Some (a + sz_t, malloc_disconnect a (pred_or 0 us) h)"
          by (simp add: malloc_unfold)
        with heap_inv_disconnect [OF inv F] a s(2) True same [of a "pred_or 0 us"] show ?thesis by fastforce
      next
        case split: False
        define m where "m = s - ?len - sz_t"
        have sm: "s = m + sz_t + ?len" "sz_t \<le> m" using split by (simp_all add: m_def)
        have "malloc len h = Some (a + sz_t + m + sz_t,
            h\<lparr>h_sz := (h_sz h)(a + sz_t + m := ?len, a := m)\<rparr>)"
          using w c False split s(2) sm
          by (simp add: malloc_unfold Let_def ac_simps)
        moreover have "brk (h\<lparr>h_sz := (h_sz h)(a + sz_t + m := ?len, a := m)\<rparr>) = brk h" by (simp add: brk_def)
        ultimately show ?thesis using heap_inv_split [OF inv, of us a m ?len vs] F sm len a by fastforce
      qed
    qed
  qed
qed

section \<open>free keeps the invariant\<close>

lemma sorted_wrt_split:
  assumes "apart F"
  shows "\<exists>us vs. F = us @ vs \<and> (\<forall>c \<in> set us. fst c < x) \<and> (\<forall>c \<in> set vs. x \<le> fst c)"
  using assms
proof (induction F)
  case (Cons c F)
  show ?case
  proof (cases "fst c < x")
    case True
    from Cons obtain us vs where "F = us @ vs" "\<forall>c \<in> set us. fst c < x" "\<forall>c \<in> set vs. x \<le> fst c"
      by auto
    with True show ?thesis by (intro exI [of _ "c # us"] exI [of _ vs]) auto
  next
    case False
    have "x \<le> fst d" if "d \<in> set F" for d
      using Cons.prems that False by (auto simp: top_def dest!: bspec)
    with False show ?thesis by (intro exI [of _ "[]"] exI [of _ "c # F"]) auto
  qed
qed simp

text \<open>Joining the freed chunk with what follows it.\<close>

lemma free_upper_step:
  assumes fl: "freelist h (addr_or vs 0) vs 0" and a: "a \<notin> fst ` set vs" "a \<noteq> 0"
    and h: "h_sz h a = n" "h_nx h a = 0"
    and ap: "apart vs" "\<forall>d \<in> set vs. top (a, n) \<le> fst d"
    and t: "tiles (insert (a, n) (set vs \<union> R)) lo hi" "hi < 2 ^ 32"
    and R: "(a, n) \<notin> R" "set vs \<inter> R = {}"
  shows "\<exists>n1 vs1 q. (if addr_or vs 0 \<noteq> 0 then free_upper a (addr_or vs 0) h else h)
      = h\<lparr>h_sz := (h_sz h)(a := n1), h_nx := (h_nx h)(a := q)\<rparr>
    \<and> freelist h q vs1 0 \<and> apart ((a, n1) # vs1) \<and> set vs1 \<subseteq> set vs
    \<and> tiles (insert (a, n1) (set vs1 \<union> R)) lo hi"
proof (cases vs)
  case Nil
  have "h = h\<lparr>h_sz := (h_sz h)(a := n), h_nx := (h_nx h)(a := 0)\<rparr>"
    using h by (cases h) (auto simp: fun_upd_idem)
  moreover have "freelist h 0 [] 0 \<and> apart [(a, n)]" by simp
  ultimately show ?thesis
    using Nil t by (intro exI [of _ n] exI [of _ "[]"] exI [of _ 0]) simp
next
  case (Cons c vs')
  obtain b m where c: "c = (b, m)" by fastforce
  have b: "b \<noteq> 0" "b \<noteq> a" "h_sz h b = m" "freelist h (h_nx h b) vs' 0"
    using fl a Cons c by auto
  have gap: "\<forall>d \<in> set vs'. b + sz_t + m < fst d" using ap(1) Cons c by simp
  show ?thesis
  proof (cases "a + sz_t + n = b")
    case True
    have nb: "(b, m) \<notin> set vs' \<union> R" "(a, n) \<notin> set vs' \<union> R"
      using gap R a Cons c by (auto simp: not_addr)
    have "tiles (insert (a, n) (insert (a + sz_t + n, m) (set vs' \<union> R))) lo hi"
      using t(1) Cons c True by (simp add: insert_commute)
    from tiles_merge [OF this] nb True have m: "tiles (insert (a, n + sz_t + m) (set vs' \<union> R)) lo hi"
      by simp
    have "n + sz_t + m < 2 ^ 32" using tiles_bounds [OF m, of "(a, n + sz_t + m)"] t(2) by simp
    then have "free_upper a b h = h\<lparr>h_sz := (h_sz h)(a := n + sz_t + m), h_nx := (h_nx h)(a := h_nx h b)\<rparr>"
      using True b h by (simp add: free_upper_def Let_def w32_def ac_simps)
    moreover have "apart ((a, n + sz_t + m) # vs')" using gap ap(1) True Cons by auto
    ultimately show ?thesis
      using Cons c b m by (intro exI [of _ "n + sz_t + m"] exI [of _ vs'] exI [of _ "h_nx h b"]) auto
  next
    case False
    then have "free_upper a b h = h\<lparr>h_sz := (h_sz h)(a := n), h_nx := (h_nx h)(a := b)\<rparr>"
      using h by (auto simp: free_upper_def Let_def)
    moreover have "apart ((a, n) # vs)"
    proof -
      have "a + sz_t + n < b" using ap(2) Cons c False by auto
      with gap ap(1) Cons c show ?thesis by force
    qed
    ultimately show ?thesis
      using Cons c fl t b by (intro exI [of _ n] exI [of _ vs] exI [of _ b]) auto
  qed
qed

text \<open>Joining it with what precedes it.\<close>

lemma free_lower_step:
  assumes us: "freelist h (h_flp h) (us @ [(b, m)]) q" and fl: "freelist h a ((a, n) # vs) 0"
    and addrs: "distinct (map fst (us @ (b, m) # (a, n) # vs))"
    and ap: "apart (us @ [(b, m)])" "apart ((a, n) # vs)" "b + sz_t + m \<le> a"
    and t: "tiles (insert (a, n) (set (us @ (b, m) # vs) \<union> R)) lo hi" "hi < 2 ^ 32"
    and R: "(a, n) \<notin> R" "(b, m) \<notin> R"
  shows "\<exists>F'. freelist (free_lower a b h) (h_flp (free_lower a b h)) F' 0 \<and> apart F'
    \<and> tiles (set F' \<union> R) lo hi \<and> fst ` set F' \<subseteq> fst ` set (us @ (b, m) # (a, n) # vs)
    \<and> (\<forall>x. x \<noteq> b \<longrightarrow> h_sz (free_lower a b h) x = h_sz h x)
    \<and> brk (free_lower a b h) = brk h \<and> h_start (free_lower a b h) = h_start h
    \<and> h_end (free_lower a b h) = h_end h"
proof -
  have l: "freelist h (h_flp h) us b" "b \<noteq> 0" "h_sz h b = m" "h_sz h a = n" "a \<noteq> 0"
    "freelist h (h_nx h a) vs 0" using us fl by auto
  have nb: "b \<notin> fst ` set us" "b \<notin> fst ` set vs" "a \<noteq> b" "a \<notin> fst ` set us" "a \<notin> fst ` set vs"
    using addrs by auto
  have us_b: "top c < b" if "c \<in> set us" for c using ap(1) that by (auto simp: sorted_wrt_append)
  have vs_a: "a + sz_t + n < fst d" if "d \<in> set vs" for d using ap(2) that by simp
  have ap_us: "apart us" "apart vs" using ap(1,2) by (auto simp: sorted_wrt_append)
  show ?thesis
  proof (cases "b + sz_t + m = a")
    case True
    let ?F = "us @ (b, m + sz_t + n) # vs"
    have "tiles (insert (b, m) (insert (b + sz_t + m, n) (set us \<union> set vs \<union> R))) lo hi"
      using t(1) True by (simp add: insert_commute Un_assoc)
    moreover have "(b, m) \<notin> set us \<union> set vs \<union> R" "(b + sz_t + m, n) \<notin> set us \<union> set vs \<union> R"
      using nb R True by (auto simp: not_addr)
    ultimately have m: "tiles (insert (b, m + sz_t + n) (set us \<union> set vs \<union> R)) lo hi"
      by (rule tiles_merge)
    have "m + sz_t + n < 2 ^ 32" using tiles_bounds [OF m, of "(b, m + sz_t + n)"] t(2) by simp
    then have fl2: "free_lower a b h
        = h\<lparr>h_sz := (h_sz h)(b := m + sz_t + n), h_nx := (h_nx h)(b := h_nx h a)\<rparr>"
      using True l nb by (simp add: free_lower_def Let_def w32_def ac_simps)
    have "top c < fst d" if "c \<in> set us" "d \<in> set vs" for c d
      using us_b [OF that(1)] vs_a [OF that(2)] True by simp
    moreover have "top (b, m + sz_t + n) < fst d" if "d \<in> set vs" for d
      using vs_a [OF that] True by simp
    ultimately have "apart ?F" using us_b ap_us by (simp add: sorted_wrt_append del: top_pair)
    moreover have "freelist (free_lower a b h) (h_flp (free_lower a b h)) ?F 0"
      using l nb unfolding fl2 by simp
    ultimately show ?thesis
      using m unfolding fl2 by (intro exI [of _ ?F]) (auto simp: brk_def Un_assoc)
  next
    case False
    let ?F = "us @ (b, m) # (a, n) # vs"
    have fl2: "free_lower a b h = h\<lparr>h_nx := (h_nx h)(b := a)\<rparr>"
      using False l by (simp add: free_lower_def Let_def)
    have "top c < fst d" if "c \<in> set us" "d \<in> set vs" for c d
      using us_b [OF that(1)] vs_a [OF that(2)] ap(3) by simp
    moreover have "top c < a" if "c \<in> set us" for c using us_b [OF that] ap(3) by simp
    moreover have "b + sz_t + m < fst d" if "d \<in> set vs" for d using vs_a [OF that] ap(3) by simp
    ultimately have "apart ?F" using us_b vs_a ap_us ap(3) False by (auto simp: sorted_wrt_append)
    moreover have "freelist (free_lower a b h) (h_flp (free_lower a b h)) ?F 0"
      using l nb unfolding fl2 by auto
    moreover have "set ?F \<union> R = insert (a, n) (set (us @ (b, m) # vs) \<union> R)" by auto
    ultimately show ?thesis
      using t unfolding fl2 by (intro exI [of _ ?F]) (simp add: brk_def)
  qed
qed


lemma free_ok:
  assumes inv: "heap_inv h F A" and A: "A a = Some n"
  shows "\<exists>h' F'. free (a + sz_t) h = Some h' \<and> heap_inv h' F' (A(a := None))"
proof -
  note I = heap_invD [OF inv]
  let ?A = "A(a := None)"
  let ?R = "allocated ?A"
  obtain us vs where F: "F = us @ vs" and us: "\<forall>c \<in> set us. fst c < a" and vs: "\<forall>c \<in> set vs. a \<le> fst c"
    using sorted_wrt_split [OF I(2), of a] by blast
  have all: "allocated A = insert (a, n) ?R" using A by (rule allocated_remove)
  have aF: "a \<notin> fst ` set F"
    using free_not_allocated [OF inv] A unfolding not_addr by force
  have aR: "(a, k) \<notin> ?R" for k by (simp add: allocated_def)
  have t: "tiles (insert (a, n) (set vs \<union> (set us \<union> ?R))) (h_start h) (brk h)"
    using I(4) F all by (simp add: Un_ac)
  have sep: "separate (a, n) c" if "c \<in> set F" for c
  proof -
    have "(a, n) \<noteq> c" using that aF by (auto simp: not_addr)
    with tiles_separate [OF I(4), of "(a, n)" c] that all show ?thesis by simp
  qed
  have above: "\<forall>d \<in> set vs. top (a, n) \<le> fst d"
    using sep F vs by (force simp: separate_def top_def)
  have below: "\<forall>c \<in> set us. top c \<le> a"
    using sep F us by (force simp: separate_def top_def)
  have a0: "a \<noteq> 0" using tiles_bounds [OF t, of "(a, n)"] I(7) by simp
  have ap: "apart us" "apart vs" using I(2) F by (auto simp: sorted_wrt_append)
  let ?h = "h\<lparr>h_nx := (h_nx h)(a := 0)\<rparr>"
  have fl: "freelist ?h (h_flp h) F 0" using I(1) aF by simp
  have hsz: "h_sz ?h a = n" using I(6) [OF A] by simp
  have up: "\<exists>n1 vs1 q. (if addr_or vs 0 \<noteq> 0 then free_upper a (addr_or vs 0) ?h else ?h)
      = ?h\<lparr>h_sz := (h_sz ?h)(a := n1), h_nx := (h_nx ?h)(a := q)\<rparr>
    \<and> freelist ?h q vs1 0 \<and> apart ((a, n1) # vs1) \<and> set vs1 \<subseteq> set vs
    \<and> tiles (insert (a, n1) (set vs1 \<union> (set us \<union> ?R))) (h_start h) (brk h)"
  proof (rule free_upper_step)
    show "freelist ?h (addr_or vs 0) vs 0" using fl F by simp
    show "(a, n) \<notin> set us \<union> ?R" "set vs \<inter> (set us \<union> ?R) = {}"
      using aF aR F I(3,5) all by (auto simp: not_addr)
  qed (use aF F a0 hsz ap above t I(9,10) in auto)
  then obtain n1 vs1 q where
    h1: "(if addr_or vs 0 \<noteq> 0 then free_upper a (addr_or vs 0) ?h else ?h)
      = ?h\<lparr>h_sz := (h_sz ?h)(a := n1), h_nx := (h_nx ?h)(a := q)\<rparr>" (is "_ = ?h1")
    and fl1: "freelist ?h q vs1 0" and ap1: "apart ((a, n1) # vs1)" and sub: "set vs1 \<subseteq> set vs"
    and t1: "tiles (insert (a, n1) (set vs1 \<union> (set us \<union> ?R))) (h_start h) (brk h)" by blast
  have a1: "a \<notin> fst ` set us" "a \<notin> fst ` set vs1" using aF F sub by auto
  have fl2: "freelist ?h1 a ((a, n1) # vs1) 0" using fl1 a1 a0 by simp
  have finish: "heap_inv h2 F2 ?A"
    if "freelist h2 (h_flp h2) F2 0" "apart F2" "tiles (set F2 \<union> ?R) (h_start h) (brk h)"
      "fst ` set F2 \<subseteq> insert a (fst ` set F)" "\<forall>x. x \<notin> insert a (fst ` set F) \<longrightarrow> h_sz h2 x = h_sz h x"
      "brk h2 = brk h" "h_start h2 = h_start h" "h_end h2 = h_end h" for h2 F2
  proof -
    have dom: "?A x = None" if "x \<in> insert a (fst ` set F)" for x
      using that free_not_allocated [OF inv] by auto
    have "(x, k) \<notin> ?R" if "(x, k) \<in> set F2" for x k
    proof -
      have "x \<in> fst ` set F2" using that by (rule image_eqI [rotated]) simp
      then have "x \<in> insert a (fst ` set F)" using \<open>fst ` set F2 \<subseteq> _\<close> by (rule subsetD [rotated])
      then have "?A x = None" by (rule dom)
      then show ?thesis by (rule allocated_None)
    qed
    then have "set F2 \<inter> ?R = {}" by auto
    moreover have "h_sz h2 b = k" if "?A b = Some k" for b k
    proof -
      have "b \<notin> insert a (fst ` set F)" using that dom [of b] by force
      moreover have "A b = Some k" using that by (simp split: if_splits)
      ultimately show ?thesis using \<open>\<forall>x. x \<notin> _ \<longrightarrow> _\<close> I(6) by simp
    qed
    ultimately show ?thesis using that I(7-10) by (simp add: heap_inv_def)
  qed
  have pos: "free_pos ?h a (h_flp h) 0 = Some (addr_or vs 0, pred_or 0 us)"
    using free_pos_walk [of ?h "h_flp h" us vs a 0] fl F us vs by simp
  have flp0: "h_flp h = 0 \<longleftrightarrow> F = []" using I(1) by (cases F) auto
  have vs0: "addr_or vs 0 = 0 \<longleftrightarrow> vs = []" using fl F by (cases vs) auto
  show ?thesis
  proof (cases us rule: rev_cases)
    case Nil
    have "free (a + sz_t) h = Some (?h1\<lparr>h_flp := a\<rparr>)"
    proof (cases "vs = []")
      case True
      with Nil F flp0 have "free (a + sz_t) h = Some (?h\<lparr>h_flp := a\<rparr>)" by (simp add: free_def Let_def)
      moreover have "?h = ?h1" using h1 True by simp
      ultimately show ?thesis by (simp only:)
    next
      case False
      with Nil F flp0 vs0 pos h1 show ?thesis by (simp add: free_def Let_def)
    qed
    moreover have "heap_inv (?h1\<lparr>h_flp := a\<rparr>) ((a, n1) # vs1) ?A"
    proof (rule finish)
      show "freelist (?h1\<lparr>h_flp := a\<rparr>) (h_flp (?h1\<lparr>h_flp := a\<rparr>)) ((a, n1) # vs1) 0"
        using fl2 by (simp del: freelist.simps)
      show "tiles (set ((a, n1) # vs1) \<union> ?R) (h_start h) (brk h)" using t1 Nil by simp
    qed (use ap1 sub F in \<open>auto simp: brk_def\<close>)
    ultimately show ?thesis by blast
  next
    case (snoc us' c)
    obtain b m where c: "c = (b, m)" by fastforce
    have b0: "b \<noteq> 0" using freelist_nonnull [OF fl, of c] F snoc c by simp
    have "free (a + sz_t) h = Some (free_lower a b ?h1)"
      using snoc c F flp0 pos h1 b0 by (simp add: free_def Let_def)
    moreover have "\<exists>F2. freelist (free_lower a b ?h1) (h_flp (free_lower a b ?h1)) F2 0 \<and> apart F2
      \<and> tiles (set F2 \<union> ?R) (h_start h) (brk h) \<and> fst ` set F2 \<subseteq> fst ` set (us' @ (b, m) # (a, n1) # vs1)
      \<and> (\<forall>x. x \<noteq> b \<longrightarrow> h_sz (free_lower a b ?h1) x = h_sz ?h1 x)
      \<and> brk (free_lower a b ?h1) = brk ?h1 \<and> h_start (free_lower a b ?h1) = h_start ?h1
      \<and> h_end (free_lower a b ?h1) = h_end ?h1"
    proof (rule free_lower_step)
      show "freelist ?h1 (h_flp ?h1) (us' @ [(b, m)]) (addr_or vs 0)"
        using fl F snoc c a1(1) freelist_addr [of ?h "h_nx h b" vs 0] by simp
      show "distinct (map fst (us' @ (b, m) # (a, n1) # vs1))"
      proof -
        have "fst ` set vs1 \<subseteq> fst ` set vs" using sub by (rule image_mono)
        moreover have "fst ` set us' \<inter> fst ` set vs = {}" "b \<notin> fst ` set vs" "b \<notin> fst ` set us'"
          "distinct (map fst us')" using I(3) F snoc c by auto
        moreover have "distinct (map fst vs1)" using apart_addrs [OF ap1] by simp
        moreover have "a \<noteq> b" "a \<notin> fst ` set us'" using a1 snoc c by auto
        ultimately show ?thesis using a1(2) by (auto simp del: image_iff)
      qed
      show "tiles (insert (a, n1) (set (us' @ (b, m) # vs1) \<union> ?R)) (h_start h) (brk h)"
        using t1 snoc c by (simp add: Un_ac insert_commute)
      show "(b, m) \<notin> ?R" using I(5) F snoc c all by auto
    qed (use fl2 ap ap1 below snoc c aR I(9,10) in \<open>auto\<close>)
    then obtain F2 where F2:
      "freelist (free_lower a b ?h1) (h_flp (free_lower a b ?h1)) F2 0" "apart F2"
      "tiles (set F2 \<union> ?R) (h_start h) (brk h)" "fst ` set F2 \<subseteq> fst ` set (us' @ (b, m) # (a, n1) # vs1)"
      "\<forall>x. x \<noteq> b \<longrightarrow> h_sz (free_lower a b ?h1) x = h_sz ?h1 x"
      "brk (free_lower a b ?h1) = brk ?h1" "h_start (free_lower a b ?h1) = h_start ?h1"
      "h_end (free_lower a b ?h1) = h_end ?h1" by blast
    have "heap_inv (free_lower a b ?h1) F2 ?A"
    proof (rule finish [OF F2(1-3)])
      show "fst ` set F2 \<subseteq> insert a (fst ` set F)" using F2(4) sub F snoc c by auto
      show "\<forall>x. x \<notin> insert a (fst ` set F) \<longrightarrow> h_sz (free_lower a b ?h1) x = h_sz h x"
        using F2(5) F snoc c by auto
    qed (use F2(6-8) in \<open>simp_all add: brk_def\<close>)
    ultimately show ?thesis by blast
  qed
qed

section \<open>Consequences\<close>

lemma heap_inv_init:
  "sz_t \<le> lo \<Longrightarrow> lo \<le> hi \<Longrightarrow> hi < 2 ^ 32 \<Longrightarrow> heap_inv (mem_heap_init lo hi empty_heap) [] Map.empty"
  by (simp add: heap_inv_def mem_heap_init_def empty_heap_def brk_def allocated_def)

lemma allocated_blocks_disjoint:
  assumes "heap_inv h F A" and "A a = Some n" and "A b = Some m" and "a \<noteq> b"
  shows "{a + sz_t ..< a + sz_t + n} \<inter> {b + sz_t ..< b + sz_t + m} = {}"
proof -
  have "separate (a, n) (b, m)"
    using tiles_separate [OF heap_invD(4) [OF assms(1)], of "(a, n)" "(b, m)"] assms(2-4)
    by (simp add: allocated_def)
  then show ?thesis by (auto simp: separate_def)
qed

lemma allocated_block_in_heap:
  assumes "heap_inv h F A" and "A a = Some n"
  shows "h_start h \<le> a" "a + sz_t + n \<le> h_end h" "sz_t \<le> n"
  using tiles_bounds [OF heap_invD(4) [OF assms(1)], of "(a, n)"] heap_invD(9) [OF assms(1)] assms(2)
  by (auto simp: allocated_def)

text \<open>When everything has been freed, the free list is one chunk: nothing is fragmented or lost.\<close>

lemma all_freed_coalesces:
  assumes inv: "heap_inv h F Map.empty" and ne: "h_start h < brk h"
  shows "F = [(h_start h, brk h - h_start h - sz_t)]"
proof -
  note I = heap_invD [OF inv]
  have t: "tiles (set F) (h_start h) (brk h)" using I(4) by (simp add: allocated_def)
  have cover: "\<exists>c \<in> set F. fst c \<le> x \<and> x < top c" if "h_start h \<le> x" "x < brk h" for x
    using t that by (simp add: tiles_def)
  have bounds: "h_start h \<le> fst c \<and> top c \<le> brk h" if "c \<in> set F" for c
    using tiles_bounds [OF t that] by simp
  obtain c F' where F: "F = c # F'" using cover [of "h_start h"] ne by (cases F) auto
  have gap: "top c < fst d" if "d \<in> set F'" for d using I(2) F that by simp
  have "fst c = h_start h"
  proof -
    obtain d where d: "d \<in> set F" "fst d \<le> h_start h" using cover [of "h_start h"] ne by auto
    have "d \<notin> set F'"
      using gap [of d] d(2) bounds [of c] F by (auto simp: top_def)
    with d F bounds [of c] show ?thesis by auto
  qed
  moreover have "top c = brk h"
  proof (rule ccontr)
    assume "top c \<noteq> brk h"
    then have "h_start h \<le> top c" "top c < brk h" using bounds [of c] F by (auto simp: top_def)
    then obtain d where d: "d \<in> set F" "fst d \<le> top c" "top c < top d" using cover by blast
    with F have "d \<in> set F'" by auto
    with gap d(2) show False by fastforce
  qed
  moreover have "F' = []"
  proof (rule ccontr)
    assume "F' \<noteq> []"
    then obtain d where d: "d \<in> set F'" by (cases F') auto
    have "top d \<le> brk h" using bounds [of d] d F by simp
    then show False using gap [OF d] \<open>top c = brk h\<close> by (simp add: top_def)
  qed
  ultimately show ?thesis using F by (cases c) auto
qed

text \<open>The contract of \<open>malloc\<close> on blocks of bytes.\<close>

lemma malloc_block:
  assumes inv: "heap_inv h F A"
  shows "\<exists>p h' F' A'. malloc len h = Some (p, h') \<and> heap_inv h' F' A'
    \<and> (p = 0 \<longrightarrow> A' = A \<and> (\<forall>c \<in> set F. snd c < len \<or> snd c < sz_t) \<and> h_end h < brk h + sz_t + chunk_len len)
    \<and> (p \<noteq> 0 \<longrightarrow> h_start h' \<le> p \<and> p + len \<le> h_end h' \<and> A (p - sz_t) = None \<and> (\<exists>n \<ge> len. A' = A(p - sz_t \<mapsto> n))
         \<and> (\<forall>a n. A a = Some n \<longrightarrow> {a + sz_t ..< a + sz_t + n} \<inter> {p ..< p + len} = {}))"
  using malloc_cases [OF inv, of len]
proof (elim disjE exE conjE)
  fix a n h' F'
  assume m: "malloc len h = Some (a + sz_t, h')" "A a = None" "chunk_len len \<le> n" "heap_inv h' F' (A(a \<mapsto> n))"
  have le: "len \<le> n" using m(3) by (simp add: chunk_len_def split: if_splits)
  have blk: "h_start h' \<le> a" "a + sz_t + n \<le> h_end h'"
    using allocated_block_in_heap [OF m(4), of a n] by simp_all
  have "{b + sz_t ..< b + sz_t + k} \<inter> {a + sz_t ..< a + sz_t + len} = {}" if "A b = Some k" for b k
  proof -
    have "b \<noteq> a" using that m(2) by auto
    then have "{b + sz_t ..< b + sz_t + k} \<inter> {a + sz_t ..< a + sz_t + n} = {}"
      using allocated_blocks_disjoint [OF m(4), of b k a n] that by simp
    then show ?thesis using le by auto
  qed
  then show ?thesis using m le blk
    by (intro exI [of _ "a + sz_t"] exI [of _ h'] exI [of _ F'] exI [of _ "A(a \<mapsto> n)"]) auto
next
  fix h' assume m: "malloc len h = Some (0, h')" "heap_inv h' F A" "\<forall>c \<in> set F. snd c < chunk_len len"
    "h_end h < brk h + sz_t + chunk_len len"
  then show ?thesis
    by (intro exI [of _ 0] exI [of _ h'] exI [of _ F] exI [of _ A]) (auto simp: chunk_len_def split: if_splits)
qed

end
