(* ===== verification/Key_Queue.thy ===== *)
theory Key_Queue imports Kernel_List begin

text \<open>
  The ring buffer for keycodes, \<open>include/geekos/queue.h\<close>: 256 slots, of which at most 255 are
  used; \<open>enqueue\<close> drops the item when the buffer is full and \<open>dequeue\<close> asserts that it is not
  empty.
\<close>

definition QUEUE_SIZE :: nat where "QUEUE_SIZE = 256"
definition QUEUE_MASK :: int where "QUEUE_MASK = 0xff"

definition NEXT :: "int \<Rightarrow> int" where
  "NEXT index = (index + 1) AND QUEUE_MASK"

record ring =
  s_queue :: "u16 list"
  s_queue_head :: int
  s_queue_tail :: int

definition empty_ring :: ring where
  "empty_ring = \<lparr>s_queue = replicate QUEUE_SIZE 0, s_queue_head = 0, s_queue_tail = 0\<rparr>"

definition is_queue_full :: "ring \<Rightarrow> bool" where
  "is_queue_full r = (NEXT (s_queue_tail r) = s_queue_head r)"

definition is_queue_empty :: "ring \<Rightarrow> bool" where
  "is_queue_empty r = (s_queue_head r = s_queue_tail r)"

definition enqueue :: "u16 \<Rightarrow> ring \<Rightarrow> ring" where
  "enqueue item r =
     (if \<not> is_queue_full r
      then r\<lparr>s_queue := (s_queue r)[nat (s_queue_tail r) := item],
             s_queue_tail := NEXT (s_queue_tail r)\<rparr>
      else r)"

definition dequeue :: "ring \<Rightarrow> (u16 \<times> ring) option" where
  "dequeue r = do {
     kassert (\<not> is_queue_empty r);
     let res = s_queue r ! nat (s_queue_head r);
     Some (res, r\<lparr>s_queue_head := NEXT (s_queue_head r)\<rparr>)
   }"

lemma NEXT_mod: "NEXT i = (i + 1) mod 256"
proof -
  have "(i + 1) AND mask 8 = take_bit 8 (i + 1)" by (simp only: take_bit_eq_mask)
  then show ?thesis by (simp add: NEXT_def QUEUE_MASK_def take_bit_eq_mod mask_eq_exp_minus_1)
qed

text \<open>The items of the buffer, oldest first.\<close>

definition ring_rep :: "ring \<Rightarrow> u16 list \<Rightarrow> bool" where
  "ring_rep r xs \<longleftrightarrow>
     length (s_queue r) = QUEUE_SIZE \<and> 0 \<le> s_queue_head r \<and> s_queue_head r < 256
     \<and> length xs \<le> 255 \<and> s_queue_tail r = (s_queue_head r + int (length xs)) mod 256
     \<and> (\<forall>i < length xs. xs ! i = s_queue r ! nat ((s_queue_head r + int i) mod 256))"

lemma ring_rep_empty: "ring_rep empty_ring []"
  by (simp add: ring_rep_def empty_ring_def QUEUE_SIZE_def)

lemma mod_256_inj:
  assumes "((h :: int) + int a) mod 256 = (h + int b) mod 256" and "a \<le> 255" and "b \<le> 255"
  shows "a = b"
proof -
  have "256 dvd (int a - int b)" using assms(1) by (simp add: mod_eq_dvd_iff)
  then obtain k where "int a - int b = 256 * k" by (rule dvdE)
  moreover from this assms(2,3) have "k < 1" "- 1 < k" by linarith+
  ultimately show ?thesis by simp
qed

lemma ring_empty_iff: "ring_rep r xs \<Longrightarrow> is_queue_empty r \<longleftrightarrow> xs = []"
  using mod_256_inj [of "s_queue_head r" "length xs" 0] by (auto simp: ring_rep_def is_queue_empty_def)

lemma ring_full_iff: "ring_rep r xs \<Longrightarrow> is_queue_full r \<longleftrightarrow> length xs = 255"
proof -
  assume r: "ring_rep r xs"
  let ?h = "s_queue_head r"
  have "NEXT (s_queue_tail r) = (?h + int (length xs) + 1) mod 256"
    using r by (simp add: NEXT_mod ring_rep_def mod_simps)
  then have n: "NEXT (s_queue_tail r) = (?h + int (Suc (length xs))) mod 256" by (simp add: algebra_simps)
  have h: "?h = (?h + int 0) mod 256" and l: "length xs \<le> 255" using r by (simp_all add: ring_rep_def)
  show ?thesis
  proof (cases "length xs = 255")
    case True
    then have "(?h + int (Suc (length xs))) mod 256 = ?h" using h by simp
    then show ?thesis using n True by (simp add: is_queue_full_def)
  next
    case False
    with l mod_256_inj [of ?h "Suc (length xs)" 0] h n show ?thesis by (auto simp: is_queue_full_def)
  qed
qed

lemma enqueue_rep:
  assumes r: "ring_rep r xs" and room: "length xs < 255"
  shows "ring_rep (enqueue x r) (xs @ [x])"
proof -
  let ?h = "s_queue_head r" and ?t = "s_queue_tail r"
  have b: "length (s_queue r) = 256" "0 \<le> ?h" "?h < 256" "?t = (?h + int (length xs)) mod 256"
    using r by (simp_all add: ring_rep_def QUEUE_SIZE_def)
  have at: "\<And>i. i < length xs \<Longrightarrow> xs ! i = s_queue r ! nat ((?h + int i) mod 256)"
    using r by (simp add: ring_rep_def)
  have e: "enqueue x r = r\<lparr>s_queue := (s_queue r)[nat ?t := x], s_queue_tail := NEXT ?t\<rparr>"
    using ring_full_iff [OF r] room by (simp add: enqueue_def)
  have t: "nat ?t < 256" unfolding b(4) by simp
  have "(xs @ [x]) ! i = (s_queue r)[nat ?t := x] ! nat ((?h + int i) mod 256)"
    if "i < length (xs @ [x])" for i
  proof (cases "i = length xs")
    case True
    then show ?thesis using b t by simp
  next
    case False
    then have i: "i < length xs" using that by simp
    have "(?h + int i) mod 256 \<noteq> ?t"
      using mod_256_inj [of ?h i "length xs"] i room b(4) by auto
    then have "nat ?t \<noteq> nat ((?h + int i) mod 256)" unfolding b(4) by (simp add: nat_eq_iff)
    then show ?thesis using at [OF i] i by (simp add: nth_append)
  qed
  moreover have "NEXT ?t = (?h + int (length (xs @ [x]))) mod 256"
    unfolding b(4) NEXT_mod by (simp add: mod_simps algebra_simps)
  ultimately show ?thesis
    using b room unfolding e by (simp add: ring_rep_def QUEUE_SIZE_def)
qed

text \<open>A full buffer drops the new item and keeps the old ones.\<close>

lemma enqueue_full: "ring_rep r xs \<Longrightarrow> length xs = 255 \<Longrightarrow> enqueue x r = r"
  using ring_full_iff by (simp add: enqueue_def)

lemma dequeue_rep:
  assumes r: "ring_rep r (x # xs)"
  shows "\<exists>r'. dequeue r = Some (x, r') \<and> ring_rep r' xs"
proof -
  let ?h = "s_queue_head r"
  let ?r = "r\<lparr>s_queue_head := NEXT ?h\<rparr>"
  have b: "length (s_queue r) = 256" "0 \<le> ?h" "?h < 256" "length xs < 255"
    "s_queue_tail r = (?h + int (length xs) + 1) mod 256"
    using r by (auto simp: ring_rep_def QUEUE_SIZE_def algebra_simps)
  have at: "\<And>i. i < Suc (length xs) \<Longrightarrow> (x # xs) ! i = s_queue r ! nat ((?h + int i) mod 256)"
    using r by (simp add: ring_rep_def)
  have x: "s_queue r ! nat ?h = x" using at [of 0] b by simp
  have "xs ! i = s_queue r ! nat ((NEXT ?h + int i) mod 256)" if "i < length xs" for i
  proof -
    have "(NEXT ?h + int i) mod 256 = (?h + int (Suc i)) mod 256"
      by (simp add: NEXT_mod mod_simps algebra_simps)
    then show ?thesis using at [of "Suc i"] that by simp
  qed
  moreover have "s_queue_tail r = (NEXT ?h + int (length xs)) mod 256"
    unfolding b(5) by (simp add: NEXT_mod mod_simps algebra_simps)
  moreover have "0 \<le> NEXT ?h" "NEXT ?h < 256" by (simp_all add: NEXT_mod)
  ultimately have "ring_rep ?r xs" using b by (simp add: ring_rep_def QUEUE_SIZE_def)
  moreover have "dequeue r = Some (x, ?r)"
    using ring_empty_iff [OF r] x by (simp add: dequeue_def halt_simps)
  ultimately show ?thesis by simp
qed

lemma dequeue_empty: "ring_rep r [] \<Longrightarrow> dequeue r = None"
  using ring_empty_iff by (simp add: dequeue_def halt_simps)

interpretation keys: fifo_queue ring_rep is_queue_empty "\<lambda>x r. Some (enqueue x r)" dequeue
  "\<lambda>x xs. length xs < 255"
  by unfold_locales (simp_all add: ring_empty_iff enqueue_rep dequeue_rep dequeue_empty)

text \<open>Typing and reading through the interface, and the full queue.\<close>

lemma key_fifo:
  assumes "ring_rep r []" and "length xs \<le> 255"
  shows "\<exists>r' r''. enq_list (\<lambda>x r. Some (enqueue x r)) xs r = Some r' \<and> deq_many dequeue (length xs) r' = Some (xs, r'')
    \<and> is_queue_empty r'' \<and> (length xs = 255 \<longrightarrow> enqueue k r' = r')"
proof -
  have room: "length us < 255" if "xs = us @ x # vs" for us x vs using assms(2) that by simp
  have room': "length ([] @ us) < 255" if "xs = us @ x # vs" for us x vs using room [OF that] by simp
  have "\<exists>r'. enq_list (\<lambda>x r. Some (enqueue x r)) xs r = Some r' \<and> ring_rep r' ([] @ xs)"
    by (rule keys.enq_list_rep [OF assms(1)]) (rule room')
  then obtain r' where r': "enq_list (\<lambda>x r. Some (enqueue x r)) xs r = Some r'" "ring_rep r' ([] @ xs)" by blast
  have "\<exists>s' s''. enq_list (\<lambda>x r. Some (enqueue x r)) xs r = Some s' \<and> deq_many dequeue (length xs) s' = Some (xs, s'')
    \<and> ring_rep s'' [] \<and> is_queue_empty s''"
    by (rule keys.fifo_order [OF assms(1)]) (rule room)
  then obtain r'' where "deq_many dequeue (length xs) r' = Some (xs, r'')" "is_queue_empty r''"
    using r'(1) by auto
  then show ?thesis using r' enqueue_full [of r' xs k] by auto
qed

end
