(* ===== verification/Kernel_State.thy ===== *)
theory Kernel_State imports Sched_Queue Run_Stat Malloc Key_Queue begin

text \<open>
  The state of the kernel (the structures of \<open>include/60-330/geekos/thread.h\<close>,
  \<open>include/60-330/process.h\<close>, \<open>include/geekos/mem.h\<close>, \<open>include/geekos/synch.h\<close> and the
  globals of \<open>thread.c\<close>, \<open>timer.c\<close>, \<open>mem.c\<close>, \<open>workqueue.c\<close>, \<open>keyboard.c\<close>) and the
  operations every other component builds on: the interrupt flag, the ready queue, the
  context switch, waiting and waking up.

  A context switch ends the part of a function that runs before it: an operation that calls
  \<open>thread_schedule\<close> returns the state in which the \<^emph>\<open>next\<close> thread runs, and what the
  caller does after it is dispatched again is an operation of its own.  The processor state
  that \<open>thread_switch_to\<close> saves on the stack is represented by the stack pointer
  and by the saved interrupt flag; the other registers carry no kernel state.
\<close>

section \<open>Data\<close>

datatype thread_state =
  THREAD_NEW | THREAD_READY | THREAD_RUNNING | THREAD_WAITING | THREAD_EXITED | THREAD_KILLED

datatype thread_mode = THREAD_ATTACHED | THREAD_DETACHED

record process =
  pid :: int
  priority :: int
  time :: time_stat

text \<open>\<open>process_ptr\<close> is the pointer field \<open>process\<close>; \<open>process\<close> is the object it points to,
  which no other thread shares.  \<open>saved_if\<close> is the interrupt flag in the context that
  \<open>stack_ptr\<close> points to; \<open>start_func\<close> and \<open>start_arg\<close> are the words that
  \<open>thread_bootstrap\<close> pushes for \<open>thread_run\<close>.\<close>

record thread =
  stack_ptr :: u32
  num_ticks :: u32
  stack :: nat
  parent :: nat
  process_ptr :: nat
  process :: process
  tstate :: thread_state
  exitcode :: int
  refcount :: int
  saved_if :: bool
  start_func :: nat
  start_arg :: u32

datatype qid =
  RunQ | NewQ | HeapWaitQ | FrameWaitQ | WorkWaitQ | ThreadWaitQ nat | MutexWaitQ nat
| CondWaitQ nat | ReqWaitQ nat

datatype frame_state =
  FRAME_AVAIL | FRAME_KERN | FRAME_HW | FRAME_UNUSED | FRAME_HEAP | FRAME_KSTACK | FRAME_VM_PGCACHE

datatype page_content = PAGE_PENDING_INIT | PAGE_FAILED_INIT | PAGE_CLEAN | PAGE_DIRTY

record frame =
  f_state :: frame_state
  vm_pgcache_page_num :: u32
  f_refcount :: int
  content :: page_content
  errc :: int

text \<open>The lists of frames: the free list and the frame list of each page cache.\<close>

datatype flist = FreeFrames | PgCacheFrames nat

datatype mutex_state = MUTEX_UNLOCKED | MUTEX_LOCKED

record mutex =
  m_state :: mutex_state
  m_owner :: nat

text \<open>The functions whose address is passed to \<open>workqueue_schedule_work\<close>.\<close>

datatype callback = Thread_destroy | Ramdisk_handle_request

record workqueue_item =
  callback :: callback
  item_data :: nat
  item_next :: nat

datatype message =
  Changed int string | Deallocated int | Making_new int int | Starting int int string

record kernel =
  threads :: "nat \<rightharpoonup> thread"
  tqs :: "(qid, nat) lstore"
  g_current :: nat
  g_need_reschedule :: bool
  g_preemption :: bool
  int_flag :: bool
  g_scheduler :: scheduler
  g_quantum :: int
  g_numticks :: u32
  next_pid :: int
  g_num_threads :: int
  g_simulation_active :: bool
  esp :: u32
  klog :: "message list"
  heap :: heap
  frames :: "nat \<Rightarrow> frame"
  flists :: "(flist, nat) lstore"
  s_numframes :: nat
  wq_items :: "nat \<rightharpoonup> workqueue_item"
  s_workqueue_head :: nat
  s_workqueue_tail :: nat
  mutexes :: "nat \<Rightarrow> mutex"
  keys :: ring

definition upd_thread :: "nat \<Rightarrow> (thread \<Rightarrow> thread) \<Rightarrow> kernel \<Rightarrow> kernel" where
  "upd_thread t f s = s\<lparr>threads := (threads s)(t := map_option f (threads s t))\<rparr>"

text \<open>\<open>thread->process\<close>, dereferenced.\<close>

definition process_of :: "nat \<Rightarrow> kernel \<Rightarrow> process option" where
  "process_of t s = do {
     th \<leftarrow> threads s t;
     kassert (process_ptr th \<noteq> 0);
     Some (process th)
   }"

definition prio_of :: "kernel \<Rightarrow> nat \<Rightarrow> int option" where
  "prio_of s t = map_option priority (process_of t s)"

section \<open>Interrupts\<close>

definition int_enabled :: "kernel \<Rightarrow> bool" where
  "int_enabled s = int_flag s"

definition int_enable :: "kernel \<Rightarrow> kernel option" where
  "int_enable s = do { kassert (\<not> int_enabled s); Some (s\<lparr>int_flag := True\<rparr>) }"

definition int_disable :: "kernel \<Rightarrow> kernel option" where
  "int_disable s = do { kassert (int_enabled s); Some (s\<lparr>int_flag := False\<rparr>) }"

definition int_begin_atomic :: "kernel \<Rightarrow> (bool \<times> kernel) option" where
  "int_begin_atomic s = (
     let iflag = int_enabled s in
     if iflag then do { s \<leftarrow> int_disable s; Some (iflag, s) } else Some (iflag, s))"

definition int_end_atomic :: "bool \<Rightarrow> kernel \<Rightarrow> kernel option" where
  "int_end_atomic iflag s = (if iflag then int_enable s else Some s)"

lemma int_begin_atomic_eq [simp]:
  "int_begin_atomic s = Some (int_flag s, s\<lparr>int_flag := False\<rparr>)"
  by (simp add: int_begin_atomic_def int_enabled_def int_disable_def halt_simps Let_def)

lemma int_end_atomic_eq [simp]:
  "\<not> int_flag s \<Longrightarrow> int_end_atomic iflag s = Some (s\<lparr>int_flag := iflag\<rparr>)"
  by (simp add: int_end_atomic_def int_enable_def int_enabled_def halt_simps)

section \<open>The ready queue and the context switch\<close>

definition narrator :: "int \<Rightarrow> string \<Rightarrow> kernel \<Rightarrow> kernel" where
  "narrator p message s =
     (if g_simulation_active s \<and> p \<ge> 3 then s\<lparr>klog := klog s @ [Changed p message]\<rparr> else s)"

definition thread_make_runnable :: "nat \<Rightarrow> kernel \<Rightarrow> kernel option" where
  "thread_make_runnable t s = do {
     (iflag, s) \<leftarrow> int_begin_atomic s;
     let s = upd_thread t (\<lambda>th. th\<lparr>tstate := THREAD_READY\<rparr>) s;
     p \<leftarrow> process_of t s;
     let s = narrator (pid p) ''ready'' s;
     q \<leftarrow> SCHEDULER (g_scheduler s) (prio_of s) RunQ t (tqs s);
     int_end_atomic iflag (s\<lparr>tqs := q\<rparr>)
   }"

definition thread_next_runnable :: "kernel \<Rightarrow> (nat \<times> kernel) option" where
  "thread_next_runnable s = do {
     kassert (\<not> int_enabled s);
     (next, q) \<leftarrow> list_remove_first RunQ (tqs s);
     let s = s\<lparr>tqs := q\<rparr>;
     kassert (next \<noteq> 0);
     let s = upd_thread next (\<lambda>th. th\<lparr>tstate := THREAD_RUNNING\<rparr>) s;
     p \<leftarrow> process_of next s;
     Some (next, narrator (pid p) ''running'' s)
   }"

definition THREAD_STACK_PTR_OFFSET :: nat where "THREAD_STACK_PTR_OFFSET = 0"
definition THREAD_CONTEXT_SIZE :: nat where "THREAD_CONTEXT_SIZE = 64"

text \<open>What the compiler makes of \<open>struct thread_context\<close> (16 words) and of \<open>struct thread\<close>, whose first field it is.\<close>

definition sizeof_thread_context :: nat where "sizeof_thread_context = 4 * 16"
definition offsetof_stack_ptr :: nat where "offsetof_stack_ptr = 0"

lemmas thread_layout = THREAD_STACK_PTR_OFFSET_def THREAD_CONTEXT_SIZE_def sizeof_thread_context_def offsetof_stack_ptr_def

text \<open>
  \<open>src/x86/kernel/x86_thread_asm.S\<close>: the return address is moved down 8 bytes to make room
  for \<open>eflags\<close> and \<open>cs\<close>, two words and 11 registers (\<open>THREAD_SAVED_REG_LEN\<close> = 44) are
  pushed, and the reverse is popped from the stack of the new thread, with \<open>iret\<close> taking
  \<open>eip\<close>, \<open>cs\<close> and \<open>eflags\<close>.
\<close>

definition thread_switch_to :: "nat \<Rightarrow> kernel \<Rightarrow> kernel option" where
  "thread_switch_to t s = do {
     kassert (threads s (g_current s) \<noteq> None);
     let s = upd_thread (g_current s)
       (\<lambda>th. th\<lparr>stack_ptr := esp s - 8 - 8 - 44, saved_if := int_flag s\<rparr>) s;
     th \<leftarrow> threads s t;
     Some (s\<lparr>g_current := t, esp := stack_ptr th + 44 + 8 + 12, int_flag := saved_if th\<rparr>)
   }"

definition thread_schedule :: "kernel \<Rightarrow> kernel option" where
  "thread_schedule s = do {
     kassert (\<not> int_enabled s);
     (next, s) \<leftarrow> thread_next_runnable s;
     thread_switch_to next s
   }"

definition thread_relinquish_cpu :: "kernel \<Rightarrow> kernel option" where
  "thread_relinquish_cpu s = do {
     th \<leftarrow> threads s (g_current s);
     kassert (tstate th = THREAD_RUNNING);
     Some (upd_thread (g_current s) (\<lambda>th. th\<lparr>num_ticks := 0\<rparr>) s)
   }"

text \<open>\<open>thread_yield\<close> up to the switch, with its local \<open>iflag\<close>; the rest is \<open>int_end_atomic\<close>.\<close>

definition thread_yield :: "kernel \<Rightarrow> (bool \<times> kernel) option" where
  "thread_yield s = do {
     (iflag, s) \<leftarrow> int_begin_atomic s;
     s \<leftarrow> thread_relinquish_cpu s;
     s \<leftarrow> thread_make_runnable (g_current s) s;
     s \<leftarrow> thread_schedule s;
     Some (iflag, s)
   }"

section \<open>Waiting and waking up\<close>

definition thread_wait :: "qid \<Rightarrow> kernel \<Rightarrow> kernel option" where
  "thread_wait q s = do {
     kassert (\<not> int_enabled s);
     p \<leftarrow> process_of (g_current s) s;
     let s = narrator (pid p) ''waiting'' s;
     s \<leftarrow> thread_relinquish_cpu s;
     l \<leftarrow> list_append q (g_current s) (tqs s);
     thread_schedule (s\<lparr>tqs := l\<rparr>)
   }"

definition thread_park :: "qid \<Rightarrow> kernel \<Rightarrow> kernel option" where
  "thread_park q s = do {
     kassert (\<not> g_preemption s);
     s \<leftarrow> int_disable s;
     thread_wait q (s\<lparr>g_preemption := True\<rparr>)
   }"

text \<open>What \<open>thread_park\<close> does when the thread has been dispatched again.\<close>

definition thread_park_resume :: "kernel \<Rightarrow> kernel option" where
  "thread_park_resume s = int_enable (s\<lparr>g_preemption := False\<rparr>)"

definition thread_wakeup_one :: "qid \<Rightarrow> kernel \<Rightarrow> kernel option" where
  "thread_wakeup_one q s = do {
     kassert (\<not> int_enabled s);
     (t, l) \<leftarrow> list_remove_first q (tqs s);
     let s = s\<lparr>tqs := l\<rparr>;
     if t \<noteq> 0 then thread_make_runnable t s else Some s
   }"

partial_function (option) thread_wakeup :: "qid \<Rightarrow> kernel \<Rightarrow> kernel option" where
  "thread_wakeup q s =
     (if \<not> list_is_empty q (tqs s) then do { s \<leftarrow> thread_wakeup_one q s; thread_wakeup q s }
      else Some s)"

section \<open>Timer interrupts\<close>

definition RR_scheduler :: "kernel \<Rightarrow> kernel option" where
  "RR_scheduler s = do {
     th \<leftarrow> threads s (g_current s);
     Some (if num_ticks th > of_int (g_quantum s) then s\<lparr>g_need_reschedule := True\<rparr> else s)
   }"

definition timer_process_tick :: "kernel \<Rightarrow> kernel option" where
  "timer_process_tick s = do {
     let s = s\<lparr>g_numticks := g_numticks s + 1\<rparr>;
     let s = upd_thread (g_current s) (\<lambda>th. th\<lparr>num_ticks := num_ticks th + 1\<rparr>) s;
     p \<leftarrow> process_of (g_current s) s;
     let s = upd_thread (g_current s)
       (\<lambda>th. th\<lparr>process := p\<lparr>time := (time p)\<lparr>running := running (time p) + 1\<rparr>\<rparr>\<rparr>) s;
     if g_scheduler s = RR then RR_scheduler s else Some s
   }"

text \<open>
  \<open>int_handle_interrupt\<close> (\<open>src/x86/kernel/x86_int_asm.S\<close>) after the handler: \<open>iflag\<close> is
  the interrupt flag that the processor pushed on the stack of the interrupted thread.
\<close>

definition interrupt_return :: "bool \<Rightarrow> kernel \<Rightarrow> kernel option" where
  "interrupt_return iflag s =
     (if \<not> g_preemption s \<or> \<not> g_need_reschedule s then Some (s\<lparr>esp := esp s + 44 + 8 + 12, int_flag := iflag\<rparr>)
      else do {
        let s = s\<lparr>g_need_reschedule := False\<rparr>;
        let cur = g_current s;
        kassert (threads s cur \<noteq> None);
        let s = upd_thread cur (\<lambda>th. th\<lparr>stack_ptr := esp s, saved_if := iflag\<rparr>) s;
        s \<leftarrow> thread_relinquish_cpu s;
        s \<leftarrow> thread_make_runnable cur s;
        (next, s) \<leftarrow> thread_next_runnable s;
        th \<leftarrow> threads s next;
        Some (s\<lparr>g_current := next, esp := stack_ptr th + 44 + 8 + 12, int_flag := saved_if th\<rparr>)
      })"

text \<open>
  A timer interrupt (\<open>timer_int_handler\<close>, \<open>src/x86/kernel/x86_timer.c\<close>): entry through an
  interrupt gate pushes three words and clears the flag, and the stub and
  \<open>int_handle_interrupt\<close> push the error code, the interrupt number and the registers.
\<close>

definition timer_interrupt :: "kernel \<Rightarrow> kernel option" where
  "timer_interrupt s = do {
     let iflag = int_flag s;
     s \<leftarrow> timer_process_tick (s\<lparr>int_flag := False, esp := esp s - 12 - 8 - 44\<rparr>);
     interrupt_return iflag s
   }"

end
