(* ===== verification/Kernel_Sched.thy ===== *)
theory Kernel_Sched imports Kernel_State begin

text \<open>
  The scheduler's invariant and its abstract behaviour.  The abstract state is the content of
  every thread queue, \<open>A :: qid \<Rightarrow> nat list\<close>, and the running thread; each operation of
  \<open>Kernel_State\<close> is proved to implement an operation on it and never to halt, given that a
  thread is ready to run.
\<close>

section \<open>Invariant\<close>

text \<open>The state of the threads on each queue.  A waiting thread is still \<open>THREAD_RUNNING\<close>:
  \<open>thread_wait\<close> never assigns \<open>THREAD_WAITING\<close>.\<close>

definition state_on :: "qid \<Rightarrow> thread_state" where
  "state_on q = (case q of RunQ \<Rightarrow> THREAD_READY | NewQ \<Rightarrow> THREAD_NEW | _ \<Rightarrow> THREAD_RUNNING)"

definition wait_queue :: "qid \<Rightarrow> bool" where
  "wait_queue q \<longleftrightarrow> q \<noteq> RunQ \<and> q \<noteq> NewQ"

definition queued_ok :: "kernel \<Rightarrow> qid \<Rightarrow> nat \<Rightarrow> bool" where
  "queued_ok s q t \<longleftrightarrow> t \<noteq> 0 \<and> (\<exists>th. threads s t = Some th \<and> tstate th = state_on q \<and> process_ptr th \<noteq> 0)"

text \<open>Every queue is well formed and holds threads in its state.\<close>

definition queues_inv :: "(qid \<Rightarrow> nat list) \<Rightarrow> kernel \<Rightarrow> bool" where
  "queues_inv A s \<longleftrightarrow> lists_rep (tqs s) A \<and> (\<forall>q. \<forall>t \<in> set (A q). queued_ok s q t)"

text \<open>Every thread that has not ended is on a queue, or is one of \<open>X\<close>.\<close>

definition no_thread_lost :: "nat set \<Rightarrow> (qid \<Rightarrow> nat list) \<Rightarrow> kernel \<Rightarrow> bool" where
  "no_thread_lost X A s \<longleftrightarrow>
     (\<forall>t th. threads s t = Some th \<longrightarrow> tstate th \<notin> {THREAD_EXITED, THREAD_KILLED} \<longrightarrow>
       t \<in> X \<or> (\<exists>q. t \<in> set (A q)))"

definition sched_inv :: "(qid \<Rightarrow> nat list) \<Rightarrow> kernel \<Rightarrow> bool" where
  "sched_inv A s \<longleftrightarrow>
     queues_inv A s \<and> no_thread_lost {g_current s} A s
     \<and> on_no_list (g_current s) A \<and> queued_ok s (MutexWaitQ 0) (g_current s)"

text \<open>The fields that scheduling leaves alone.\<close>

definition rest :: "kernel \<Rightarrow> kernel" where
  "rest s = s\<lparr>threads := Map.empty, tqs := empty_lists, g_current := 0, int_flag := False,
              esp := 0, klog := []\<rparr>"

text \<open>The fields of a thread that scheduling leaves alone.\<close>

definition core :: "thread \<Rightarrow> thread" where
  "core th = th\<lparr>stack_ptr := 0, num_ticks := 0, tstate := THREAD_NEW, saved_if := False\<rparr>"

definition same_threads :: "kernel \<Rightarrow> kernel \<Rightarrow> bool" where
  "same_threads s s' \<longleftrightarrow> (\<forall>t. map_option core (threads s' t) = map_option core (threads s t))"

lemma state_on_simps [simp]:
  "state_on RunQ = THREAD_READY" "state_on NewQ = THREAD_NEW"
  "wait_queue q \<Longrightarrow> state_on q = THREAD_RUNNING"
  by (cases q; simp add: state_on_def wait_queue_def)+

lemma wait_queue_simps [simp]:
  "\<not> wait_queue RunQ" "\<not> wait_queue NewQ" "wait_queue HeapWaitQ" "wait_queue FrameWaitQ"
  "wait_queue WorkWaitQ" "wait_queue (ThreadWaitQ n)" "wait_queue (MutexWaitQ n)"
  "wait_queue (CondWaitQ n)" "wait_queue (ReqWaitQ n)"
  by (simp_all add: wait_queue_def)

lemma upd_thread_sel [simp]:
  "threads (upd_thread t f s) = (threads s)(t := map_option f (threads s t))"
  "tqs (upd_thread t f s) = tqs s" "g_current (upd_thread t f s) = g_current s"
  "int_flag (upd_thread t f s) = int_flag s" "g_preemption (upd_thread t f s) = g_preemption s"
  "g_scheduler (upd_thread t f s) = g_scheduler s" "g_quantum (upd_thread t f s) = g_quantum s"
  "g_need_reschedule (upd_thread t f s) = g_need_reschedule s" "esp (upd_thread t f s) = esp s"
  "g_simulation_active (upd_thread t f s) = g_simulation_active s"
  "g_numticks (upd_thread t f s) = g_numticks s" "klog (upd_thread t f s) = klog s"
  "rest (upd_thread t f s) = rest s"
  by (simp_all add: upd_thread_def rest_def)

lemma narrator_sel [simp]:
  "threads (narrator p m s) = threads s" "tqs (narrator p m s) = tqs s"
  "g_current (narrator p m s) = g_current s" "int_flag (narrator p m s) = int_flag s"
  "g_preemption (narrator p m s) = g_preemption s" "g_scheduler (narrator p m s) = g_scheduler s"
  "g_need_reschedule (narrator p m s) = g_need_reschedule s" "esp (narrator p m s) = esp s"
  "g_numticks (narrator p m s) = g_numticks s" "g_quantum (narrator p m s) = g_quantum s"
  "g_simulation_active (narrator p m s) = g_simulation_active s"
  "rest (narrator p m s) = rest s"
  by (simp_all add: narrator_def rest_def)

lemma rest_upd [simp]:
  "rest (s\<lparr>threads := a\<rparr>) = rest s" "rest (s\<lparr>tqs := l\<rparr>) = rest s" "rest (s\<lparr>g_current := c\<rparr>) = rest s"
  "rest (s\<lparr>int_flag := b\<rparr>) = rest s" "rest (s\<lparr>esp := e\<rparr>) = rest s" "rest (s\<lparr>klog := k\<rparr>) = rest s"
  by (simp_all add: rest_def)

lemma rest_fields:
  "g_preemption (rest s) = g_preemption s" "g_scheduler (rest s) = g_scheduler s" "g_need_reschedule (rest s) = g_need_reschedule s"
  "g_numticks (rest s) = g_numticks s" "g_quantum (rest s) = g_quantum s" "g_simulation_active (rest s) = g_simulation_active s"
  "heap (rest s) = heap s" "frames (rest s) = frames s" "flists (rest s) = flists s"
  "wq_items (rest s) = wq_items s" "s_workqueue_head (rest s) = s_workqueue_head s" "s_workqueue_tail (rest s) = s_workqueue_tail s"
  "mutexes (rest s) = mutexes s" "keys (rest s) = keys s" "next_pid (rest s) = next_pid s"
  "g_num_threads (rest s) = g_num_threads s" "s_numframes (rest s) = s_numframes s"
  by (simp_all add: rest_def)

lemma rest_sel:
  assumes "rest s' = rest s"
  shows "g_preemption s' = g_preemption s" "g_scheduler s' = g_scheduler s" "g_need_reschedule s' = g_need_reschedule s"
    "g_numticks s' = g_numticks s" "g_quantum s' = g_quantum s" "g_simulation_active s' = g_simulation_active s"
    "heap s' = heap s" "frames s' = frames s" "flists s' = flists s"
    "wq_items s' = wq_items s" "s_workqueue_head s' = s_workqueue_head s" "s_workqueue_tail s' = s_workqueue_tail s"
    "mutexes s' = mutexes s" "keys s' = keys s" "next_pid s' = next_pid s"
    "g_num_threads s' = g_num_threads s" "s_numframes s' = s_numframes s"
  by (metis assms rest_fields)+

lemma core_upd [simp]:
  "core (th\<lparr>stack_ptr := a\<rparr>) = core th" "core (th\<lparr>num_ticks := b\<rparr>) = core th"
  "core (th\<lparr>tstate := c\<rparr>) = core th" "core (th\<lparr>saved_if := d\<rparr>) = core th"
  "process_ptr (core th) = process_ptr th" "process (core th) = process th"
  "refcount (core th) = refcount th" "parent (core th) = parent th"
  "exitcode (core th) = exitcode th" "stack (core th) = stack th"
  by (simp_all add: core_def)

lemma same_threads_refl [simp]: "same_threads s s"
  by (simp add: same_threads_def)

lemma same_threads_trans: "same_threads s1 s2 \<Longrightarrow> same_threads s2 s3 \<Longrightarrow> same_threads s1 s3"
  by (simp add: same_threads_def)

lemma same_threads_dom: "same_threads s s' \<Longrightarrow> threads s' t = None \<longleftrightarrow> threads s t = None"
  unfolding same_threads_def by (metis map_option_is_None)

lemma same_threads_Some:
  "same_threads s s' \<Longrightarrow> threads s t = Some th \<Longrightarrow> \<exists>th'. threads s' t = Some th' \<and> core th' = core th"
  unfolding same_threads_def by (metis map_option_eq_Some option.map(2))

lemma same_threads_upd:
  "(\<And>th. core (f th) = core th) \<Longrightarrow> same_threads s s' \<Longrightarrow> same_threads s (upd_thread t f s')"
  by (simp add: same_threads_def option.map_comp comp_def)

lemma same_threads_threads: "threads s' = threads s'' \<Longrightarrow> same_threads s s' = same_threads s s''"
  by (simp add: same_threads_def)

lemma process_of_core:
  assumes "same_threads s s'"
  shows "process_of t s' = process_of t s"
proof (cases "threads s t")
  case None
  with same_threads_dom [OF assms, of t] show ?thesis by (simp add: process_of_def)
next
  case (Some th)
  then obtain th' where "threads s' t = Some th'" "core th' = core th"
    using same_threads_Some [OF assms] by blast
  then have "process_ptr (core th') = process_ptr (core th)" "process (core th') = process (core th)"
    by simp_all
  with Some \<open>threads s' t = Some th'\<close> show ?thesis by (simp add: process_of_def)
qed

lemma prio_of_core: "same_threads s s' \<Longrightarrow> prio_of s' = prio_of s"
  by (rule ext) (simp add: prio_of_def process_of_core)


section \<open>The operations\<close>

definition prio :: "kernel \<Rightarrow> nat \<Rightarrow> int" where
  "prio s t = the (prio_of s t)"

lemma queued_prio: "queued_ok s q t \<Longrightarrow> prio_of s t = Some (prio s t)"
  by (auto simp: queued_ok_def prio_def prio_of_def process_of_def)

lemma prio_core: "same_threads s s' \<Longrightarrow> prio s' = prio s"
  by (rule ext) (simp add: prio_def prio_of_core)

text \<open>A queue operation on threads whose data it leaves alone keeps the others.\<close>

lemma queued_ok_cong: "threads s' t = threads s t \<Longrightarrow> queued_ok s' q t = queued_ok s q t"
  by (simp add: queued_ok_def)

lemma queues_invD:
  assumes "queues_inv A s"
  shows "lists_rep (tqs s) A" "\<And>q t. t \<in> set (A q) \<Longrightarrow> queued_ok s q t"
  using assms by (simp_all add: queues_inv_def)

lemma queues_inv_move:
  assumes "queues_inv A s" and "lists_rep l (A(q := xs))" and "tqs s' = l"
    and "\<And>r t. r \<noteq> q \<Longrightarrow> t \<in> set (A r) \<Longrightarrow> threads s' t = threads s t"
    and "\<And>t. t \<in> set xs \<Longrightarrow> queued_ok s' q t"
  shows "queues_inv (A(q := xs)) s'"
proof -
  have "queued_ok s' r t" if "t \<in> set ((A(q := xs)) r)" for r t
  proof (cases "r = q")
    case True with that assms(5) show ?thesis by simp
  next
    case False
    with that have t: "t \<in> set (A r)" by simp
    from queued_ok_cong [OF assms(4) [OF False t]] queues_invD(2) [OF assms(1) t] show ?thesis by simp
  qed
  with assms(2,3) show ?thesis by (simp add: queues_inv_def)
qed

lemma on_no_list_upd:
  "on_no_list n (A(q := xs)) \<longleftrightarrow> n \<notin> set xs \<and> (\<forall>r. r \<noteq> q \<longrightarrow> n \<notin> set (A r))"
  by (auto simp: on_no_list_def)

lemma make_runnable_ok:
  assumes inv: "queues_inv A s" and t: "on_no_list t A" "t \<noteq> 0"
    and th: "threads s t = Some th" "process_ptr th \<noteq> 0"
  shows "\<exists>s'. thread_make_runnable t s = Some s'
    \<and> queues_inv (A(RunQ := sched_insert (g_scheduler s) (prio s) t (A RunQ))) s'
    \<and> threads s' = (threads s)(t \<mapsto> th\<lparr>tstate := THREAD_READY\<rparr>)
    \<and> g_current s' = g_current s \<and> int_flag s' = int_flag s \<and> esp s' = esp s
    \<and> rest s' = rest s \<and> same_threads s s'"
proof -
  let ?s = "upd_thread t (\<lambda>th. th\<lparr>tstate := THREAD_READY\<rparr>) (s\<lparr>int_flag := False\<rparr>)"
  let ?p = "process th"
  let ?s1 = "narrator (pid ?p) ''ready'' ?s"
  let ?A = "A(RunQ := sched_insert (g_scheduler s) (prio s) t (A RunQ))"
  have same: "same_threads s ?s1" using th by (auto simp: same_threads_def)
  have p: "process_of t ?s = Some ?p" using th by (simp add: process_of_def)
  have pr: "prio_of ?s1 y = Some (prio s y)" if "y \<in> insert t (set (A RunQ))" for y
  proof -
    have "prio_of s y = Some (prio s y)"
    proof (cases "y = t")
      case True with th show ?thesis by (simp add: prio_def prio_of_def process_of_def)
    next
      case False
      with that have "queued_ok s RunQ y" using queues_invD(2) [OF inv] by simp
      then show ?thesis by (rule queued_prio)
    qed
    then show ?thesis by (simp add: prio_of_core [OF same])
  qed
  obtain l where l: "SCHEDULER (g_scheduler s) (prio_of ?s1) RunQ t (tqs s) = Some l" "lists_rep l ?A"
    using lists_SCHEDULER [OF queues_invD(1) [OF inv] t(1), of RunQ "prio_of ?s1" "prio s" "g_scheduler s"]
      pr by auto
  let ?s2 = "(?s1\<lparr>tqs := l\<rparr>)\<lparr>int_flag := int_flag s\<rparr>"
  have run: "thread_make_runnable t s = Some ?s2"
    using p l(1) by (simp add: thread_make_runnable_def Let_def)
  have "queues_inv ?A ?s2"
  proof (rule queues_inv_move [OF inv l(2)])
    show "threads ?s2 x = threads s x" if "r \<noteq> RunQ" "x \<in> set (A r)" for r x
      using that t(1) by (auto simp: on_no_list_def)
    show "queued_ok ?s2 RunQ x" if "x \<in> set (sched_insert (g_scheduler s) (prio s) t (A RunQ))" for x
      using that th t(2) queues_invD(2) [OF inv, of x RunQ] by (auto simp: sched.ins_set queued_ok_def)
  qed simp
  moreover have "same_threads s ?s2" using same by (simp add: same_threads_def)
  moreover have "threads ?s2 = (threads s)(t \<mapsto> th\<lparr>tstate := THREAD_READY\<rparr>)" using th by simp
  ultimately show ?thesis using run by (intro exI [of _ ?s2]) simp
qed

lemma next_runnable_ok:
  assumes inv: "queues_inv A s" and "\<not> int_flag s" and run: "A RunQ = n # rs"
  shows "\<exists>s' th. thread_next_runnable s = Some (n, s') \<and> threads s n = Some th
    \<and> queues_inv (A(RunQ := rs)) s' \<and> threads s' = (threads s)(n \<mapsto> th\<lparr>tstate := THREAD_RUNNING\<rparr>)
    \<and> g_current s' = g_current s \<and> \<not> int_flag s' \<and> esp s' = esp s \<and> rest s' = rest s \<and> same_threads s s'
    \<and> on_no_list n (A(RunQ := rs)) \<and> n \<noteq> 0 \<and> process_ptr th \<noteq> 0"
proof -
  obtain l where l: "list_remove_first RunQ (tqs s) = Some (n, l)" "lists_rep l (A(RunQ := rs))"
    using lists_remove_first [OF queues_invD(1) [OF inv] run] by blast
  obtain th where th: "threads s n = Some th" "process_ptr th \<noteq> 0" "n \<noteq> 0"
    using queues_invD(2) [OF inv, of n RunQ] run by (auto simp: queued_ok_def)
  have off: "on_no_list n (A(RunQ := rs))"
    using on_no_list_head [OF queues_invD(1) [OF inv] run] .
  let ?s1 = "upd_thread n (\<lambda>th. th\<lparr>tstate := THREAD_RUNNING\<rparr>) (s\<lparr>tqs := l\<rparr>)"
  let ?s2 = "narrator (pid (process th)) ''running'' ?s1"
  have "thread_next_runnable s = Some (n, ?s2)"
    using assms(2) l(1) th by (simp add: thread_next_runnable_def int_enabled_def halt_simps process_of_def Let_def)
  moreover have "queues_inv (A(RunQ := rs)) ?s2"
  proof (rule queues_inv_move [OF inv l(2)])
    show "threads ?s2 x = threads s x" if "r \<noteq> RunQ" "x \<in> set (A r)" for r x
    proof -
      have "x \<noteq> n" using that off by (auto simp: on_no_list_upd)
      then show ?thesis by simp
    qed
    show "queued_ok ?s2 RunQ x" if "x \<in> set rs" for x
    proof -
      have "x \<noteq> n" using that off by (auto simp: on_no_list_upd)
      with queues_invD(2) [OF inv, of x RunQ] run that show ?thesis by (auto simp: queued_ok_def)
    qed
  qed simp
  moreover have "same_threads s ?s2" using th(1) by (auto simp: same_threads_def)
  ultimately show ?thesis using assms(2) th off by (intro exI [of _ ?s2] exI [of _ th]) simp
qed

lemma next_runnable_empty:
  assumes "queues_inv A s" and "A RunQ = []"
  shows "thread_next_runnable s = None"
  using lists_remove_first_empty [OF queues_invD(1) [OF assms(1)] assms(2)]
  by (simp add: thread_next_runnable_def)


lemma switch_to_eq:
  assumes "threads s (g_current s) = Some c" and "threads s n = Some th" and "n \<noteq> g_current s"
  shows "thread_switch_to n s = Some (s\<lparr>
    threads := (threads s)(g_current s \<mapsto> c\<lparr>stack_ptr := esp s - 60, saved_if := int_flag s\<rparr>),
    g_current := n, esp := stack_ptr th + 64, int_flag := saved_if th\<rparr>)"
  using assms by (simp add: thread_switch_to_def upd_thread_def Let_def)

lemma switch_to_self:
  assumes "threads s (g_current s) = Some c"
  shows "thread_switch_to (g_current s) s = Some (s\<lparr>
    threads := (threads s)(g_current s \<mapsto> c\<lparr>stack_ptr := esp s - 60, saved_if := int_flag s\<rparr>),
    esp := esp s + 4\<rparr>)"
  using assms by (simp add: thread_switch_to_def upd_thread_def Let_def)

lemma no_thread_lostD:
  "no_thread_lost X A s \<Longrightarrow> threads s t = Some th \<Longrightarrow> tstate th \<notin> {THREAD_EXITED, THREAD_KILLED}
    \<Longrightarrow> t \<notin> X \<Longrightarrow> \<exists>q. t \<in> set (A q)"
  unfolding no_thread_lost_def by blast

lemma no_thread_lostI:
  "(\<And>t th. threads s t = Some th \<Longrightarrow> tstate th \<notin> {THREAD_EXITED, THREAD_KILLED} \<Longrightarrow> t \<notin> X
     \<Longrightarrow> \<exists>q. t \<in> set (A q)) \<Longrightarrow> no_thread_lost X A s"
  unfolding no_thread_lost_def by blast

text \<open>
  The dispatcher: called with the running thread already put away, it starts the thread at
  the head of the ready queue.
\<close>

lemma dispatch_ok:
  assumes inv: "queues_inv A s" and live: "no_thread_lost {} A s" and run: "A RunQ = n # rs"
    and s1: "threads s n = Some th" "queues_inv (A(RunQ := rs)) s1"
      "threads s1 = (threads s)(n \<mapsto> th\<lparr>tstate := THREAD_RUNNING\<rparr>)"
      "on_no_list n (A(RunQ := rs))" "n \<noteq> 0" "process_ptr th \<noteq> 0"
    and s': "tqs s' = tqs s1" "g_current s' = n" "same_threads s1 s'"
      "\<And>t. map_option tstate (threads s' t) = map_option tstate (threads s1 t)"
  shows "sched_inv (A(RunQ := rs)) s'"
proof -
  have sim: "\<exists>th1. threads s1 t = Some th1 \<and> tstate th1 = tstate th' \<and> process_ptr th1 = process_ptr th'"
    if "threads s' t = Some th'" for t th'
  proof -
    have "threads s1 t \<noteq> None" using that same_threads_dom [OF s'(3), of t] by simp
    then obtain th1 where th1: "threads s1 t = Some th1" by blast
    then have "core th' = core th1" using same_threads_Some [OF s'(3)] that by fastforce
    then have "process_ptr (core th') = process_ptr (core th1)" by simp
    with th1 that s'(4) [of t] show ?thesis by simp
  qed
  have q: "queued_ok s' q t" if "queued_ok s1 q t" for q t
  proof -
    from that obtain th1 where th1: "threads s1 t = Some th1" "t \<noteq> 0" "tstate th1 = state_on q"
      "process_ptr th1 \<noteq> 0" by (auto simp: queued_ok_def)
    obtain th' where "threads s' t = Some th'" using same_threads_Some [OF s'(3) th1(1)] by blast
    with sim [OF this] th1 show ?thesis by (auto simp: queued_ok_def)
  qed
  have "queues_inv (A(RunQ := rs)) s'" using s1(2) s'(1) q by (simp add: queues_inv_def)
  moreover have "no_thread_lost {n} (A(RunQ := rs)) s'"
  proof (rule no_thread_lostI)
    fix t th' assume t: "threads s' t = Some th'" "tstate th' \<notin> {THREAD_EXITED, THREAD_KILLED}" "t \<notin> {n}"
    obtain th1 where "threads s1 t = Some th1" "tstate th1 = tstate th'" using sim [OF t(1)] by blast
    with t(3) s1(3) have "threads s t = Some th1" by simp
    with no_thread_lostD [OF live] t(2) \<open>tstate th1 = tstate th'\<close> obtain q where "t \<in> set (A q)" by fastforce
    with t(3) run have "t \<in> set ((A(RunQ := rs)) q)" by auto
    then show "\<exists>q. t \<in> set ((A(RunQ := rs)) q)" by blast
  qed
  moreover have "queued_ok s' (MutexWaitQ 0) n"
    by (rule q) (use s1(3,5,6) in \<open>simp add: queued_ok_def\<close>)
  ultimately show ?thesis using s1(4) s'(2) by (simp add: sched_inv_def)
qed

lemma schedule_ok:
  assumes inv: "queues_inv A s" and off: "\<not> int_flag s" and run: "A RunQ = n # rs"
    and cur: "threads s (g_current s) \<noteq> None" and live: "no_thread_lost {} A s"
  shows "\<exists>s'. thread_schedule s = Some s' \<and> sched_inv (A(RunQ := rs)) s' \<and> g_current s' = n
    \<and> rest s' = rest s \<and> same_threads s s'
    \<and> (\<forall>t. t \<noteq> n \<longrightarrow> map_option tstate (threads s' t) = map_option tstate (threads s t))"
proof -
  obtain s1 th where s1: "thread_next_runnable s = Some (n, s1)" "threads s n = Some th"
    "queues_inv (A(RunQ := rs)) s1" "threads s1 = (threads s)(n \<mapsto> th\<lparr>tstate := THREAD_RUNNING\<rparr>)"
    "g_current s1 = g_current s" "rest s1 = rest s" "same_threads s s1"
    "on_no_list n (A(RunQ := rs))" "n \<noteq> 0" "process_ptr th \<noteq> 0"
    using next_runnable_ok [OF inv off run] by blast
  obtain c where c: "threads s1 (g_current s1) = Some c" using cur s1(4,5)
    by (cases "g_current s = n") auto
  have n1: "threads s1 n = Some (th\<lparr>tstate := THREAD_RUNNING\<rparr>)" using s1(4) by simp
  obtain s' where s': "thread_switch_to n s1 = Some s'"
    using switch_to_eq [OF c n1] switch_to_self [OF c] by (cases "n = g_current s1") auto
  let ?f = "\<lambda>c. c\<lparr>stack_ptr := esp s1 - 60, saved_if := int_flag s1\<rparr>"
  have t': "threads s' = (threads s1)(g_current s1 \<mapsto> ?f c)" "tqs s' = tqs s1" "g_current s' = n"
    and rest': "rest s' = rest s1"
    using s' c n1 by (cases "n = g_current s1"; auto simp: switch_to_eq switch_to_self)+
  have same: "same_threads s1 s'" using t'(1) c by (simp add: same_threads_def)
  have ts: "map_option tstate (threads s' t) = map_option tstate (threads s1 t)" for t
    using t'(1) c by simp
  then have "sched_inv (A(RunQ := rs)) s'"
    using dispatch_ok [OF inv live run s1(2,3,4,8,9,10) t'(2,3) same] by blast
  moreover have "thread_schedule s = Some s'"
    using off s1(1) s' by (simp add: thread_schedule_def int_enabled_def halt_simps)
  moreover have "\<forall>t. t \<noteq> n \<longrightarrow> map_option tstate (threads s' t) = map_option tstate (threads s t)"
    using ts s1(4) by simp
  ultimately show ?thesis
    using t'(3) rest' s1(6) same_threads_trans [OF s1(7) same] by auto
qed

lemma schedule_empty:
  "queues_inv A s \<Longrightarrow> A RunQ = [] \<Longrightarrow> thread_schedule s = None"
  using next_runnable_empty by (simp add: thread_schedule_def bind_eq_None_conv)


lemma sched_invD:
  assumes "sched_inv A s"
  shows "queues_inv A s" "no_thread_lost {g_current s} A s" "on_no_list (g_current s) A"
    "g_current s \<noteq> 0"
    "\<exists>th. threads s (g_current s) = Some th \<and> tstate th = THREAD_RUNNING \<and> process_ptr th \<noteq> 0"
  using assms by (auto simp: sched_inv_def queued_ok_def)

lemma sched_inv_current:
  assumes "sched_inv A s"
  obtains th where "threads s (g_current s) = Some th" "tstate th = THREAD_RUNNING" "process_ptr th \<noteq> 0"
    "process_of (g_current s) s = Some (process th)"
  using sched_invD(5) [OF assms] by (auto simp: process_of_def)

text \<open>
  \<open>undisturbed\<close> bundles what the operations that do not switch keep: the running
  thread, the interrupt flag, all other kernel data and the threads' own data.
\<close>

definition undisturbed :: "kernel \<Rightarrow> kernel \<Rightarrow> bool" where
  "undisturbed s s' \<longleftrightarrow> g_current s' = g_current s \<and> int_flag s' = int_flag s \<and> esp s' = esp s
     \<and> rest s' = rest s \<and> same_threads s s'"

lemma undisturbed_refl [simp]: "undisturbed s s"
  by (simp add: undisturbed_def)

lemma undisturbed_trans: "undisturbed s1 s2 \<Longrightarrow> undisturbed s2 s3 \<Longrightarrow> undisturbed s1 s3"
  using same_threads_trans by (auto simp: undisturbed_def)

lemma undisturbedD:
  assumes "undisturbed s s'"
  shows "g_current s' = g_current s" "int_flag s' = int_flag s" "rest s' = rest s"
    "same_threads s s'" "prio s' = prio s" "g_scheduler s' = g_scheduler s"
  using assms prio_core rest_sel(2) [of s' s] by (simp_all add: undisturbed_def)

text \<open>The running thread is put back on the ready queue.\<close>

lemma requeue_ok:
  assumes inv: "sched_inv A s" and off: "\<not> int_flag s"
  shows "\<exists>s0 s1. thread_relinquish_cpu s = Some s0 \<and> g_current s0 = g_current s
    \<and> thread_make_runnable (g_current s) s0 = Some s1 \<and> undisturbed s s1
    \<and> queues_inv (A(RunQ := sched_insert (g_scheduler s) (prio s) (g_current s) (A RunQ))) s1
    \<and> no_thread_lost {} (A(RunQ := sched_insert (g_scheduler s) (prio s) (g_current s) (A RunQ))) s1"
proof -
  let ?c = "g_current s"
  obtain th where th: "threads s ?c = Some th" "tstate th = THREAD_RUNNING" "process_ptr th \<noteq> 0"
    by (rule sched_inv_current [OF inv])
  let ?s = "upd_thread ?c (\<lambda>th. th\<lparr>num_ticks := 0\<rparr>) s"
  have rel: "thread_relinquish_cpu s = Some ?s"
    using th by (simp add: thread_relinquish_cpu_def halt_simps)
  have same: "same_threads s ?s" using th by (simp add: same_threads_def)
  have qi: "queues_inv A ?s"
    using sched_invD(1,3) [OF inv] by (auto simp: queues_inv_def on_no_list_def queued_ok_def)
  have "threads ?s ?c = Some (th\<lparr>num_ticks := 0\<rparr>)" "process_ptr (th\<lparr>num_ticks := 0\<rparr>) \<noteq> 0"
    using th by simp_all
  from make_runnable_ok [OF qi sched_invD(3,4) [OF inv] this] obtain s1 where
    s1: "thread_make_runnable ?c ?s = Some s1"
      "queues_inv (A(RunQ := sched_insert (g_scheduler ?s) (prio ?s) ?c (A RunQ))) s1"
      "threads s1 = (threads ?s)(?c \<mapsto> th\<lparr>num_ticks := 0, tstate := THREAD_READY\<rparr>)"
      "g_current s1 = ?c" "int_flag s1 = int_flag s" "esp s1 = esp s" "rest s1 = rest s" "same_threads ?s s1"
    by auto
  let ?A = "A(RunQ := sched_insert (g_scheduler s) (prio s) ?c (A RunQ))"
  have "no_thread_lost {} ?A s1"
  proof (rule no_thread_lostI)
    fix t th' assume t: "threads s1 t = Some th'" "tstate th' \<notin> {THREAD_EXITED, THREAD_KILLED}"
    have more: "t \<in> set (?A q)" if "t \<in> set (A q) \<or> t = ?c \<and> q = RunQ" for q
      using that by (auto simp: sched.ins_set)
    show "\<exists>q. t \<in> set (?A q)"
    proof (cases "t = ?c")
      case True with more show ?thesis by blast
    next
      case False
      then have "threads s t = Some th'" using t(1) s1(3) by simp
      with no_thread_lostD [OF sched_invD(2) [OF inv]] t(2) False more show ?thesis by blast
    qed
  qed
  moreover have "undisturbed s s1"
    using s1(4-7) same_threads_trans [OF same s1(8)] by (simp add: undisturbed_def)
  ultimately show ?thesis
    using rel s1(1,2) by (intro exI [of _ ?s] exI [of _ s1]) (simp add: prio_core [OF same])
qed

text \<open>The abstract effect of yielding: the running thread is queued and the head is started.\<close>

lemma sched_inv_int_flag [simp]: "sched_inv A (s\<lparr>int_flag := b\<rparr>) = sched_inv A s"
  by (simp add: sched_inv_def queues_inv_def no_thread_lost_def queued_ok_def)

lemma prio_int_flag [simp]: "prio (s\<lparr>int_flag := b\<rparr>) = prio s"
  by (rule prio_core) (simp add: same_threads_def)

lemma yield_ok:
  assumes inv: "sched_inv A s"
    and run: "sched_insert (g_scheduler s) (prio s) (g_current s) (A RunQ) = n # rs"
  shows "\<exists>s'. thread_yield s = Some (int_flag s, s') \<and> sched_inv (A(RunQ := rs)) s' \<and> g_current s' = n
    \<and> rest s' = rest s \<and> same_threads s s'"
proof -
  let ?c = "g_current s" and ?s = "s\<lparr>int_flag := False\<rparr>"
  have "sched_inv A ?s" "\<not> int_flag ?s" using inv by simp_all
  from requeue_ok [OF this] obtain s0 s1 where
    s1: "thread_relinquish_cpu ?s = Some s0" "g_current s0 = ?c" "thread_make_runnable ?c s0 = Some s1"
      "undisturbed ?s s1" "queues_inv (A(RunQ := n # rs)) s1" "no_thread_lost {} (A(RunQ := n # rs)) s1"
    using run by auto
  note u = undisturbedD [OF s1(4)]
  have "threads s1 (g_current s1) \<noteq> None"
    using sched_invD(5) [OF inv] u(1) same_threads_dom [OF u(4), of ?c] by auto
  from schedule_ok [OF s1(5) _ _ this s1(6), of n rs] u(2) obtain s' where
    s': "thread_schedule s1 = Some s'" "sched_inv (A(RunQ := rs)) s'" "g_current s' = n"
      "rest s' = rest s1" "same_threads s1 s'" by auto
  have "thread_yield s = Some (int_flag s, s')"
    using s1(1-3) s'(1) by (simp add: thread_yield_def)
  moreover have "same_threads s s'"
    using same_threads_trans [OF u(4) s'(5)] by (simp add: same_threads_def)
  ultimately show ?thesis using s' u(3) by auto
qed

text \<open>Waiting: the running thread goes to the back of the queue and the next one is started.\<close>

lemma wait_ok:
  assumes inv: "sched_inv A s" and off: "\<not> int_flag s" and q: "wait_queue q" and run: "A RunQ = n # rs"
  shows "\<exists>s'. thread_wait q s = Some s' \<and> sched_inv (A(q := A q @ [g_current s], RunQ := rs)) s'
    \<and> g_current s' = n \<and> rest s' = rest s \<and> same_threads s s'"
proof -
  let ?c = "g_current s"
  obtain th where th: "threads s ?c = Some th" "tstate th = THREAD_RUNNING" "process_ptr th \<noteq> 0"
    "process_of ?c s = Some (process th)" by (rule sched_inv_current [OF inv])
  let ?n = "narrator (pid (process th)) ''waiting'' s"
  let ?s = "upd_thread ?c (\<lambda>th. th\<lparr>num_ticks := 0\<rparr>) ?n"
  have rel: "thread_relinquish_cpu ?n = Some ?s"
    using th by (simp add: thread_relinquish_cpu_def halt_simps)
  obtain l where l: "list_append q ?c (tqs s) = Some l" "lists_rep l (A(q := A q @ [?c]))"
    using lists_append [OF queues_invD(1) [OF sched_invD(1) [OF inv]] sched_invD(3) [OF inv], of q] by blast
  let ?s1 = "?s\<lparr>tqs := l\<rparr>"
  let ?A = "A(q := A q @ [?c])"
  have qi: "queues_inv ?A ?s1"
  proof (rule queues_inv_move [OF sched_invD(1) [OF inv] l(2)])
    show "threads ?s1 t = threads s t" if "r \<noteq> q" "t \<in> set (A r)" for r t
      using that sched_invD(3) [OF inv] by (auto simp: on_no_list_def)
    show "queued_ok ?s1 q t" if "t \<in> set (A q @ [?c])" for t
      using that th q sched_invD(4) [OF inv] queues_invD(2) [OF sched_invD(1) [OF inv], of t q]
      by (auto simp: queued_ok_def)
  qed simp
  have "no_thread_lost {} ?A ?s1"
  proof (rule no_thread_lostI)
    fix t th' assume t: "threads ?s1 t = Some th'" "tstate th' \<notin> {THREAD_EXITED, THREAD_KILLED}"
    show "\<exists>r. t \<in> set (?A r)"
    proof (cases "t = ?c")
      case True then show ?thesis by (intro exI [of _ q]) simp
    next
      case False
      then have "threads s t = Some th'" using t(1) by simp
      with no_thread_lostD [OF sched_invD(2) [OF inv]] t(2) False obtain r where "t \<in> set (A r)" by blast
      then show ?thesis by (intro exI [of _ r]) (cases "r = q"; simp)
    qed
  qed
  moreover have "?A RunQ = n # rs" using run q by auto
  ultimately obtain s' where
    s': "thread_schedule ?s1 = Some s'" "sched_inv (?A(RunQ := rs)) s'" "g_current s' = n"
      "rest s' = rest s" "same_threads ?s1 s'"
    using schedule_ok [OF qi, of n rs] off th by auto
  have "thread_wait q s = Some s'"
    using off th(4) rel l(1) s'(1) by (simp add: thread_wait_def int_enabled_def halt_simps Let_def)
  moreover have "same_threads s ?s1" using th by (simp add: same_threads_def)
  ultimately show ?thesis using s' same_threads_trans by blast
qed

lemma wait_halts:
  assumes inv: "sched_inv A s" and q: "wait_queue q" and run: "A RunQ = []"
  shows "thread_wait q s = None"
proof -
  let ?c = "g_current s"
  obtain l where l: "list_append q ?c (tqs s) = Some l" "lists_rep l (A(q := A q @ [?c]))"
    using lists_append [OF queues_invD(1) [OF sched_invD(1) [OF inv]] sched_invD(3) [OF inv], of q] by blast
  have "(A(q := A q @ [?c])) RunQ = []" using run q by auto
  from lists_remove_first_empty [OF l(2) this] l(1) show ?thesis
    by (auto simp: thread_wait_def thread_schedule_def thread_next_runnable_def thread_relinquish_cpu_def
        Let_def bind_eq_None_conv)
qed


lemma wakeup_one_core:
  assumes inv: "queues_inv A s" and live: "no_thread_lost X A s" and off: "\<not> int_flag s"
    and q: "wait_queue q" and w: "A q = t # ts"
  shows "\<exists>s'. thread_wakeup_one q s = Some s' \<and> undisturbed s s'
    \<and> queues_inv (A(q := ts, RunQ := sched_insert (g_scheduler s) (prio s) t (A RunQ))) s'
    \<and> no_thread_lost X (A(q := ts, RunQ := sched_insert (g_scheduler s) (prio s) t (A RunQ))) s'
    \<and> (\<forall>x. x \<noteq> t \<longrightarrow> threads s' x = threads s x)"
proof -
  obtain l where l: "list_remove_first q (tqs s) = Some (t, l)" "lists_rep l (A(q := ts))"
    using lists_remove_first [where q = q, OF queues_invD(1) [OF inv] w] by blast
  have off_t: "on_no_list t (A(q := ts))" using on_no_list_head [where q = q, OF queues_invD(1) [OF inv] w] .
  obtain th where th: "threads s t = Some th" "process_ptr th \<noteq> 0" "t \<noteq> 0"
    using queues_invD(2) [OF inv, of t q] w by (auto simp: queued_ok_def)
  let ?s = "s\<lparr>tqs := l\<rparr>"
  have qi: "queues_inv (A(q := ts)) ?s"
  proof (rule queues_inv_move [OF inv l(2)])
    show "queued_ok ?s q x" if "x \<in> set ts" for x
      using queues_invD(2) [OF inv, of x q] that w by (simp add: queued_ok_def)
  qed simp_all
  have p: "prio ?s = prio s" by (rule prio_core) (simp add: same_threads_def)
  let ?A = "A(q := ts, RunQ := sched_insert (g_scheduler s) (prio s) t (A RunQ))"
  have qR: "q \<noteq> RunQ" using q by auto
  obtain s' where s': "thread_make_runnable t ?s = Some s'" "queues_inv ?A s'"
    "threads s' = (threads s)(t \<mapsto> th\<lparr>tstate := THREAD_READY\<rparr>)" "g_current s' = g_current s"
    "int_flag s' = int_flag s" "esp s' = esp s" "rest s' = rest s" "same_threads ?s s'"
    using make_runnable_ok [OF qi off_t th(3)] th p qR by (auto simp: fun_upd_other)
  have "no_thread_lost X ?A s'"
  proof (rule no_thread_lostI)
    fix x th' assume x: "threads s' x = Some th'" "tstate th' \<notin> {THREAD_EXITED, THREAD_KILLED}" "x \<notin> X"
    show "\<exists>r. x \<in> set (?A r)"
    proof (cases "x = t")
      case True then show ?thesis by (intro exI [of _ RunQ]) (simp add: sched.ins_set)
    next
      case False
      then obtain r where r: "x \<in> set (A r)" using no_thread_lostD [OF live _ x(2,3)] x(1) s'(3) by auto
      then have "x \<in> set (?A r)"
        using False w qR by (cases "r = q"; cases "r = RunQ") (auto simp: sched.ins_set)
      then show ?thesis by blast
    qed
  qed
  moreover have "thread_wakeup_one q s = Some s'"
    using off l(1) th(3) s'(1) by (simp add: thread_wakeup_one_def int_enabled_def halt_simps Let_def)
  moreover have "undisturbed s s'" using s' by (simp add: undisturbed_def same_threads_def)
  ultimately show ?thesis using s'(2,3) by auto
qed

lemma wakeup_one_halts:
  assumes "queues_inv A s" and "A q = []"
  shows "thread_wakeup_one q s = None"
  using lists_remove_first_empty [OF queues_invD(1) [OF assms(1)] assms(2)]
  by (simp add: thread_wakeup_one_def bind_eq_None_conv)

definition wake_all :: "scheduler \<Rightarrow> (nat \<Rightarrow> int) \<Rightarrow> qid \<Rightarrow> (qid \<Rightarrow> nat list) \<Rightarrow> qid \<Rightarrow> nat list" where
  "wake_all sc p q A = A(q := [], RunQ := fold (sched_insert sc p) (A q) (A RunQ))"

lemma wake_all_step:
  "wait_queue q \<Longrightarrow> A q = t # ts \<Longrightarrow>
    wake_all sc p q (A(q := ts, RunQ := sched_insert sc p t (A RunQ))) = wake_all sc p q A"
  by (auto simp: wake_all_def fun_upd_twist)

lemma wakeup_core:
  assumes "queues_inv A s" and "no_thread_lost X A s" and "\<not> int_flag s" and q: "wait_queue q"
  shows "\<exists>s'. thread_wakeup q s = Some s' \<and> undisturbed s s'
    \<and> queues_inv (wake_all (g_scheduler s) (prio s) q A) s'
    \<and> no_thread_lost X (wake_all (g_scheduler s) (prio s) q A) s'
    \<and> (\<forall>x. x \<notin> set (A q) \<longrightarrow> threads s' x = threads s x)"
  using assms(1-3)
proof (induction "A q" arbitrary: A s)
  case Nil
  then have "thread_wakeup q s = Some s"
    using lists_is_empty_iff [OF queues_invD(1)] by (subst thread_wakeup.simps) simp
  moreover have "wake_all (g_scheduler s) (prio s) q A = A" using Nil(1) q by (auto simp: wake_all_def)
  ultimately show ?case using Nil by auto
next
  case (Cons t ts)
  let ?A = "A(q := ts, RunQ := sched_insert (g_scheduler s) (prio s) t (A RunQ))"
  obtain s1 where s1: "thread_wakeup_one q s = Some s1" "undisturbed s s1" "queues_inv ?A s1"
    "no_thread_lost X ?A s1" "\<forall>x. x \<noteq> t \<longrightarrow> threads s1 x = threads s x"
    using wakeup_one_core [where q = q, OF Cons.prems q Cons.hyps(2) [symmetric]] by blast
  note u = undisturbedD [OF s1(2)]
  have ts: "ts = ?A q" using q by auto
  obtain s' where s': "thread_wakeup q s1 = Some s'" "undisturbed s1 s'"
    "queues_inv (wake_all (g_scheduler s) (prio s) q ?A) s'"
    "no_thread_lost X (wake_all (g_scheduler s) (prio s) q ?A) s'"
    "\<forall>x. x \<notin> set ts \<longrightarrow> threads s' x = threads s1 x"
    using Cons.hyps(1) [OF ts s1(3,4)] Cons.prems(3) u ts [symmetric] by auto
  have "thread_wakeup q s = Some s'"
    using lists_is_empty_iff [OF queues_invD(1) [OF Cons.prems(1)], of q] Cons.hyps(2) [symmetric] s1(1) s'(1)
    by (subst thread_wakeup.simps) simp
  moreover have "\<forall>x. x \<notin> set (A q) \<longrightarrow> threads s' x = threads s x"
    using s1(5) s'(5) Cons.hyps(2) [symmetric] by simp
  ultimately show ?case
    using s'(3,4) undisturbed_trans [OF s1(2) s'(2)] wake_all_step [where q = q and A = A, OF q Cons.hyps(2) [symmetric]]
    by auto
qed


text \<open>On the invariant: an operation that moves threads other than the running one.\<close>

lemma sched_inv_moved:
  assumes inv: "sched_inv A s" and u: "undisturbed s s'" and "queues_inv A' s'"
    and "no_thread_lost {g_current s} A' s'" and "threads s' (g_current s) = threads s (g_current s)"
    and "on_no_list (g_current s) A'"
  shows "sched_inv A' s'"
  using assms undisturbedD(1) [OF u] queued_ok_cong [of s' "g_current s" s]
  by (simp add: sched_inv_def)

lemma wakeup_one_ok:
  assumes inv: "sched_inv A s" and off: "\<not> int_flag s" and q: "wait_queue q" and w: "A q = t # ts"
  shows "\<exists>s'. thread_wakeup_one q s = Some s' \<and> undisturbed s s'
    \<and> sched_inv (A(q := ts, RunQ := sched_insert (g_scheduler s) (prio s) t (A RunQ))) s'"
proof -
  let ?A = "A(q := ts, RunQ := sched_insert (g_scheduler s) (prio s) t (A RunQ))"
  obtain s' where s': "thread_wakeup_one q s = Some s'" "undisturbed s s'" "queues_inv ?A s'"
    "no_thread_lost {g_current s} ?A s'" "\<forall>x. x \<noteq> t \<longrightarrow> threads s' x = threads s x"
    using wakeup_one_core [where q = q and A = A, OF sched_invD(1,2) [OF inv] off q w] by blast
  have off_c: "on_no_list (g_current s) A" by (rule sched_invD(3) [OF inv])
  then have "g_current s \<notin> set (A q)" by (simp add: on_no_list_def)
  then have ct: "g_current s \<noteq> t" "g_current s \<notin> set ts" using w by auto
  then have "on_no_list (g_current s) ?A" using off_c by (auto simp: on_no_list_def sched.ins_set)
  with sched_inv_moved [OF inv s'(2-4)] s' ct show ?thesis by auto
qed

lemma wakeup_ok:
  assumes inv: "sched_inv A s" and off: "\<not> int_flag s" and q: "wait_queue q"
  shows "\<exists>s'. thread_wakeup q s = Some s' \<and> undisturbed s s'
    \<and> sched_inv (wake_all (g_scheduler s) (prio s) q A) s'"
proof -
  let ?A = "wake_all (g_scheduler s) (prio s) q A"
  obtain s' where s': "thread_wakeup q s = Some s'" "undisturbed s s'" "queues_inv ?A s'"
    "no_thread_lost {g_current s} ?A s'" "\<forall>x. x \<notin> set (A q) \<longrightarrow> threads s' x = threads s x"
    using wakeup_core [OF sched_invD(1,2) [OF inv] off q] by blast
  have off_c: "g_current s \<notin> set (A r)" for r
    using sched_invD(3) [OF inv] by (simp add: on_no_list_def)
  have "set (fold (sched_insert (g_scheduler s) (prio s)) (A q) (A RunQ)) = set (A q) \<union> set (A RunQ)"
    using sched.fold_ins_mset [of "g_scheduler s" "prio s" "A q" "A RunQ"]
    by (metis set_mset_mset set_mset_union)
  then have "on_no_list (g_current s) ?A" using off_c by (auto simp: on_no_list_def wake_all_def)
  with sched_inv_moved [OF inv s'(2-4)] s' off_c show ?thesis by auto
qed

text \<open>Parking: \<open>thread_park\<close> and what the parked thread does when it runs again.\<close>

lemma sched_inv_preemption [simp]:
  "sched_inv A (s\<lparr>g_preemption := b\<rparr>) = sched_inv A s"
  "sched_inv A (s\<lparr>g_need_reschedule := b\<rparr>) = sched_inv A s"
  "sched_inv A (s\<lparr>esp := e\<rparr>) = sched_inv A s"
  "sched_inv A (s\<lparr>g_numticks := t\<rparr>) = sched_inv A s"
  by (simp_all add: sched_inv_def queues_inv_def no_thread_lost_def queued_ok_def)

lemma park_ok:
  assumes inv: "sched_inv A s" and "int_flag s" and "\<not> g_preemption s" and "wait_queue q"
    and run: "A RunQ = n # rs"
  shows "\<exists>s'. thread_park q s = Some s' \<and> sched_inv (A(q := A q @ [g_current s], RunQ := rs)) s'
    \<and> g_current s' = n \<and> rest s' = rest (s\<lparr>g_preemption := True\<rparr>) \<and> same_threads s s'"
proof -
  let ?s = "s\<lparr>int_flag := False, g_preemption := True\<rparr>"
  have "sched_inv A ?s" using inv by simp
  from wait_ok [where q = q, OF this _ assms(4) run] obtain s' where
    "thread_wait q ?s = Some s'" "sched_inv (A(q := A q @ [g_current s], RunQ := rs)) s'"
    "g_current s' = n" "rest s' = rest ?s" "same_threads ?s s'" by auto
  moreover have "rest ?s = rest (s\<lparr>g_preemption := True\<rparr>)" by (simp add: rest_def)
  moreover have "same_threads s s'" using \<open>same_threads ?s s'\<close> by (simp add: same_threads_def)
  ultimately show ?thesis
    using assms(2,3) by (simp add: thread_park_def int_disable_def int_enabled_def halt_simps)
qed

section \<open>The timer\<close>

lemma tick_ok:
  assumes inv: "sched_inv A s"
  shows "\<exists>s'. timer_process_tick s = Some s' \<and> sched_inv A s' \<and> g_current s' = g_current s
    \<and> int_flag s' = int_flag s \<and> esp s' = esp s \<and> g_preemption s' = g_preemption s
    \<and> g_scheduler s' = g_scheduler s \<and> g_numticks s' = g_numticks s + 1 \<and> prio s' = prio s
    \<and> (\<exists>th. threads s (g_current s) = Some th
         \<and> (g_need_reschedule s' \<longleftrightarrow> g_need_reschedule s
              \<or> g_scheduler s = RR \<and> of_int (g_quantum s) < num_ticks th + 1)
         \<and> (\<exists>th'. threads s' (g_current s) = Some th' \<and> num_ticks th' = num_ticks th + 1
              \<and> running (time (process th')) = running (time (process th)) + 1))"
proof -
  let ?c = "g_current s"
  obtain th where th: "threads s ?c = Some th" "tstate th = THREAD_RUNNING" "process_ptr th \<noteq> 0"
    by (rule sched_inv_current [OF inv])
  let ?p = "process th"
  let ?th = "th\<lparr>num_ticks := num_ticks th + 1,
                process := ?p\<lparr>time := (time ?p)\<lparr>running := running (time ?p) + 1\<rparr>\<rparr>\<rparr>"
  let ?s = "s\<lparr>g_numticks := g_numticks s + 1, threads := (threads s)(?c \<mapsto> ?th)\<rparr>"
  have run: "timer_process_tick s = (if g_scheduler s = RR then RR_scheduler ?s else Some ?s)"
    using th by (simp add: timer_process_tick_def upd_thread_def process_of_def halt_simps Let_def)
  have q: "queued_ok ?s q t = queued_ok s q t" for q t using th by (auto simp: queued_ok_def)
  have "sched_inv A ?s"
    using inv q th by (auto simp: sched_inv_def queues_inv_def no_thread_lost_def)
  moreover have "prio_of ?s t = prio_of s t" for t
    using th by (simp add: prio_of_def process_of_def)
  then have "prio ?s = prio s" by (simp add: prio_def fun_eq_iff)
  ultimately have A: "sched_inv A ?s" "prio ?s = prio s" by blast+
  show ?thesis
  proof (cases "g_scheduler s = RR")
    case False with run A th show ?thesis by simp
  next
    case RR: True
    let ?b = "num_ticks th + 1 > of_int (g_quantum s)"
    have r: "timer_process_tick s = Some (if ?b then ?s\<lparr>g_need_reschedule := True\<rparr> else ?s)"
      using run RR by (simp add: RR_scheduler_def)
    have p: "prio (?s\<lparr>g_need_reschedule := True\<rparr>) = prio ?s" by (rule prio_core) (simp add: same_threads_def)
    show ?thesis
    proof (cases ?b)
      case True with r RR A p th show ?thesis by simp
    next
      case False with r RR A th show ?thesis by simp
    qed
  qed
qed

text \<open>
  Preemption: with \<open>g_preemption\<close> and \<open>g_need_reschedule\<close> set, returning from an interrupt
  has the abstract effect of a yield; otherwise the interrupted thread goes on.
\<close>

lemma interrupt_return_ok:
  assumes inv: "sched_inv A s" and off: "\<not> int_flag s"
  shows "\<not> (g_preemption s \<and> g_need_reschedule s) \<Longrightarrow>
      interrupt_return iflag s = Some (s\<lparr>esp := esp s + 64, int_flag := iflag\<rparr>)"
    and "\<lbrakk>g_preemption s; g_need_reschedule s;
      sched_insert (g_scheduler s) (prio s) (g_current s) (A RunQ) = n # rs\<rbrakk> \<Longrightarrow>
      \<exists>s'. interrupt_return iflag s = Some s' \<and> sched_inv (A(RunQ := rs)) s' \<and> g_current s' = n
        \<and> rest s' = rest (s\<lparr>g_need_reschedule := False\<rparr>) \<and> same_threads s s'"
proof -
  show "\<not> (g_preemption s \<and> g_need_reschedule s) \<Longrightarrow>
      interrupt_return iflag s = Some (s\<lparr>esp := esp s + 64, int_flag := iflag\<rparr>)"
    by (auto simp: interrupt_return_def)
  assume p: "g_preemption s" "g_need_reschedule s"
    and run: "sched_insert (g_scheduler s) (prio s) (g_current s) (A RunQ) = n # rs"
  let ?c = "g_current s"
  obtain th where th: "threads s ?c = Some th" by (rule sched_inv_current [OF inv])
  let ?s = "upd_thread ?c (\<lambda>th. th\<lparr>stack_ptr := esp s, saved_if := iflag\<rparr>) (s\<lparr>g_need_reschedule := False\<rparr>)"
  have same: "same_threads s ?s" using th by (simp add: same_threads_def)
  have "sched_inv A ?s"
    using inv th
    by (auto simp: sched_inv_def queues_inv_def no_thread_lost_def queued_ok_def on_no_list_def)
  moreover have "\<not> int_flag ?s" using off by simp
  ultimately obtain s0 s1 where s1: "thread_relinquish_cpu ?s = Some s0" "g_current s0 = ?c"
      "thread_make_runnable ?c s0 = Some s1" "undisturbed ?s s1"
      "queues_inv (A(RunQ := n # rs)) s1" "no_thread_lost {} (A(RunQ := n # rs)) s1"
    using requeue_ok [of A ?s] run by (auto simp: prio_core [OF same])
  note u = undisturbedD [OF s1(4)]
  have off1: "\<not> int_flag s1" using u(2) off by simp
  obtain s2 th2 where s2: "thread_next_runnable s1 = Some (n, s2)" "threads s1 n = Some th2"
    "queues_inv (A(RunQ := rs)) s2" "threads s2 = (threads s1)(n \<mapsto> th2\<lparr>tstate := THREAD_RUNNING\<rparr>)"
    "rest s2 = rest s1" "same_threads s1 s2" "on_no_list n (A(RunQ := rs))" "n \<noteq> 0" "process_ptr th2 \<noteq> 0"
    using next_runnable_ok [OF s1(5) off1, of n rs] by auto
  let ?s' = "s2\<lparr>g_current := n, esp := stack_ptr th2 + 64, int_flag := saved_if th2\<rparr>"
  have "interrupt_return iflag s = Some ?s'"
    using p th s1(1,3) s2(1,4) by (simp add: interrupt_return_def halt_simps Let_def)
  moreover have "sched_inv ((A(RunQ := n # rs))(RunQ := rs)) ?s'"
  proof (rule dispatch_ok [OF s1(5,6), where th = th2 and ?s1.0 = s2 and n = n])
    show "queues_inv ((A(RunQ := n # rs))(RunQ := rs)) s2" using s2(3) by simp
    show "on_no_list n ((A(RunQ := n # rs))(RunQ := rs))" using s2(7) by simp
  qed (use s2 in \<open>simp_all add: same_threads_def\<close>)
  moreover from this have "sched_inv (A(RunQ := rs)) ?s'" by simp
  moreover have "rest ?s' = rest (s\<lparr>g_need_reschedule := False\<rparr>)" using s2(5) u(3) by simp
  moreover have "same_threads s ?s'"
    using same_threads_trans [OF same_threads_trans [OF same u(4)] s2(6)] by (simp add: same_threads_def)
  ultimately show "\<exists>s'. interrupt_return iflag s = Some s' \<and> sched_inv (A(RunQ := rs)) s' \<and> g_current s' = n
        \<and> rest s' = rest (s\<lparr>g_need_reschedule := False\<rparr>) \<and> same_threads s s'" by auto
qed

text \<open>
  A timer interrupt under round robin: a reschedule is due when one was pending or the quantum is used
  up; it happens when preemption is allowed and stays pending otherwise.
\<close>

lemma timer_interrupt_RR:
  assumes inv: "sched_inv A s" and rr: "g_scheduler s = RR" and th: "threads s (g_current s) = Some th"
    and due: "due = (g_need_reschedule s \<or> of_int (g_quantum s) < num_ticks th + 1)"
  shows "(g_preemption s \<longrightarrow> due \<longrightarrow> A RunQ @ [g_current s] = n # rs \<longrightarrow>
      (\<exists>s'. timer_interrupt s = Some s' \<and> g_current s' = n \<and> sched_inv (A(RunQ := rs)) s' \<and> \<not> g_need_reschedule s'))
    \<and> (\<not> (g_preemption s \<and> due) \<longrightarrow>
      (\<exists>s'. timer_interrupt s = Some s' \<and> g_current s' = g_current s \<and> sched_inv A s'
        \<and> esp s' = esp s \<and> int_flag s' = int_flag s \<and> g_need_reschedule s' = due))"
proof -
  let ?s = "s\<lparr>int_flag := False, esp := esp s - 12 - 8 - 44\<rparr>"
  have "sched_inv A ?s" using inv by simp
  from tick_ok [OF this] obtain s1 where s1: "timer_process_tick ?s = Some s1" "sched_inv A s1"
    "g_current s1 = g_current s" "\<not> int_flag s1" "esp s1 = esp s - 12 - 8 - 44" "g_preemption s1 = g_preemption s"
    "g_scheduler s1 = RR" "g_need_reschedule s1 = due"
    using rr th due by auto
  have run: "timer_interrupt s = interrupt_return (int_flag s) s1"
    using s1(1) by (simp add: timer_interrupt_def Let_def)
  have ins: "sched_insert (g_scheduler s1) (prio s1) (g_current s1) (A RunQ) = A RunQ @ [g_current s]"
    using s1(3,7) by (simp add: sched_insert_def)
  show ?thesis
  proof (intro conjI impI)
    assume q: "g_preemption s" "due" "A RunQ @ [g_current s] = n # rs"
    have p: "g_preemption s1" "g_need_reschedule s1" using q s1(6,8) by simp_all
    obtain s' where s': "interrupt_return (int_flag s) s1 = Some s'" "sched_inv (A(RunQ := rs)) s'" "g_current s' = n"
      "rest s' = rest (s1\<lparr>g_need_reschedule := False\<rparr>)"
      using interrupt_return_ok(2) [OF s1(2,4) p, of n rs "int_flag s"] ins q(3) by auto
    have "g_need_reschedule (rest s') = g_need_reschedule (rest (s1\<lparr>g_need_reschedule := False\<rparr>))" using s'(4) by simp
    then have "\<not> g_need_reschedule s'" by (simp add: rest_def)
    then show "\<exists>s'. timer_interrupt s = Some s' \<and> g_current s' = n \<and> sched_inv (A(RunQ := rs)) s' \<and> \<not> g_need_reschedule s'"
      using s' run by auto
  next
    assume "\<not> (g_preemption s \<and> due)"
    then show "\<exists>s'. timer_interrupt s = Some s' \<and> g_current s' = g_current s \<and> sched_inv A s'
        \<and> esp s' = esp s \<and> int_flag s' = int_flag s \<and> g_need_reschedule s' = due"
      using interrupt_return_ok(1) [OF s1(2,4), of "int_flag s"] s1 run by auto
  qed
qed

end
