(* ===== verification/Kernel_Memory.thy ===== *)
theory Kernel_Memory imports Kernel_Sched begin

text \<open>
  Kernel memory, \<open>src/kernel/mem.c\<close>: the blocking allocation of heap buffers and of physical
  frames.  An operation that may have to wait returns \<open>Inl s\<close> when it put the running thread
  to sleep, \<open>s\<close> being the state in which the next thread runs; the sleeping thread tries again
  from the head of its loop (\<open>\<dots>_loop\<close>) when it is dispatched.  Otherwise it returns
  \<open>Inr (v, s)\<close>.  \<open>then_do\<close> composes such operations: what follows a wait is not run.
\<close>

section \<open>Operations that may wait\<close>

type_synonym 'a may_wait = "(kernel + 'a \<times> kernel) option"

definition then_do :: "'a may_wait \<Rightarrow> ('a \<Rightarrow> kernel \<Rightarrow> 'b may_wait) \<Rightarrow> 'b may_wait" where
  "then_do m f = do { r \<leftarrow> m; case r of Inl s \<Rightarrow> Some (Inl s) | Inr (v, s) \<Rightarrow> f v s }"

lemma then_do_simps [simp]:
  "then_do (Some (Inr (v, s))) f = f v s" "then_do (Some (Inl s)) f = Some (Inl s)" "then_do None f = None"
  by (simp_all add: then_do_def)

section \<open>Heap buffers\<close>

definition mem_alloc_loop :: "bool \<Rightarrow> nat \<Rightarrow> kernel \<Rightarrow> nat may_wait" where
  "mem_alloc_loop iflag sz s = do {
     (buf, h) \<leftarrow> malloc sz (heap s);
     let s = s\<lparr>heap := h\<rparr>;
     if buf = 0 then do { s \<leftarrow> thread_wait HeapWaitQ s; Some (Inl s) }
     else do { s \<leftarrow> int_end_atomic iflag s; Some (Inr (buf, s)) }
   }"

definition mem_alloc :: "nat \<Rightarrow> kernel \<Rightarrow> nat may_wait" where
  "mem_alloc sz s = do { (iflag, s) \<leftarrow> int_begin_atomic s; mem_alloc_loop iflag sz s }"

definition mem_free :: "nat \<Rightarrow> kernel \<Rightarrow> kernel option" where
  "mem_free p s =
     (if p = 0 then Some s
      else do {
        kassert (p \<ge> h_start (heap s) \<and> p < h_end (heap s));
        (iflag, s) \<leftarrow> int_begin_atomic s;
        h \<leftarrow> free p (heap s);
        s \<leftarrow> thread_wakeup HeapWaitQ (s\<lparr>heap := h\<rparr>);
        int_end_atomic iflag s
      })"

section \<open>Frames\<close>

definition PAGE_SIZE :: nat where "PAGE_SIZE = 4096"

definition PAGE_MASK :: u32 where "PAGE_MASK = push_bit 12 (NOT 0)"

definition upd_frame :: "nat \<Rightarrow> (frame \<Rightarrow> frame) \<Rightarrow> kernel \<Rightarrow> kernel" where
  "upd_frame f g s = s\<lparr>frames := (frames s)(f := g (frames s f))\<rparr>"

definition mem_alloc_frame_loop ::
  "bool \<Rightarrow> frame_state \<Rightarrow> int \<Rightarrow> kernel \<Rightarrow> nat may_wait"
where
  "mem_alloc_frame_loop iflag initial_state initial_refcount s =
     (if list_is_empty FreeFrames (flists s)
      then do { s \<leftarrow> thread_wait FrameWaitQ s; Some (Inl s) }
      else do {
        (f, l) \<leftarrow> list_remove_first FreeFrames (flists s);
        let s = upd_frame f (\<lambda>fr. fr\<lparr>f_state := initial_state, f_refcount := initial_refcount\<rparr>)
                  (s\<lparr>flists := l\<rparr>);
        s \<leftarrow> int_end_atomic iflag s;
        Some (Inr (f, s))
      })"

definition mem_alloc_frame :: "frame_state \<Rightarrow> int \<Rightarrow> kernel \<Rightarrow> nat may_wait" where
  "mem_alloc_frame initial_state initial_refcount s = do {
     (iflag, s) \<leftarrow> int_begin_atomic s;
     mem_alloc_frame_loop iflag initial_state initial_refcount s
   }"

definition mem_free_frame :: "nat \<Rightarrow> kernel \<Rightarrow> kernel option" where
  "mem_free_frame f s = do {
     kassert (f_refcount (frames s f) = 0);
     (iflag, s) \<leftarrow> int_begin_atomic s;
     let s = upd_frame f (\<lambda>fr. fr\<lparr>f_state := FRAME_AVAIL\<rparr>) s;
     l \<leftarrow> list_append FreeFrames f (flists s);
     s \<leftarrow> thread_wakeup FrameWaitQ (s\<lparr>flists := l\<rparr>);
     int_end_atomic iflag s
   }"

text \<open>Frames are named by their index in \<open>s_framelist\<close>.\<close>

definition mem_frame_to_pa :: "nat \<Rightarrow> nat" where
  "mem_frame_to_pa f = w32 (f * PAGE_SIZE)"

definition mem_pa_to_frame :: "nat \<Rightarrow> nat" where
  "mem_pa_to_frame pa = pa div PAGE_SIZE"

definition mem_round_to_page :: "u32 \<Rightarrow> u32" where
  "mem_round_to_page addr =
     (if (addr AND PAGE_MASK) \<noteq> addr then (addr AND PAGE_MASK) + of_nat PAGE_SIZE else addr)"

definition mem_is_page_aligned :: "u32 \<Rightarrow> bool" where
  "mem_is_page_aligned addr = (mem_round_to_page addr = addr)"

subsection \<open>Page arithmetic\<close>

lemma frame_pa_roundtrip: "f * PAGE_SIZE < 2 ^ 32 \<Longrightarrow> mem_pa_to_frame (mem_frame_to_pa f) = f"
  by (simp add: mem_pa_to_frame_def mem_frame_to_pa_def w32_def PAGE_SIZE_def)

lemma unat_page_mask: "unat (addr AND PAGE_MASK) = 4096 * (unat addr div 4096)"
proof -
  have "addr AND PAGE_MASK = push_bit 12 (drop_bit 12 addr)"
    by (rule bit_word_eqI) (auto simp: PAGE_MASK_def bit_and_iff bit_push_bit_iff bit_drop_bit_eq bit_not_iff bit_mask_iff)
  also have "unat \<dots> = (unat addr div 2 ^ 12 * 2 ^ 12) mod 2 ^ 32"
    by (simp add: push_bit_eq_mult drop_bit_eq_div unat_word_ariths unat_div_distrib mult.commute mod_mult_right_eq)
  finally have "unat (addr AND PAGE_MASK) = (unat addr div 2 ^ 12 * 2 ^ 12) mod 2 ^ 32" .
  moreover have "unat addr div 2 ^ 12 * 2 ^ 12 < 2 ^ 32"
    by (rule le_less_trans [OF div_times_less_eq_dividend]) simp
  ultimately show ?thesis by simp
qed

lemma page_aligned_iff: "addr AND PAGE_MASK = addr \<longleftrightarrow> 4096 dvd unat addr"
proof -
  have "addr AND PAGE_MASK = addr \<longleftrightarrow> 4096 * (unat addr div 4096) = unat addr"
    using unat_page_mask [of addr] by (metis word_unat_eq_iff)
  then show ?thesis by (metis dvd_mult_div_cancel dvd_triv_left)
qed

text \<open>Rounding up, unless the address is in the last page of the address space.\<close>

lemma mem_round_to_page_ceil:
  assumes "unat addr \<le> 2 ^ 32 - 4096"
  shows "unat (mem_round_to_page addr) = 4096 * ((unat addr + 4095) div 4096)"
proof (cases "4096 dvd unat addr")
  case True
  then have "mem_round_to_page addr = addr" by (simp add: mem_round_to_page_def page_aligned_iff)
  with True show ?thesis by auto
next
  case False
  let ?q = "unat addr div 4096"
  have "unat addr mod 4096 \<noteq> 0" using False by (simp add: dvd_eq_mod_eq_0)
  then have c: "(unat addr + 4095) div 4096 = ?q + 1" using ceil_div_nat [of 4096 "unat addr"] by simp
  have "unat addr \<noteq> 4294963200" using False by auto
  then have "unat addr < 4294963200" using assms by simp
  then have q: "?q + 1 < 2 ^ 20" by (simp add: less_mult_imp_div_less)
  have "unat (mem_round_to_page addr) = (4096 * ?q + 4096) mod 2 ^ 32"
    using False by (simp add: mem_round_to_page_def page_aligned_iff unat_word_ariths unat_page_mask PAGE_SIZE_def)
  then show ?thesis using c q by simp
qed


section \<open>The heap under the scheduler\<close>

text \<open>\<open>M\<close> maps the allocated chunks to their sizes.\<close>

definition mem_inv :: "(nat \<rightharpoonup> nat) \<Rightarrow> kernel \<Rightarrow> bool" where
  "mem_inv M s \<longleftrightarrow> (\<exists>F. heap_inv (heap s) F M)"

text \<open>The frames of the free list are available; \<open>FA\<close> is the content of all frame lists.\<close>

definition frames_inv :: "(flist \<Rightarrow> nat list) \<Rightarrow> kernel \<Rightarrow> bool" where
  "frames_inv FA s \<longleftrightarrow> lists_rep (flists s) FA
     \<and> (\<forall>f \<in> set (FA FreeFrames). f_state (frames s f) = FRAME_AVAIL)"

lemma sched_inv_mem [simp]:
  "sched_inv A (s\<lparr>heap := h\<rparr>) = sched_inv A s"
  "sched_inv A (s\<lparr>flists := l\<rparr>) = sched_inv A s"
  "sched_inv A (s\<lparr>frames := fr\<rparr>) = sched_inv A s"
  by (simp_all add: sched_inv_def queues_inv_def no_thread_lost_def queued_ok_def)

lemma mem_inv_rest: "heap s' = heap s \<Longrightarrow> mem_inv M s' = mem_inv M s"
  by (simp add: mem_inv_def)

lemma frames_inv_rest:
  "flists s' = flists s \<Longrightarrow> frames s' = frames s \<Longrightarrow> frames_inv FA s' = frames_inv FA s"
  by (simp add: frames_inv_def)

lemma int_flag_id [simp]: "s\<lparr>int_flag := int_flag s\<rparr> = s"
  by simp

lemma mem_alloc_cases:
  assumes inv: "sched_inv A s" and mem: "mem_inv M s"
  shows "(\<exists>p h k. mem_alloc sz s = Some (Inr (p, s\<lparr>heap := h\<rparr>)) \<and> sz_t < p \<and> M (p - sz_t) = None
        \<and> sz \<le> k \<and> mem_inv (M(p - sz_t \<mapsto> k)) (s\<lparr>heap := h\<rparr>))
    \<or> (\<exists>h. mem_inv M (s\<lparr>heap := h\<rparr>)
        \<and> mem_alloc sz s = map_option Inl (thread_wait HeapWaitQ (s\<lparr>int_flag := False, heap := h\<rparr>)))"
proof -
  obtain F where F: "heap_inv (heap s) F M" using mem by (auto simp: mem_inv_def)
  from malloc_cases [OF F, of sz] show ?thesis
  proof (elim disjE exE conjE)
    fix a n h' F'
    assume m: "malloc sz (heap s) = Some (a + sz_t, h')" "M a = None" "0 < a" "chunk_len sz \<le> n"
      "heap_inv h' F' (M(a \<mapsto> n))"
    have "mem_alloc sz s = Some (Inr (a + sz_t, s\<lparr>heap := h'\<rparr>))"
      using m(1) by (simp add: mem_alloc_def mem_alloc_loop_def Let_def)
    moreover have "sz \<le> n" using m(4) by (simp add: chunk_len_def split: if_splits)
    ultimately show ?thesis using m by (intro disjI1 exI [of _ "a + sz_t"]) (auto simp: mem_inv_def)
  next
    fix h' assume m: "malloc sz (heap s) = Some (0, h')" "heap_inv h' F M"
    have "mem_alloc sz s = map_option Inl (thread_wait HeapWaitQ (s\<lparr>int_flag := False, heap := h'\<rparr>))"
      using m(1)
      by (cases "thread_wait HeapWaitQ (s\<lparr>int_flag := False, heap := h'\<rparr>)")
        (simp_all add: mem_alloc_def mem_alloc_loop_def Let_def)
    then show ?thesis using m(2) by (intro disjI2 exI [of _ h']) (auto simp: mem_inv_def)
  qed
qed

text \<open>Freeing a buffer wakes every thread that waits for memory.\<close>

lemma mem_free_ok:
  assumes inv: "sched_inv A s" and mem: "mem_inv M s" and M: "M (p - sz_t) = Some k" and p: "sz_t \<le> p"
  shows "\<exists>s'. mem_free p s = Some s' \<and> sched_inv (wake_all (g_scheduler s) (prio s) HeapWaitQ A) s'
    \<and> mem_inv (M(p - sz_t := None)) s' \<and> undisturbed (s\<lparr>heap := heap s'\<rparr>) s'"
proof -
  obtain F where F: "heap_inv (heap s) F M" using mem by (auto simp: mem_inv_def)
  note I = heap_invD [OF F]
  obtain h' F' where h': "free p (heap s) = Some h'" "heap_inv h' F' (M(p - sz_t := None))"
    using free_ok [OF F M] p by auto
  have blk: "h_start (heap s) \<le> p" "p < h_end (heap s)" "p \<noteq> 0"
    using allocated_block_in_heap [OF F M] p I(7) by auto
  let ?s = "s\<lparr>int_flag := False, heap := h'\<rparr>"
  have "sched_inv A ?s" using inv by simp
  then obtain s1 where s1: "thread_wakeup HeapWaitQ ?s = Some s1" "undisturbed ?s s1"
    "sched_inv (wake_all (g_scheduler ?s) (prio ?s) HeapWaitQ A) s1"
    using wakeup_ok [where q = HeapWaitQ] by fastforce
  note u = undisturbedD [OF s1(2)]
  let ?s' = "s1\<lparr>int_flag := int_flag s\<rparr>"
  have p': "prio ?s = prio s" by (rule prio_core) (simp add: same_threads_def)
  have h1: "heap s1 = h'" using rest_sel(7) [OF u(3)] by simp
  have "mem_free p s = Some ?s'"
    using blk h'(1) s1(1) u(2) by (simp add: mem_free_def halt_simps)
  moreover have "mem_inv (M(p - sz_t := None)) ?s'" using h'(2) h1 by (auto simp: mem_inv_def)
  moreover have "undisturbed (s\<lparr>heap := heap ?s'\<rparr>) ?s'"
    using s1(2) h1 by (simp add: undisturbed_def same_threads_def rest_def)
  ultimately show ?thesis using s1(3) p' by auto
qed

lemma mem_alloc_frame_ok:
  assumes "frames_inv FA s" and "FA FreeFrames = f # fs"
  shows "\<exists>l. mem_alloc_frame st rc s = Some (Inr (f, upd_frame f
      (\<lambda>fr. fr\<lparr>f_state := st, f_refcount := rc\<rparr>) (s\<lparr>flists := l\<rparr>)))
    \<and> frames_inv (FA(FreeFrames := fs)) (upd_frame f
      (\<lambda>fr. fr\<lparr>f_state := st, f_refcount := rc\<rparr>) (s\<lparr>flists := l\<rparr>))"
proof -
  have rep: "lists_rep (flists s) FA" using assms(1) by (simp add: frames_inv_def)
  obtain l where l: "list_remove_first FreeFrames (flists s) = Some (f, l)" "lists_rep l (FA(FreeFrames := fs))"
    using lists_remove_first [where q = FreeFrames, OF rep assms(2)] by blast
  have "f \<notin> set fs" using lists_rep_distinct [OF rep, of FreeFrames] assms(2) by simp
  then have "frames_inv (FA(FreeFrames := fs)) (upd_frame f
      (\<lambda>fr. fr\<lparr>f_state := st, f_refcount := rc\<rparr>) (s\<lparr>flists := l\<rparr>))"
    using l(2) assms by (auto simp: frames_inv_def upd_frame_def)
  moreover have "\<not> list_is_empty FreeFrames (flists s)"
    using lists_is_empty_iff [OF rep, of FreeFrames] assms(2) by simp
  ultimately show ?thesis
    using l(1) by (intro exI [of _ l])
      (simp add: mem_alloc_frame_def mem_alloc_frame_loop_def upd_frame_def Let_def)
qed

lemma mem_alloc_frame_waits:
  assumes "frames_inv FA s" and "FA FreeFrames = []"
  shows "mem_alloc_frame st rc s = map_option Inl (thread_wait FrameWaitQ (s\<lparr>int_flag := False\<rparr>))"
proof -
  have "list_is_empty FreeFrames (flists s)"
    using lists_is_empty_iff [of "flists s" FA FreeFrames] assms by (simp add: frames_inv_def)
  then show ?thesis
    by (cases "thread_wait FrameWaitQ (s\<lparr>int_flag := False\<rparr>)")
      (simp_all add: mem_alloc_frame_def mem_alloc_frame_loop_def)
qed

text \<open>Freeing a frame wakes every thread that waits for a frame; a referenced frame halts.\<close>

lemma mem_free_frame_ok:
  assumes inv: "sched_inv A s" and fr: "frames_inv FA s" and f: "on_no_list f FA"
    and rc: "f_refcount (frames s f) = 0"
  shows "\<exists>s'. mem_free_frame f s = Some s' \<and> sched_inv (wake_all (g_scheduler s) (prio s) FrameWaitQ A) s'
    \<and> frames_inv (FA(FreeFrames := FA FreeFrames @ [f])) s'
    \<and> undisturbed (s\<lparr>flists := flists s', frames := frames s'\<rparr>) s'
    \<and> frames s' = (frames s)(f := (frames s f)\<lparr>f_state := FRAME_AVAIL\<rparr>)"
proof -
  have rep: "lists_rep (flists s) FA" using fr by (simp add: frames_inv_def)
  obtain l where l: "list_append FreeFrames f (flists s) = Some l"
    "lists_rep l (FA(FreeFrames := FA FreeFrames @ [f]))" using lists_append [OF rep f] by blast
  let ?fr = "(frames s)(f := (frames s f)\<lparr>f_state := FRAME_AVAIL\<rparr>)"
  let ?s = "s\<lparr>int_flag := False, frames := ?fr, flists := l\<rparr>"
  have "sched_inv A ?s" using inv by simp
  then obtain s1 where s1: "thread_wakeup FrameWaitQ ?s = Some s1" "undisturbed ?s s1"
    "sched_inv (wake_all (g_scheduler ?s) (prio ?s) FrameWaitQ A) s1"
    using wakeup_ok [where q = FrameWaitQ] by fastforce
  note u = undisturbedD [OF s1(2)]
  let ?s' = "s1\<lparr>int_flag := int_flag s\<rparr>"
  have p': "prio ?s = prio s" by (rule prio_core) (simp add: same_threads_def)
  have h1: "flists s1 = l" "frames s1 = ?fr" using rest_sel(8,9) [OF u(3)] by simp_all
  have "mem_free_frame f s = Some ?s'"
    using rc l(1) s1(1) u(2) by (simp add: mem_free_frame_def upd_frame_def halt_simps Let_def)
  moreover have "frames_inv (FA(FreeFrames := FA FreeFrames @ [f])) ?s'"
    using fr f l(2) h1 by (auto simp: frames_inv_def)
  moreover have "undisturbed (s\<lparr>flists := flists ?s', frames := frames ?s'\<rparr>) ?s'"
    using s1(2) h1 by (simp add: undisturbed_def same_threads_def rest_def)
  ultimately show ?thesis using s1(3) p' h1 by auto
qed

end
