(* ===== verification/Kernel_Thread.thy ===== *)
theory Kernel_Thread imports Kernel_Memory begin

text \<open>
  The life cycle of threads (\<open>src/60-330/kernel/thread.c\<close>, \<open>src/x86/kernel/x86_thread.c\<close>,
  the long-term scheduler of \<open>src/60-330/scheduler.c\<close>) and the work queue that destroys dead
  threads (\<open>src/kernel/workqueue.c\<close>).  A \<open>struct thread\<close> under construction is a local value
  until it is put on a queue: nobody else holds its address before that.
\<close>

section \<open>The work queue\<close>

text \<open>\<open>sizeof(struct workqueue_item)\<close>, \<open>sizeof(struct thread)\<close>, \<open>sizeof(struct process)\<close>.\<close>

abbreviation sizeof_item :: nat where "sizeof_item \<equiv> 12"
abbreviation sizeof_thread :: nat where "sizeof_thread \<equiv> 48"
abbreviation sizeof_process :: nat where "sizeof_process \<equiv> 24"

definition wq_append :: "nat \<Rightarrow> kernel \<Rightarrow> kernel option" where
  "wq_append item s =
     (if s_workqueue_head s = 0
      then Some (s\<lparr>s_workqueue_head := item, s_workqueue_tail := item\<rparr>)
      else do {
        kassert (s_workqueue_tail s \<noteq> 0);
        it \<leftarrow> wq_items s (s_workqueue_tail s);
        Some (s\<lparr>wq_items := (wq_items s)(s_workqueue_tail s \<mapsto> it\<lparr>item_next := item\<rparr>),
                s_workqueue_tail := item\<rparr>)
      })"

definition workqueue_schedule_work :: "callback \<Rightarrow> nat \<Rightarrow> kernel \<Rightarrow> unit may_wait" where
  "workqueue_schedule_work cb d s =
     then_do (mem_alloc sizeof_item s) (\<lambda>item s. do {
       let s = s\<lparr>wq_items := (wq_items s)(item \<mapsto> \<lparr>callback = cb, item_data = d, item_next = 0\<rparr>)\<rparr>;
       (iflag, s) \<leftarrow> int_begin_atomic s;
       s \<leftarrow> wq_append item s;
       s \<leftarrow> thread_wakeup_one WorkWaitQ s;
       s \<leftarrow> int_end_atomic iflag s;
       Some (Inr ((), s))
     })"

text \<open>Taking the first item (a null dereference when there is none).\<close>

definition wq_remove :: "kernel \<Rightarrow> (nat \<times> kernel) option" where
  "wq_remove s = do {
     let item = s_workqueue_head s;
     kassert (item \<noteq> 0);
     it \<leftarrow> wq_items s item;
     let s = s\<lparr>s_workqueue_head := item_next it\<rparr>;
     Some (item, if s_workqueue_head s = 0 then s\<lparr>s_workqueue_tail := 0\<rparr> else s)
   }"

text \<open>The head of the worker's inner loop: wait for an item, or take the first one.\<close>

definition workqueue_take :: "kernel \<Rightarrow> nat may_wait" where
  "workqueue_take s =
     (if s_workqueue_head s = 0 then do { s \<leftarrow> thread_wait WorkWaitQ s; Some (Inl s) }
      else do {
        (item, s) \<leftarrow> wq_remove s;
        s \<leftarrow> int_enable s;
        Some (Inr (item, s))
      })"

section \<open>Destruction\<close>

definition thread_destroy :: "nat \<Rightarrow> kernel \<Rightarrow> kernel option" where
  "thread_destroy t s = do {
     th \<leftarrow> threads s t;
     kassert (tstate th = THREAD_EXITED \<or> tstate th = THREAD_KILLED);
     s \<leftarrow> mem_free (process_ptr th) s;
     s \<leftarrow> mem_free_frame (mem_pa_to_frame (stack th)) s;
     s \<leftarrow> mem_free t s;
     Some (s\<lparr>threads := (threads s)(t := None)\<rparr>)
   }"

text \<open>The rest of the worker's outer loop, with interrupts enabled.  The callback may work on state
  outside the kernel record, which is the second component of the pair.\<close>

definition workqueue_run ::
  "(callback \<Rightarrow> nat \<Rightarrow> kernel \<times> 'd \<Rightarrow> (kernel \<times> 'd) option) \<Rightarrow> nat \<Rightarrow> kernel \<times> 'd \<Rightarrow> (kernel \<times> 'd) option"
where
  "workqueue_run run_callback item = (\<lambda>(s, d). do {
     it \<leftarrow> wq_items s item;
     (s, d) \<leftarrow> run_callback (callback it) (item_data it) (s, d);
     s \<leftarrow> mem_free item s;
     Some (s\<lparr>wq_items := (wq_items s)(item := None)\<rparr>, d)
   })"

definition thread_detach :: "nat \<Rightarrow> kernel \<Rightarrow> unit may_wait" where
  "thread_detach t s = do {
     kassert (\<not> int_enabled s);
     th \<leftarrow> threads s t;
     kassert (refcount th > 0);
     let s = upd_thread t (\<lambda>th. th\<lparr>refcount := refcount th - 1\<rparr>) s;
     if refcount th - 1 = 0 then do {
       p \<leftarrow> process_of t s;
       workqueue_schedule_work Thread_destroy t (s\<lparr>klog := klog s @ [Deallocated (pid p)]\<rparr>)
     } else Some (Inr ((), s))
   }"

section \<open>Creation\<close>

definition gen_pid :: "kernel \<Rightarrow> int \<times> kernel" where
  "gen_pid s = (next_pid s, s\<lparr>g_num_threads := next_pid s + 1, next_pid := next_pid s + 1\<rparr>)"

definition zero_time :: time_stat where
  "zero_time = \<lparr>arrival = 0, first_resp = 0, running = 0, termination_t = 0\<rparr>"

definition zero_process :: process where
  "zero_process = \<lparr>pid = 0, priority = 0, time = zero_time\<rparr>"

definition zero_thread :: thread where
  "zero_thread = \<lparr>stack_ptr = 0, num_ticks = 0, stack = 0, parent = 0, process_ptr = 0,
     process = zero_process, tstate = THREAD_NEW, exitcode = 0, refcount = 0, saved_if = False,
     start_func = 0, start_arg = 0\<rparr>"

definition DEFAULT_PRIORITY :: int where "DEFAULT_PRIORITY = 100"
definition MAX_THREADS :: int where "MAX_THREADS = 24"

definition thread_stack_push :: "thread \<Rightarrow> thread" where
  "thread_stack_push th = th\<lparr>stack_ptr := stack_ptr th - 4\<rparr>"

definition thread_bootstrap :: "thread \<Rightarrow> nat \<Rightarrow> u32 \<Rightarrow> thread" where
  "thread_bootstrap th f arg = (
     let th = th\<lparr>stack_ptr := of_nat (stack th) + of_nat PAGE_SIZE\<rparr>;
         th = (thread_stack_push th)\<lparr>start_arg := arg\<rparr>;
         th = (thread_stack_push th)\<lparr>start_func := f\<rparr>;
         th = thread_stack_push th
     in th\<lparr>stack_ptr := stack_ptr th - 64, saved_if := False\<rparr>)"

text \<open>The first dispatch of a thread enters here.\<close>

definition thread_run :: "kernel \<Rightarrow> kernel option" where
  "thread_run s = int_enable s"

definition attach :: "thread_mode \<Rightarrow> kernel \<Rightarrow> thread \<Rightarrow> thread" where
  "attach mode s th =
     (if mode = THREAD_ATTACHED then th\<lparr>parent := g_current s, refcount := refcount th + 1\<rparr> else th)"

definition put_thread :: "nat \<Rightarrow> thread \<Rightarrow> kernel \<Rightarrow> kernel" where
  "put_thread t th s = s\<lparr>threads := (threads s)(t \<mapsto> th)\<rparr>"

definition upd_process :: "nat \<Rightarrow> (process \<Rightarrow> process) \<Rightarrow> kernel \<Rightarrow> kernel" where
  "upd_process t f s = upd_thread t (\<lambda>th. th\<lparr>process := f (process th)\<rparr>) s"

definition thread_create :: "nat \<Rightarrow> u32 \<Rightarrow> thread_mode \<Rightarrow> kernel \<Rightarrow> nat may_wait" where
  "thread_create f arg mode s =
     then_do (mem_alloc sizeof_thread s) (\<lambda>t s.
     then_do (mem_alloc_frame FRAME_KSTACK 0 s) (\<lambda>frame s.
     let th = attach mode s (zero_thread\<lparr>stack := mem_frame_to_pa frame, refcount := 1\<rparr>);
         th = th\<lparr>tstate := THREAD_NEW\<rparr> in
     then_do (mem_alloc sizeof_process s) (\<lambda>p s. do {
       let th = th\<lparr>process_ptr := p\<rparr>;
       let th = th\<lparr>process := zero_process\<lparr>time := zero_time\<lparr>
             arrival := (if g_numticks s > 0 then g_numticks s else 1)\<rparr>\<rparr>\<rparr>;
       let th = thread_bootstrap th f arg;
       kassert (stack_ptr th \<noteq> 0);
       s \<leftarrow> thread_make_runnable t (put_thread t th s);
       let (pn, s) = gen_pid s;
       let s = upd_process t (\<lambda>p. p\<lparr>pid := pn\<rparr>) s;
       let s = upd_process t (\<lambda>p. p\<lparr>priority := DEFAULT_PRIORITY\<rparr>) s;
       Some (Inr (t, s))
     })))"

record job =
  fn_ptr :: nat
  cpu_burst :: int
  jpriority :: int

definition thread_make_new :: "nat \<Rightarrow> kernel \<Rightarrow> kernel option" where
  "thread_make_new t s = do {
     (iflag, s) \<leftarrow> int_begin_atomic s;
     p \<leftarrow> process_of t s;
     let s = s\<lparr>klog := klog s @ [Making_new (pid p) (priority p)]\<rparr>;
     let s = upd_thread t (\<lambda>th. th\<lparr>tstate := THREAD_NEW\<rparr>) s;
     let s = upd_process t (\<lambda>p. p\<lparr>time := (time p)\<lparr>arrival := g_numticks s\<rparr>\<rparr>) s;
     q \<leftarrow> SCHEDULER (g_scheduler s) (prio_of s) NewQ t (tqs s);
     int_end_atomic iflag (s\<lparr>tqs := q\<rparr>)
   }"

definition thread_create_from_job :: "job \<Rightarrow> u32 \<Rightarrow> thread_mode \<Rightarrow> kernel \<Rightarrow> nat may_wait" where
  "thread_create_from_job new_job arg mode s =
     then_do (mem_alloc sizeof_thread s) (\<lambda>t s.
     then_do (mem_alloc_frame FRAME_KSTACK 0 s) (\<lambda>frame s.
     let th = attach mode s (zero_thread\<lparr>stack := mem_frame_to_pa frame, refcount := 1\<rparr>) in
     then_do (mem_alloc sizeof_process s) (\<lambda>p s. do {
       let (pn, s) = gen_pid s;
       let th = th\<lparr>process_ptr := p, process := zero_process\<lparr>pid := pn,
         priority := (if g_scheduler s = SJF then cpu_burst new_job
                      else if g_scheduler s = PRIORITY then jpriority new_job
                      else DEFAULT_PRIORITY)\<rparr>\<rparr>;
       let th = thread_bootstrap th (fn_ptr new_job) arg;
       kassert (stack_ptr th \<noteq> 0);
       s \<leftarrow> thread_make_new t (put_thread t th s);
       Some (Inr (t, s))
     })))"

partial_function (option) merge_loop :: "kernel \<Rightarrow> kernel option" where
  "merge_loop s =
     (if \<not> list_is_empty NewQ (tqs s) then do {
        (t, l) \<leftarrow> list_remove_first NewQ (tqs s);
        let s = s\<lparr>tqs := l\<rparr>;
        p \<leftarrow> process_of t s;
        let s = narrator (pid p) ''ready'' s;
        let s = upd_thread t (\<lambda>th. th\<lparr>tstate := THREAD_READY\<rparr>) s;
        q \<leftarrow> SCHEDULER (g_scheduler s) (prio_of s) RunQ t (tqs s);
        merge_loop (s\<lparr>tqs := q\<rparr>)
      } else Some s)"

definition merge_new_with_runnable :: "kernel \<Rightarrow> kernel option" where
  "merge_new_with_runnable s = do {
     (iflag, s) \<leftarrow> int_begin_atomic s;
     s \<leftarrow> merge_loop s;
     kassert (list_is_empty NewQ (tqs s));
     let s = s\<lparr>tqs := list_clear NewQ (tqs s)\<rparr>;
     int_end_atomic iflag s
   }"

fun create_jobs :: "job list \<Rightarrow> thread_mode \<Rightarrow> kernel \<Rightarrow> nat list may_wait" where
  "create_jobs [] mode s = Some (Inr ([], s))"
| "create_jobs (j # js) mode s =
     then_do (thread_create_from_job j 0 mode s) (\<lambda>t s.
     then_do (create_jobs js mode s) (\<lambda>ts s. Some (Inr (t # ts, s))))"

definition long_term_scheduler :: "job list \<Rightarrow> thread_mode \<Rightarrow> kernel \<Rightarrow> nat list may_wait" where
  "long_term_scheduler joblist mode s =
     then_do (create_jobs joblist mode s) (\<lambda>ts s. do {
       s \<leftarrow> merge_new_with_runnable s;
       Some (Inr (ts, s))
     })"

text \<open>Boot: the main thread and the idle thread; then the worker.\<close>

definition thread_init :: "nat \<Rightarrow> kernel \<Rightarrow> nat may_wait" where
  "thread_init thread_idle s = do {
     kassert (g_current s = 0);
     kassert (\<not> g_need_reschedule s);
     kassert (\<not> g_preemption s);
     kassert (list_is_empty RunQ (tqs s));
     kassert (THREAD_CONTEXT_SIZE = sizeof_thread_context);
     kassert (THREAD_STACK_PTR_OFFSET = offsetof_stack_ptr);
     then_do (mem_alloc sizeof_thread s) (\<lambda>m s.
       let th = zero_thread\<lparr>stack := 0x100000, tstate := THREAD_RUNNING, refcount := 1\<rparr>;
           s = (put_thread m th s)\<lparr>g_current := m\<rparr> in
       then_do (mem_alloc sizeof_process s) (\<lambda>p s.
         let s = upd_thread m (\<lambda>th. th\<lparr>process_ptr := p\<rparr>) s;
             s = s\<lparr>g_scheduler := FCFS\<rparr>;
             (pn, s) = gen_pid s;
             s = upd_process m (\<lambda>pr. zero_process\<lparr>pid := pn, priority := DEFAULT_PRIORITY,
                   time := zero_time\<lparr>arrival := 1\<rparr>\<rparr>) s in
         thread_create thread_idle 0 THREAD_DETACHED s))
   }"

definition workqueue_init :: "nat \<Rightarrow> kernel \<Rightarrow> nat may_wait" where
  "workqueue_init workqueue_thread s = thread_create workqueue_thread 0 THREAD_DETACHED s"

section \<open>The end of a thread\<close>

text \<open>\<open>Inl\<close>: the exiting thread waits for memory in \<open>thread_detach\<close>.  \<open>Inr\<close>: it has ended.\<close>

definition thread_exit_rest :: "int \<Rightarrow> nat \<Rightarrow> kernel \<Rightarrow> unit may_wait" where
  "thread_exit_rest code t s = do {
     let s = upd_thread t (\<lambda>th. th\<lparr>exitcode := code, tstate := THREAD_EXITED\<rparr>) s;
     p \<leftarrow> process_of t s;
     let s = upd_process t (\<lambda>p. p\<lparr>time := (time p)\<lparr>termination_t := g_numticks s\<rparr>\<rparr>) s;
     let s = narrator (pid p) ''terminated'' s;
     th \<leftarrow> threads s t;
     s \<leftarrow> (if refcount th > 0 then thread_wakeup (ThreadWaitQ t) s else Some s);
     s \<leftarrow> thread_schedule s;
     Some (Inr ((), s))
   }"

definition thread_exit :: "int \<Rightarrow> kernel \<Rightarrow> unit may_wait" where
  "thread_exit code s = do {
     let t = g_current s;
     s \<leftarrow> (if int_enabled s then int_disable s else Some s);
     then_do (thread_detach t s) (\<lambda>_ s. thread_exit_rest code t s)
   }"

definition thread_refcount_is_zero :: "nat \<Rightarrow> kernel \<Rightarrow> bool option" where
  "thread_refcount_is_zero t s = do {
     th \<leftarrow> threads s t;
     kassert (refcount th \<ge> 0);
     Some (refcount th = 0)
   }"

definition thread_not_running :: "nat \<Rightarrow> kernel \<Rightarrow> bool option" where
  "thread_not_running t s = do {
     th \<leftarrow> threads s t;
     kassert (refcount th > 0);
     kassert (parent th = g_current s);
     Some (tstate th = THREAD_EXITED \<or> tstate th = THREAD_KILLED)
   }"

text \<open>One evaluation of the loop of \<open>thread_wait_until\<close>.\<close>

definition thread_wait_until ::
  "qid \<Rightarrow> (nat \<Rightarrow> kernel \<Rightarrow> bool option) \<Rightarrow> nat \<Rightarrow> kernel \<Rightarrow> unit may_wait"
where
  "thread_wait_until q pred t s = do {
     kassert (\<not> int_enabled s);
     b \<leftarrow> pred t s;
     if b then Some (Inr ((), s)) else do { s \<leftarrow> thread_wait q s; Some (Inl s) }
   }"

definition thread_join :: "nat \<Rightarrow> kernel \<Rightarrow> int may_wait" where
  "thread_join child s = do {
     th \<leftarrow> threads s child;
     kassert (g_current s = parent th);
     (iflag, s) \<leftarrow> int_begin_atomic s;
     then_do (thread_wait_until (ThreadWaitQ child) thread_not_running child s) (\<lambda>_ s. do {
       th \<leftarrow> threads s child;
       let code = exitcode th;
       then_do (thread_detach child s) (\<lambda>_ s. do {
         s \<leftarrow> int_end_atomic iflag s;
         Some (Inr (code, s))
       })
     })
   }"

text \<open>The body of the loop of \<open>wait_for_children\<close> after the parent's \<open>thread_yield\<close>.\<close>

definition wait_for_child :: "nat \<Rightarrow> kernel \<Rightarrow> simulation_stat may_wait" where
  "wait_for_child child s = do {
     th \<leftarrow> threads s child;
     kassert (g_current s = parent th);
     (iflag, s) \<leftarrow> int_begin_atomic s;
     then_do (thread_wait_until (ThreadWaitQ child) thread_not_running child s) (\<lambda>_ s. do {
       p \<leftarrow> process_of child s;
       st \<leftarrow> calculate_simulation_stat (time p) (pid p);
       then_do (thread_detach child s) (\<lambda>_ s. do {
         s \<leftarrow> int_end_atomic iflag s;
         Some (Inr (st, s))
       })
     })
   }"

end
