(* ===== verification/Thread_Life.thy ===== *)
theory Thread_Life imports Kernel_Thread begin

text \<open>
  The operations of \<open>Kernel_Thread\<close> keep the scheduler's invariant; what creation, merging,
  ending, detaching and joining do to the queues.
\<close>

section \<open>Queueing a thread under the selected discipline\<close>

lemma on_no_list_unknown: "queues_inv A s \<Longrightarrow> threads s t = None \<Longrightarrow> on_no_list t A"
  by (auto simp: on_no_list_def queued_ok_def dest: queues_invD(2))

lemma scheduler_enqueue:
  assumes inv: "queues_inv A s" and t: "on_no_list t A" and ok: "queued_ok s q t"
  shows "\<exists>l. SCHEDULER (g_scheduler s) (prio_of s) q t (tqs s) = Some l
    \<and> queues_inv (A(q := sched_insert (g_scheduler s) (prio s) t (A q))) (s\<lparr>tqs := l\<rparr>)"
proof -
  have pr: "\<forall>y \<in> insert t (set (A q)). prio_of s y = Some (prio s y)"
    using queued_prio ok queues_invD(2) [OF inv] by blast
  obtain l where l: "SCHEDULER (g_scheduler s) (prio_of s) q t (tqs s) = Some l"
    "lists_rep l (A(q := sched_insert (g_scheduler s) (prio s) t (A q)))"
    using lists_SCHEDULER [OF queues_invD(1) [OF inv] t pr, of "g_scheduler s"] by blast
  have "queues_inv (A(q := sched_insert (g_scheduler s) (prio s) t (A q))) (s\<lparr>tqs := l\<rparr>)"
  proof (rule queues_inv_move [OF inv l(2)])
    show "queued_ok (s\<lparr>tqs := l\<rparr>) q x" if "x \<in> set (sched_insert (g_scheduler s) (prio s) t (A q))" for x
      using that ok queues_invD(2) [OF inv, of x q] by (auto simp: sched.ins_set queued_ok_def)
  qed simp_all
  with l(1) show ?thesis by blast
qed

text \<open>A thread that is on no queue may be changed freely, except for being the running one.\<close>

lemma queues_inv_put:
  "queues_inv A s \<Longrightarrow> on_no_list t A \<Longrightarrow> queues_inv A (s\<lparr>threads := (threads s)(t := x)\<rparr>)"
  by (auto simp: queues_inv_def queued_ok_def on_no_list_def)

lemma no_thread_lost_put:
  "no_thread_lost X A s \<Longrightarrow> no_thread_lost (insert t X) A (s\<lparr>threads := (threads s)(t := x)\<rparr>)"
  by (auto simp: no_thread_lost_def)

lemma no_thread_lost_mono: "no_thread_lost X A s \<Longrightarrow> (\<And>q. set (A q) \<subseteq> set (B q)) \<Longrightarrow> no_thread_lost X B s"
  unfolding no_thread_lost_def by blast

lemma no_thread_lost_queued: "no_thread_lost (insert t X) A s \<Longrightarrow> t \<in> set (A q) \<Longrightarrow> no_thread_lost X A s"
  unfolding no_thread_lost_def by blast

lemma sched_inv_put:
  assumes "sched_inv A s" and "on_no_list t A" and "t \<noteq> g_current s"
  shows "queues_inv A (put_thread t th s)" "no_thread_lost {t, g_current s} A (put_thread t th s)"
    "queued_ok (put_thread t th s) (MutexWaitQ 0) (g_current s)"
  using assms queues_inv_put [of A s t] no_thread_lost_put [of "{g_current s}" A s t]
  by (auto simp: sched_inv_def put_thread_def queued_ok_def)

text \<open>Changes of a thread's data that the scheduler does not look at.\<close>

lemma sched_inv_upd_data:
  assumes "\<And>th. tstate (f th) = tstate th \<and> process_ptr (f th) = process_ptr th"
  shows "sched_inv A (upd_thread t f s) = sched_inv A s"
proof -
  have q: "queued_ok (upd_thread t f s) q x = queued_ok s q x" for q x
    using assms by (cases "threads s t") (auto simp: queued_ok_def)
  have "no_thread_lost X A (upd_thread t f s) = no_thread_lost X A s" for X
  proof (cases "threads s t")
    case None
    then have "threads (upd_thread t f s) = threads s" by (simp add: fun_upd_idem)
    then show ?thesis by (simp add: no_thread_lost_def)
  next
    case (Some th)
    with assms show ?thesis by (auto simp: no_thread_lost_def split: if_splits)
  qed
  with q show ?thesis by (simp add: sched_inv_def queues_inv_def)
qed

lemma sched_inv_upd_process [simp]: "sched_inv A (upd_process t f s) = sched_inv A s"
  unfolding upd_process_def by (rule sched_inv_upd_data) simp

lemma sched_inv_fields [simp]:
  "sched_inv A (s\<lparr>klog := k\<rparr>) = sched_inv A s"
  "sched_inv A (s\<lparr>wq_items := i\<rparr>) = sched_inv A s"
  "sched_inv A (s\<lparr>s_workqueue_head := n\<rparr>) = sched_inv A s"
  "sched_inv A (s\<lparr>s_workqueue_tail := n\<rparr>) = sched_inv A s"
  "sched_inv A (s\<lparr>g_num_threads := i1\<rparr>) = sched_inv A s"
  "sched_inv A (s\<lparr>next_pid := i2\<rparr>) = sched_inv A s"
  by (simp_all add: sched_inv_def queues_inv_def no_thread_lost_def queued_ok_def)

lemma sched_inv_narrator [simp]: "sched_inv A (narrator p m s) = sched_inv A s"
  by (simp add: narrator_def)

lemma gen_pid_eq: "gen_pid s = (next_pid s, s\<lparr>g_num_threads := next_pid s + 1, next_pid := next_pid s + 1\<rparr>)"
  by (simp add: gen_pid_def)

section \<open>Starting a new thread\<close>

text \<open>A thread whose address is not yet in use is published on the ready queue.\<close>

lemma publish_ok:
  assumes inv: "sched_inv A s" and t: "threads s t = None" "t \<noteq> 0" and th: "process_ptr th \<noteq> 0"
  shows "\<exists>s'. thread_make_runnable t (put_thread t th s) = Some s'
    \<and> sched_inv (A(RunQ := sched_insert (g_scheduler s) (prio (put_thread t th s)) t (A RunQ))) s'
    \<and> threads s' = (threads s)(t \<mapsto> th\<lparr>tstate := THREAD_READY\<rparr>)
    \<and> g_current s' = g_current s \<and> int_flag s' = int_flag s \<and> esp s' = esp s \<and> rest s' = rest s"
proof -
  have off: "on_no_list t A" using on_no_list_unknown [OF sched_invD(1) [OF inv] t(1)] .
  have c: "t \<noteq> g_current s" using sched_invD(5) [OF inv] t(1) by auto
  let ?s = "put_thread t th s"
  let ?A = "A(RunQ := sched_insert (g_scheduler s) (prio ?s) t (A RunQ))"
  note P = sched_inv_put [OF inv off c, of th]
  have sel: "threads ?s t = Some th" "g_scheduler ?s = g_scheduler s" "g_current ?s = g_current s"
    "int_flag ?s = int_flag s" "esp ?s = esp s" "rest ?s = rest s"
    by (simp_all add: put_thread_def)
  from make_runnable_ok [OF P(1) off t(2) sel(1) th] obtain s' where
    s': "thread_make_runnable t ?s = Some s'" "queues_inv ?A s'"
      "threads s' = (threads ?s)(t \<mapsto> th\<lparr>tstate := THREAD_READY\<rparr>)" "g_current s' = g_current s"
      "int_flag s' = int_flag s" "esp s' = esp s" "rest s' = rest s" by (auto simp: sel)
  have thr: "threads s' = (threads s)(t \<mapsto> th\<lparr>tstate := THREAD_READY\<rparr>)"
    using s'(3) by (simp add: put_thread_def)
  have "no_thread_lost {g_current s} ?A s'"
  proof (rule no_thread_lostI)
    fix x th' assume x: "threads s' x = Some th'" "tstate th' \<notin> {THREAD_EXITED, THREAD_KILLED}"
      "x \<notin> {g_current s}"
    show "\<exists>q. x \<in> set (?A q)"
    proof (cases "x = t")
      case True then show ?thesis by (intro exI [of _ RunQ]) (simp add: sched.ins_set)
    next
      case False
      with x thr obtain q where "x \<in> set (A q)" using no_thread_lostD [OF sched_invD(2) [OF inv]] by auto
      then have "x \<in> set (?A q)" by (auto simp: sched.ins_set)
      then show ?thesis by blast
    qed
  qed
  moreover have "on_no_list (g_current s) ?A"
    using sched_invD(3) [OF inv] c by (auto simp: on_no_list_def sched.ins_set)
  moreover have "queued_ok s' (MutexWaitQ 0) (g_current s)"
    using inv c thr by (simp add: sched_inv_def queued_ok_def)
  ultimately have "sched_inv ?A s'" using s'(2,4) by (simp add: sched_inv_def)
  then show ?thesis using s' thr by auto
qed

text \<open>The objects of the kernel are allocated buffers, so a fresh buffer is none of them.\<close>

definition objects :: "kernel \<Rightarrow> nat set" where
  "objects s = {t. threads s t \<noteq> None} \<union> {process_ptr th | t th. threads s t = Some th}
    \<union> {i. wq_items s i \<noteq> None}"

definition objects_allocated :: "(nat \<rightharpoonup> nat) \<Rightarrow> kernel \<Rightarrow> bool" where
  "objects_allocated M s \<longleftrightarrow> (\<forall>a \<in> objects s. M (a - sz_t) \<noteq> None)"

lemma fresh_object: "objects_allocated M s \<Longrightarrow> M (a - sz_t) = None \<Longrightarrow> a \<notin> objects s"
  by (auto simp: objects_allocated_def)

lemma objects_allocated_mono:
  "objects_allocated M s \<Longrightarrow> objects s' \<subseteq> objects s \<Longrightarrow> objects_allocated (M(a \<mapsto> n)) s'"
  by (auto simp: objects_allocated_def)

definition kernel_inv ::
  "(qid \<Rightarrow> nat list) \<Rightarrow> (nat \<rightharpoonup> nat) \<Rightarrow> (flist \<Rightarrow> nat list) \<Rightarrow> kernel \<Rightarrow> bool"
where
  "kernel_inv A M FA s \<longleftrightarrow>
     sched_inv A s \<and> mem_inv M s \<and> frames_inv FA s \<and> objects_allocated M s"


lemma kernel_invD:
  assumes "kernel_inv A M FA s"
  shows "sched_inv A s" "mem_inv M s" "frames_inv FA s" "objects_allocated M s"
  using assms by (simp_all add: kernel_inv_def)

lemma objects_same:
  assumes "same_threads s s'" and "wq_items s' = wq_items s"
  shows "objects s' = objects s"
proof -
  have ptr: "map_option process_ptr (threads s' t) = map_option process_ptr (threads s t)" for t
  proof -
    have "map_option (process_ptr \<circ> core) (threads s' t) = map_option (process_ptr \<circ> core) (threads s t)"
      using assms(1) unfolding same_threads_def by (metis option.map_comp)
    then show ?thesis by (simp add: comp_def)
  qed
  have "a \<in> {process_ptr th | t th. threads s' t = Some th} \<longleftrightarrow> a \<in> {process_ptr th | t th. threads s t = Some th}" for a
    using ptr by (smt (verit) mem_Collect_eq map_option_eq_Some)
  moreover have "(threads s' t \<noteq> None) = (threads s t \<noteq> None)" for t
    using same_threads_dom [OF assms(1)] by simp
  ultimately show ?thesis using assms(2) unfolding objects_def by auto
qed

lemma kernel_inv_switched:
  assumes "kernel_inv A M FA s" and "sched_inv A' s'" and "same_threads s s'" and "rest s' = rest s"
  shows "kernel_inv A' M FA s'"
  using assms(1,2) rest_sel [OF assms(4)] objects_same [OF assms(3)]
    mem_inv_rest [of s' s M] frames_inv_rest [of s' s FA]
  by (simp add: kernel_inv_def objects_allocated_def)

lemma kernel_inv_int_flag [simp]: "kernel_inv A M FA (s\<lparr>int_flag := b\<rparr>) = kernel_inv A M FA s"
  by (simp add: kernel_inv_def mem_inv_def frames_inv_def objects_allocated_def objects_def)

lemma kernel_inv_wait:
  assumes inv: "kernel_inv A M FA s" and off: "\<not> int_flag s" and q: "wait_queue q" and run: "A RunQ = n # rs"
  shows "\<exists>s'. thread_wait q s = Some s' \<and> kernel_inv (A(q := A q @ [g_current s], RunQ := rs)) M FA s'
    \<and> g_current s' = n"
  using wait_ok [where q = q, OF kernel_invD(1) [OF inv] off q run] kernel_inv_switched [OF inv] by blast

lemma alloc_step:
  assumes inv: "kernel_inv A M FA s" and run: "A RunQ = n # rs"
  shows "(\<exists>p h k. mem_alloc sz s = Some (Inr (p, s\<lparr>heap := h\<rparr>)) \<and> sz_t < p \<and> M (p - sz_t) = None
        \<and> sz \<le> k \<and> kernel_inv A (M(p - sz_t \<mapsto> k)) FA (s\<lparr>heap := h\<rparr>))
    \<or> (\<exists>s'. mem_alloc sz s = Some (Inl s') \<and> g_current s' = n
        \<and> kernel_inv (A(HeapWaitQ := A HeapWaitQ @ [g_current s], RunQ := rs)) M FA s')"
proof -
  note I = kernel_invD [OF inv]
  from mem_alloc_cases [OF I(1,2), of sz] show ?thesis
  proof (elim disjE exE conjE)
    fix p h k
    assume a: "mem_alloc sz s = Some (Inr (p, s\<lparr>heap := h\<rparr>))" "sz_t < p" "M (p - sz_t) = None"
      "sz \<le> k" "mem_inv (M(p - sz_t \<mapsto> k)) (s\<lparr>heap := h\<rparr>)"
    have "kernel_inv A (M(p - sz_t \<mapsto> k)) FA (s\<lparr>heap := h\<rparr>)"
      using I a(5) by (auto simp: kernel_inv_def frames_inv_def objects_allocated_def objects_def)
    with a show ?thesis by blast
  next
    fix h
    assume a: "mem_inv M (s\<lparr>heap := h\<rparr>)"
      "mem_alloc sz s = map_option Inl (thread_wait HeapWaitQ (s\<lparr>int_flag := False, heap := h\<rparr>))"
    let ?s = "s\<lparr>int_flag := False, heap := h\<rparr>"
    have "kernel_inv A M FA ?s"
      using I a(1) by (auto simp: kernel_inv_def mem_inv_def frames_inv_def objects_allocated_def objects_def)
    from kernel_inv_wait [where q = HeapWaitQ, OF this _ _ run] obtain s' where
      "thread_wait HeapWaitQ ?s = Some s'" "g_current s' = n"
      "kernel_inv (A(HeapWaitQ := A HeapWaitQ @ [g_current s], RunQ := rs)) M FA s'" by auto
    with a(2) show ?thesis by auto
  qed
qed

lemma frame_step:
  assumes inv: "kernel_inv A M FA s" and run: "A RunQ = n # rs"
  shows "(\<exists>f fs s'. mem_alloc_frame st rc s = Some (Inr (f, s')) \<and> FA FreeFrames = f # fs
        \<and> kernel_inv A M (FA(FreeFrames := fs)) s' \<and> threads s' = threads s \<and> g_current s' = g_current s
        \<and> heap s' = heap s \<and> wq_items s' = wq_items s \<and> g_scheduler s' = g_scheduler s
        \<and> next_pid s' = next_pid s \<and> g_numticks s' = g_numticks s \<and> int_flag s' = int_flag s)
    \<or> (\<exists>s'. mem_alloc_frame st rc s = Some (Inl s') \<and> g_current s' = n
        \<and> kernel_inv (A(FrameWaitQ := A FrameWaitQ @ [g_current s], RunQ := rs)) M FA s')"
proof (cases "FA FreeFrames")
  case Nil
  have "kernel_inv A M FA (s\<lparr>int_flag := False\<rparr>)" using inv by simp
  from kernel_inv_wait [where q = FrameWaitQ, OF this _ _ run] obtain s' where
    "thread_wait FrameWaitQ (s\<lparr>int_flag := False\<rparr>) = Some s'" "g_current s' = n"
    "kernel_inv (A(FrameWaitQ := A FrameWaitQ @ [g_current s], RunQ := rs)) M FA s'" by auto
  with mem_alloc_frame_waits [OF kernel_invD(3) [OF inv] Nil, of st rc] show ?thesis by auto
next
  case (Cons f fs)
  from mem_alloc_frame_ok [OF kernel_invD(3) [OF inv] Cons, of st rc] obtain l where
    l: "mem_alloc_frame st rc s = Some (Inr (f, upd_frame f
      (\<lambda>fr. fr\<lparr>f_state := st, f_refcount := rc\<rparr>) (s\<lparr>flists := l\<rparr>)))"
    and fi: "frames_inv (FA(FreeFrames := fs)) (upd_frame f
      (\<lambda>fr. fr\<lparr>f_state := st, f_refcount := rc\<rparr>) (s\<lparr>flists := l\<rparr>))" by blast
  let ?s = "upd_frame f (\<lambda>fr. fr\<lparr>f_state := st, f_refcount := rc\<rparr>) (s\<lparr>flists := l\<rparr>)"
  have "kernel_inv A M (FA(FreeFrames := fs)) ?s"
    using kernel_invD [OF inv] fi
    by (simp add: kernel_inv_def upd_frame_def mem_inv_def objects_allocated_def objects_def)
  then show ?thesis using l Cons by (intro disjI1 exI [of _ f] exI [of _ fs] exI [of _ ?s]) (simp add: upd_frame_def)
qed

lemma bootstrap_stack_ptr:
  "stack_ptr (thread_bootstrap th f arg) = of_nat (stack th) + 4020"
  by (simp add: thread_bootstrap_def thread_stack_push_def Let_def PAGE_SIZE_def)

lemma bootstrap_nonzero:
  assumes "stack th = mem_frame_to_pa k"
  shows "stack_ptr (thread_bootstrap th f arg) \<noteq> 0"
proof
  assume "stack_ptr (thread_bootstrap th f arg) = 0"
  then have "(of_nat (mem_frame_to_pa k + 4020) :: u32) = 0" using assms by (simp add: bootstrap_stack_ptr)
  then have "2 ^ 32 dvd mem_frame_to_pa k + 4020" unfolding word_of_nat_eq_0_iff by simp
  moreover have "(4096 :: nat) dvd 2 ^ 32" by simp
  ultimately have "4096 dvd mem_frame_to_pa k + 4020" by (rule dvd_trans [rotated])
  moreover have "4096 dvd mem_frame_to_pa k"
    by (simp add: mem_frame_to_pa_def w32_def PAGE_SIZE_def dvd_mod)
  ultimately have "(4096 :: nat) dvd 4020" by (simp add: dvd_add_right_iff)
  then show False by simp
qed

lemma bootstrap_fields [simp]:
  "tstate (thread_bootstrap th f arg) = tstate th" "process_ptr (thread_bootstrap th f arg) = process_ptr th"
  "process (thread_bootstrap th f arg) = process th" "parent (thread_bootstrap th f arg) = parent th"
  "refcount (thread_bootstrap th f arg) = refcount th" "stack (thread_bootstrap th f arg) = stack th"
  "start_func (thread_bootstrap th f arg) = f" "start_arg (thread_bootstrap th f arg) = arg"
  "saved_if (thread_bootstrap th f arg) = False"
  by (simp_all add: thread_bootstrap_def thread_stack_push_def Let_def)

lemma attach_fields [simp]:
  "tstate (attach mode s th) = tstate th" "process_ptr (attach mode s th) = process_ptr th"
  "stack (attach mode s th) = stack th" "process (attach mode s th) = process th"
  by (simp_all add: attach_def)


section \<open>thread_create\<close>

lemma narrator_fields [simp]:
  "heap (narrator p m s) = heap s" "frames (narrator p m s) = frames s" "flists (narrator p m s) = flists s"
  "wq_items (narrator p m s) = wq_items s"
  by (simp_all add: narrator_def)

lemma upd_process_sel [simp]:
  "threads (upd_process t f s) = (threads s)(t := map_option (\<lambda>th. th\<lparr>process := f (process th)\<rparr>) (threads s t))"
  "g_current (upd_process t f s) = g_current s" "int_flag (upd_process t f s) = int_flag s"
  "heap (upd_process t f s) = heap s" "frames (upd_process t f s) = frames s"
  "flists (upd_process t f s) = flists s" "wq_items (upd_process t f s) = wq_items s"
  "next_pid (upd_process t f s) = next_pid s" "g_scheduler (upd_process t f s) = g_scheduler s"
  "g_numticks (upd_process t f s) = g_numticks s" "tqs (upd_process t f s) = tqs s"
  "rest (upd_process t f s) = rest s"
  by (simp_all add: upd_process_def upd_thread_def rest_def)

lemma kernel_inv_upd_process: "kernel_inv A M FA s \<Longrightarrow> kernel_inv A M FA (upd_process t f s)"
proof -
  assume inv: "kernel_inv A M FA s"
  have "objects (upd_process t f s) \<subseteq> objects s" by (auto simp: objects_def split: if_splits)
  with kernel_invD [OF inv] show ?thesis
    by (auto simp: kernel_inv_def mem_inv_def frames_inv_def objects_allocated_def)
qed

lemma objects_put:
  "objects (put_thread t th s) \<subseteq> insert t (insert (process_ptr th) (objects s))"
  by (auto simp: objects_def put_thread_def split: if_splits)

lemma created_inv:
  assumes inv: "kernel_inv A M FA s" and t: "threads s t = None" "sz_t < t" "M (t - sz_t) \<noteq> None"
    and th: "sz_t < process_ptr th" "M (process_ptr th - sz_t) \<noteq> None"
  shows "\<exists>s'. thread_make_runnable t (put_thread t th s) = Some s'
    \<and> kernel_inv (A(RunQ := sched_insert (g_scheduler s) (prio (put_thread t th s)) t (A RunQ))) M FA s'
    \<and> threads s' = (threads s)(t \<mapsto> th\<lparr>tstate := THREAD_READY\<rparr>)
    \<and> g_current s' = g_current s \<and> int_flag s' = int_flag s \<and> rest s' = rest s"
proof -
  let ?A = "A(RunQ := sched_insert (g_scheduler s) (prio (put_thread t th s)) t (A RunQ))"
  obtain s' where s': "thread_make_runnable t (put_thread t th s) = Some s'" "sched_inv ?A s'"
    "threads s' = (threads s)(t \<mapsto> th\<lparr>tstate := THREAD_READY\<rparr>)"
    "g_current s' = g_current s" "int_flag s' = int_flag s" "rest s' = rest s"
    using publish_ok [OF kernel_invD(1) [OF inv] t(1), of th] t th by auto
  have "objects s' \<subseteq> insert t (insert (process_ptr th) (objects s))"
    using s'(3) rest_sel(10) [OF s'(6)] by (auto simp: objects_def split: if_splits)
  then have "objects_allocated M s'"
    using kernel_invD(4) [OF inv] t(3) th(2) by (auto simp: objects_allocated_def)
  moreover have "mem_inv M s'" "frames_inv FA s'"
    using kernel_invD(2,3) [OF inv] rest_sel(7-9) [OF s'(6)] by (simp_all add: mem_inv_def frames_inv_def)
  ultimately show ?thesis using s' by (auto simp: kernel_inv_def)
qed

text \<open>The record that \<open>thread_create\<close> leaves in memory.\<close>

definition created_thread :: "nat \<Rightarrow> u32 \<Rightarrow> thread_mode \<Rightarrow> kernel \<Rightarrow> nat \<Rightarrow> nat \<Rightarrow> thread" where
  "created_thread f arg mode s frame p =
     (thread_bootstrap ((attach mode s (zero_thread\<lparr>stack := mem_frame_to_pa frame, refcount := 1\<rparr>))
        \<lparr>tstate := THREAD_NEW, process_ptr := p, process := zero_process\<lparr>time := zero_time\<lparr>
           arrival := (if g_numticks s > 0 then g_numticks s else 1)\<rparr>\<rparr>\<rparr>) f arg)"

definition allocated_more :: "(nat \<rightharpoonup> nat) \<Rightarrow> (nat \<rightharpoonup> nat) \<Rightarrow> bool" where
  "allocated_more M M' \<longleftrightarrow> (\<forall>a n. M a = Some n \<longrightarrow> M' a = Some n)"

text \<open>Creation succeeds when its three allocations do.\<close>

lemma thread_create_success:
  assumes inv: "kernel_inv A M FA s"
    and a1: "mem_alloc sizeof_thread s = Some (Inr (t, s\<lparr>heap := h1\<rparr>))" "sz_t < t" "M (t - sz_t) = None"
      "kernel_inv A (M(t - sz_t \<mapsto> k1)) FA (s\<lparr>heap := h1\<rparr>)"
    and a2: "mem_alloc_frame FRAME_KSTACK 0 (s\<lparr>heap := h1\<rparr>) = Some (Inr (frame, s2))" "FA FreeFrames = frame # fs"
        "kernel_inv A (M(t - sz_t \<mapsto> k1)) (FA(FreeFrames := fs)) s2" "threads s2 = threads (s\<lparr>heap := h1\<rparr>)"
        "g_current s2 = g_current (s\<lparr>heap := h1\<rparr>)" "g_scheduler s2 = g_scheduler (s\<lparr>heap := h1\<rparr>)"
        "next_pid s2 = next_pid (s\<lparr>heap := h1\<rparr>)" "g_numticks s2 = g_numticks (s\<lparr>heap := h1\<rparr>)"
        "int_flag s2 = int_flag (s\<lparr>heap := h1\<rparr>)"
    and a3: "mem_alloc sizeof_process s2 = Some (Inr (p, s2\<lparr>heap := h3\<rparr>))" "sz_t < p"
      "(M(t - sz_t \<mapsto> k1)) (p - sz_t) = None"
      "kernel_inv A (M(t - sz_t \<mapsto> k1, p - sz_t \<mapsto> k3)) (FA(FreeFrames := fs)) (s2\<lparr>heap := h3\<rparr>)"
  shows "\<exists>s'. thread_create f arg mode s = Some (Inr (t, s')) \<and> threads s t = None
    \<and> kernel_inv (A(RunQ := sched_insert (g_scheduler s) ((prio s)(t := 0)) t (A RunQ)))
        (M(t - sz_t \<mapsto> k1, p - sz_t \<mapsto> k3)) (FA(FreeFrames := fs)) s'
    \<and> threads s' = (threads s)(t \<mapsto> (created_thread f arg mode s frame p)\<lparr>tstate := THREAD_READY,
         process := zero_process\<lparr>pid := next_pid s, priority := DEFAULT_PRIORITY, time := zero_time\<lparr>
           arrival := (if g_numticks s > 0 then g_numticks s else 1)\<rparr>\<rparr>\<rparr>)
    \<and> g_current s' = g_current s \<and> int_flag s' = int_flag s \<and> next_pid s' = next_pid s + 1
    \<and> heap s' = h3 \<and> g_scheduler s' = g_scheduler s"
proof -
  let ?s1 = "s\<lparr>heap := h1\<rparr>" and ?M1 = "M(t - sz_t \<mapsto> k1)" and ?FA = "FA(FreeFrames := fs)"
  have t: "threads s t = None"
    using fresh_object [OF kernel_invD(4) [OF inv] a1(3)] by (auto simp: objects_def)
  let ?s3 = "s2\<lparr>heap := h3\<rparr>" and ?M3 = "?M1(p - sz_t \<mapsto> k3)"
  let ?th = "created_thread f arg mode s frame p"
  have t3: "threads ?s3 t = None" using t a2(4) by simp
  have ptr: "process_ptr ?th = p" by (simp add: created_thread_def)
  have pt: "p \<noteq> t" using a3(3) a3(2) by auto
  have p1: "sz_t < process_ptr ?th" "?M3 (process_ptr ?th - sz_t) \<noteq> None" using ptr a3(2) by simp_all
  have Mt: "?M3 (t - sz_t) \<noteq> None" by simp
  obtain s4 where s4: "thread_make_runnable t (put_thread t ?th ?s3) = Some s4"
    "kernel_inv (A(RunQ := sched_insert (g_scheduler ?s3) (prio (put_thread t ?th ?s3)) t (A RunQ))) ?M3 ?FA s4"
    "threads s4 = (threads ?s3)(t \<mapsto> ?th\<lparr>tstate := THREAD_READY\<rparr>)"
    "g_current s4 = g_current ?s3" "int_flag s4 = int_flag ?s3" "rest s4 = rest ?s3"
    using created_inv [OF a3(4) t3 a1(2) Mt p1] by blast
  have pr: "prio (put_thread t ?th ?s3) = (prio s)(t := 0)"
    using a2(4) ptr a3(2)
    by (auto simp: fun_eq_iff prio_def prio_of_def process_of_def put_thread_def created_thread_def
        zero_process_def)
  let ?s5 = "s4\<lparr>g_num_threads := next_pid s4 + 1, next_pid := next_pid s4 + 1\<rparr>"
  let ?s6 = "upd_process t (\<lambda>p. p\<lparr>priority := DEFAULT_PRIORITY\<rparr>)
      (upd_process t (\<lambda>p. p\<lparr>pid := next_pid s4\<rparr>) ?s5)"
  have np: "next_pid s4 = next_pid s" using rest_sel(15) [OF s4(6)] a2(7) by simp
  have "thread_create f arg mode s = Some (Inr (t, ?s6))"
  proof -
    have at: "attach mode s2 x = attach mode s x" for x using a2(5) by (simp add: attach_def)
    have nz: "stack_ptr ?th \<noteq> 0"
      unfolding created_thread_def by (rule bootstrap_nonzero [of _ frame]) (simp add: zero_thread_def attach_def)
    have th: "thread_bootstrap (attach mode s2 (zero_thread\<lparr>stack := mem_frame_to_pa frame, refcount := 1\<rparr>)
        \<lparr>tstate := THREAD_NEW\<rparr>\<lparr>process_ptr := p\<rparr>\<lparr>process := zero_process\<lparr>time := zero_time\<lparr>
          arrival := (if g_numticks ?s3 > 0 then g_numticks ?s3 else 1)\<rparr>\<rparr>\<rparr>) f arg = ?th"
      using a2(8) by (simp add: created_thread_def at)
    show ?thesis
      unfolding thread_create_def a1(1) then_do_simps a2(1) Let_def a3(1) th
      using s4(1) nz by (simp add: gen_pid_eq halt_simps)
  qed
  moreover have "kernel_inv (A(RunQ := sched_insert (g_scheduler s) ((prio s)(t := 0)) t (A RunQ))) ?M3 ?FA ?s6"
  proof -
    have "kernel_inv (A(RunQ := sched_insert (g_scheduler s) ((prio s)(t := 0)) t (A RunQ))) ?M3 ?FA s4"
      using s4(2) pr a2(6) by simp
    then have "kernel_inv (A(RunQ := sched_insert (g_scheduler s) ((prio s)(t := 0)) t (A RunQ))) ?M3 ?FA ?s5"
      by (simp add: kernel_inv_def mem_inv_def frames_inv_def objects_allocated_def objects_def)
    then show ?thesis by (intro kernel_inv_upd_process)
  qed
  moreover have "threads ?s6 = (threads s)(t \<mapsto> ?th\<lparr>tstate := THREAD_READY,
       process := zero_process\<lparr>pid := next_pid s, priority := DEFAULT_PRIORITY, time := zero_time\<lparr>
         arrival := (if g_numticks s > 0 then g_numticks s else 1)\<rparr>\<rparr>\<rparr>)"
  proof -
    have "process ?th = zero_process\<lparr>time := zero_time\<lparr>
       arrival := (if g_numticks s > 0 then g_numticks s else 1)\<rparr>\<rparr>"
      by (simp add: created_thread_def)
    then show ?thesis using s4(3) a2(4) np by (simp add: zero_process_def)
  qed
  moreover have "heap ?s6 = h3" "g_scheduler ?s6 = g_scheduler s"
    using rest_sel(7) [OF s4(6)] rest_sel(2) [OF s4(6)] a2(6) by (simp_all add: upd_process_def upd_thread_def)
  ultimately show ?thesis using t s4(4,5) a2(5,9) np by (intro exI [of _ ?s6]) simp
qed

lemma thread_create_cases:
  assumes inv: "kernel_inv A M FA s" and run: "A RunQ = n # rs"
  shows "(\<exists>A' M' FA' s'. thread_create f arg mode s = Some (Inl s') \<and> kernel_inv A' M' FA' s'
        \<and> g_current s' = n \<and> allocated_more M M')
    \<or> (\<exists>t s' frame p M' FA'. thread_create f arg mode s = Some (Inr (t, s')) \<and> threads s t = None
        \<and> kernel_inv (A(RunQ := sched_insert (g_scheduler s) ((prio s)(t := 0)) t (A RunQ))) M' FA' s'
        \<and> threads s' = (threads s)(t \<mapsto> (created_thread f arg mode s frame p)\<lparr>tstate := THREAD_READY,
             process := zero_process\<lparr>pid := next_pid s, priority := DEFAULT_PRIORITY, time := zero_time\<lparr>
               arrival := (if g_numticks s > 0 then g_numticks s else 1)\<rparr>\<rparr>\<rparr>)
        \<and> g_current s' = g_current s \<and> int_flag s' = int_flag s \<and> next_pid s' = next_pid s + 1
        \<and> frame \<in> set (FA FreeFrames) \<and> allocated_more M M')"
proof -
  from alloc_step [OF inv run, of sizeof_thread] show ?thesis
  proof (elim disjE exE conjE)
    fix s' assume "mem_alloc sizeof_thread s = Some (Inl s')" "g_current s' = n"
      "kernel_inv (A(HeapWaitQ := A HeapWaitQ @ [g_current s], RunQ := rs)) M FA s'"
    then show ?thesis
      by (intro disjI1) (auto simp: thread_create_def allocated_more_def intro!: exI)
  next
    fix t h1 k1
    assume a1: "mem_alloc sizeof_thread s = Some (Inr (t, s\<lparr>heap := h1\<rparr>))" "sz_t < t" "M (t - sz_t) = None"
      "kernel_inv A (M(t - sz_t \<mapsto> k1)) FA (s\<lparr>heap := h1\<rparr>)"
    let ?s1 = "s\<lparr>heap := h1\<rparr>" and ?M1 = "M(t - sz_t \<mapsto> k1)"
    have more1: "allocated_more M ?M1" using a1(3) by (auto simp: allocated_more_def)
    have t: "threads s t = None"
      using fresh_object [OF kernel_invD(4) [OF inv] a1(3)] by (auto simp: objects_def)
    from frame_step [OF a1(4) run, of FRAME_KSTACK 0] show ?thesis
    proof (elim disjE exE conjE)
      fix s' assume "mem_alloc_frame FRAME_KSTACK 0 ?s1 = Some (Inl s')" "g_current s' = n"
        "kernel_inv (A(FrameWaitQ := A FrameWaitQ @ [g_current ?s1], RunQ := rs)) ?M1 FA s'"
      then show ?thesis using a1(1) more1
        by (intro disjI1) (auto simp: thread_create_def intro!: exI)
    next
      fix frame fs s2
      assume a2: "mem_alloc_frame FRAME_KSTACK 0 ?s1 = Some (Inr (frame, s2))" "FA FreeFrames = frame # fs"
        "kernel_inv A ?M1 (FA(FreeFrames := fs)) s2" "threads s2 = threads ?s1"
        "g_current s2 = g_current ?s1" "g_scheduler s2 = g_scheduler ?s1" "next_pid s2 = next_pid ?s1"
        "g_numticks s2 = g_numticks ?s1" "int_flag s2 = int_flag ?s1"
      let ?FA = "FA(FreeFrames := fs)"
      from alloc_step [OF a2(3) run, of sizeof_process] show ?thesis
      proof (elim disjE exE conjE)
        fix s' assume "mem_alloc sizeof_process s2 = Some (Inl s')" "g_current s' = n"
          "kernel_inv (A(HeapWaitQ := A HeapWaitQ @ [g_current s2], RunQ := rs)) ?M1 ?FA s'"
        then show ?thesis using a1(1) a2(1) more1
          by (intro disjI1) (auto simp: thread_create_def Let_def intro!: exI)
      next
        fix p h3 k3
        assume a3: "mem_alloc sizeof_process s2 = Some (Inr (p, s2\<lparr>heap := h3\<rparr>))" "sz_t < p"
          "?M1 (p - sz_t) = None" "kernel_inv A (?M1(p - sz_t \<mapsto> k3)) ?FA (s2\<lparr>heap := h3\<rparr>)"
        have more3: "allocated_more M (?M1(p - sz_t \<mapsto> k3))"
          using a1(3) a3(3) by (auto simp: allocated_more_def split: if_splits)
        from thread_create_success [OF inv a1 a2(1-9) a3, of f arg mode] more3 a2(2) show ?thesis
          by (intro disjI2) (elim exE conjE, rule exI [of _ t], intro exI conjI, assumption+, simp_all)
      qed
    qed
  qed
qed

end
