(* ===== verification/Work_Queue.thy ===== *)
theory Work_Queue imports Thread_Life begin

text \<open>
  The queue of deferred work (\<open>src/kernel/workqueue.c\<close>) as a first-in first-out queue over its
  singly linked items, and the two ends of it: a thread that schedules work and the worker.
\<close>

fun wq_chain :: "(nat \<rightharpoonup> workqueue_item) \<Rightarrow> nat \<Rightarrow> (nat \<times> nat) list \<Rightarrow> bool" where
  "wq_chain items p [] = (p = 0)"
| "wq_chain items p (x # xs) =
     (p = fst x \<and> p \<noteq> 0 \<and> (case items p of None \<Rightarrow> False
        | Some it \<Rightarrow> item_data it = snd x \<and> wq_chain items (item_next it) xs))"

text \<open>\<open>xs\<close>: the pending items with their data, the next one to be worked on first.\<close>

definition wq_rep :: "kernel \<Rightarrow> (nat \<times> nat) list \<Rightarrow> bool" where
  "wq_rep s xs \<longleftrightarrow> wq_chain (wq_items s) (s_workqueue_head s) xs \<and> distinct (map fst xs)
     \<and> s_workqueue_tail s = (if xs = [] then 0 else fst (last xs))"

definition new_item :: "nat \<Rightarrow> workqueue_item" where
  "new_item d = \<lparr>callback = Thread_destroy, item_data = d, item_next = 0\<rparr>"

definition wq_push :: "nat \<times> nat \<Rightarrow> kernel \<Rightarrow> kernel option" where
  "wq_push x s = wq_append (fst x) (s\<lparr>wq_items := (wq_items s)(fst x \<mapsto> new_item (snd x))\<rparr>)"

definition wq_pop :: "kernel \<Rightarrow> ((nat \<times> nat) \<times> kernel) option" where
  "wq_pop s = do {
     (i, s') \<leftarrow> wq_remove s;
     it \<leftarrow> wq_items s i;
     Some ((i, item_data it), s')
   }"

lemma wq_chain_upd: "a \<notin> fst ` set xs \<Longrightarrow> wq_chain (items(a := v)) p xs = wq_chain items p xs"
  by (induction xs arbitrary: p) (auto split: option.splits)

lemma wq_chain_snoc:
  assumes "wq_chain items p (xs @ [(a, d)])" and "distinct (map fst (xs @ [(a, d)]))"
    and "items a = Some it" and "items b = Some (new_item e)" and "b \<noteq> 0" and "b \<notin> fst ` set (xs @ [(a, d)])"
  shows "wq_chain (items(a \<mapsto> it\<lparr>item_next := b\<rparr>)) p (xs @ [(a, d), (b, e)])"
  using assms(1,2,6)
proof (induction xs arbitrary: p)
  case Nil
  then show ?case using assms(3-5) by (auto simp: new_item_def)
next
  case (Cons x xs)
  then show ?case using assms(3) by (auto split: option.splits)
qed

lemma wq_chain_last:
  "wq_chain items p (xs @ [(a, d)]) \<Longrightarrow> a \<noteq> 0 \<and> (\<exists>it. items a = Some it)"
  by (induction xs arbitrary: p) (auto split: option.splits)

lemma wq_push_rep:
  assumes rep: "wq_rep s xs" and i: "i \<noteq> 0" "i \<notin> fst ` set xs"
  shows "\<exists>s'. wq_push (i, d) s = Some s' \<and> wq_rep s' (xs @ [(i, d)])
    \<and> (\<exists>items h t. s' = s\<lparr>wq_items := items, s_workqueue_head := h, s_workqueue_tail := t\<rparr>
         \<and> dom items = insert i (dom (wq_items s)))"
proof -
  let ?items = "(wq_items s)(i \<mapsto> new_item d)"
  have ch: "wq_chain ?items (s_workqueue_head s) xs" "distinct (map fst xs)"
    using rep i by (simp_all add: wq_rep_def wq_chain_upd)
  show ?thesis
  proof (cases xs rule: rev_cases)
    case Nil
    then have h: "s_workqueue_head s = 0" using rep by (simp add: wq_rep_def)
    let ?s = "s\<lparr>wq_items := ?items, s_workqueue_head := i, s_workqueue_tail := i\<rparr>"
    have "wq_push (i, d) s = Some ?s" using h by (simp add: wq_push_def wq_append_def)
    moreover have "wq_rep ?s (xs @ [(i, d)])" using Nil i by (simp add: wq_rep_def new_item_def)
    moreover have "dom ?items = insert i (dom (wq_items s))" by simp
    ultimately show ?thesis by blast
  next
    case (snoc ys y)
    obtain a c where y: "y = (a, c)" by fastforce
    have h: "s_workqueue_head s \<noteq> 0" using ch(1) snoc by (cases ys) auto
    have tl: "s_workqueue_tail s = a" using rep snoc y by (simp add: wq_rep_def)
    have "a \<noteq> 0 \<and> (\<exists>it. ?items a = Some it)" using ch(1) snoc y wq_chain_last by blast
    then obtain it where it: "a \<noteq> 0" "?items a = Some it" by blast
    let ?s = "s\<lparr>wq_items := ?items(a \<mapsto> it\<lparr>item_next := i\<rparr>), s_workqueue_tail := i\<rparr>"
    have "wq_push (i, d) s = Some ?s"
      using h tl it by (simp add: wq_push_def wq_append_def halt_simps)
    moreover have "wq_chain (wq_items ?s) (s_workqueue_head ?s) (ys @ [(a, c), (i, d)])"
      using wq_chain_snoc [of ?items "s_workqueue_head s" ys a c it i d] ch snoc y it i by simp
    then have "wq_rep ?s (xs @ [(i, d)])"
      using rep snoc y i by (auto simp: wq_rep_def)
    moreover have "dom (?items(a \<mapsto> it\<lparr>item_next := i\<rparr>)) = insert i (dom (wq_items s))"
      using it by (auto split: if_splits)
    moreover have "?s = s\<lparr>wq_items := ?items(a \<mapsto> it\<lparr>item_next := i\<rparr>),
        s_workqueue_head := s_workqueue_head s, s_workqueue_tail := i\<rparr>" by simp
    ultimately show ?thesis by metis
  qed
qed

lemma wq_remove_rep:
  assumes rep: "wq_rep s (x # xs)"
  shows "\<exists>s'. wq_remove s = Some (fst x, s') \<and> wq_rep s' xs
    \<and> (\<exists>h t. s' = s\<lparr>s_workqueue_head := h, s_workqueue_tail := t\<rparr>)"
proof -
  obtain it where it: "s_workqueue_head s = fst x" "fst x \<noteq> 0" "wq_items s (fst x) = Some it"
    "wq_chain (wq_items s) (item_next it) xs"
    using rep by (auto simp: wq_rep_def split: option.splits)
  let ?s = "s\<lparr>s_workqueue_head := item_next it\<rparr>"
  have z: "item_next it = 0 \<longleftrightarrow> xs = []" using it(4) by (cases xs) auto
  let ?s' = "if item_next it = 0 then ?s\<lparr>s_workqueue_tail := 0\<rparr> else ?s"
  have "wq_remove s = Some (fst x, ?s')"
    using it by (simp add: wq_remove_def Let_def halt_simps)
  moreover have "wq_rep ?s' xs" using rep it(4) z by (auto simp: wq_rep_def)
  moreover have "\<exists>h t. ?s' = s\<lparr>s_workqueue_head := h, s_workqueue_tail := t\<rparr>"
  proof (cases "item_next it = 0")
    case True then show ?thesis by auto
  next
    case False
    have "?s = s\<lparr>s_workqueue_head := item_next it, s_workqueue_tail := s_workqueue_tail s\<rparr>" by simp
    with False show ?thesis by metis
  qed
  ultimately show ?thesis by blast
qed

lemma wq_pop_rep:
  assumes "wq_rep s (x # xs)"
  shows "\<exists>s'. wq_pop s = Some (x, s') \<and> wq_rep s' xs"
proof -
  obtain it where "wq_items s (fst x) = Some it" "item_data it = snd x"
    using assms by (auto simp: wq_rep_def split: option.splits)
  then show ?thesis using wq_remove_rep [OF assms] by (cases x) (auto simp: wq_pop_def)
qed

lemma wq_empty: "wq_rep s xs \<Longrightarrow> s_workqueue_head s = 0 \<longleftrightarrow> xs = []"
  by (cases xs) (auto simp: wq_rep_def)

lemma wq_pop_empty: "wq_rep s [] \<Longrightarrow> wq_pop s = None"
  by (simp add: wq_rep_def wq_pop_def wq_remove_def Let_def halt_simps)

interpretation work: fifo_queue wq_rep "\<lambda>s. s_workqueue_head s = 0" wq_push wq_pop
  "\<lambda>x xs. fst x \<noteq> 0 \<and> fst x \<notin> fst ` set xs"
proof
  fix s xs and x :: "nat \<times> nat"
  assume "wq_rep s xs" "fst x \<noteq> 0 \<and> fst x \<notin> fst ` set xs"
  then show "\<exists>s'. wq_push x s = Some s' \<and> wq_rep s' (xs @ [x])"
    using wq_push_rep [of s xs "fst x" "snd x"] by auto
qed (auto simp: wq_empty wq_pop_rep wq_pop_empty)

section \<open>Scheduling work\<close>

lemma sched_inv_wq [simp]:
  "sched_inv A (s\<lparr>wq_items := i, s_workqueue_head := h, s_workqueue_tail := t\<rparr>) = sched_inv A s"
  by (simp add: sched_inv_def queues_inv_def no_thread_lost_def queued_ok_def)

lemma items_before_flag:
  "s\<lparr>wq_items := i, int_flag := b\<rparr> = s\<lparr>int_flag := b, wq_items := i\<rparr>"
  by simp

lemma wq_rep_rest: "rest s' = rest s \<Longrightarrow> wq_rep s' xs = wq_rep s xs"
  using rest_sel(10-12) [of s' s] by (simp add: wq_rep_def)

text \<open>
  With the worker waiting, scheduling work appends the item and makes the worker ready; the
  worker's queue is first in first out, so the oldest waiter is woken.
\<close>

lemma schedule_work_ok:
  assumes inv: "sched_inv A s" and rep: "wq_rep s xs" and w: "A WorkWaitQ = t # ts"
    and mem: "mem_alloc sizeof_item s = Some (Inr (i, s\<lparr>heap := h\<rparr>))" and i: "i \<noteq> 0" "i \<notin> fst ` set xs"
  shows "\<exists>s'. workqueue_schedule_work Thread_destroy d s = Some (Inr ((), s'))
    \<and> sched_inv (A(WorkWaitQ := ts, RunQ := sched_insert (g_scheduler s) (prio s) t (A RunQ))) s'
    \<and> wq_rep s' (xs @ [(i, d)]) \<and> g_current s' = g_current s \<and> int_flag s' = int_flag s
    \<and> same_threads s s' \<and> g_scheduler s' = g_scheduler s \<and> heap s' = h"
proof -
  let ?s0 = "s\<lparr>heap := h, int_flag := False\<rparr>"
  have "wq_rep ?s0 xs" using rep by (simp add: wq_rep_def)
  from wq_push_rep [OF this i, of d] obtain s1 where s1: "wq_push (i, d) ?s0 = Some s1"
    "wq_rep s1 (xs @ [(i, d)])"
    and eq: "\<exists>items hd tl. s1 = ?s0\<lparr>wq_items := items, s_workqueue_head := hd, s_workqueue_tail := tl\<rparr>"
    by blast
  from eq have f: "sched_inv A s1 = sched_inv A s" "g_current s1 = g_current s" "\<not> int_flag s1"
    "same_threads s s1" "g_scheduler s1 = g_scheduler s" "heap s1 = h"
    by (auto simp: same_threads_def)
  have p: "prio s1 = prio s" by (rule prio_core) (rule f(4))
  obtain s2 where s2: "thread_wakeup_one WorkWaitQ s1 = Some s2" "undisturbed s1 s2"
    "sched_inv (A(WorkWaitQ := ts, RunQ := sched_insert (g_scheduler s) (prio s) t (A RunQ))) s2"
    using wakeup_one_ok [where q = WorkWaitQ and A = A and s = s1, OF _ f(3) _ w] inv f p by auto
  note u = undisturbedD [OF s2(2)]
  let ?s' = "s2\<lparr>int_flag := int_flag s\<rparr>"
  have "workqueue_schedule_work Thread_destroy d s = Some (Inr ((), ?s'))"
    using mem s1(1) s2(1) u(2) f(3)
    by (simp add: workqueue_schedule_work_def wq_push_def new_item_def items_before_flag Let_def)
  moreover have "rest ?s' = rest s1" using u(3) by simp
  then have "wq_rep ?s' (xs @ [(i, d)])" using s1(2) wq_rep_rest [of ?s' s1] by blast
  moreover have "same_threads s ?s'"
    using same_threads_trans [OF f(4) u(4)] by (simp add: same_threads_def)
  ultimately show ?thesis using s2(3) u f rest_sel(7) [OF u(3)] by auto
qed

text \<open>With no worker waiting, the assertion of \<open>thread_queue_remove_first\<close> stops the kernel.\<close>

lemma schedule_work_halts:
  assumes inv: "sched_inv A s" and rep: "wq_rep s xs" and w: "A WorkWaitQ = []"
    and mem: "mem_alloc sizeof_item s = Some (Inr (i, s\<lparr>heap := h\<rparr>))" and i: "i \<noteq> 0" "i \<notin> fst ` set xs"
  shows "workqueue_schedule_work Thread_destroy d s = None"
proof -
  let ?s0 = "s\<lparr>heap := h, int_flag := False\<rparr>"
  have "wq_rep ?s0 xs" using rep by (simp add: wq_rep_def)
  from wq_push_rep [OF this i, of d] obtain s1 where s1: "wq_push (i, d) ?s0 = Some s1"
    and eq: "\<exists>items hd tl. s1 = ?s0\<lparr>wq_items := items, s_workqueue_head := hd, s_workqueue_tail := tl\<rparr>"
    by blast
  from eq have "sched_inv A s1" using inv by auto
  then have "thread_wakeup_one WorkWaitQ s1 = None"
    using wakeup_one_halts [OF sched_invD(1)] w by blast
  then show ?thesis
    using mem s1(1) by (simp add: workqueue_schedule_work_def wq_push_def new_item_def items_before_flag Let_def)
qed

text \<open>The worker takes the oldest item, or waits.\<close>

lemma workqueue_take_ok:
  assumes "wq_rep s (x # xs)" and "\<not> int_flag s"
  shows "\<exists>s'. workqueue_take s = Some (Inr (fst x, s')) \<and> wq_rep s' xs \<and> int_flag s'
    \<and> sched_inv A s' = sched_inv A s"
proof -
  obtain s1 where s1: "wq_remove s = Some (fst x, s1)" "wq_rep s1 xs"
    "\<exists>h t. s1 = s\<lparr>s_workqueue_head := h, s_workqueue_tail := t\<rparr>" using wq_remove_rep [OF assms(1)] by blast
  then have "\<not> int_flag s1" "sched_inv A s1 = sched_inv A s" using assms(2) by auto
  moreover have "s_workqueue_head s \<noteq> 0" using wq_empty [OF assms(1)] by simp
  moreover have "wq_rep (s1\<lparr>int_flag := True\<rparr>) xs" using s1(2) by (simp add: wq_rep_def)
  ultimately show ?thesis
    using s1(1) by (simp add: workqueue_take_def int_enable_def int_enabled_def halt_simps)
qed

end
