(* ===== verification/Thread_End.thy ===== *)
theory Thread_End imports Work_Queue begin

text \<open>
  What happens to threads after their creation: a batch of new threads enters the ready queue,
  a thread ends and wakes its parent, the parent collects it, and the worker frees it.
\<close>

section \<open>From new to ready\<close>

definition merged :: "scheduler \<Rightarrow> (nat \<Rightarrow> int) \<Rightarrow> (qid \<Rightarrow> nat list) \<Rightarrow> qid \<Rightarrow> nat list" where
  "merged sc p A = A(NewQ := [], RunQ := fold (sched_insert sc p) (A NewQ) (A RunQ))"

text \<open>What merging does to the ready queue.\<close>

lemma merged_run_queue:
  "\<exists>R. fold (sched_insert sc p) new run = R \<and> mset R = mset new + mset run
    \<and> (sc \<in> {FCFS, RR} \<longrightarrow> R = run @ new)
    \<and> (sc \<in> {SJF, PRIORITY} \<longrightarrow> sorted (map p run) \<longrightarrow> sorted (map p R)
         \<and> (\<forall>k. filter (\<lambda>t. p t = k) R = filter (\<lambda>t. p t = k) (run @ new)))"
proof -
  have fc: "fold (sched_insert sc p) new run = run @ new" if "sc \<in> {FCFS, RR}"
    using that by (induction new arbitrary: run) (auto simp: sched_insert_def)
  have pr: "sched_insert sc p = ins_at_priority p" if "sc \<in> {SJF, PRIORITY}"
    using that by (auto simp: fun_eq_iff sched_insert_def)
  show ?thesis
    using sched.fold_ins_mset [of sc p new run] fc pr prio.fold_ins_sorted [of p run new] prio.fold_ins_stable [of p run]
    by auto
qed

lemma merge_loop_core:
  assumes "queues_inv A s" and "no_thread_lost X A s"
  shows "\<exists>s'. merge_loop s = Some s' \<and> undisturbed s s'
    \<and> queues_inv (merged (g_scheduler s) (prio s) A) s'
    \<and> no_thread_lost X (merged (g_scheduler s) (prio s) A) s'
    \<and> (\<forall>x. x \<notin> set (A NewQ) \<longrightarrow> threads s' x = threads s x)"
  using assms
proof (induction "A NewQ" arbitrary: A s)
  case Nil
  then have "merge_loop s = Some s"
    using lists_is_empty_iff [OF queues_invD(1)] by (subst merge_loop.simps) simp
  moreover have "merged (g_scheduler s) (prio s) A = A" using Nil(1) by (auto simp: merged_def)
  ultimately show ?case using Nil by auto
next
  case (Cons t ts)
  note w = Cons.hyps(2) [symmetric]
  obtain l where l: "list_remove_first NewQ (tqs s) = Some (t, l)" "lists_rep l (A(NewQ := ts))"
    using lists_remove_first [where q = NewQ, OF queues_invD(1) [OF Cons.prems(1)] w] by blast
  have off: "on_no_list t (A(NewQ := ts))"
    using on_no_list_head [where q = NewQ, OF queues_invD(1) [OF Cons.prems(1)] w] .
  obtain th where th: "threads s t = Some th" "process_ptr th \<noteq> 0" "t \<noteq> 0"
    using queues_invD(2) [OF Cons.prems(1), of t NewQ] w by (auto simp: queued_ok_def)
  let ?s = "upd_thread t (\<lambda>th. th\<lparr>tstate := THREAD_READY\<rparr>) (narrator (pid (process th)) ''ready'' (s\<lparr>tqs := l\<rparr>))"
  have same: "same_threads s ?s" using th by (simp add: same_threads_def)
  have qi: "queues_inv (A(NewQ := ts)) ?s"
  proof (rule queues_inv_move [OF Cons.prems(1) l(2)])
    show "threads ?s x = threads s x" if "r \<noteq> NewQ" "x \<in> set (A r)" for r x
      using that off by (auto simp: on_no_list_upd)
    show "queued_ok ?s NewQ x" if "x \<in> set ts" for x
      using that off queues_invD(2) [OF Cons.prems(1), of x NewQ] w
      by (auto simp: on_no_list_upd queued_ok_def)
  qed simp
  have ok: "queued_ok ?s RunQ t" using th by (simp add: queued_ok_def)
  let ?A = "A(NewQ := ts, RunQ := sched_insert (g_scheduler s) (prio s) t (A RunQ))"
  obtain l2 where l2: "SCHEDULER (g_scheduler s) (prio_of ?s) RunQ t (tqs ?s) = Some l2"
    "queues_inv ?A (?s\<lparr>tqs := l2\<rparr>)"
    using scheduler_enqueue [where q = RunQ, OF qi off ok] by (auto simp: prio_core [OF same])
  let ?s2 = "?s\<lparr>tqs := l2\<rparr>"
  have u: "undisturbed s ?s2" using same by (simp add: undisturbed_def same_threads_def)
  have "no_thread_lost X ?A ?s2"
  proof (rule no_thread_lostI)
    fix x th' assume x: "threads ?s2 x = Some th'" "tstate th' \<notin> {THREAD_EXITED, THREAD_KILLED}" "x \<notin> X"
    show "\<exists>r. x \<in> set (?A r)"
    proof (cases "x = t")
      case True then show ?thesis by (intro exI [of _ RunQ]) (simp add: sched.ins_set)
    next
      case False
      then obtain r where r: "x \<in> set (A r)" using no_thread_lostD [OF Cons.prems(2) _ x(2,3)] x(1) by auto
      then have "x \<in> set (?A r)"
        using False w by (cases "r = NewQ"; cases "r = RunQ") (auto simp: sched.ins_set)
      then show ?thesis by blast
    qed
  qed
  moreover have "ts = ?A NewQ" by simp
  ultimately obtain s' where s': "merge_loop ?s2 = Some s'" "undisturbed ?s2 s'"
    "queues_inv (merged (g_scheduler ?s2) (prio ?s2) ?A) s'" "no_thread_lost X (merged (g_scheduler ?s2) (prio ?s2) ?A) s'"
    "\<forall>x. x \<notin> set ts \<longrightarrow> threads s' x = threads ?s2 x"
    using Cons.hyps(1) [OF _ l2(2)] by auto
  have m: "merged (g_scheduler ?s2) (prio ?s2) ?A = merged (g_scheduler s) (prio s) A"
    using w undisturbedD(5,6) [OF u] by (auto simp: merged_def)
  have "merge_loop s = Some s'"
    using lists_is_empty_iff [OF queues_invD(1) [OF Cons.prems(1)], of NewQ] w l(1) l2(1) th s'(1)
    by (subst merge_loop.simps) (simp add: process_of_def halt_simps Let_def)
  moreover have "\<forall>x. x \<notin> set (A NewQ) \<longrightarrow> threads s' x = threads s x" using s'(5) w by simp
  ultimately show ?case using s'(3,4) m undisturbed_trans [OF u s'(2)] by auto
qed

lemma list_clear_nothing:
  assumes "lists_rep l A" and "A q = []"
  shows "lists_rep (list_clear q l) A"
  using lists_clear [OF assms(1), of q] assms(2) by (metis fun_upd_triv)

text \<open>
  The batch enters the ready queue thread by thread under the discipline, in the order of the
  new queue; the assertion that the new queue is empty holds.
\<close>

lemma merge_ok:
  assumes inv: "sched_inv A s"
  shows "\<exists>s'. merge_new_with_runnable s = Some s' \<and> undisturbed s s'
    \<and> sched_inv (merged (g_scheduler s) (prio s) A) s'"
proof -
  let ?s = "s\<lparr>int_flag := False\<rparr>" and ?A = "merged (g_scheduler s) (prio s) A"
  have inv': "sched_inv A ?s" using inv by simp
  obtain s1 where s1: "merge_loop ?s = Some s1" "undisturbed ?s s1" "queues_inv ?A s1"
    "no_thread_lost {g_current s} ?A s1" "\<forall>x. x \<notin> set (A NewQ) \<longrightarrow> threads s1 x = threads s x"
    using merge_loop_core [OF sched_invD(1,2) [OF inv']] by auto
  have e: "?A NewQ = []" by (simp add: merged_def)
  let ?s' = "s1\<lparr>tqs := list_clear NewQ (tqs s1), int_flag := int_flag s\<rparr>"
  have run: "merge_new_with_runnable s = Some ?s'"
    using s1(1) lists_is_empty_iff [OF queues_invD(1) [OF s1(3)], of NewQ] e undisturbedD(2) [OF s1(2)]
    by (simp add: merge_new_with_runnable_def halt_simps Let_def)
  have u: "undisturbed s ?s'" using s1(2) by (simp add: undisturbed_def same_threads_def)
  have q: "queues_inv ?A ?s'"
    using s1(3) list_clear_nothing [OF queues_invD(1) [OF s1(3)] e] by (simp add: queues_inv_def queued_ok_def)
  have live: "no_thread_lost {g_current s} ?A ?s'" using s1(4) by (simp add: no_thread_lost_def)
  have off: "g_current s \<notin> set (A r)" for r
    using sched_invD(3) [OF inv] by (simp add: on_no_list_def)
  have "set (fold (sched_insert (g_scheduler s) (prio s)) (A NewQ) (A RunQ)) = set (A NewQ) \<union> set (A RunQ)"
    using sched.fold_ins_mset [of "g_scheduler s" "prio s" "A NewQ" "A RunQ"]
    by (metis set_mset_mset set_mset_union)
  then have "on_no_list (g_current s) ?A" using off by (auto simp: on_no_list_def merged_def)
  moreover have "threads ?s' (g_current s) = threads s (g_current s)" using s1(5) off by simp
  ultimately show ?thesis using run u sched_inv_moved [OF inv u q live] by blast
qed

section \<open>The end of a thread\<close>

text \<open>
  A thread that somebody still refers to ends: it keeps its exit code and is on no queue, its
  waiters become ready, and the next ready thread runs.
\<close>

lemma exit_core:
  assumes q: "queues_inv A s" and live: "no_thread_lost {t} A s" and off: "on_no_list t A" "\<not> int_flag s"
    and cur: "g_current s = t" and th: "threads s t = Some th" "process_ptr th \<noteq> 0"
    and run: "(if refcount th > 0 then wake_all (g_scheduler s) (prio s) (ThreadWaitQ t) A else A) RunQ = n # rs"
  shows "\<exists>s' th'. thread_exit_rest code t s = Some (Inr ((), s'))
    \<and> sched_inv ((if refcount th > 0 then wake_all (g_scheduler s) (prio s) (ThreadWaitQ t) A else A)(RunQ := rs)) s'
    \<and> g_current s' = n \<and> threads s' t = Some th' \<and> tstate th' = THREAD_EXITED \<and> exitcode th' = code
    \<and> refcount th' = refcount th \<and> parent th' = parent th \<and> process_ptr th' = process_ptr th
    \<and> process th' = (process th)\<lparr>time := (time (process th))\<lparr>termination_t := g_numticks s\<rparr>\<rparr>
    \<and> rest s' = rest s"
proof -
  let ?th = "th\<lparr>exitcode := code, tstate := THREAD_EXITED,
      process := (process th)\<lparr>time := (time (process th))\<lparr>termination_t := g_numticks s\<rparr>\<rparr>\<rparr>"
  let ?s0 = "upd_process t (\<lambda>p. p\<lparr>time := (time p)\<lparr>termination_t := g_numticks s\<rparr>\<rparr>)
      (upd_thread t (\<lambda>th. th\<lparr>exitcode := code, tstate := THREAD_EXITED\<rparr>) s)"
  let ?s = "narrator (pid (process th)) ''terminated'' ?s0"
  have thr: "threads ?s = (threads s)(t \<mapsto> ?th)" using th by simp
  have sel: "g_scheduler ?s = g_scheduler s" "\<not> int_flag ?s" "g_current ?s = t" "rest ?s = rest s"
    "tqs ?s = tqs s" using off(2) cur by simp_all
  have ne: "x \<noteq> t" if "x \<in> set (A r)" for x r using that off(1) by (auto simp: on_no_list_def)
  have qi: "queues_inv A ?s"
    using q thr sel(5) ne by (auto simp: queues_inv_def queued_ok_def)
  have lv: "no_thread_lost {} A ?s"
    using live thr unfolding no_thread_lost_def by auto
  have p: "prio ?s x = prio s x" for x
    using th thr by (auto simp: prio_def prio_of_def process_of_def)
  then have pr: "prio ?s = prio s" by blast
  let ?A = "if refcount th > 0 then wake_all (g_scheduler s) (prio s) (ThreadWaitQ t) A else A"
  have "\<exists>s1. (if refcount th > 0 then thread_wakeup (ThreadWaitQ t) ?s else Some ?s) = Some s1
      \<and> undisturbed ?s s1 \<and> queues_inv ?A s1 \<and> no_thread_lost {} ?A s1 \<and> threads s1 t = Some ?th"
  proof (cases "refcount th > 0")
    case True
    obtain s1 where s1: "thread_wakeup (ThreadWaitQ t) ?s = Some s1" "undisturbed ?s s1"
      "queues_inv (wake_all (g_scheduler ?s) (prio ?s) (ThreadWaitQ t) A) s1"
      "no_thread_lost {} (wake_all (g_scheduler ?s) (prio ?s) (ThreadWaitQ t) A) s1"
      "\<forall>x. x \<notin> set (A (ThreadWaitQ t)) \<longrightarrow> threads s1 x = threads ?s x"
      using wakeup_core [where q = "ThreadWaitQ t", OF qi lv sel(2)] by auto
    moreover have "threads s1 t = Some ?th" using s1(5) ne thr by fastforce
    ultimately show ?thesis using True unfolding pr sel(1) by auto
  next
    case False
    have "threads ?s t = Some ?th" using thr by simp
    with False qi lv show ?thesis by auto
  qed
  then obtain s1 where s1: "(if refcount th > 0 then thread_wakeup (ThreadWaitQ t) ?s else Some ?s) = Some s1"
    "undisturbed ?s s1" "queues_inv ?A s1" "no_thread_lost {} ?A s1" "threads s1 t = Some ?th" by blast
  note u = undisturbedD [OF s1(2)]
  have "threads s1 (g_current s1) \<noteq> None" using s1(5) u(1) sel(3) by simp
  then obtain s' where s': "thread_schedule s1 = Some s'" "sched_inv (?A(RunQ := rs)) s'" "g_current s' = n"
    "rest s' = rest s1" "same_threads s1 s'"
    "\<forall>t. t \<noteq> n \<longrightarrow> map_option tstate (threads s' t) = map_option tstate (threads s1 t)"
    using schedule_ok [OF s1(3) _ run _ s1(4)] u(2) sel(2) by auto
  have "n \<noteq> t"
  proof
    assume "n = t"
    moreover have "queued_ok s1 RunQ n" using queues_invD(2) [OF s1(3), of n RunQ] run by simp
    ultimately show False using s1(5) by (simp add: queued_ok_def)
  qed
  obtain th' where th': "threads s' t = Some th'" "core th' = core ?th"
    using same_threads_Some [OF s'(5) s1(5)] by blast
  have st: "tstate th' = THREAD_EXITED"
  proof -
    have "map_option tstate (threads s' t) = map_option tstate (threads s1 t)"
      by (simp add: s'(6) \<open>n \<noteq> t\<close> [symmetric])
    then show ?thesis using th'(1) s1(5) by simp
  qed
  have "exitcode (core th') = exitcode (core ?th)" "refcount (core th') = refcount (core ?th)"
    "parent (core th') = parent (core ?th)" "process_ptr (core th') = process_ptr (core ?th)"
    "process (core th') = process (core ?th)" using th'(2) by simp_all
  then have "exitcode th' = code" "refcount th' = refcount th" "parent th' = parent th"
    "process_ptr th' = process_ptr th"
    "process th' = (process th)\<lparr>time := (time (process th))\<lparr>termination_t := g_numticks s\<rparr>\<rparr>"
    by simp_all
  moreover have "rest s' = rest s" using s'(4) u(3) sel(4) by simp
  moreover have "thread_exit_rest code t s = Some (Inr ((), s'))"
  proof -
    have "process_of t (upd_thread t (\<lambda>th. th\<lparr>exitcode := code, tstate := THREAD_EXITED\<rparr>) s) = Some (process th)"
      using th by (simp add: process_of_def)
    then show ?thesis
      using s1(1) s'(1) th(1) by (simp add: thread_exit_rest_def Let_def cong: if_cong)
  qed
  ultimately show ?thesis using s'(2,3) th'(1) st by blast
qed

text \<open>An attached thread ends: its parent still refers to it, so nothing is freed yet.\<close>

lemma thread_exit_attached:
  assumes inv: "sched_inv A s" and th: "threads s (g_current s) = Some th" "refcount th > 1"
    and run: "wake_all (g_scheduler s) (prio s) (ThreadWaitQ (g_current s)) A RunQ = n # rs"
  shows "\<exists>s' th'. thread_exit code s = Some (Inr ((), s'))
    \<and> sched_inv ((wake_all (g_scheduler s) (prio s) (ThreadWaitQ (g_current s)) A)(RunQ := rs)) s'
    \<and> g_current s' = n \<and> threads s' (g_current s) = Some th' \<and> tstate th' = THREAD_EXITED
    \<and> exitcode th' = code \<and> refcount th' = refcount th - 1 \<and> parent th' = parent th
    \<and> process th' = (process th)\<lparr>time := (time (process th))\<lparr>termination_t := g_numticks s\<rparr>\<rparr>
    \<and> rest s' = rest s"
proof -
  let ?t = "g_current s" and ?th = "th\<lparr>refcount := refcount th - 1\<rparr>"
  let ?s = "upd_thread ?t (\<lambda>th. th\<lparr>refcount := refcount th - 1\<rparr>) (s\<lparr>int_flag := False\<rparr>)"
  have inv': "sched_inv A ?s" using inv by (subst sched_inv_upd_data) simp_all
  have p0: "process_ptr th \<noteq> 0" using sched_invD(5) [OF inv] th(1) by auto
  have t: "threads ?s ?t = Some ?th" "process_ptr ?th \<noteq> 0" using th(1) p0 by simp_all
  have pr: "prio ?s = prio s"
    using th by (auto simp: fun_eq_iff prio_def prio_of_def process_of_def)
  have det: "thread_detach ?t (s\<lparr>int_flag := False\<rparr>) = Some (Inr ((), ?s))"
    using th by (simp add: thread_detach_def int_enabled_def halt_simps Let_def)
  have "(if refcount ?th > 0 then wake_all (g_scheduler ?s) (prio ?s) (ThreadWaitQ ?t) A else A) RunQ = n # rs"
    using run th(2) by (simp add: pr)
  from exit_core [OF sched_invD(1,2,3) [OF inv', simplified] _ _ t this, of code] th(2)
  obtain s' th' where e: "thread_exit_rest code ?t ?s = Some (Inr ((), s'))"
    "sched_inv ((wake_all (g_scheduler s) (prio s) (ThreadWaitQ ?t) A)(RunQ := rs)) s'"
    "g_current s' = n" "threads s' ?t = Some th'" "tstate th' = THREAD_EXITED" "exitcode th' = code"
    "refcount th' = refcount th - 1" "parent th' = parent th"
    "process th' = (process th)\<lparr>time := (time (process th))\<lparr>termination_t := g_numticks s\<rparr>\<rparr>"
    "rest s' = rest s"
    by (auto simp: pr)
  have "(if int_enabled s then int_disable s else Some s) = Some (s\<lparr>int_flag := False\<rparr>)"
    by (cases s) (simp add: int_enabled_def int_disable_def halt_simps)
  then have "thread_exit code s = Some (Inr ((), s'))"
    using e(1) by (simp add: thread_exit_def det Let_def)
  then show ?thesis using e by blast
qed


section \<open>Waiting for a child\<close>

lemma wait_until_not_running:
  assumes "\<not> int_flag s" and "threads s c = Some th" "refcount th > 0" "parent th = g_current s"
  shows "thread_wait_until q thread_not_running c s =
    (if tstate th = THREAD_EXITED \<or> tstate th = THREAD_KILLED then Some (Inr ((), s))
     else map_option Inl (thread_wait q s))"
  using assms
  by (cases "thread_wait q s")
    (auto simp: thread_wait_until_def thread_not_running_def int_enabled_def halt_simps)

text \<open>A parent that joins a child which still runs is put on the child's wait queue.\<close>

lemma thread_join_waits:
  assumes inv: "sched_inv A s" and th: "threads s c = Some th" "refcount th > 0" "parent th = g_current s"
    and alive: "tstate th \<notin> {THREAD_EXITED, THREAD_KILLED}" and run: "A RunQ = n # rs"
  shows "\<exists>s'. thread_join c s = Some (Inl s') \<and> g_current s' = n
    \<and> sched_inv (A(ThreadWaitQ c := A (ThreadWaitQ c) @ [g_current s], RunQ := rs)) s'"
proof -
  have inv': "sched_inv A (s\<lparr>int_flag := False\<rparr>)" using inv by simp
  obtain s' where s': "thread_wait (ThreadWaitQ c) (s\<lparr>int_flag := False\<rparr>) = Some s'" "g_current s' = n"
    "sched_inv (A(ThreadWaitQ c := A (ThreadWaitQ c) @ [g_current s], RunQ := rs)) s'"
    using wait_ok [where q = "ThreadWaitQ c", OF inv' _ _ run] by auto
  have "thread_wait_until (ThreadWaitQ c) thread_not_running c (s\<lparr>int_flag := False\<rparr>) = Some (Inl s')"
    using wait_until_not_running [of "s\<lparr>int_flag := False\<rparr>" c th "ThreadWaitQ c"] th alive s'(1) by simp
  then show ?thesis using th s'(2,3) by (auto simp: thread_join_def halt_simps)
qed

text \<open>The join of an ended child returns its exit code and hands the child to the worker.\<close>

lemma detach_last:
  assumes th: "threads s c = Some th" "refcount th = 1" "process_ptr th \<noteq> 0" and off: "\<not> int_flag s"
  shows "thread_detach c s = workqueue_schedule_work Thread_destroy c
    ((upd_thread c (\<lambda>th. th\<lparr>refcount := refcount th - 1\<rparr>) s)\<lparr>klog := klog s @ [Deallocated (pid (process th))]\<rparr>)"
  using th off by (simp add: thread_detach_def int_enabled_def process_of_def halt_simps Let_def)

lemma mem_alloc_Inr_heap:
  assumes "mem_alloc sz s = Some (Inr (i, s\<lparr>heap := h\<rparr>))" and "heap s' = heap s"
  shows "mem_alloc sz s' = Some (Inr (i, s'\<lparr>heap := h\<rparr>))"
proof -
  obtain b h' where m: "malloc sz (heap s) = Some (b, h')"
    using assms(1) by (cases "malloc sz (heap s)") (auto simp: mem_alloc_def mem_alloc_loop_def)
  have b: "b \<noteq> 0"
  proof
    assume "b = 0"
    then show False using assms(1) m
      by (cases "thread_wait HeapWaitQ (s\<lparr>int_flag := False, heap := h'\<rparr>)")
        (auto simp: mem_alloc_def mem_alloc_loop_def)
  qed
  with assms(1) m have "b = i" "s\<lparr>heap := h'\<rparr> = s\<lparr>heap := h\<rparr>"
    by (auto simp: mem_alloc_def mem_alloc_loop_def Let_def)
  moreover from this(2) have "heap (s\<lparr>heap := h'\<rparr>) = heap (s\<lparr>heap := h\<rparr>)" by (rule arg_cong)
  ultimately show ?thesis using m b assms(2) by (simp add: mem_alloc_def mem_alloc_loop_def Let_def)
qed

lemma thread_join_ended:
  assumes inv: "sched_inv A s" and rep: "wq_rep s xs"
    and th: "threads s c = Some th" "refcount th = 1" "parent th = g_current s" "process_ptr th \<noteq> 0"
      "tstate th = THREAD_EXITED"
    and w: "A WorkWaitQ = t # ts"
    and mem: "mem_alloc sizeof_item s = Some (Inr (i, s\<lparr>heap := h\<rparr>))" and i: "i \<noteq> 0" "i \<notin> fst ` set xs"
  shows "\<exists>s'. thread_join c s = Some (Inr (exitcode th, s')) \<and> g_current s' = g_current s
    \<and> wq_rep s' (xs @ [(i, c)]) \<and> int_flag s' = int_flag s
    \<and> sched_inv (A(WorkWaitQ := ts, RunQ := sched_insert (g_scheduler s) (prio s) t (A RunQ))) s'
    \<and> (\<exists>th'. threads s' c = Some th' \<and> refcount th' = 0 \<and> core th' = core (th\<lparr>refcount := 0\<rparr>))"
proof -
  let ?s = "s\<lparr>int_flag := False\<rparr>"
  let ?d = "(upd_thread c (\<lambda>th. th\<lparr>refcount := refcount th - 1\<rparr>) ?s)
      \<lparr>klog := klog s @ [Deallocated (pid (process th))]\<rparr>"
  have inv': "sched_inv A ?d" using inv by (simp add: sched_inv_upd_data)
  have rep': "wq_rep ?d xs" using rep by (simp add: wq_rep_def upd_thread_def)
  have mem': "mem_alloc sizeof_item ?d = Some (Inr (i, ?d\<lparr>heap := h\<rparr>))"
    by (rule mem_alloc_Inr_heap [OF mem]) (simp add: upd_thread_def)
  have pr: "prio ?d = prio s"
    using th by (auto simp: fun_eq_iff prio_def prio_of_def process_of_def)
  obtain s1 where s1: "workqueue_schedule_work Thread_destroy c ?d = Some (Inr ((), s1))"
    "sched_inv (A(WorkWaitQ := ts, RunQ := sched_insert (g_scheduler ?d) (prio ?d) t (A RunQ))) s1"
    "wq_rep s1 (xs @ [(i, c)])" "g_current s1 = g_current ?d" "int_flag s1 = int_flag ?d" "same_threads ?d s1"
    using schedule_work_ok [OF inv' rep' w mem' i, of c] by blast
  have off: "\<not> int_flag s1" using s1(5) by simp
  have det: "thread_detach c ?s = Some (Inr ((), s1))"
    using detach_last [of ?s c th] th s1(1) by simp
  have wait: "thread_wait_until (ThreadWaitQ c) thread_not_running c ?s = Some (Inr ((), ?s))"
    using wait_until_not_running [of ?s c th "ThreadWaitQ c"] th by simp
  have "thread_join c s = Some (Inr (exitcode th, s1\<lparr>int_flag := int_flag s\<rparr>))"
    using th wait det off by (simp add: thread_join_def halt_simps Let_def)
  moreover have "\<exists>th'. threads s1 c = Some th' \<and> refcount th' = 0 \<and> core th' = core (th\<lparr>refcount := 0\<rparr>)"
  proof -
    have "threads ?d c = Some (th\<lparr>refcount := refcount th - 1\<rparr>)" using th by simp
    from same_threads_Some [OF s1(6) this] obtain th' where
      "threads s1 c = Some th'" "core th' = core (th\<lparr>refcount := refcount th - 1\<rparr>)" by blast
    moreover from this(2) have "refcount (core th') = refcount (core (th\<lparr>refcount := refcount th - 1\<rparr>))"
      by (rule arg_cong)
    then have "refcount th' = 0" using th(2) by simp
    moreover from \<open>core th' = _\<close> have "core th' = core (th\<lparr>refcount := 0\<rparr>)" using th(2) by simp
    ultimately show ?thesis by blast
  qed
  moreover have "wq_rep (s1\<lparr>int_flag := int_flag s\<rparr>) (xs @ [(i, c)])" using s1(3) by (simp add: wq_rep_def)
  ultimately show ?thesis using s1(2,4) pr by (intro exI [of _ "s1\<lparr>int_flag := int_flag s\<rparr>"]) simp
qed

section \<open>Destruction\<close>

lemma mem_free_keeps:
  assumes "undisturbed (s\<lparr>heap := heap s'\<rparr>) s'"
  shows "same_threads s s'" "frames s' = frames s" "flists s' = flists s" "g_current s' = g_current s"
    "g_scheduler s' = g_scheduler s" "prio s' = prio s" "wq_items s' = wq_items s"
    "s_workqueue_head s' = s_workqueue_head s" "s_workqueue_tail s' = s_workqueue_tail s"
proof -
  note u = undisturbedD [OF assms]
  show st: "same_threads s s'" using u(4) by (simp add: same_threads_def)
  show "prio s' = prio s" by (rule prio_core [OF st])
  show "frames s' = frames s" "flists s' = flists s" "g_current s' = g_current s"
    "g_scheduler s' = g_scheduler s" "wq_items s' = wq_items s"
    "s_workqueue_head s' = s_workqueue_head s" "s_workqueue_tail s' = s_workqueue_tail s"
    using rest_sel [OF u(3)] u(1) by simp_all
qed

lemma thread_destroy_running:
  "threads s t = Some th \<Longrightarrow> tstate th \<notin> {THREAD_EXITED, THREAD_KILLED} \<Longrightarrow> thread_destroy t s = None"
  by (simp add: thread_destroy_def halt_simps)


text \<open>
  The worker's callback: the process, the stack frame and the thread go back to the allocators,
  and every thread that waits for memory or for a frame becomes ready.
\<close>

definition after_destroy :: "scheduler \<Rightarrow> (nat \<Rightarrow> int) \<Rightarrow> (qid \<Rightarrow> nat list) \<Rightarrow> qid \<Rightarrow> nat list" where
  "after_destroy sc p A = wake_all sc p HeapWaitQ (wake_all sc p FrameWaitQ (wake_all sc p HeapWaitQ A))"

lemma sched_inv_drop_thread:
  assumes inv: "sched_inv A s" and t: "on_no_list t A" "t \<noteq> g_current s"
  shows "sched_inv A (s\<lparr>threads := (threads s)(t := None)\<rparr>)"
proof -
  have "queues_inv A (s\<lparr>threads := (threads s)(t := None)\<rparr>)"
    by (rule queues_inv_put [OF sched_invD(1) [OF inv] t(1)])
  then show ?thesis using inv t(2) by (auto simp: sched_inv_def no_thread_lost_def queued_ok_def)
qed

lemma on_no_list_wake_all:
  assumes q: "wait_queue q"
  shows "on_no_list t (wake_all sc p q A) = on_no_list t A"
proof -
  have s: "set (fold (sched_insert sc p) (A q) (A RunQ)) = set (A q) \<union> set (A RunQ)"
    using sched.fold_ins_mset [of sc p "A q" "A RunQ"] by (metis set_mset_mset set_mset_union)
  have qR: "q \<noteq> RunQ" using q by auto
  show ?thesis
  proof
    assume off: "on_no_list t (wake_all sc p q A)"
    then have "t \<notin> set (A q) \<union> set (A RunQ)"
      using s by (metis fun_upd_same on_no_list_def wake_all_def)
    moreover have "t \<notin> set (A r)" if "r \<noteq> q" "r \<noteq> RunQ" for r
    proof -
      have "wake_all sc p q A r = A r" using that by (simp add: wake_all_def)
      then show ?thesis using off by (metis on_no_list_def)
    qed
    ultimately show "on_no_list t A" unfolding on_no_list_def by (metis Un_iff)
  next
    assume "on_no_list t A"
    then show "on_no_list t (wake_all sc p q A)" using s by (simp add: on_no_list_def wake_all_def)
  qed
qed

lemma thread_destroy_ok:
  assumes inv: "sched_inv A s" and mem: "mem_inv M s" and fr: "frames_inv FA s"
    and th: "threads s t = Some th" "tstate th = THREAD_EXITED" "t \<noteq> g_current s" "on_no_list t A"
    and M: "M (process_ptr th - sz_t) = Some k1" "M (t - sz_t) = Some k2" "sz_t \<le> process_ptr th" "sz_t \<le> t"
      "process_ptr th - sz_t \<noteq> t - sz_t"
    and f: "on_no_list (mem_pa_to_frame (stack th)) FA" "f_refcount (frames s (mem_pa_to_frame (stack th))) = 0"
  shows "\<exists>s'. thread_destroy t s = Some s'
    \<and> sched_inv (after_destroy (g_scheduler s) (prio s) A) s'
    \<and> mem_inv (M(process_ptr th - sz_t := None, t - sz_t := None)) s'
    \<and> frames_inv (FA(FreeFrames := FA FreeFrames @ [mem_pa_to_frame (stack th)])) s'
    \<and> threads s' t = None \<and> g_current s' = g_current s"
proof -
  let ?f = "mem_pa_to_frame (stack th)"
  obtain s1 where s1: "mem_free (process_ptr th) s = Some s1"
    "sched_inv (wake_all (g_scheduler s) (prio s) HeapWaitQ A) s1"
    "mem_inv (M(process_ptr th - sz_t := None)) s1" "undisturbed (s\<lparr>heap := heap s1\<rparr>) s1"
    using mem_free_ok [OF inv mem M(1,3)] by blast
  note k1 = mem_free_keeps [OF s1(4)]
  have fr1: "frames_inv FA s1" using fr k1 by (simp add: frames_inv_def)
  have rc1: "f_refcount (frames s1 ?f) = 0" using f(2) k1 by simp
  obtain s2 where s2: "mem_free_frame ?f s1 = Some s2"
    "sched_inv (wake_all (g_scheduler s1) (prio s1) FrameWaitQ (wake_all (g_scheduler s) (prio s) HeapWaitQ A)) s2"
    "frames_inv (FA(FreeFrames := FA FreeFrames @ [?f])) s2"
    "undisturbed (s1\<lparr>flists := flists s2, frames := frames s2\<rparr>) s2"
    using mem_free_frame_ok [OF s1(2) fr1 f(1) rc1] by blast
  note u2 = undisturbedD [OF s2(4)]
  have st2: "same_threads s1 s2" using u2(4) by (simp add: same_threads_def)
  have k2: "heap s2 = heap s1" "g_current s2 = g_current s1" "g_scheduler s2 = g_scheduler s1" "prio s2 = prio s1"
    using rest_sel [OF u2(3)] u2(1) prio_core [OF st2] by simp_all
  have mem2: "mem_inv (M(process_ptr th - sz_t := None)) s2" using s1(3) k2 by (simp add: mem_inv_def)
  have M2: "(M(process_ptr th - sz_t := None)) (t - sz_t) = Some k2" using M(2,5) by simp
  obtain s3 where s3: "mem_free t s2 = Some s3"
    "sched_inv (wake_all (g_scheduler s2) (prio s2) HeapWaitQ
      (wake_all (g_scheduler s1) (prio s1) FrameWaitQ (wake_all (g_scheduler s) (prio s) HeapWaitQ A))) s3"
    "mem_inv (M(process_ptr th - sz_t := None, t - sz_t := None)) s3" "undisturbed (s2\<lparr>heap := heap s3\<rparr>) s3"
    using mem_free_ok [OF s2(2) mem2 M2 M(4)] by blast
  note k3 = mem_free_keeps [OF s3(4)]
  let ?s = "s3\<lparr>threads := (threads s3)(t := None)\<rparr>"
  have A3: "sched_inv (after_destroy (g_scheduler s) (prio s) A) s3"
    using s3(2) k1 k2 by (simp add: after_destroy_def)
  have "on_no_list t (after_destroy (g_scheduler s) (prio s) A)"
    using th(4) by (simp add: after_destroy_def on_no_list_wake_all)
  with sched_inv_drop_thread [OF A3] have "sched_inv (after_destroy (g_scheduler s) (prio s) A) ?s"
    using th(3) k1 k2 k3 by simp
  moreover have "thread_destroy t s = Some ?s"
    using th s1(1) s2(1) s3(1) by (simp add: thread_destroy_def halt_simps)
  moreover have "mem_inv (M(process_ptr th - sz_t := None, t - sz_t := None)) ?s" using s3(3) by (simp add: mem_inv_def)
  moreover have "frames_inv (FA(FreeFrames := FA FreeFrames @ [?f])) ?s"
    using s2(3) k3 by (simp add: frames_inv_def)
  ultimately show ?thesis using k1 k2 k3 by auto
qed

lemma after_destroy_queues:
  "\<exists>R. after_destroy sc p A = A(HeapWaitQ := [], FrameWaitQ := [], RunQ := R)
    \<and> mset R = mset (A HeapWaitQ) + mset (A FrameWaitQ) + mset (A RunQ)"
  by (rule exI [of _ "after_destroy sc p A RunQ"])
    (auto simp: after_destroy_def wake_all_def sched.fold_ins_mset fun_eq_iff)

end
