(* ===== verification/Synch.thy ===== *)
theory Synch imports Thread_End begin

text \<open>
  Mutexes and condition variables, \<open>src/kernel/synch.c\<close>.  The queue of mutex \<open>m\<close> is
  \<open>MutexWaitQ m\<close> and that of condition \<open>c\<close> is \<open>CondWaitQ c\<close>.  An operation that parks the
  running thread returns \<open>Inl\<close>; \<open>\<dots>_resume\<close> is what the parked thread does when it is
  dispatched, up to the next time it parks.
\<close>

section \<open>Operations\<close>

definition MUTEX_IS_HELD :: "nat \<Rightarrow> kernel \<Rightarrow> bool" where
  "MUTEX_IS_HELD m s \<longleftrightarrow>
     m_state (mutexes s m) = MUTEX_LOCKED \<and> m_owner (mutexes s m) = g_current s"

definition set_mutex :: "nat \<Rightarrow> mutex_state \<Rightarrow> nat \<Rightarrow> kernel \<Rightarrow> kernel" where
  "set_mutex m st owner s = s\<lparr>mutexes := (mutexes s)(m := \<lparr>m_state = st, m_owner = owner\<rparr>)\<rparr>"

definition mutex_init :: "nat \<Rightarrow> kernel \<Rightarrow> kernel" where
  "mutex_init m s = (let s = set_mutex m MUTEX_UNLOCKED 0 s in
     s\<lparr>tqs := list_clear (MutexWaitQ m) (tqs s)\<rparr>)"

text \<open>The loop of \<open>mutex_lock_imp\<close> from its head, up to the next park or to the acquisition.\<close>

definition mutex_lock_loop :: "nat \<Rightarrow> kernel \<Rightarrow> unit may_wait" where
  "mutex_lock_loop m s =
     (if m_state (mutexes s m) = MUTEX_LOCKED
      then do { s \<leftarrow> thread_park (MutexWaitQ m) s; Some (Inl s) }
      else Some (Inr ((), set_mutex m MUTEX_LOCKED (g_current s) s)))"

definition mutex_lock_imp :: "nat \<Rightarrow> kernel \<Rightarrow> unit may_wait" where
  "mutex_lock_imp m s = do {
     kassert (\<not> g_preemption s);
     kassert (\<not> MUTEX_IS_HELD m s);
     mutex_lock_loop m s
   }"

definition mutex_unlock_imp :: "nat \<Rightarrow> kernel \<Rightarrow> kernel option" where
  "mutex_unlock_imp m s = do {
     kassert (\<not> g_preemption s);
     kassert (MUTEX_IS_HELD m s);
     let s = set_mutex m MUTEX_UNLOCKED 0 s;
     if \<not> list_is_empty (MutexWaitQ m) (tqs s) then do {
       s \<leftarrow> int_disable s;
       s \<leftarrow> thread_wakeup_one (MutexWaitQ m) s;
       int_enable s
     } else Some s
   }"

definition preempt_on :: "kernel \<Rightarrow> unit may_wait" where
  "preempt_on s = Some (Inr ((), s\<lparr>g_preemption := True\<rparr>))"

definition mutex_lock :: "nat \<Rightarrow> kernel \<Rightarrow> unit may_wait" where
  "mutex_lock m s = do {
     kassert (int_enabled s);
     then_do (mutex_lock_imp m (s\<lparr>g_preemption := False\<rparr>)) (\<lambda>_ s. preempt_on s)
   }"

definition mutex_lock_resume :: "nat \<Rightarrow> kernel \<Rightarrow> unit may_wait" where
  "mutex_lock_resume m s = do {
     s \<leftarrow> thread_park_resume s;
     then_do (mutex_lock_loop m s) (\<lambda>_ s. preempt_on s)
   }"

definition mutex_unlock :: "nat \<Rightarrow> kernel \<Rightarrow> kernel option" where
  "mutex_unlock m s = do {
     kassert (int_enabled s);
     s \<leftarrow> mutex_unlock_imp m (s\<lparr>g_preemption := False\<rparr>);
     Some (s\<lparr>g_preemption := True\<rparr>)
   }"

definition cond_init :: "nat \<Rightarrow> kernel \<Rightarrow> kernel" where
  "cond_init c s = s\<lparr>tqs := list_clear (CondWaitQ c) (tqs s)\<rparr>"

text \<open>\<open>cond_wait\<close> up to the park, and after it.\<close>

definition cond_wait :: "nat \<Rightarrow> nat \<Rightarrow> kernel \<Rightarrow> kernel option" where
  "cond_wait c m s = do {
     kassert (int_enabled s);
     kassert (MUTEX_IS_HELD m s);
     s \<leftarrow> mutex_unlock_imp m (s\<lparr>g_preemption := False\<rparr>);
     thread_park (CondWaitQ c) s
   }"

definition cond_wait_resume :: "nat \<Rightarrow> kernel \<Rightarrow> unit may_wait" where
  "cond_wait_resume m s = do {
     s \<leftarrow> thread_park_resume s;
     then_do (mutex_lock_imp m s) (\<lambda>_ s. preempt_on s)
   }"

definition cond_signal :: "nat \<Rightarrow> kernel \<Rightarrow> kernel option" where
  "cond_signal c s = do {
     kassert (int_enabled s);
     s \<leftarrow> int_disable s;
     s \<leftarrow> thread_wakeup_one (CondWaitQ c) s;
     int_enable s
   }"

definition cond_broadcast :: "nat \<Rightarrow> kernel \<Rightarrow> kernel option" where
  "cond_broadcast c s = do {
     kassert (int_enabled s);
     s \<leftarrow> int_disable s;
     s \<leftarrow> thread_wakeup (CondWaitQ c) s;
     int_enable s
   }"

section \<open>What they do\<close>

lemma set_mutex_sel [simp]:
  "mutexes (set_mutex m st ow s) = (mutexes s)(m := \<lparr>m_state = st, m_owner = ow\<rparr>)"
  "g_current (set_mutex m st ow s) = g_current s" "int_flag (set_mutex m st ow s) = int_flag s"
  "g_preemption (set_mutex m st ow s) = g_preemption s" "tqs (set_mutex m st ow s) = tqs s"
  "threads (set_mutex m st ow s) = threads s" "g_scheduler (set_mutex m st ow s) = g_scheduler s"
  "sched_inv A (set_mutex m st ow s) = sched_inv A s" "prio (set_mutex m st ow s) = prio s"
proof -
  show "prio (set_mutex m st ow s) = prio s"
    by (rule prio_core) (simp add: set_mutex_def same_threads_def)
qed (simp_all add: set_mutex_def sched_inv_def queues_inv_def no_thread_lost_def queued_ok_def)

lemma prio_preemption [simp]: "prio (s\<lparr>g_preemption := b\<rparr>) = prio s"
  by (rule prio_core) (simp add: same_threads_def)

text \<open>An unlocked mutex is acquired at once.\<close>

lemma mutex_lock_free:
  assumes "int_flag s" and "m_state (mutexes s m) = MUTEX_UNLOCKED"
  shows "mutex_lock m s = Some (Inr ((), set_mutex m MUTEX_LOCKED (g_current s) (s\<lparr>g_preemption := True\<rparr>)))"
  using assms
  by (simp add: mutex_lock_def mutex_lock_imp_def mutex_lock_loop_def preempt_on_def MUTEX_IS_HELD_def
      int_enabled_def set_mutex_def halt_simps)

text \<open>Locking a mutex twice stops the kernel.\<close>

lemma mutex_lock_held: "MUTEX_IS_HELD m s \<Longrightarrow> mutex_lock m s = None"
  by (simp add: mutex_lock_def mutex_lock_imp_def MUTEX_IS_HELD_def halt_simps)

text \<open>A mutex held by another thread: the caller goes to the back of its queue.\<close>

lemma mutex_lock_loop_waits:
  assumes inv: "sched_inv A s" and "int_flag s" and "\<not> g_preemption s"
    and l: "m_state (mutexes s m) = MUTEX_LOCKED" and run: "A RunQ = n # rs"
  shows "\<exists>s'. mutex_lock_loop m s = Some (Inl s') \<and> g_current s' = n \<and> mutexes s' = mutexes s
    \<and> sched_inv (A(MutexWaitQ m := A (MutexWaitQ m) @ [g_current s], RunQ := rs)) s'"
proof -
  obtain s' where s': "thread_park (MutexWaitQ m) s = Some s'" "g_current s' = n"
    "sched_inv (A(MutexWaitQ m := A (MutexWaitQ m) @ [g_current s], RunQ := rs)) s'"
    "rest s' = rest (s\<lparr>g_preemption := True\<rparr>)"
    using park_ok [where q = "MutexWaitQ m", OF inv assms(2,3) _ run] by auto
  have "mutexes s' = mutexes s" using rest_sel(13) [OF s'(4)] by simp
  with s' l show ?thesis by (simp add: mutex_lock_loop_def)
qed

lemma mutex_lock_waits:
  assumes inv: "sched_inv A s" and "int_flag s" and l: "m_state (mutexes s m) = MUTEX_LOCKED"
    and o: "m_owner (mutexes s m) \<noteq> g_current s" and run: "A RunQ = n # rs"
  shows "\<exists>s'. mutex_lock m s = Some (Inl s') \<and> g_current s' = n \<and> mutexes s' = mutexes s
    \<and> sched_inv (A(MutexWaitQ m := A (MutexWaitQ m) @ [g_current s], RunQ := rs)) s'"
proof -
  let ?s = "s\<lparr>g_preemption := False\<rparr>"
  have "sched_inv A ?s" using inv by simp
  from mutex_lock_loop_waits [OF this _ _ _ run, of m] obtain s' where
    "mutex_lock_loop m ?s = Some (Inl s')" "g_current s' = n" "mutexes s' = mutexes s"
    "sched_inv (A(MutexWaitQ m := A (MutexWaitQ m) @ [g_current s], RunQ := rs)) s'"
    using assms(2) l by auto
  then show ?thesis
    using assms(2) o by (simp add: mutex_lock_def mutex_lock_imp_def MUTEX_IS_HELD_def int_enabled_def halt_simps)
qed

definition after_unlock :: "nat \<Rightarrow> scheduler \<Rightarrow> (nat \<Rightarrow> int) \<Rightarrow> (qid \<Rightarrow> nat list) \<Rightarrow> qid \<Rightarrow> nat list" where
  "after_unlock m sc p A = (case A (MutexWaitQ m) of [] \<Rightarrow> A
     | t # ts \<Rightarrow> A(MutexWaitQ m := ts, RunQ := sched_insert sc p t (A RunQ)))"

text \<open>Unlocking: the mutex is free, and the longest waiting thread becomes ready.\<close>

lemma mutex_unlock_imp_ok:
  assumes inv: "sched_inv A s" and "int_flag s" and "\<not> g_preemption s" and held: "MUTEX_IS_HELD m s"
  shows "\<exists>s'. mutex_unlock_imp m s = Some s' \<and> g_current s' = g_current s
    \<and> mutexes s' = (mutexes s)(m := \<lparr>m_state = MUTEX_UNLOCKED, m_owner = 0\<rparr>) \<and> int_flag s'
    \<and> g_preemption s' = g_preemption s \<and> sched_inv (after_unlock m (g_scheduler s) (prio s) A) s'"
proof -
  let ?s = "set_mutex m MUTEX_UNLOCKED 0 s"
  have inv': "sched_inv A ?s" using inv by simp
  have e: "list_is_empty (MutexWaitQ m) (tqs ?s) \<longleftrightarrow> A (MutexWaitQ m) = []"
    using lists_is_empty_iff [OF queues_invD(1) [OF sched_invD(1) [OF inv']]] .
  show ?thesis
  proof (cases "A (MutexWaitQ m)")
    case Nil
    then show ?thesis using assms e by (simp add: mutex_unlock_imp_def after_unlock_def halt_simps)
  next
    case (Cons t ts)
    let ?d = "?s\<lparr>int_flag := False\<rparr>"
    have "sched_inv A ?d" using inv' by simp
    from wakeup_one_ok [where q = "MutexWaitQ m" and A = A, OF this _ _ Cons] obtain s' where
      s': "thread_wakeup_one (MutexWaitQ m) ?d = Some s'" "undisturbed ?d s'"
        "sched_inv (A(MutexWaitQ m := ts, RunQ := sched_insert (g_scheduler s) (prio s) t (A RunQ))) s'"
      by auto
    note u = undisturbedD [OF s'(2)]
    have "mutex_unlock_imp m s = Some (s'\<lparr>int_flag := True\<rparr>)"
      using assms e Cons s'(1) u(2)
      by (simp add: mutex_unlock_imp_def int_disable_def int_enable_def int_enabled_def halt_simps)
    then show ?thesis using s'(3) u rest_sel(1,13) [OF u(3)] Cons by (simp add: after_unlock_def)
  qed
qed

lemma mutex_unlock_ok:
  assumes inv: "sched_inv A s" and "int_flag s" and held: "MUTEX_IS_HELD m s"
  shows "\<exists>s'. mutex_unlock m s = Some s' \<and> g_current s' = g_current s
    \<and> mutexes s' = (mutexes s)(m := \<lparr>m_state = MUTEX_UNLOCKED, m_owner = 0\<rparr>) \<and> int_flag s'
    \<and> g_preemption s' \<and> sched_inv (after_unlock m (g_scheduler s) (prio s) A) s'"
proof -
  let ?s = "s\<lparr>g_preemption := False\<rparr>"
  have "sched_inv A ?s" "MUTEX_IS_HELD m ?s" using inv held by (simp_all add: MUTEX_IS_HELD_def)
  from mutex_unlock_imp_ok [OF this(1) _ _ this(2)] assms(2) show ?thesis
    by (auto simp: mutex_unlock_def int_enabled_def halt_simps)
qed

lemma mutex_unlock_not_held: "\<not> MUTEX_IS_HELD m s \<Longrightarrow> mutex_unlock m s = None"
  by (auto simp: mutex_unlock_def mutex_unlock_imp_def MUTEX_IS_HELD_def kassert_def)

text \<open>Signalling a condition that nobody waits for stops the kernel.\<close>

lemma cond_signal_nobody:
  assumes "sched_inv A s" and "A (CondWaitQ c) = []"
  shows "cond_signal c s = None"
proof -
  have "sched_inv A (s\<lparr>int_flag := False\<rparr>)" using assms(1) by simp
  then have "thread_wakeup_one (CondWaitQ c) (s\<lparr>int_flag := False\<rparr>) = None"
    using wakeup_one_halts [OF sched_invD(1)] assms(2) by blast
  then show ?thesis by (simp add: cond_signal_def int_disable_def int_enabled_def halt_simps)
qed

lemma cond_signal_ok:
  assumes inv: "sched_inv A s" and "int_flag s" and w: "A (CondWaitQ c) = t # ts"
  shows "\<exists>s'. cond_signal c s = Some s' \<and> int_flag s' \<and> g_current s' = g_current s \<and> mutexes s' = mutexes s
    \<and> sched_inv (A(CondWaitQ c := ts, RunQ := sched_insert (g_scheduler s) (prio s) t (A RunQ))) s'"
proof -
  let ?d = "s\<lparr>int_flag := False\<rparr>"
  have "sched_inv A ?d" using inv by simp
  from wakeup_one_ok [where q = "CondWaitQ c" and A = A, OF this _ _ w] obtain s' where
    s': "thread_wakeup_one (CondWaitQ c) ?d = Some s'" "undisturbed ?d s'"
      "sched_inv (A(CondWaitQ c := ts, RunQ := sched_insert (g_scheduler s) (prio s) t (A RunQ))) s'"
    by auto
  note u = undisturbedD [OF s'(2)]
  have "cond_signal c s = Some (s'\<lparr>int_flag := True\<rparr>)"
    using assms(2) s'(1) u(2)
    by (simp add: cond_signal_def int_disable_def int_enable_def int_enabled_def halt_simps)
  then show ?thesis using s'(3) u rest_sel(13) [OF u(3)] by simp
qed

lemma cond_broadcast_ok:
  assumes inv: "sched_inv A s" and "int_flag s"
  shows "\<exists>s'. cond_broadcast c s = Some s' \<and> int_flag s' \<and> g_current s' = g_current s \<and> mutexes s' = mutexes s
    \<and> sched_inv (wake_all (g_scheduler s) (prio s) (CondWaitQ c) A) s'"
proof -
  let ?d = "s\<lparr>int_flag := False\<rparr>"
  have "sched_inv A ?d" using inv by simp
  from wakeup_ok [where q = "CondWaitQ c", OF this] obtain s' where
    s': "thread_wakeup (CondWaitQ c) ?d = Some s'" "undisturbed ?d s'"
      "sched_inv (wake_all (g_scheduler s) (prio s) (CondWaitQ c) A) s'" by auto
  note u = undisturbedD [OF s'(2)]
  have "cond_broadcast c s = Some (s'\<lparr>int_flag := True\<rparr>)"
    using assms(2) s'(1) u(2)
    by (simp add: cond_broadcast_def int_disable_def int_enable_def int_enabled_def halt_simps)
  then show ?thesis using s'(3) u rest_sel(13) [OF u(3)] by simp
qed

text \<open>
  Waiting for a condition releases the mutex and queues the thread in one piece: preemption is
  off from the release to the park, so a notification cannot fall between them.
\<close>

lemma cond_wait_ok:
  assumes inv: "sched_inv A s" and "int_flag s" and held: "MUTEX_IS_HELD m s"
    and run: "after_unlock m (g_scheduler s) (prio s) A = B"
      "B RunQ = n # rs"
  shows "\<exists>s'. cond_wait c m s = Some s' \<and> g_current s' = n
    \<and> mutexes s' = (mutexes s)(m := \<lparr>m_state = MUTEX_UNLOCKED, m_owner = 0\<rparr>)
    \<and> sched_inv (B(CondWaitQ c := B (CondWaitQ c) @ [g_current s], RunQ := rs)) s'"
proof -
  let ?s = "s\<lparr>g_preemption := False\<rparr>"
  have "sched_inv A ?s" "MUTEX_IS_HELD m ?s" using inv held by (simp_all add: MUTEX_IS_HELD_def)
  from mutex_unlock_imp_ok [OF this(1) _ _ this(2)] assms(2) run(1) obtain s1 where
    s1: "mutex_unlock_imp m ?s = Some s1" "g_current s1 = g_current s"
      "mutexes s1 = (mutexes s)(m := \<lparr>m_state = MUTEX_UNLOCKED, m_owner = 0\<rparr>)" "int_flag s1"
      "\<not> g_preemption s1" "sched_inv B s1" by auto
  from park_ok [where q = "CondWaitQ c", OF s1(6,4,5) _ run(2)] obtain s' where
    s': "thread_park (CondWaitQ c) s1 = Some s'" "g_current s' = n"
      "sched_inv (B(CondWaitQ c := B (CondWaitQ c) @ [g_current s1], RunQ := rs)) s'"
      "rest s' = rest (s1\<lparr>g_preemption := True\<rparr>)" by auto
  have "mutexes s' = mutexes s1" using rest_sel(13) [OF s'(4)] by simp
  then show ?thesis
    using assms(2) held s1 s' by (simp add: cond_wait_def int_enabled_def halt_simps)
qed

end
