(* ===== verification/Mutex_System.thy ===== *)
theory Mutex_System imports Synch begin

text \<open>
  Threads that share a mutex \<open>m\<close> and a condition \<open>c\<close>, as a transition system over the kernel
  state: the running thread executes the code of \<open>synch.c\<close> and \<open>thread.c\<close> one piece at a time,
  a piece ending where the code switches to another thread.  The timer may interrupt between any two pieces;
  inside a piece preemption is off or interrupts are masked, so that a tick there switches to no other thread,
  and such ticks are not steps of the system.
  \<open>pc t\<close> says where thread \<open>t\<close> is with respect to the mutex.
\<close>

datatype mpc = Outside | Acquiring | Inside | OnCond

type_synonym sys = "kernel \<times> (nat \<Rightarrow> mpc)"

text \<open>The queues that this system does not name: any other wait queue of the kernel.\<close>

definition foreign :: "nat \<Rightarrow> nat \<Rightarrow> qid \<Rightarrow> bool" where
  "foreign m c q \<longleftrightarrow> wait_queue q \<and> q \<noteq> MutexWaitQ m \<and> q \<noteq> CondWaitQ c"

inductive sys_step :: "nat \<Rightarrow> nat \<Rightarrow> sys \<Rightarrow> sys \<Rightarrow> bool" for m c where
  Lock: "\<lbrakk>pc (g_current s) = Outside; mutex_lock m s = Some (Inr ((), s'))\<rbrakk>
    \<Longrightarrow> sys_step m c (s, pc) (s', pc(g_current s := Inside))"
| Lock_park: "\<lbrakk>pc (g_current s) = Outside; mutex_lock m s = Some (Inl s')\<rbrakk>
    \<Longrightarrow> sys_step m c (s, pc) (s', pc(g_current s := Acquiring))"
| Relock: "\<lbrakk>pc (g_current s) = Acquiring; mutex_lock_resume m s = Some (Inr ((), s'))\<rbrakk>
    \<Longrightarrow> sys_step m c (s, pc) (s', pc(g_current s := Inside))"
| Relock_park: "\<lbrakk>pc (g_current s) = Acquiring; mutex_lock_resume m s = Some (Inl s')\<rbrakk>
    \<Longrightarrow> sys_step m c (s, pc) (s', pc)"
| Unlock: "\<lbrakk>pc (g_current s) = Inside; mutex_unlock m s = Some s'\<rbrakk>
    \<Longrightarrow> sys_step m c (s, pc) (s', pc(g_current s := Outside))"
| Cond_wait: "\<lbrakk>pc (g_current s) = Inside; cond_wait c m s = Some s'\<rbrakk>
    \<Longrightarrow> sys_step m c (s, pc) (s', pc(g_current s := OnCond))"
| Cond_lock: "\<lbrakk>pc (g_current s) = OnCond; cond_wait_resume m s = Some (Inr ((), s'))\<rbrakk>
    \<Longrightarrow> sys_step m c (s, pc) (s', pc(g_current s := Inside))"
| Cond_park: "\<lbrakk>pc (g_current s) = OnCond; cond_wait_resume m s = Some (Inl s')\<rbrakk>
    \<Longrightarrow> sys_step m c (s, pc) (s', pc(g_current s := Acquiring))"
| Signal: "\<lbrakk>pc (g_current s) \<in> {Outside, Inside}; cond_signal c s = Some s'\<rbrakk>
    \<Longrightarrow> sys_step m c (s, pc) (s', pc)"
| Broadcast: "\<lbrakk>pc (g_current s) \<in> {Outside, Inside}; cond_broadcast c s = Some s'\<rbrakk>
    \<Longrightarrow> sys_step m c (s, pc) (s', pc)"
| Yield: "\<lbrakk>pc (g_current s) \<in> {Outside, Inside}; thread_yield s = Some (iflag, s')\<rbrakk>
    \<Longrightarrow> sys_step m c (s, pc) (s', pc)"
| Ints_on: "\<lbrakk>pc (g_current s) \<in> {Outside, Inside}; int_enable s = Some s'\<rbrakk>
    \<Longrightarrow> sys_step m c (s, pc) (s', pc)"
| Ints_off: "\<lbrakk>pc (g_current s) \<in> {Outside, Inside}; int_disable s = Some s'\<rbrakk>
    \<Longrightarrow> sys_step m c (s, pc) (s', pc)"
| Wait: "\<lbrakk>pc (g_current s) \<in> {Outside, Inside}; foreign m c q; thread_wait q s = Some s'\<rbrakk>
    \<Longrightarrow> sys_step m c (s, pc) (s', pc)"
| Wakeup: "\<lbrakk>pc (g_current s) \<in> {Outside, Inside}; foreign m c q; \<not> int_flag s; thread_wakeup q s = Some s'\<rbrakk>
    \<Longrightarrow> sys_step m c (s, pc) (s', pc)"
| Exit: "\<lbrakk>pc (g_current s) = Outside; threads s (g_current s) = Some th; refcount th > 1;
      \<not> list_is_empty RunQ (tqs s); thread_exit code s = Some (Inr ((), s'))\<rbrakk>
    \<Longrightarrow> sys_step m c (s, pc) (s', pc)"
| Tick: "\<lbrakk>int_flag s; timer_interrupt s = Some s'\<rbrakk> \<Longrightarrow> sys_step m c (s, pc) (s', pc)"

inductive sys_reach :: "nat \<Rightarrow> nat \<Rightarrow> sys \<Rightarrow> sys \<Rightarrow> bool" for m c where
  start: "sys_reach m c x x"
| step: "sys_reach m c x y \<Longrightarrow> sys_step m c y z \<Longrightarrow> sys_reach m c x z"

section \<open>The invariant\<close>

text \<open>
  The mutex and the threads agree on who is inside; whoever is on the queue of the mutex wants
  it; and when the mutex is free while threads wait, one that wants it is ready or running.
\<close>

definition mutex_agrees :: "nat \<Rightarrow> sys \<Rightarrow> bool" where
  "mutex_agrees m x \<longleftrightarrow> (case x of (s, pc) \<Rightarrow>
     (\<forall>t. pc t = Inside \<longleftrightarrow> m_state (mutexes s m) = MUTEX_LOCKED \<and> m_owner (mutexes s m) = t))"

definition contended :: "nat \<Rightarrow> (qid \<Rightarrow> nat list) \<Rightarrow> sys \<Rightarrow> bool" where
  "contended m A x \<longleftrightarrow> (case x of (s, pc) \<Rightarrow>
     (\<forall>t \<in> set (A (MutexWaitQ m)). pc t = Acquiring)
     \<and> (m_state (mutexes s m) = MUTEX_UNLOCKED \<longrightarrow> A (MutexWaitQ m) \<noteq> [] \<longrightarrow>
          (\<exists>t \<in> insert (g_current s) (set (A RunQ)). pc t = Acquiring)))"

definition sys_inv :: "nat \<Rightarrow> sys \<Rightarrow> bool" where
  "sys_inv m x \<longleftrightarrow> mutex_agrees m x \<and> (\<exists>A. sched_inv A (fst x) \<and> contended m A x)"

lemma sys_invI:
  "\<lbrakk>mutex_agrees m (s, pc); sched_inv A s; contended m A (s, pc)\<rbrakk> \<Longrightarrow> sys_inv m (s, pc)"
  unfolding sys_inv_def by auto

lemma mutex_agrees_same:
  "mutex_agrees m (s, pc) \<Longrightarrow> mutexes s' m = mutexes s m \<Longrightarrow> mutex_agrees m (s', pc)"
  by (simp add: mutex_agrees_def)

text \<open>A step that leaves the mutex and its queue alone and drops no ready thread.\<close>

lemma contended_same:
  assumes "contended m A (s, pc)" and "mutexes s' m = mutexes s m"
    and "A' (MutexWaitQ m) = A (MutexWaitQ m)"
    and "\<And>t. t \<in> insert (g_current s) (set (A RunQ)) \<Longrightarrow> pc t = Acquiring
      \<Longrightarrow> t \<in> insert (g_current s') (set (A' RunQ))"
  shows "contended m A' (s', pc)"
proof -
  have acq: "\<forall>t \<in> set (A (MutexWaitQ m)). pc t = Acquiring"
    and con: "m_state (mutexes s m) = MUTEX_UNLOCKED \<Longrightarrow> A (MutexWaitQ m) \<noteq> [] \<Longrightarrow>
      \<exists>t \<in> insert (g_current s) (set (A RunQ)). pc t = Acquiring"
    using assms(1) by (auto simp: contended_def)
  have "\<exists>t \<in> insert (g_current s') (set (A' RunQ)). pc t = Acquiring"
    if u: "m_state (mutexes s' m) = MUTEX_UNLOCKED" and ne: "A' (MutexWaitQ m) \<noteq> []"
  proof -
    obtain t where t: "t \<in> insert (g_current s) (set (A RunQ))" "pc t = Acquiring"
      using con u ne assms(2,3) by auto
    from assms(4) [OF t] t(2) show ?thesis by blast
  qed
  with acq assms(3) show ?thesis by (simp add: contended_def)
qed

lemma set_sched_insert [simp]: "set (sched_insert sc p t xs) = insert t (set xs)"
  by (rule sched.ins_set)

lemma current_off_queues: "sched_inv A s \<Longrightarrow> g_current s \<notin> set (A q)"
  using sched_invD(3) by (auto simp: on_no_list_def)

section \<open>What the pieces do to the mutex\<close>

text \<open>The piece that acquires the mutex finds it free and takes it for the running thread.\<close>

definition acquires :: "nat \<Rightarrow> (qid \<Rightarrow> nat list) \<Rightarrow> kernel \<Rightarrow> kernel \<Rightarrow> bool" where
  "acquires m A s s' \<longleftrightarrow> m_state (mutexes s m) = MUTEX_UNLOCKED \<and> g_current s' = g_current s
     \<and> mutexes s' m = \<lparr>m_state = MUTEX_LOCKED, m_owner = g_current s\<rparr> \<and> sched_inv A s'"

text \<open>The piece that parks leaves the mutex alone and queues the running thread on it.\<close>

definition parks :: "nat \<Rightarrow> (qid \<Rightarrow> nat list) \<Rightarrow> kernel \<Rightarrow> kernel \<Rightarrow> bool" where
  "parks m A s s' \<longleftrightarrow> m_state (mutexes s m) = MUTEX_LOCKED \<and> mutexes s' = mutexes s
     \<and> (\<exists>n rs. A RunQ = n # rs \<and> g_current s' = n
            \<and> sched_inv (A(MutexWaitQ m := A (MutexWaitQ m) @ [g_current s], RunQ := rs)) s')"

lemma park_needs:
  assumes "sched_inv A s" and "wait_queue q" and "thread_park q s = Some s'"
  shows "int_flag s \<and> \<not> g_preemption s \<and> (\<exists>n rs. A RunQ = n # rs)"
proof -
  have f: "int_flag s" "\<not> g_preemption s"
    and w: "thread_wait q (s\<lparr>int_flag := False, g_preemption := True\<rparr>) = Some s'"
    using assms(3) by (auto simp: thread_park_def int_disable_def int_enabled_def kassert_def
        split: if_splits option.splits bind_splits)
  have "sched_inv A (s\<lparr>int_flag := False, g_preemption := True\<rparr>)" using assms(1) by simp
  from wait_halts [OF this assms(2)] w have "A RunQ \<noteq> []" by auto
  with f show ?thesis by (cases "A RunQ") auto
qed


lemma loop_parks:
  assumes inv: "sched_inv A s" and "mutex_lock_loop m s = Some (Inl s')"
  shows "parks m A s s'"
proof -
  have l: "m_state (mutexes s m) = MUTEX_LOCKED" and p: "thread_park (MutexWaitQ m) s = Some s'"
    using assms by (auto simp: mutex_lock_loop_def split: if_splits bind_splits)
  from park_needs [OF inv _ p] obtain n rs where n: "int_flag s" "\<not> g_preemption s" "A RunQ = n # rs"
    by auto
  from mutex_lock_loop_waits [OF inv n(1,2) l n(3)] assms(2) l n(3) show ?thesis
    by (auto simp: parks_def)
qed

lemma loop_acquires:
  assumes "sched_inv A s" and "mutex_lock_loop m s = Some (Inr ((), s'))"
  shows "acquires m A s (s'\<lparr>g_preemption := b\<rparr>)"
proof -
  have "m_state (mutexes s m) \<noteq> MUTEX_LOCKED" and "s' = set_mutex m MUTEX_LOCKED (g_current s) s"
    using assms(2) by (auto simp: mutex_lock_loop_def split: if_splits bind_splits)
  then show ?thesis using assms(1) by (cases "m_state (mutexes s m)") (simp_all add: acquires_def)
qed

text \<open>The four pieces of code that end in the loop of \<open>mutex_lock_imp\<close>.\<close>

lemma then_preempt_on_cases:
  assumes "then_do r (\<lambda>_ s. preempt_on s) = Some x"
  shows "(\<exists>s'. r = Some (Inl s') \<and> x = Inl s')
    \<or> (\<exists>s'. r = Some (Inr ((), s')) \<and> x = Inr ((), s'\<lparr>g_preemption := True\<rparr>))"
proof (cases r)
  case (Some y)
  with assms show ?thesis by (cases y) (auto simp: then_do_def preempt_on_def)
qed (use assms in \<open>simp add: then_do_def\<close>)

definition loop_result :: "nat \<Rightarrow> (qid \<Rightarrow> nat list) \<Rightarrow> kernel \<Rightarrow> (kernel + unit \<times> kernel) \<Rightarrow> bool" where
  "loop_result m A s x \<longleftrightarrow> (case x of Inl s' \<Rightarrow> parks m A s s' | Inr (_, s') \<Rightarrow> acquires m A s s')"

lemma loop_result_preempt_on:
  assumes "sched_inv A s" and "then_do (mutex_lock_loop m s) (\<lambda>_ s. preempt_on s) = Some x"
  shows "loop_result m A s x"
  using then_preempt_on_cases [OF assms(2)] loop_parks [OF assms(1)] loop_acquires [OF assms(1)]
  by (auto simp: loop_result_def)

lemma loop_result_flags:
  "loop_result m A (s\<lparr>g_preemption := b\<rparr>) x = loop_result m A s x"
  "loop_result m A (s\<lparr>int_flag := b\<rparr>) x = loop_result m A s x"
  by (simp_all add: loop_result_def acquires_def parks_def cong: sum.case_cong)

lemma mutex_lock_result:
  assumes "sched_inv A s" and "mutex_lock m s = Some x"
  shows "loop_result m A s x"
proof -
  have "then_do (mutex_lock_loop m (s\<lparr>g_preemption := False\<rparr>)) (\<lambda>_ s. preempt_on s) = Some x"
    using assms(2) by (auto simp: mutex_lock_def mutex_lock_imp_def kassert_def split: if_splits)
  from loop_result_preempt_on [OF _ this] assms(1) show ?thesis by (simp add: loop_result_flags)
qed

lemma mutex_lock_resume_result:
  assumes "sched_inv A s" and "mutex_lock_resume m s = Some x"
  shows "loop_result m A s x"
proof -
  have "then_do (mutex_lock_loop m (s\<lparr>g_preemption := False, int_flag := True\<rparr>)) (\<lambda>_ s. preempt_on s) = Some x"
    using assms(2)
    by (auto simp: mutex_lock_resume_def thread_park_resume_def int_enable_def kassert_def split: if_splits)
  from loop_result_preempt_on [OF _ this] assms(1) show ?thesis by (simp add: loop_result_flags)
qed

lemma cond_wait_resume_result:
  assumes "sched_inv A s" and "cond_wait_resume m s = Some x"
  shows "loop_result m A s x"
proof -
  have "then_do (mutex_lock_loop m (s\<lparr>g_preemption := False, int_flag := True\<rparr>)) (\<lambda>_ s. preempt_on s) = Some x"
    using assms(2)
    by (auto simp: cond_wait_resume_def thread_park_resume_def int_enable_def mutex_lock_imp_def kassert_def split: if_splits)
  from loop_result_preempt_on [OF _ this] assms(1) show ?thesis by (simp add: loop_result_flags)
qed

section \<open>Every piece preserves the invariant\<close>

lemma acquire_keeps:
  assumes inv: "mutex_agrees m (s, pc)" "sched_inv A s" "contended m A (s, pc)"
    and a: "acquires m A s s'"
  shows "sys_inv m (s', pc(g_current s := Inside))"
proof (rule sys_invI)
  show "sched_inv A s'" using a by (simp add: acquires_def)
  show "mutex_agrees m (s', pc(g_current s := Inside))"
    using inv(1) a by (auto simp: mutex_agrees_def acquires_def)
  show "contended m A (s', pc(g_current s := Inside))"
    using inv(3) a current_off_queues [OF inv(2), of "MutexWaitQ m"] by (auto simp: contended_def acquires_def)
qed

lemma park_keeps:
  assumes inv: "mutex_agrees m (s, pc)" "sched_inv A s" "contended m A (s, pc)"
    and a: "parks m A s s'" and out: "pc (g_current s) \<noteq> Inside"
  shows "sys_inv m (s', pc(g_current s := Acquiring))"
proof -
  from a obtain n rs where n: "m_state (mutexes s m) = MUTEX_LOCKED" "mutexes s' = mutexes s"
    "sched_inv (A(MutexWaitQ m := A (MutexWaitQ m) @ [g_current s], RunQ := rs)) s'"
    by (auto simp: parks_def)
  show ?thesis
  proof (rule sys_invI [OF _ n(3)])
    show "mutex_agrees m (s', pc(g_current s := Acquiring))"
      using inv(1) n(2) out by (auto simp: mutex_agrees_def)
    show "contended m (A(MutexWaitQ m := A (MutexWaitQ m) @ [g_current s], RunQ := rs))
        (s', pc(g_current s := Acquiring))"
      using inv(3) n(1,2) by (simp add: contended_def)
  qed
qed

text \<open>Releasing the mutex: the thread at the head of its queue becomes the contender.\<close>

lemma release_keeps:
  assumes inv: "sched_inv A s" "contended m A (s, pc)" and x: "x \<noteq> Acquiring"
    and s': "mutexes s' = (mutexes s)(m := \<lparr>m_state = MUTEX_UNLOCKED, m_owner = 0\<rparr>)"
      "g_current s' = g_current s"
  shows "contended m (after_unlock m sc p A) (s', pc(g_current s := x))"
proof -
  have acq: "\<forall>t \<in> set (A (MutexWaitQ m)). pc t = Acquiring \<and> t \<noteq> g_current s"
    using inv(2) current_off_queues [OF inv(1), of "MutexWaitQ m"] by (auto simp: contended_def)
  then show ?thesis
    by (cases "A (MutexWaitQ m)") (auto simp: contended_def after_unlock_def)
qed

lemma release_agrees:
  assumes "mutex_agrees m (s, pc)" and "pc (g_current s) = Inside" and "x \<noteq> Inside"
    and "mutexes s' = (mutexes s)(m := \<lparr>m_state = MUTEX_UNLOCKED, m_owner = 0\<rparr>)"
  shows "mutex_agrees m (s', pc(g_current s := x))"
  using assms by (auto simp: mutex_agrees_def)

lemma inside_holds:
  "mutex_agrees m (s, pc) \<Longrightarrow> pc (g_current s) = Inside \<Longrightarrow> MUTEX_IS_HELD m s"
  by (simp add: mutex_agrees_def MUTEX_IS_HELD_def)

lemma unlock_keeps:
  assumes inv: "mutex_agrees m (s, pc)" "sched_inv A s" "contended m A (s, pc)"
    and inside: "pc (g_current s) = Inside" and s': "mutex_unlock m s = Some s'"
  shows "sys_inv m (s', pc(g_current s := Outside))"
proof -
  have "int_flag s" using s' by (auto simp: mutex_unlock_def int_enabled_def kassert_def split: if_splits)
  from mutex_unlock_ok [OF inv(2) this inside_holds [OF inv(1) inside]] s'
  have e: "g_current s' = g_current s"
    "mutexes s' = (mutexes s)(m := \<lparr>m_state = MUTEX_UNLOCKED, m_owner = 0\<rparr>)"
    "sched_inv (after_unlock m (g_scheduler s) (prio s) A) s'" by auto
  show ?thesis
    by (rule sys_invI [OF release_agrees [OF inv(1) inside _ e(2)] e(3)
          release_keeps [OF inv(2,3) _ e(2,1)]]) simp_all
qed

lemma cond_wait_runs:
  assumes inv: "sched_inv A s" and held: "MUTEX_IS_HELD m s" and s': "cond_wait c m s = Some s'"
  shows "int_flag s \<and> (\<exists>n rs. after_unlock m (g_scheduler s) (prio s) A RunQ = n # rs)"
proof -
  let ?s = "s\<lparr>g_preemption := False\<rparr>"
  have f: "int_flag s" using s' by (auto simp: cond_wait_def int_enabled_def kassert_def split: if_splits)
  have "sched_inv A ?s" "MUTEX_IS_HELD m ?s" using inv held by (simp_all add: MUTEX_IS_HELD_def)
  from mutex_unlock_imp_ok [OF this(1) _ _ this(2)] f obtain s1 where
    s1: "mutex_unlock_imp m ?s = Some s1" "sched_inv (after_unlock m (g_scheduler s) (prio s) A) s1" by auto
  have "thread_park (CondWaitQ c) s1 = Some s'"
    using s' s1(1) f held by (simp add: cond_wait_def int_enabled_def halt_simps)
  from park_needs [OF s1(2) _ this] f show ?thesis by auto
qed

lemma cond_wait_keeps:
  assumes inv: "mutex_agrees m (s, pc)" "sched_inv A s" "contended m A (s, pc)"
    and inside: "pc (g_current s) = Inside" and s': "cond_wait c m s = Some s'"
  shows "sys_inv m (s', pc(g_current s := OnCond))"
proof -
  let ?B = "after_unlock m (g_scheduler s) (prio s) A"
  note held = inside_holds [OF inv(1) inside]
  from cond_wait_runs [OF inv(2) held s'] obtain n rs where run: "int_flag s" "?B RunQ = n # rs" by auto
  from cond_wait_ok [OF inv(2) run(1) held refl run(2), of c] s' have e: "g_current s' = n"
    "mutexes s' = (mutexes s)(m := \<lparr>m_state = MUTEX_UNLOCKED, m_owner = 0\<rparr>)"
    "sched_inv (?B(CondWaitQ c := ?B (CondWaitQ c) @ [g_current s], RunQ := rs)) s'" by auto
  let ?s1 = "s'\<lparr>g_current := g_current s\<rparr>"
  have "contended m ?B (?s1, pc(g_current s := OnCond))"
    by (rule release_keeps [OF inv(2,3)]) (use e(2) in simp_all)
  moreover have "g_current s \<notin> set (?B RunQ)"
    using current_off_queues [OF inv(2), of RunQ] current_off_queues [OF inv(2), of "MutexWaitQ m"]
    by (cases "A (MutexWaitQ m)") (auto simp: after_unlock_def)
  ultimately have "contended m (?B(CondWaitQ c := ?B (CondWaitQ c) @ [g_current s], RunQ := rs))
      (s', pc(g_current s := OnCond))"
    using e(1) run(2) by (auto simp: contended_def)
  then show ?thesis
    using sys_invI [OF release_agrees [OF inv(1) inside _ e(2)] e(3)] by simp
qed

text \<open>The other pieces leave the mutex alone, and every ready or running contender stays one.\<close>

lemma same_keeps:
  assumes "mutex_agrees m (s, pc)" "contended m A (s, pc)" "mutexes s' = mutexes s" "sched_inv A' s'"
    and "A' (MutexWaitQ m) = A (MutexWaitQ m)"
    and "\<And>t. t \<in> insert (g_current s) (set (A RunQ)) \<Longrightarrow> pc t = Acquiring
      \<Longrightarrow> t \<in> insert (g_current s') (set (A' RunQ))"
  shows "sys_inv m (s', pc)"
  using assms contended_same [of m A s pc s' A'] mutex_agrees_same [of m s pc s'] sys_invI by auto

lemma signal_keeps:
  assumes inv: "mutex_agrees m (s, pc)" "sched_inv A s" "contended m A (s, pc)"
    and s': "cond_signal c s = Some s'"
  shows "sys_inv m (s', pc)"
proof -
  have f: "int_flag s" using s' by (auto simp: cond_signal_def int_enabled_def kassert_def split: if_splits)
  obtain t ts where w: "A (CondWaitQ c) = t # ts"
    using cond_signal_nobody [OF inv(2)] s' by (cases "A (CondWaitQ c)") auto
  from cond_signal_ok [OF inv(2) f w] s' have e: "g_current s' = g_current s" "mutexes s' = mutexes s"
    "sched_inv (A(CondWaitQ c := ts, RunQ := sched_insert (g_scheduler s) (prio s) t (A RunQ))) s'" by auto
  show ?thesis using e by (intro same_keeps [OF inv(1,3) _ e(3)]) auto
qed

lemma set_fold_insert [simp]: "set (fold (sched_insert sc p) ts xs) = set ts \<union> set xs"
  by (induction ts arbitrary: xs) auto

lemma broadcast_keeps:
  assumes inv: "mutex_agrees m (s, pc)" "sched_inv A s" "contended m A (s, pc)"
    and s': "cond_broadcast c s = Some s'"
  shows "sys_inv m (s', pc)"
proof -
  have f: "int_flag s" using s' by (auto simp: cond_broadcast_def int_enabled_def kassert_def split: if_splits)
  from cond_broadcast_ok [OF inv(2) f, of c] s' have e: "g_current s' = g_current s" "mutexes s' = mutexes s"
    "sched_inv (wake_all (g_scheduler s) (prio s) (CondWaitQ c) A) s'" by auto
  show ?thesis using e by (intro same_keeps [OF inv(1,3) _ e(3)]) (auto simp: wake_all_def)
qed

lemma dispatch_pops:
  "sched_insert sc p c xs = n # rs \<Longrightarrow> insert n (set rs) = insert c (set xs)"
  by (metis list.simps(15) set_sched_insert)

lemma yield_keeps:
  assumes inv: "mutex_agrees m (s, pc)" "sched_inv A s" "contended m A (s, pc)"
    and s': "thread_yield s = Some (b, s')"
  shows "sys_inv m (s', pc)"
proof -
  obtain n rs where run: "sched_insert (g_scheduler s) (prio s) (g_current s) (A RunQ) = n # rs"
    using set_sched_insert [of "g_scheduler s" "prio s" "g_current s" "A RunQ"]
    by (cases "sched_insert (g_scheduler s) (prio s) (g_current s) (A RunQ)") auto
  from yield_ok [OF inv(2) run] s' have e: "sched_inv (A(RunQ := rs)) s'" "g_current s' = n" "rest s' = rest s"
    by auto
  show ?thesis
    using dispatch_pops [OF run] e rest_sel(13) [OF e(3)] by (intro same_keeps [OF inv(1,3) _ e(1)]) auto
qed

lemma wait_keeps:
  assumes inv: "mutex_agrees m (s, pc)" "sched_inv A s" "contended m A (s, pc)"
    and s': "thread_wait q s = Some s'" and q: "wait_queue q" "q \<noteq> MutexWaitQ m"
    and out: "pc (g_current s) \<noteq> Acquiring"
  shows "sys_inv m (s', pc)"
proof -
  have off: "\<not> int_flag s" using s' by (auto simp: thread_wait_def int_enabled_def)
  obtain n rs where run: "A RunQ = n # rs"
    using wait_halts [OF inv(2) q(1)] s' by (cases "A RunQ") auto
  from wait_ok [OF inv(2) off q(1) run] s' have e: "sched_inv (A(q := A q @ [g_current s], RunQ := rs)) s'"
    "g_current s' = n" "rest s' = rest s" by auto
  show ?thesis
    using out q run e rest_sel(13) [OF e(3)] by (intro same_keeps [OF inv(1,3) _ e(1)]) auto
qed

lemma wakeup_keeps:
  assumes inv: "mutex_agrees m (s, pc)" "sched_inv A s" "contended m A (s, pc)"
    and s': "thread_wakeup q s = Some s'" and q: "wait_queue q" "q \<noteq> MutexWaitQ m" "\<not> int_flag s"
  shows "sys_inv m (s', pc)"
proof -
  from wakeup_ok [OF inv(2) q(3,1)] s' have e: "undisturbed s s'"
    "sched_inv (wake_all (g_scheduler s) (prio s) q A) s'" by auto
  show ?thesis
    using undisturbedD [OF e(1)] rest_sel(13) [of s' s] q
    by (intro same_keeps [OF inv(1,3) _ e(2)]) (auto simp: wake_all_def)
qed

lemma exit_keeps:
  assumes inv: "mutex_agrees m (s, pc)" "sched_inv A s" "contended m A (s, pc)"
    and th: "threads s (g_current s) = Some th" "refcount th > 1" and ne: "\<not> list_is_empty RunQ (tqs s)"
    and s': "thread_exit code s = Some (Inr ((), s'))" and out: "pc (g_current s) \<noteq> Acquiring"
  shows "sys_inv m (s', pc)"
proof -
  let ?W = "wake_all (g_scheduler s) (prio s) (ThreadWaitQ (g_current s)) A"
  have "A RunQ \<noteq> []"
    using ne lists_is_empty_iff [OF queues_invD(1) [OF sched_invD(1) [OF inv(2)]]] by blast
  moreover have set_W: "set (?W RunQ) = set (A (ThreadWaitQ (g_current s))) \<union> set (A RunQ)"
    by (simp add: wake_all_def)
  ultimately have "set (?W RunQ) \<noteq> {}" by simp
  then obtain n rs where run: "?W RunQ = n # rs" by (cases "?W RunQ") auto
  from thread_exit_attached [OF inv(2) th run, of code] s' have e: "sched_inv (?W(RunQ := rs)) s'"
    "g_current s' = n" "rest s' = rest s" by auto
  have "insert n (set rs) = set (?W RunQ)" using run by simp
  then have "t \<in> insert n (set rs)" if "t \<in> set (A RunQ)" for t using that set_W by blast
  then show ?thesis
    using out e(2) rest_sel(13) [OF e(3)] by (intro same_keeps [OF inv(1,3) _ e(1)]) (auto simp: wake_all_def)
qed

lemma tick_mutexes: "timer_process_tick s = Some s' \<Longrightarrow> mutexes s' = mutexes s \<and> int_flag s' = int_flag s"
  by (auto simp: timer_process_tick_def RR_scheduler_def upd_thread_def Let_def split: bind_splits if_splits)

lemma timer_keeps:
  assumes inv: "mutex_agrees m (s, pc)" "sched_inv A s" "contended m A (s, pc)"
    and s': "timer_interrupt s = Some s'"
  shows "sys_inv m (s', pc)"
proof -
  let ?s = "s\<lparr>int_flag := False, esp := esp s - 12 - 8 - 44\<rparr>"
  have "sched_inv A ?s" using inv(2) by simp
  from tick_ok [OF this] obtain s1 where s1: "timer_process_tick ?s = Some s1" "sched_inv A s1"
    "g_current s1 = g_current s" "\<not> int_flag s1" by auto
  have r: "interrupt_return (int_flag s) s1 = Some s'"
    using s' s1(1) by (simp add: timer_interrupt_def Let_def)
  have m: "mutexes s1 = mutexes s" using tick_mutexes [OF s1(1)] by simp
  show ?thesis
  proof (cases "g_preemption s1 \<and> g_need_reschedule s1")
    case False
    from interrupt_return_ok(1) [OF s1(2,4) this] r have "s' = s1\<lparr>esp := esp s1 + 64, int_flag := int_flag s\<rparr>"
      by simp
    then show ?thesis using s1 m by (intro same_keeps [OF inv(1,3), of _ A]) auto
  next
    case True
    obtain n rs where run: "sched_insert (g_scheduler s1) (prio s1) (g_current s1) (A RunQ) = n # rs"
      using set_sched_insert [of "g_scheduler s1" "prio s1" "g_current s1" "A RunQ"]
      by (cases "sched_insert (g_scheduler s1) (prio s1) (g_current s1) (A RunQ)") auto
    from interrupt_return_ok(2) [OF s1(2,4) _ _ run, of "int_flag s"] True r have
      e: "sched_inv (A(RunQ := rs)) s'" "g_current s' = n" "rest s' = rest (s1\<lparr>g_need_reschedule := False\<rparr>)" by auto
    have "mutexes s' = mutexes s" using rest_sel(13) [OF e(3)] m by simp
    then show ?thesis
      using dispatch_pops [OF run] e(2) s1(3) by (intro same_keeps [OF inv(1,3) _ e(1)]) auto
  qed
qed

lemma flag_keeps:
  assumes inv: "mutex_agrees m (s, pc)" "sched_inv A s" "contended m A (s, pc)" and "s' = s\<lparr>int_flag := b\<rparr>"
  shows "sys_inv m (s', pc)"
  using assms by (intro same_keeps [OF inv(1,3), of _ A]) auto

lemma sys_invE:
  assumes "sys_inv m (s, pc)"
  obtains A where "mutex_agrees m (s, pc)" "sched_inv A s" "contended m A (s, pc)"
  using assms unfolding sys_inv_def by auto

lemma loop_result_keeps:
  assumes "sys_inv m (s, pc)" and "\<And>A. sched_inv A s \<Longrightarrow> loop_result m A s x"
  shows "x = Inr ((), s') \<Longrightarrow> sys_inv m (s', pc(g_current s := Inside))"
    and "x = Inl s' \<Longrightarrow> pc (g_current s) \<noteq> Inside \<Longrightarrow> sys_inv m (s', pc(g_current s := Acquiring))"
proof -
  from assms(1) obtain A where inv: "mutex_agrees m (s, pc)" "sched_inv A s" "contended m A (s, pc)"
    by (rule sys_invE)
  have r: "loop_result m A s x" by (rule assms(2) [OF inv(2)])
  show "sys_inv m (s', pc(g_current s := Inside))" if "x = Inr ((), s')"
    using r that by (intro acquire_keeps [OF inv]) (simp add: loop_result_def)
  show "sys_inv m (s', pc(g_current s := Acquiring))" if "x = Inl s'" "pc (g_current s) \<noteq> Inside"
    using r that by (intro park_keeps [OF inv]) (simp_all add: loop_result_def)
qed

lemma sys_step_inv:
  assumes "sys_step m c x y" and "sys_inv m x"
  shows "sys_inv m y"
  using assms
proof (induction rule: sys_step.induct)
  case (Lock pc s s')
  from loop_result_keeps(1) [OF Lock(3) mutex_lock_result [OF _ Lock(2)] refl] show ?case .
next
  case (Lock_park pc s s')
  from loop_result_keeps(2) [OF Lock_park(3) mutex_lock_result [OF _ Lock_park(2)] refl] Lock_park(1) show ?case by simp
next
  case (Relock pc s s')
  from loop_result_keeps(1) [OF Relock(3) mutex_lock_resume_result [OF _ Relock(2)] refl] show ?case .
next
  case (Relock_park pc s s')
  have "pc(g_current s := Acquiring) = pc" using Relock_park(1) by auto
  with loop_result_keeps(2) [OF Relock_park(3) mutex_lock_resume_result [OF _ Relock_park(2)] refl] Relock_park(1)
  show ?case by simp
next
  case (Unlock pc s s')
  then show ?case by (elim sys_invE) (rule unlock_keeps)
next
  case (Cond_wait pc s s')
  then show ?case by (elim sys_invE) (rule cond_wait_keeps)
next
  case (Cond_lock pc s s')
  from loop_result_keeps(1) [OF Cond_lock(3) cond_wait_resume_result [OF _ Cond_lock(2)] refl] show ?case .
next
  case (Cond_park pc s s')
  from loop_result_keeps(2) [OF Cond_park(3) cond_wait_resume_result [OF _ Cond_park(2)] refl] Cond_park(1) show ?case by simp
next
  case (Signal pc s s')
  then show ?case by (elim sys_invE) (rule signal_keeps)
next
  case (Broadcast pc s s')
  then show ?case by (elim sys_invE) (rule broadcast_keeps)
next
  case (Yield pc s b s')
  then show ?case by (elim sys_invE) (rule yield_keeps)
next
  case (Ints_on pc s s')
  have "s' = s\<lparr>int_flag := True\<rparr>"
    using Ints_on(2) by (auto simp: int_enable_def kassert_def split: if_splits)
  with Ints_on(3) show ?case by (elim sys_invE) (rule flag_keeps)
next
  case (Ints_off pc s s')
  have "s' = s\<lparr>int_flag := False\<rparr>"
    using Ints_off(2) by (auto simp: int_disable_def kassert_def split: if_splits)
  with Ints_off(3) show ?case by (elim sys_invE) (rule flag_keeps)
next
  case (Wait pc s q s')
  have q: "wait_queue q" "q \<noteq> MutexWaitQ m" using Wait(2) by (simp_all add: foreign_def)
  have "pc (g_current s) \<noteq> Acquiring" using Wait(1) by auto
  with Wait(4) show ?case by (elim sys_invE) (rule wait_keeps [OF _ _ _ Wait(3) q])
next
  case (Wakeup pc s q s')
  have q: "wait_queue q" "q \<noteq> MutexWaitQ m" using Wakeup(2) by (simp_all add: foreign_def)
  from Wakeup(5) show ?case by (elim sys_invE) (rule wakeup_keeps [OF _ _ _ Wakeup(4) q Wakeup(3)])
next
  case (Exit pc s th code s')
  have "pc (g_current s) \<noteq> Acquiring" using Exit(1) by auto
  with Exit(6) show ?case by (elim sys_invE) (rule exit_keeps [OF _ _ _ Exit(2-5)])
next
  case (Tick s s' pc)
  then show ?case by (elim sys_invE) (rule timer_keeps)
qed

lemma sys_reach_inv: "sys_reach m c x y \<Longrightarrow> sys_inv m x \<Longrightarrow> sys_inv m y"
  by (induction rule: sys_reach.induct) (auto intro: sys_step_inv)

text \<open>At most one thread is inside, whatever the interleaving.\<close>

lemma reach_exclusive:
  assumes "sys_reach m c x (s, pc)" and "sys_inv m x" and "pc t = Inside" and "pc u = Inside"
  shows "t = u"
proof -
  have "mutex_agrees m (s, pc)" using sys_reach_inv [OF assms(1,2)] by (simp add: sys_inv_def)
  then show ?thesis using assms(3,4) by (auto simp: mutex_agrees_def)
qed

lemma reach_owner:
  assumes "sys_reach m c x (s, pc)" and "sys_inv m x" and "pc t = Inside"
  shows "m_state (mutexes s m) = MUTEX_LOCKED \<and> m_owner (mutexes s m) = t"
proof -
  have "mutex_agrees m (s, pc)" using sys_reach_inv [OF assms(1,2)] by (simp add: sys_inv_def)
  then show ?thesis using assms(3) by (auto simp: mutex_agrees_def)
qed

text \<open>The invariant holds when nobody has used the mutex.\<close>

lemma sys_inv_fresh:
  assumes "sched_inv A s" and "m_state (mutexes s m) = MUTEX_UNLOCKED" and "A (MutexWaitQ m) = []"
  shows "sys_inv m (s, \<lambda>_. Outside)"
  using assms by (intro sys_invI [where A = A]) (auto simp: mutex_agrees_def contended_def)

text \<open>No wakeup is lost: a free mutex with waiting threads has a contender that can run.\<close>

lemma reach_no_lost_wakeup:
  assumes "sys_reach m c x (s, pc)" and "sys_inv m x" and "m_state (mutexes s m) = MUTEX_UNLOCKED"
  shows "\<exists>A. lists_rep (tqs s) A \<and> (\<forall>t \<in> set (A (MutexWaitQ m)). pc t = Acquiring)
    \<and> (A (MutexWaitQ m) \<noteq> [] \<longrightarrow> (\<exists>t. pc t = Acquiring \<and> (t = g_current s \<or> t \<in> set (A RunQ))))"
proof -
  obtain A where "sched_inv A s" "contended m A (s, pc)"
    using sys_reach_inv [OF assms(1,2)] by (rule sys_invE)
  then have "lists_rep (tqs s) A" "contended m A (s, pc)" using queues_invD(1) [OF sched_invD(1)] by auto
  then show ?thesis using assms(3) unfolding contended_def by (intro exI [of _ A]) auto
qed

section \<open>Runs\<close>

text \<open>Steps that can always be taken: they extend a run.\<close>

lemma run_ints_on:
  assumes "sys_reach m c x (s, pc)" and "pc (g_current s) \<in> {Outside, Inside}"
  shows "sys_reach m c x (s\<lparr>int_flag := True\<rparr>, pc)"
proof (cases "int_flag s")
  case True
  then have "s\<lparr>int_flag := True\<rparr> = s" by simp
  then show ?thesis using assms(1) by (simp only:)
next
  case False
  then have "int_enable s = Some (s\<lparr>int_flag := True\<rparr>)" by (simp add: int_enable_def int_enabled_def halt_simps)
  then show ?thesis using assms sys_step.Ints_on [where pc = pc and s = s] sys_reach.step by blast
qed

lemma run_parks:
  assumes r: "sys_reach m c x (s, pc)" and inv: "sched_inv A s" and out: "pc (g_current s) = Outside"
    and l: "m_state (mutexes s m) = MUTEX_LOCKED" "m_owner (mutexes s m) \<noteq> g_current s" and run: "A RunQ = n # rs"
  shows "\<exists>s'. sys_reach m c x (s', pc(g_current s := Acquiring)) \<and> g_current s' = n \<and> mutexes s' = mutexes s
    \<and> sched_inv (A(MutexWaitQ m := A (MutexWaitQ m) @ [g_current s], RunQ := rs)) s'"
proof -
  let ?s = "s\<lparr>int_flag := True\<rparr>"
  have r1: "sys_reach m c x (?s, pc)" by (rule run_ints_on [OF r]) (simp add: out)
  have i: "sched_inv A ?s" "int_flag ?s" "m_state (mutexes ?s m) = MUTEX_LOCKED" "m_owner (mutexes ?s m) \<noteq> g_current ?s"
    using inv l by simp_all
  obtain s' where s': "mutex_lock m ?s = Some (Inl s')" "g_current s' = n" "mutexes s' = mutexes ?s"
    "sched_inv (A(MutexWaitQ m := A (MutexWaitQ m) @ [g_current ?s], RunQ := rs)) s'"
    using mutex_lock_waits [OF i run] by blast
  have "pc (g_current ?s) = Outside" using out by simp
  from sys_reach.step [OF r1 sys_step.Lock_park [where pc = pc and s = ?s, OF this s'(1)]] s'(2-4) show ?thesis by auto
qed

text \<open>
  Two threads wait for a mutex that a third one, which was preempted by a yield, releases: the mutex is free,
  one of the two is still in its queue.
\<close>

lemma run_leaves_a_waiter:
  assumes inv: "sched_inv ((\<lambda>_. [])(RunQ := [t, u])) s" and sc: "g_scheduler s = FCFS"
    and free: "m_state (mutexes s m) = MUTEX_UNLOCKED" and ne: "t \<noteq> g_current s" "u \<noteq> g_current s" "t \<noteq> u"
  shows "\<exists>s' pc. sys_reach m c (s, \<lambda>_. Outside) (s', pc) \<and> m_state (mutexes s' m) = MUTEX_UNLOCKED
    \<and> sched_inv ((\<lambda>_. [])(MutexWaitQ m := [u], RunQ := [t])) s' \<and> g_current s' = g_current s \<and> pc t = Acquiring \<and> pc u = Acquiring"
proof -
  let ?x = "(s, \<lambda>_. Outside)" and ?a = "g_current s" and ?A = "(\<lambda>_. [])(RunQ := [t, u]) :: qid \<Rightarrow> nat list"
  let ?s0 = "s\<lparr>int_flag := True\<rparr>" and ?p1 = "(\<lambda>_. Outside)(g_current s := Inside)"
  let ?s1 = "set_mutex m MUTEX_LOCKED ?a (?s0\<lparr>g_preemption := True\<rparr>)"
  have r0: "sys_reach m c ?x (?s0, \<lambda>_. Outside)" by (rule run_ints_on [OF sys_reach.start]) simp
  have "mutex_lock m ?s0 = Some (Inr ((), ?s1))" using mutex_lock_free [of ?s0 m] free by simp
  then have "sys_step m c (?s0, \<lambda>_. Outside) (?s1, ?p1)" using sys_step.Lock [of "\<lambda>_. Outside" ?s0 m ?s1 c] by simp
  with r0 have r1: "sys_reach m c ?x (?s1, ?p1)" by (rule sys_reach.step)
  have i1: "sched_inv ?A ?s1" "g_current ?s1 = ?a" "g_scheduler ?s1 = FCFS" using inv sc by simp_all
  have run1: "sched_insert (g_scheduler ?s1) (prio ?s1) (g_current ?s1) (?A RunQ) = t # [u, ?a]"
    using i1(2,3) by (simp add: sched_insert_def)
  obtain s2 where s2: "thread_yield ?s1 = Some (int_flag ?s1, s2)" "sched_inv (?A(RunQ := [u, ?a])) s2" "g_current s2 = t" "rest s2 = rest ?s1"
    using yield_ok [OF i1(1) run1] by blast
  have "?p1 (g_current ?s1) \<in> {Outside, Inside}" by simp
  from sys_reach.step [OF r1 sys_step.Yield [where pc = ?p1 and s = ?s1, OF this s2(1)]] have r2: "sys_reach m c ?x (s2, ?p1)" .
  have m2: "mutexes s2 m = \<lparr>m_state = MUTEX_LOCKED, m_owner = ?a\<rparr>" using rest_sel(13) [OF s2(4)] by (simp add: set_mutex_def)
  obtain s3 where s3: "sys_reach m c ?x (s3, ?p1(t := Acquiring))" "g_current s3 = u" "mutexes s3 = mutexes s2"
    "sched_inv ((?A(RunQ := [u, ?a]))(MutexWaitQ m := [t], RunQ := [?a])) s3"
    using run_parks [OF r2 s2(2), of u "[?a]"] m2 s2(3) ne by auto
  obtain s4 where s4: "sys_reach m c ?x (s4, ?p1(t := Acquiring, u := Acquiring))" "g_current s4 = ?a" "mutexes s4 = mutexes s2"
    "sched_inv ((?A(RunQ := [u, ?a]))(MutexWaitQ m := [t], RunQ := [?a], MutexWaitQ m := [t, u], RunQ := [])) s4"
    using run_parks [OF s3(1,4), of ?a "[]"] m2 s3(2,3) ne by auto
  let ?p4 = "?p1(t := Acquiring, u := Acquiring)" and ?s5 = "s4\<lparr>int_flag := True\<rparr>"
  let ?B = "(?A(RunQ := [u, ?a]))(MutexWaitQ m := [t], RunQ := [?a], MutexWaitQ m := [t, u], RunQ := [])"
  have in4: "?p4 (g_current s4) = Inside" unfolding s4(2) using ne by auto
  have r5: "sys_reach m c ?x (?s5, ?p4)" by (rule run_ints_on [OF s4(1)]) (unfold in4, simp)
  have i5: "sched_inv ?B ?s5" "int_flag ?s5" "MUTEX_IS_HELD m ?s5"
    using s4(2-4) m2 by (simp_all add: MUTEX_IS_HELD_def)
  obtain s6 where s6: "mutex_unlock m ?s5 = Some s6" "g_current s6 = g_current ?s5"
    "mutexes s6 = (mutexes ?s5)(m := \<lparr>m_state = MUTEX_UNLOCKED, m_owner = 0\<rparr>)"
    "sched_inv (after_unlock m (g_scheduler ?s5) (prio ?s5) ?B) s6"
    using mutex_unlock_ok [OF i5] by blast
  have in5: "?p4 (g_current ?s5) = Inside" using in4 by simp
  from sys_reach.step [OF r5 sys_step.Unlock [where pc = ?p4 and s = ?s5, OF in5 s6(1)]]
  have r6: "sys_reach m c ?x (s6, ?p4(g_current ?s5 := Outside))" .
  have "after_unlock m (g_scheduler ?s5) (prio ?s5) ?B = (\<lambda>_. [])(MutexWaitQ m := [u], RunQ := [t])"
    by (auto simp: after_unlock_def fun_eq_iff sched_insert_def ins_at_priority_def ins_behind_def)
  with s6(2-4) r6 s4(2) ne show ?thesis by (intro exI [of _ s6] exI [of _ "?p4(g_current ?s5 := Outside)"]) simp
qed

end
