(* ===== verification/X86_Cpu.thy ===== *)
theory X86_Cpu imports Kernel_Prelude begin

text \<open>
  The processor's tables (\<open>src/x86/kernel/x86_cpu.c\<close>, \<open>include/x86/arch/cpu.h\<close>): segment
  descriptors and the GDT, interrupt gates, the task state segment and CPUID.  What the processor
  reads out of a descriptor or a gate is written down as the specification; the instructions
  that load registers, \<open>cpuid\<close> and the writable bits of \<open>eflags\<close> are parameters.
\<close>

section \<open>Constants\<close>

definition SEG_PAGE_GRANULARITY :: u32 where "SEG_PAGE_GRANULARITY = push_bit 23 1"
definition SEG_PRESENT :: u32 where "SEG_PRESENT = push_bit 15 1"
definition SEG_CODE_OR_DATA :: u32 where "SEG_CODE_OR_DATA = push_bit 12 1"
definition SEG_DB :: u32 where "SEG_DB = push_bit 22 1"
definition SEG_TYPE_CODE :: u32 where "SEG_TYPE_CODE = push_bit 8 0xA"
definition SEG_TYPE_DATA :: u32 where "SEG_TYPE_DATA = push_bit 8 0x2"
definition SEG_TYPE_TSS :: u32 where "SEG_TYPE_TSS = push_bit 8 0x9"
definition GDT_LEN :: nat where "GDT_LEN = 4"
definition PRIV_KERN :: int where "PRIV_KERN = 0"
definition PRIV_USER :: int where "PRIV_USER = 3"
definition SEL_GDT :: u16 where "SEL_GDT = 0"
definition SEL_LDT :: u16 where "SEL_LDT = push_bit 2 1"

definition SELECTOR :: "u16 \<Rightarrow> u16 \<Rightarrow> u16 \<Rightarrow> u16" where
  "SELECTOR index table rpl = push_bit 3 (index AND 0x1FFF) OR table OR (rpl AND 3)"

definition KERN_CS :: u16 where "KERN_CS = SELECTOR 1 SEL_GDT 0"
definition KERN_DS :: u16 where "KERN_DS = SELECTOR 2 SEL_GDT 0"
definition EFLAGS_IF :: u32 where "EFLAGS_IF = push_bit 9 1"
definition EFLAGS_CPUID_SUPPORTED :: u32 where "EFLAGS_CPUID_SUPPORTED = push_bit 21 1"

lemmas seg_consts = SEG_PAGE_GRANULARITY_def SEG_PRESENT_def SEG_CODE_OR_DATA_def SEG_DB_def
  SEG_TYPE_CODE_def SEG_TYPE_DATA_def SEG_TYPE_TSS_def

section \<open>The task state segment\<close>

record x86_tss =
  tss_link :: u16
  tss_reserved1 :: u16
  tss_esp0 :: u32
  tss_ss0 :: u16
  tss_reserved2 :: u16
  tss_esp1 :: u32
  tss_ss1 :: u16
  tss_reserved3 :: u16
  tss_esp2 :: u32
  tss_ss2 :: u16
  tss_reserved4 :: u16
  tss_cr3 :: u32
  tss_eip :: u32
  tss_eflags :: u32
  tss_eax :: u32
  tss_ecx :: u32
  tss_edx :: u32
  tss_ebx :: u32
  tss_esp :: u32
  tss_ebp :: u32
  tss_esi :: u32
  tss_edi :: u32
  tss_es :: u16
  tss_reserved5 :: u16
  tss_cs :: u16
  tss_reserved6 :: u16
  tss_ss :: u16
  tss_reserved7 :: u16
  tss_ds :: u16
  tss_reserved8 :: u16
  tss_fs :: u16
  tss_reserved9 :: u16
  tss_gs :: u16
  tss_reserved10 :: u16
  tss_ldt :: u16
  tss_reserved11 :: u16
  tss_debug_trap :: "1 word"
  tss_reserved12 :: "15 word"
  tss_io_map_base :: u16

text \<open>The fields in memory order, low bits first; every field is naturally aligned.\<close>

definition tss_bits :: "x86_tss \<Rightarrow> bool list" where
  "tss_bits t = (let u16 = (\<lambda>w :: u16. map (bit w) [0..<16]); u32 = (\<lambda>w :: u32. map (bit w) [0..<32]) in
     u16 (tss_link t) @ u16 (tss_reserved1 t) @ u32 (tss_esp0 t) @ u16 (tss_ss0 t) @ u16 (tss_reserved2 t)
     @ u32 (tss_esp1 t) @ u16 (tss_ss1 t) @ u16 (tss_reserved3 t) @ u32 (tss_esp2 t) @ u16 (tss_ss2 t)
     @ u16 (tss_reserved4 t) @ u32 (tss_cr3 t) @ u32 (tss_eip t) @ u32 (tss_eflags t) @ u32 (tss_eax t)
     @ u32 (tss_ecx t) @ u32 (tss_edx t) @ u32 (tss_ebx t) @ u32 (tss_esp t) @ u32 (tss_ebp t)
     @ u32 (tss_esi t) @ u32 (tss_edi t) @ u16 (tss_es t) @ u16 (tss_reserved5 t) @ u16 (tss_cs t)
     @ u16 (tss_reserved6 t) @ u16 (tss_ss t) @ u16 (tss_reserved7 t) @ u16 (tss_ds t) @ u16 (tss_reserved8 t)
     @ u16 (tss_fs t) @ u16 (tss_reserved9 t) @ u16 (tss_gs t) @ u16 (tss_reserved10 t) @ u16 (tss_ldt t)
     @ u16 (tss_reserved11 t) @ [bit (tss_debug_trap t) 0] @ map (bit (tss_reserved12 t)) [0..<15]
     @ u16 (tss_io_map_base t))"

abbreviation sizeof_tss :: nat where "sizeof_tss \<equiv> 104"

lemma length_tss_bits: "length (tss_bits t) = 8 * sizeof_tss"
  by (simp add: tss_bits_def Let_def)

section \<open>Segment descriptors\<close>

record x86_segment_descriptor =
  word0 :: u32
  word1 :: u32

definition x86_seg_init_base_and_limit ::
  "u32 \<Rightarrow> u32 \<Rightarrow> bool \<Rightarrow> x86_segment_descriptor \<Rightarrow> x86_segment_descriptor"
where
  "x86_seg_init_base_and_limit base limit is_pages desc = (
     let desc = desc\<lparr>word0 := word0 desc OR (limit AND 0xFFFF)\<rparr>;
         desc = desc\<lparr>word1 := word1 desc OR (limit AND 0xF0000)\<rparr>;
         desc = desc\<lparr>word0 := word0 desc OR push_bit 16 (base AND 0xFFFF)\<rparr>;
         desc = desc\<lparr>word1 := word1 desc OR (drop_bit 16 base AND 0xFF)\<rparr>;
         desc = desc\<lparr>word1 := word1 desc OR (base AND 0xFF000000)\<rparr>
     in desc\<lparr>word1 := word1 desc OR (if is_pages then SEG_PAGE_GRANULARITY else 0)\<rparr>)"

definition x86_seg_init_code ::
  "u32 \<Rightarrow> u32 \<Rightarrow> int \<Rightarrow> x86_segment_descriptor \<Rightarrow> x86_segment_descriptor option"
where
  "x86_seg_init_code base num_pages priv desc = do {
     kassert (priv \<ge> 0 \<and> priv \<le> 3);
     let desc = x86_seg_init_base_and_limit base (num_pages - 1) True desc;
     let desc = desc\<lparr>word1 := word1 desc OR (SEG_TYPE_CODE OR SEG_CODE_OR_DATA OR SEG_PRESENT OR SEG_DB)\<rparr>;
     Some (desc\<lparr>word1 := word1 desc OR push_bit 13 (word_of_int priv AND 0x3)\<rparr>)
   }"

definition x86_seg_init_data ::
  "u32 \<Rightarrow> u32 \<Rightarrow> int \<Rightarrow> x86_segment_descriptor \<Rightarrow> x86_segment_descriptor option"
where
  "x86_seg_init_data base num_pages priv desc = do {
     kassert (priv \<ge> 0 \<and> priv \<le> 3);
     let desc = x86_seg_init_base_and_limit base (num_pages - 1) True desc;
     let desc = desc\<lparr>word1 := word1 desc OR (SEG_TYPE_DATA OR SEG_CODE_OR_DATA OR SEG_PRESENT OR SEG_DB)\<rparr>;
     Some (desc\<lparr>word1 := word1 desc OR push_bit 13 (word_of_int priv AND 0x3)\<rparr>)
   }"

definition x86_seg_init_tss :: "u32 \<Rightarrow> x86_segment_descriptor \<Rightarrow> x86_segment_descriptor" where
  "x86_seg_init_tss tss desc = (
     let desc = x86_seg_init_base_and_limit tss (of_nat sizeof_tss) False desc
     in desc\<lparr>word1 := word1 desc OR (SEG_TYPE_TSS OR SEG_PRESENT)\<rparr>)"

text \<open>
  The registers that \<open>x86_load_gdtr\<close> (\<open>x86_cpu_asm.S\<close>) loads: the table register from the three halfwords that
  its argument points to, and the segment registers with the selectors of the kernel's segments.
\<close>

record seg_registers =
  gdtr :: "u16 list"
  sr_cs :: u16
  sr_ds :: u16
  sr_es :: u16
  sr_fs :: u16
  sr_gs :: u16
  sr_ss :: u16

definition x86_load_gdtr :: "u16 list \<Rightarrow> seg_registers" where
  "x86_load_gdtr limit_and_base = \<lparr>gdtr = limit_and_base, sr_cs = KERN_CS, sr_ds = KERN_DS, sr_es = KERN_DS, sr_fs = KERN_DS,
     sr_gs = KERN_DS, sr_ss = KERN_DS\<rparr>"

abbreviation sizeof_segment_descriptor :: nat where "sizeof_segment_descriptor \<equiv> 8"

text \<open>The GDT at \<open>s_gdt_at\<close> and the registers; \<open>s_tss_at\<close> is the address of the task state segment.\<close>

definition x86_seg_init_gdt :: "u32 \<Rightarrow> u32 \<Rightarrow> (x86_segment_descriptor list \<times> seg_registers) option" where
  "x86_seg_init_gdt s_gdt_at s_tss_at = do {
     kassert (sizeof_segment_descriptor = 8);
     let s_gdt = replicate GDT_LEN \<lparr>word0 = 0, word1 = 0\<rparr>;
     d1 \<leftarrow> x86_seg_init_code 0 1048576 PRIV_KERN (s_gdt ! 1);
     let s_gdt = s_gdt[1 := d1];
     d2 \<leftarrow> x86_seg_init_data 0 1048576 PRIV_KERN (s_gdt ! 2);
     let s_gdt = s_gdt[2 := d2];
     let s_gdt = s_gdt[3 := x86_seg_init_tss s_tss_at (s_gdt ! 3)];
     let limit_and_base = [of_nat (sizeof_segment_descriptor * GDT_LEN), ucast (s_gdt_at AND 0xFFFF), ucast (drop_bit 16 s_gdt_at)];
     Some (s_gdt, x86_load_gdtr limit_and_base)
   }"

text \<open>What the processor reads out of a descriptor, and the last byte of a segment.\<close>

definition seg_base :: "x86_segment_descriptor \<Rightarrow> u32" where
  "seg_base d = drop_bit 16 (word0 d) OR push_bit 16 (word1 d AND 0xFF) OR (word1 d AND 0xFF000000)"

definition seg_limit :: "x86_segment_descriptor \<Rightarrow> u32" where
  "seg_limit d = (word0 d AND 0xFFFF) OR (word1 d AND 0xF0000)"

definition seg_last :: "x86_segment_descriptor \<Rightarrow> u32" where
  "seg_last d = (if bit (word1 d) 23 then push_bit 12 (seg_limit d) OR 0xFFF else seg_limit d)"

definition seg_kind :: "x86_segment_descriptor \<Rightarrow> u32" where
  "seg_kind d = drop_bit 8 (word1 d) AND 0x1F"

definition seg_dpl :: "x86_segment_descriptor \<Rightarrow> u32" where
  "seg_dpl d = drop_bit 13 (word1 d) AND 3"

definition seg_present :: "x86_segment_descriptor \<Rightarrow> bool" where
  "seg_present d = bit (word1 d) 15"

lemmas seg_decode = seg_base_def seg_limit_def seg_kind_def seg_dpl_def seg_present_def

section \<open>Interrupt gates\<close>

record x86_interrupt_gate =
  offset_low :: u16
  segment_selector :: u16
  gate_reserved :: "5 word"
  signature :: u8
  gate_dpl :: "2 word"
  present :: "1 word"
  offset_high :: u16

definition x86_init_int_gate :: "u32 \<Rightarrow> int \<Rightarrow> x86_interrupt_gate" where
  "x86_init_int_gate addr dpl = \<lparr>
     offset_low = ucast (addr AND 0xFFFF),
     segment_selector = KERN_CS,
     gate_reserved = 0,
     signature = 0x70,
     gate_dpl = word_of_int dpl,
     present = 1,
     offset_high = ucast (drop_bit 16 addr)\<rparr>"

text \<open>The two words of a gate, bit fields from the low end, and what the processor reads there.\<close>

definition gate_word0 :: "x86_interrupt_gate \<Rightarrow> u32" where
  "gate_word0 g = ucast (offset_low g) OR push_bit 16 (ucast (segment_selector g))"

definition gate_word1 :: "x86_interrupt_gate \<Rightarrow> u32" where
  "gate_word1 g = ucast (gate_reserved g) OR push_bit 5 (ucast (signature g)) OR push_bit 13 (ucast (gate_dpl g))
     OR push_bit 15 (ucast (present g)) OR push_bit 16 (ucast (offset_high g))"

definition gate_offset :: "u32 \<Rightarrow> u32 \<Rightarrow> u32" where
  "gate_offset w0 w1 = (w0 AND 0xFFFF) OR (w1 AND 0xFFFF0000)"

definition gate_selector :: "u32 \<Rightarrow> u16" where "gate_selector w0 = ucast (drop_bit 16 w0)"

definition gate_kind :: "u32 \<Rightarrow> u32" where "gate_kind w1 = drop_bit 8 w1 AND 0x1F"

definition gate_priv :: "u32 \<Rightarrow> u32" where "gate_priv w1 = drop_bit 13 w1 AND 3"

definition INTERRUPT_GATE_32 :: u32 where "INTERRUPT_GATE_32 = 0xE"

section \<open>CPUID\<close>

text \<open>The words of \<open>struct x86_cpuid_info\<close> and the bit fields laid over them, low end first.\<close>

record x86_cpuid_info =
  vendor_id :: "u8 list"
  proc_sig :: u32
  feature_info_edx :: u32
  feature_info_ecx :: u32

definition proc_sig_fields :: "(string \<times> nat) list" where
  "proc_sig_fields = [(''stepping_id'', 4), (''model_number'', 4), (''family_code'', 4), (''type'', 2),
     (''unused1'', 2), (''extended_model'', 4), (''extended_family'', 8), (''unused2'', 4)]"

definition feature_edx_fields :: "(string \<times> nat) list" where
  "feature_edx_fields = map (\<lambda>n. (n, 1)) [''fpu'', ''vme'', ''de'', ''pse'', ''tsc'', ''msr'', ''pae'', ''mce'',
     ''cx8'', ''apic'', ''reserved1'', ''sep'', ''mtrr'', ''pge'', ''mca'', ''cmov'', ''pat'', ''pse36'', ''psn'',
     ''clfsh'', ''reserved2'', ''ds'', ''acpi'', ''mmx'', ''fxsr'', ''sse'', ''sse2'', ''ss'', ''htt'', ''tm'',
     ''ia64'', ''pbe'']"

definition feature_ecx_fields :: "(string \<times> nat) list" where
  "feature_ecx_fields = [(''sse3'', 1), (''reserved1'', 1), (''dtes64'', 1), (''monitor'', 1), (''ds_cpl'', 1),
     (''vmx'', 1), (''smx'', 1), (''est'', 1), (''tm2'', 1), (''ssse3'', 1), (''cnxt_id'', 1), (''reserved2'', 2),
     (''cx16'', 1), (''xtpr'', 1), (''pdcm'', 1), (''reserved3'', 2), (''dca'', 1), (''sse4_1'', 1), (''sse4_2'', 1),
     (''reserved4'', 11)]"

text \<open>Reading a bit field.\<close>

fun bit_field :: "(string \<times> nat) list \<Rightarrow> string \<Rightarrow> u32 \<Rightarrow> u32 option" where
  "bit_field [] f w = None"
| "bit_field ((g, n) # fs) f w = (if g = f then Some (take_bit n w) else bit_field fs f (drop_bit n w))"

definition bytes_of :: "u32 \<Rightarrow> u8 list" where
  "bytes_of w = map (\<lambda>i. ucast (drop_bit (8 * i) w)) [0..<4]"

text \<open>\<open>set_eflags old new\<close> is what the register holds when \<open>new\<close> has been written over \<open>old\<close>.
  The result is the register at the end, and the information or \<open>None\<close> for the result false.\<close>

definition x86_cpuid ::
  "(u32 \<Rightarrow> u32 \<Rightarrow> u32) \<Rightarrow> (u32 \<Rightarrow> u32 \<times> u32 \<times> u32 \<times> u32) \<Rightarrow> u32 \<Rightarrow> (u32 \<times> x86_cpuid_info option) option"
where
  "x86_cpuid set_eflags cpuid eflags_orig = do {
     let eflags = eflags_orig XOR EFLAGS_CPUID_SUPPORTED;
     kassert (eflags_orig \<noteq> eflags);
     let eflags = set_eflags eflags_orig eflags;
     if eflags_orig = eflags then Some (eflags, None)
     else do {
       let (eax, ebx, ecx, edx) = cpuid 0;
       let vendor = bytes_of ebx @ bytes_of edx @ bytes_of ecx;
       let (eax, ebx, ecx, edx) = cpuid 1;
       Some (eflags, Some \<lparr>vendor_id = vendor, proc_sig = eax, feature_info_edx = edx, feature_info_ecx = ecx\<rparr>)
     }
   }"

section \<open>Lemmas\<close>

lemma upt_32: "[0..<32] = [0, 1, 2, 3, 4, 5, 6, 7, 8, 9, 10, 11, 12, 13, 14, 15, 16, 17, 18, 19, 20, 21, 22, 23, 24,
    25, 26, 27, 28, 29, 30, 31]"
  by code_simp

lemma word_eq_32: "v = w \<longleftrightarrow> list_all (\<lambda>n. bit v n = bit w n) [0, 1, 2, 3, 4, 5, 6, 7, 8, 9, 10, 11, 12, 13, 14,
    15, 16, 17, 18, 19, 20, 21, 22, 23, 24, 25, 26, 27, 28, 29, 30, 31]" for v w :: u32
  unfolding upt_32 [symmetric] by (auto simp: list_all_iff intro: bit_word_eqI)

lemmas by_bits = word_eq_32 list.pred_inject

text \<open>A descriptor that was zero decodes to the base and the limit that were put in.\<close>

lemma base_and_limit_decode:
  assumes "d = x86_seg_init_base_and_limit base limit pages \<lparr>word0 = 0, word1 = 0\<rparr>"
  shows "seg_base d = base" and "seg_limit d = limit AND 0xFFFFF"
  unfolding by_bits
  by (simp_all add: assms x86_seg_init_base_and_limit_def seg_decode Let_def seg_consts bit_simps)

text \<open>Adding the bits of type and privilege does not disturb them.\<close>

definition seg_decodes :: "u32 \<Rightarrow> u32 \<Rightarrow> u32 \<Rightarrow> u32 \<Rightarrow> x86_segment_descriptor \<Rightarrow> bool" where
  "seg_decodes base limit knd priv d \<longleftrightarrow> seg_base d = base \<and> seg_limit d = limit \<and> seg_kind d = knd
     \<and> seg_dpl d = priv \<and> seg_present d"

lemma or_kind_decode:
  assumes "d = x86_seg_init_base_and_limit base limit pages \<lparr>word0 = 0, word1 = 0\<rparr>"
  shows "seg_base (d\<lparr>word1 := word1 d OR push_bit 8 (knd AND 0x1F) OR SEG_PRESENT OR SEG_DB OR push_bit 13 (priv AND 3)\<rparr>) = base"
    and "seg_limit (d\<lparr>word1 := word1 d OR push_bit 8 (knd AND 0x1F) OR SEG_PRESENT OR SEG_DB OR push_bit 13 (priv AND 3)\<rparr>)
      = limit AND 0xFFFFF"
    and "seg_kind (d\<lparr>word1 := word1 d OR push_bit 8 (knd AND 0x1F) OR SEG_PRESENT OR SEG_DB OR push_bit 13 (priv AND 3)\<rparr>)
      = knd AND 0x1F"
    and "seg_dpl (d\<lparr>word1 := word1 d OR push_bit 8 (knd AND 0x1F) OR SEG_PRESENT OR SEG_DB OR push_bit 13 (priv AND 3)\<rparr>)
      = priv AND 3"
    and "seg_present (d\<lparr>word1 := word1 d OR push_bit 8 (knd AND 0x1F) OR SEG_PRESENT OR SEG_DB OR push_bit 13 (priv AND 3)\<rparr>)"
    and "bit (word1 (d\<lparr>word1 := word1 d OR push_bit 8 (knd AND 0x1F) OR SEG_PRESENT OR SEG_DB OR push_bit 13 (priv AND 3)\<rparr>)) 23 = pages"
  unfolding by_bits
  by (simp_all add: assms x86_seg_init_base_and_limit_def seg_decode Let_def seg_consts bit_simps)

lemma low_20:
  assumes "0 < unat n" and "unat n \<le> 2 ^ 20"
  shows "(n - 1) AND 0xFFFFF = (n - 1 :: u32)"
proof -
  have "unat (n - 1) = unat n - 1" using assms(1) by (intro unat_minus_one) auto
  then have "take_bit 20 (n - 1) = n - 1"
    using assms by (simp add: word_unat_eq_iff unsigned_take_bit_eq take_bit_nat_eq_self)
  then show ?thesis by (simp add: take_bit_eq_mask mask_eq_exp_minus_1)
qed

lemma priv_bits:
  assumes "0 \<le> priv" and "priv \<le> 3"
  shows "word_of_int priv AND (3 :: u32) = word_of_int priv"
proof -
  have "priv \<in> {0, 1, 2, 3}" using assms by auto
  then show ?thesis by auto
qed

lemma seg_code_decode:
  assumes "0 < unat n" and "unat n \<le> 2 ^ 20" and "0 \<le> priv" and "priv \<le> 3"
  shows "\<exists>d. x86_seg_init_code base n priv \<lparr>word0 = 0, word1 = 0\<rparr> = Some d
    \<and> seg_decodes base (n - 1) 0x1A (word_of_int priv) d \<and> bit (word1 d) 23"
proof -
  define z where "z = x86_seg_init_base_and_limit base (n - 1) True \<lparr>word0 = 0, word1 = 0\<rparr>"
  define d where "d = z\<lparr>word1 := word1 z OR push_bit 8 (0x1A AND 0x1F) OR SEG_PRESENT OR SEG_DB OR push_bit 13 (word_of_int priv AND 3)\<rparr>"
  note D = or_kind_decode [OF z_def, of "0x1A" "word_of_int priv", folded d_def]
  have e: "SEG_TYPE_CODE OR SEG_CODE_OR_DATA = push_bit 8 (0x1A AND 0x1F)" by (simp add: seg_consts)
  have "x86_seg_init_code base n priv \<lparr>word0 = 0, word1 = 0\<rparr> = Some d"
    unfolding x86_seg_init_code_def d_def z_def Let_def or.assoc [symmetric] e using assms(3,4) by (simp add: or.assoc)
  then show ?thesis using D low_20 [OF assms(1,2)] priv_bits [OF assms(3,4)] by (simp add: seg_decodes_def)
qed

lemma seg_data_decode:
  assumes "0 < unat n" and "unat n \<le> 2 ^ 20" and "0 \<le> priv" and "priv \<le> 3"
  shows "\<exists>d. x86_seg_init_data base n priv \<lparr>word0 = 0, word1 = 0\<rparr> = Some d
    \<and> seg_decodes base (n - 1) 0x12 (word_of_int priv) d \<and> bit (word1 d) 23"
proof -
  define z where "z = x86_seg_init_base_and_limit base (n - 1) True \<lparr>word0 = 0, word1 = 0\<rparr>"
  define d where "d = z\<lparr>word1 := word1 z OR push_bit 8 (0x12 AND 0x1F) OR SEG_PRESENT OR SEG_DB OR push_bit 13 (word_of_int priv AND 3)\<rparr>"
  note D = or_kind_decode [OF z_def, of "0x12" "word_of_int priv", folded d_def]
  have e: "SEG_TYPE_DATA OR SEG_CODE_OR_DATA = push_bit 8 (0x12 AND 0x1F)" by (simp add: seg_consts)
  have "x86_seg_init_data base n priv \<lparr>word0 = 0, word1 = 0\<rparr> = Some d"
    unfolding x86_seg_init_data_def d_def z_def Let_def or.assoc [symmetric] e using assms(3,4) by (simp add: or.assoc)
  then show ?thesis using D low_20 [OF assms(1,2)] priv_bits [OF assms(3,4)] by (simp add: seg_decodes_def)
qed

lemma seg_tss_decode:
  "seg_decodes at 104 0x09 0 (x86_seg_init_tss at \<lparr>word0 = 0, word1 = 0\<rparr>)
   \<and> \<not> bit (word1 (x86_seg_init_tss at \<lparr>word0 = 0, word1 = 0\<rparr>)) 23"
  unfolding by_bits seg_decodes_def
  by (simp add: x86_seg_init_tss_def x86_seg_init_base_and_limit_def seg_decode Let_def seg_consts bit_simps)

lemma gate_decode:
  assumes "g = x86_init_int_gate addr dpl"
  shows "gate_offset (gate_word0 g) (gate_word1 g) = addr" and "gate_kind (gate_word1 g) = INTERRUPT_GATE_32"
    and "gate_selector (gate_word0 g) = KERN_CS" and "bit (gate_word1 g) 15"
    and "gate_priv (gate_word1 g) = ucast (word_of_int dpl :: 2 word)"
proof -
  show "gate_offset (gate_word0 g) (gate_word1 g) = addr" "gate_kind (gate_word1 g) = INTERRUPT_GATE_32"
    "bit (gate_word1 g) 15" "gate_priv (gate_word1 g) = ucast (word_of_int dpl :: 2 word)"
    unfolding by_bits assms
    by (simp_all add: x86_init_int_gate_def gate_offset_def gate_kind_def gate_priv_def gate_word0_def gate_word1_def INTERRUPT_GATE_32_def
        bit_simps)
  show "gate_selector (gate_word0 g) = KERN_CS"
    by (rule bit_word_eqI) (auto simp: assms gate_selector_def gate_word0_def x86_init_int_gate_def bit_simps)
qed

text \<open>
  The kernel's segments, as the processor sees them: the selector of the code register picks the code segment of
  all 4 GB and the other selectors the data segment, both with kernel privilege, and the last descriptor is the
  task state segment.
\<close>

definition flat_segments :: "u32 \<Rightarrow> u32 \<Rightarrow> x86_segment_descriptor list \<times> seg_registers \<Rightarrow> bool" where
  "flat_segments s_gdt_at s_tss_at = (\<lambda>(g, r).
     r = \<lparr>gdtr = [32, ucast (s_gdt_at AND 0xFFFF), ucast (drop_bit 16 s_gdt_at)], sr_cs = KERN_CS, sr_ds = KERN_DS, sr_es = KERN_DS,
       sr_fs = KERN_DS, sr_gs = KERN_DS, sr_ss = KERN_DS\<rparr>
     \<and> length g = 4 \<and> g ! 0 = \<lparr>word0 = 0, word1 = 0\<rparr>
     \<and> (let c = g ! unat (drop_bit 3 KERN_CS); d = g ! unat (drop_bit 3 KERN_DS) in
          seg_decodes 0 0xFFFFF 0x1A 0 c \<and> seg_last c = 0xFFFFFFFF \<and> seg_decodes 0 0xFFFFF 0x12 0 d \<and> seg_last d = 0xFFFFFFFF)
     \<and> seg_decodes s_tss_at 104 0x09 0 (g ! 3) \<and> seg_last (g ! 3) = 104)"

text \<open>The flat segments of the kernel end at the last byte of the address space.\<close>

lemma gdt_ok: "\<exists>g. x86_seg_init_gdt s_gdt_at s_tss_at = Some g \<and> flat_segments s_gdt_at s_tss_at g"
proof -
  have n: "0 < unat (1048576 :: u32)" "unat (1048576 :: u32) \<le> 2 ^ 20" by simp_all
  obtain c where c: "x86_seg_init_code 0 1048576 0 \<lparr>word0 = 0, word1 = 0\<rparr> = Some c"
    "seg_decodes 0 0xFFFFF 0x1A 0 c" "bit (word1 c) 23" using seg_code_decode [OF n, of 0 0] by auto
  obtain d where d: "x86_seg_init_data 0 1048576 0 \<lparr>word0 = 0, word1 = 0\<rparr> = Some d"
    "seg_decodes 0 0xFFFFF 0x12 0 d" "bit (word1 d) 23" using seg_data_decode [OF n, of 0 0] by auto
  define t where "t = x86_seg_init_tss s_tss_at \<lparr>word0 = 0, word1 = 0\<rparr>"
  have t: "seg_decodes s_tss_at 104 0x09 0 t" "\<not> bit (word1 t) 23" unfolding t_def using seg_tss_decode by blast+
  have l: "seg_last c = 0xFFFFFFFF" "seg_last d = 0xFFFFFFFF" "seg_last t = 104"
    using c(2,3) d(2,3) t by (simp_all add: seg_last_def seg_decodes_def)
  have sel: "unat (drop_bit 3 KERN_CS) = Suc 0" "unat (drop_bit 3 KERN_DS) = Suc (Suc 0)"
    by (simp_all add: KERN_CS_def KERN_DS_def SELECTOR_def SEL_GDT_def)
  let ?g = "([\<lparr>word0 = 0, word1 = 0\<rparr>, c, d, t], x86_load_gdtr [32, ucast (s_gdt_at AND 0xFFFF), ucast (drop_bit 16 s_gdt_at)])"
  have "x86_seg_init_gdt s_gdt_at s_tss_at = Some ?g"
    using c(1) d(1) by (simp add: x86_seg_init_gdt_def GDT_LEN_def PRIV_KERN_def halt_simps t_def eval_nat_numeral)
  moreover have "flat_segments s_gdt_at s_tss_at ?g"
    using c(2) d(2) t(1) l by (simp add: flat_segments_def x86_load_gdtr_def sel Let_def)
  ultimately show ?thesis by blast
qed

lemma bit_fields_fill_a_word:
  "sum_list (map snd proc_sig_fields) = 32" "sum_list (map snd feature_edx_fields) = 32" "sum_list (map snd feature_ecx_fields) = 32"
  by (simp_all add: proc_sig_fields_def feature_edx_fields_def feature_ecx_fields_def)

text \<open>The page size extensions that the paging code looks for are bit 3 of the word.\<close>

lemma pse_field: "bit_field feature_edx_fields ''pse'' w = Some (take_bit 1 (drop_bit 3 w))"
  by (simp add: feature_edx_fields_def numeral_3_eq_3)

lemma cpuid_flag:
  "x86_cpuid set_eflags cpuid e \<noteq> None" and
  "x86_cpuid set_eflags cpuid e = Some (e', r) \<Longrightarrow> e' = set_eflags e (e XOR EFLAGS_CPUID_SUPPORTED) \<and> (r = None \<longleftrightarrow> e' = e)"
proof -
  have "e \<noteq> e XOR EFLAGS_CPUID_SUPPORTED"
  proof
    assume "e = e XOR EFLAGS_CPUID_SUPPORTED"
    then have "bit e 21 = bit (e XOR EFLAGS_CPUID_SUPPORTED) 21" by simp
    then show False by (simp add: bit_simps EFLAGS_CPUID_SUPPORTED_def)
  qed
  then show "x86_cpuid set_eflags cpuid e \<noteq> None"
    and "x86_cpuid set_eflags cpuid e = Some (e', r) \<Longrightarrow> e' = set_eflags e (e XOR EFLAGS_CPUID_SUPPORTED) \<and> (r = None \<longleftrightarrow> e' = e)"
    by (auto simp: x86_cpuid_def Let_def split: prod.splits if_splits)
qed

end
