(* ===== verification/Memory_Map.thy ===== *)
theory Memory_Map imports Thread_End X86_Cpu begin

text \<open>
  Physical memory at boot: \<open>mem_init\<close> and its helpers in \<open>src/kernel/mem.c\<close>, and the layout of
  \<open>src/x86/kernel/x86_mem.c\<close>.  The address of the linker symbol \<open>end\<close> is a parameter.
  Addresses and sizes are numbers below \<open>2 ^ 32\<close>; every operation that can wrap is reduced.
\<close>

section \<open>Operations\<close>

record multiboot_info =
  mb_flags :: u32
  mem_lower :: u32
  mem_upper :: u32

definition HEAP_SIZE :: nat where "HEAP_SIZE = 512 * 1024"
definition ISA_HOLE_START :: nat where "ISA_HOLE_START = 0xA0000"
definition ISA_HOLE_END :: nat where "ISA_HOLE_END = 0x100000"

text \<open>\<open>sizeof(struct frame)\<close>: five words and two links.\<close>

abbreviation sizeof_frame :: nat where "sizeof_frame \<equiv> 28"

record x86mem_layout =
  kernel_end :: nat
  memsize_kb :: nat
  numframes :: nat
  framelist_numframes :: nat

definition x86mem_init_layout :: "u32 \<Rightarrow> multiboot_info \<Rightarrow> x86mem_layout" where
  "x86mem_init_layout end_sym boot_record = (
     let kb = w32 (1024 + unat (mem_upper boot_record));
         nf = kb div (PAGE_SIZE div 1024)
     in \<lparr>kernel_end = unat (mem_round_to_page end_sym), memsize_kb = kb, numframes = nf,
         framelist_numframes = unat (mem_round_to_page (of_nat (nf * sizeof_frame))) div PAGE_SIZE\<rparr>)"

text \<open>The loop of \<open>mem_set_region_state\<close>; it does not end when \<open>addr\<close> wraps around.\<close>

partial_function (option) set_region_loop :: "nat \<Rightarrow> nat \<Rightarrow> frame_state \<Rightarrow> kernel \<Rightarrow> kernel option" where
  "set_region_loop addr fin st s =
     (if addr < fin then do {
        let f = addr div PAGE_SIZE;
        let s = upd_frame f (\<lambda>fr. fr\<lparr>f_state := st\<rparr>) s;
        l \<leftarrow> (if st = FRAME_AVAIL then list_append FreeFrames f (flists s) else Some (flists s));
        set_region_loop (w32 (addr + PAGE_SIZE)) fin st (s\<lparr>flists := l\<rparr>)
      } else Some s)"

definition mem_set_region_state :: "nat \<Rightarrow> nat \<Rightarrow> frame_state \<Rightarrow> kernel \<Rightarrow> kernel option" where
  "mem_set_region_state start fin st s = do { kassert (start < fin); set_region_loop start fin st s }"

record scan_region_data =
  heap_created :: bool
  heap_size :: nat
  avail_pages :: nat

definition mem_scan_region ::
  "nat \<Rightarrow> nat \<Rightarrow> frame_state \<Rightarrow> scan_region_data \<times> kernel \<Rightarrow> (nat \<times> scan_region_data \<times> kernel) option"
where
  "mem_scan_region start fin st = (\<lambda>(d, s). do {
     (start, d, s) \<leftarrow>
       (if \<not> heap_created d \<and> st = FRAME_AVAIL \<and> w32 (fin + 2 ^ 32 - start) \<ge> HEAP_SIZE then do {
          s \<leftarrow> mem_set_region_state start (w32 (start + HEAP_SIZE)) FRAME_HEAP s;
          let s = s\<lparr>heap := mem_heap_init start (w32 (start + HEAP_SIZE)) (heap s)\<rparr>;
          Some (w32 (start + HEAP_SIZE), d\<lparr>heap_created := True, heap_size := HEAP_SIZE\<rparr>, s)
        } else Some (start, d, s));
     s \<leftarrow> mem_set_region_state start fin st s;
     Some (fin, if st = FRAME_AVAIL
                then d\<lparr>avail_pages := w32 (avail_pages d + w32 (fin + 2 ^ 32 - start) div PAGE_SIZE)\<rparr> else d, s)
   })"

definition mem_create_framelist :: "u32 \<Rightarrow> multiboot_info \<Rightarrow> kernel \<Rightarrow> nat \<times> kernel" where
  "mem_create_framelist end_sym boot_record s = (
     let layout = x86mem_init_layout end_sym boot_record;
         zero = \<lparr>f_state = FRAME_AVAIL, vm_pgcache_page_num = 0, f_refcount = 0,
                 content = PAGE_PENDING_INIT, errc = 0\<rparr>
     in (kernel_end layout, s\<lparr>frames := \<lambda>_. zero, s_numframes := numframes layout\<rparr>))"

definition mem_scan_regions ::
  "u32 \<Rightarrow> multiboot_info \<Rightarrow> scan_region_data \<times> kernel \<Rightarrow> (scan_region_data \<times> kernel) option"
where
  "mem_scan_regions end_sym boot_record d0 = (
     let layout = x86mem_init_layout end_sym boot_record in do {
       (addr, d) \<leftarrow> mem_scan_region 0 PAGE_SIZE FRAME_UNUSED d0;
       (addr, d) \<leftarrow> mem_scan_region addr ISA_HOLE_START FRAME_AVAIL d;
       (addr, d) \<leftarrow> mem_scan_region addr ISA_HOLE_END FRAME_HW d;
       (addr, d) \<leftarrow> mem_scan_region addr (ISA_HOLE_END + PAGE_SIZE) FRAME_KSTACK d;
       (addr, d) \<leftarrow> mem_scan_region addr (w32 (kernel_end layout + framelist_numframes layout)) FRAME_KERN d;
       (addr, d) \<leftarrow> mem_scan_region addr (w32 (numframes layout * PAGE_SIZE)) FRAME_AVAIL d;
       Some d
     })"

text \<open>The descriptor table and the segment registers that \<open>mem_init_segments\<close> sets up.\<close>

type_synonym segments = "x86_segment_descriptor list \<times> seg_registers"

definition mem_init_segments :: "u32 \<Rightarrow> u32 \<Rightarrow> segments option" where
  "mem_init_segments s_gdt_at s_tss_at = x86_seg_init_gdt s_gdt_at s_tss_at"

text \<open>
  \<open>mem_init\<close>: besides the kernel it yields what the kernel record does not hold, the processor's segments and the
  address of \<open>s_framelist\<close>.  The first two arguments are the addresses of \<open>s_gdt\<close> and \<open>s_tss\<close>.
\<close>

definition mem_init :: "u32 \<Rightarrow> u32 \<Rightarrow> u32 \<Rightarrow> multiboot_info \<Rightarrow> kernel \<Rightarrow> (segments \<times> nat \<times> kernel) option" where
  "mem_init s_gdt_at s_tss_at end_sym boot_record s = do {
     segs \<leftarrow> mem_init_segments s_gdt_at s_tss_at;
     let (framelist, s) = mem_create_framelist end_sym boot_record s;
     (d, s) \<leftarrow> mem_scan_regions end_sym boot_record
       (\<lparr>heap_created = False, heap_size = 0, avail_pages = 0\<rparr>, s);
     panic_if (\<not> heap_created d);
     Some (segs, framelist, s)
   }"

section \<open>The state of a region\<close>

definition frames_in :: "nat \<Rightarrow> nat \<Rightarrow> nat list" where
  "frames_in addr fin = [addr div PAGE_SIZE ..< addr div PAGE_SIZE + (fin - addr + 4095) div 4096]"

definition marked :: "nat set \<Rightarrow> frame_state \<Rightarrow> kernel \<Rightarrow> kernel \<Rightarrow> bool" where
  "marked F st s s' \<longleftrightarrow> s'\<lparr>frames := frames s, flists := flists s\<rparr> = s
     \<and> (\<forall>f. f_state (frames s' f) = (if f \<in> F then st else f_state (frames s f))
          \<and> f_refcount (frames s' f) = f_refcount (frames s f))"

lemma frames_in_step:
  assumes "addr < fin"
  shows "frames_in addr fin = (addr div PAGE_SIZE) # frames_in (addr + PAGE_SIZE) fin"
proof -
  have "(fin - addr + 4095) div 4096 = Suc ((fin - (addr + 4096) + 4095) div 4096)"
  proof (cases "addr + 4096 \<le> fin")
    case True
    then obtain d where "fin = addr + 4096 + d" using le_Suc_ex by blast
    then have "fin - addr + 4095 = (d + 4095) + 4096" "fin - (addr + 4096) = d" by simp_all
    then show ?thesis by (simp only: div_add_self2)
  next
    case False
    then have "fin - (addr + 4096) = 0" "4096 \<le> fin - addr + 4095" "fin - addr + 4095 < 2 * 4096"
      using assms by simp_all
    then show ?thesis by (simp add: div_nat_eqI)
  qed
  then have "addr div 4096 + (fin - addr + 4095) div 4096
      = (addr + 4096) div 4096 + (fin - (addr + 4096) + 4095) div 4096"
    using div_add_self2 [of 4096 addr] by linarith
  moreover have "addr div 4096 < \<dots>" by (simp add: trans_less_add1)
  ultimately show ?thesis unfolding frames_in_def PAGE_SIZE_def
    using div_add_self2 [of 4096 addr] by (simp only: upt_conv_Cons) simp
qed

lemma frames_in_empty: "\<not> addr < fin \<Longrightarrow> frames_in addr fin = []"
  by (simp add: frames_in_def)

lemma marked_refl: "marked {} st s s"
  by (simp add: marked_def)

lemma marked_step:
  assumes "marked F st (upd_frame f (\<lambda>fr. fr\<lparr>f_state := st\<rparr>) s\<lparr>flists := l\<rparr>) s'"
  shows "marked (insert f F) st s s'"
proof -
  let ?t = "upd_frame f (\<lambda>fr. fr\<lparr>f_state := st\<rparr>) s\<lparr>flists := l\<rparr>"
  have "s'\<lparr>frames := frames ?t, flists := flists ?t\<rparr> = ?t" using assms by (simp add: marked_def)
  then have "(s'\<lparr>frames := frames ?t, flists := flists ?t\<rparr>)\<lparr>frames := frames s, flists := flists s\<rparr>
      = ?t\<lparr>frames := frames s, flists := flists s\<rparr>" by (rule arg_cong)
  then have "s'\<lparr>frames := frames s, flists := flists s\<rparr> = s" by (simp add: upd_frame_def)
  then show ?thesis using assms by (auto simp: marked_def upd_frame_def)
qed

lemma set_region_ok:
  assumes "lists_rep (flists s) FA" and "fin + PAGE_SIZE \<le> 2 ^ 32"
    and "st = FRAME_AVAIL \<Longrightarrow> \<forall>f \<in> set (frames_in addr fin). on_no_list f FA"
  shows "\<exists>s'. set_region_loop addr fin st s = Some s' \<and> marked (set (frames_in addr fin)) st s s'
    \<and> lists_rep (flists s') (if st = FRAME_AVAIL then FA(FreeFrames := FA FreeFrames @ frames_in addr fin) else FA)"
  using assms
proof (induction "fin - addr" arbitrary: addr s FA rule: less_induct)
  case less
  show ?case
  proof (cases "addr < fin")
    case False
    then show ?thesis using less.prems(1) by (auto simp: set_region_loop.simps frames_in_empty marked_refl)
  next
    case True
    let ?f = "addr div PAGE_SIZE" and ?rest = "frames_in (addr + PAGE_SIZE) fin"
    let ?s = "upd_frame ?f (\<lambda>fr. fr\<lparr>f_state := st\<rparr>) s"
    note fs = frames_in_step [OF True]
    have w: "w32 (addr + PAGE_SIZE) = addr + PAGE_SIZE" using True less.prems(2) by (simp add: w32_def)
    have d: "fin - (addr + PAGE_SIZE) < fin - addr" using True by (simp add: PAGE_SIZE_def)
    have new: "?f \<notin> set ?rest" by (simp add: frames_in_def PAGE_SIZE_def)
    define FA1 where "FA1 = (if st = FRAME_AVAIL then FA(FreeFrames := FA FreeFrames @ [?f]) else FA)"
    obtain l where l: "(if st = FRAME_AVAIL then list_append FreeFrames ?f (flists ?s) else Some (flists ?s)) = Some l"
      "lists_rep l FA1"
    proof (cases "st = FRAME_AVAIL")
      case True
      have "on_no_list ?f FA" using less.prems(3) [OF True] fs by simp
      from lists_append [OF less.prems(1) this, of FreeFrames] that True show ?thesis
        by (auto simp: FA1_def upd_frame_def)
    qed (use less.prems(1) that in \<open>auto simp: FA1_def upd_frame_def\<close>)
    have off: "st = FRAME_AVAIL \<Longrightarrow> \<forall>f \<in> set ?rest. on_no_list f FA1"
      using less.prems(3) fs new by (auto simp: FA1_def on_no_list_def)
    have "lists_rep (flists (?s\<lparr>flists := l\<rparr>)) FA1" using l(2) by simp
    from less.hyps [OF d this less.prems(2) off] obtain s' where
      s': "set_region_loop (addr + PAGE_SIZE) fin st (?s\<lparr>flists := l\<rparr>) = Some s'"
      "marked (set ?rest) st (?s\<lparr>flists := l\<rparr>) s'"
      "lists_rep (flists s') (if st = FRAME_AVAIL then FA1(FreeFrames := FA1 FreeFrames @ ?rest) else FA1)" by blast
    have "set_region_loop addr fin st s = Some s'"
      using True l(1) s'(1) w by (subst set_region_loop.simps) (simp add: Let_def)
    moreover have "marked (set (frames_in addr fin)) st s s'" using marked_step [OF s'(2)] fs by simp
    ultimately show ?thesis using s'(3) fs by (auto simp: FA1_def split: if_splits)
  qed
qed

lemma set_region_state_ok:
  assumes "lists_rep (flists s) FA" and "start < fin" and "fin + PAGE_SIZE \<le> 2 ^ 32"
    and "st = FRAME_AVAIL \<Longrightarrow> \<forall>f \<in> set (frames_in start fin). on_no_list f FA"
  shows "\<exists>s'. mem_set_region_state start fin st s = Some s' \<and> marked (set (frames_in start fin)) st s s'
    \<and> lists_rep (flists s') (if st = FRAME_AVAIL then FA(FreeFrames := FA FreeFrames @ frames_in start fin) else FA)"
  using set_region_ok [OF assms(1,3,4)] assms(2) by (simp add: mem_set_region_state_def)

lemma scan_region_ok:
  assumes "lists_rep (flists s) FA" and "start < fin" and "fin + PAGE_SIZE \<le> 2 ^ 32"
    and off: "st = FRAME_AVAIL \<Longrightarrow> \<forall>f \<in> set (frames_in start fin). on_no_list f FA"
    and no_heap: "heap_created d \<or> st \<noteq> FRAME_AVAIL"
  shows "\<exists>s' d'. mem_scan_region start fin st (d, s) = Some (fin, d', s') \<and> heap_created d' = heap_created d
    \<and> marked (set (frames_in start fin)) st s s'
    \<and> lists_rep (flists s') (if st = FRAME_AVAIL then FA(FreeFrames := FA FreeFrames @ frames_in start fin) else FA)"
proof -
  from set_region_state_ok [OF assms(1-3) off] obtain s' where
    "mem_set_region_state start fin st s = Some s'" "marked (set (frames_in start fin)) st s s'"
    "lists_rep (flists s') (if st = FRAME_AVAIL then FA(FreeFrames := FA FreeFrames @ frames_in start fin) else FA)"
    by blast
  then show ?thesis using no_heap by (auto simp: mem_scan_region_def)
qed

text \<open>The first large enough region of available memory is where the heap goes.\<close>

lemma scan_heap_ok:
  assumes rep: "lists_rep (flists s) FA" and sz: "start + HEAP_SIZE < fin" "fin + PAGE_SIZE \<le> 2 ^ 32"
    and off: "\<forall>f \<in> set (frames_in (start + HEAP_SIZE) fin). on_no_list f FA"
    and d: "\<not> heap_created d"
  shows "\<exists>s1 s' d'. mem_scan_region start fin FRAME_AVAIL (d, s) = Some (fin, d', s') \<and> heap_created d'
    \<and> marked (set (frames_in start (start + HEAP_SIZE))) FRAME_HEAP s s1
    \<and> marked (set (frames_in (start + HEAP_SIZE) fin)) FRAME_AVAIL
        (s1\<lparr>heap := mem_heap_init start (start + HEAP_SIZE) (heap s1)\<rparr>) s'
    \<and> lists_rep (flists s') (FA(FreeFrames := FA FreeFrames @ frames_in (start + HEAP_SIZE) fin))"
proof -
  let ?h = "start + HEAP_SIZE"
  have w: "w32 ?h = ?h" and l: "w32 (fin + 2 ^ 32 - start) \<ge> HEAP_SIZE"
  proof -
    show "w32 ?h = ?h" using sz by (simp add: w32_def)
    have "fin + 2 ^ 32 - start = (fin - start) + 2 ^ 32" using sz by simp
    then have "w32 (fin + 2 ^ 32 - start) = (fin - start) mod 2 ^ 32" unfolding w32_def by (metis mod_add_self2)
    moreover have "fin - start < 2 ^ 32" using sz(2) by (simp add: PAGE_SIZE_def)
    ultimately show "w32 (fin + 2 ^ 32 - start) \<ge> HEAP_SIZE" using sz(1) by simp
  qed
  have lt: "start < ?h" by (simp add: HEAP_SIZE_def)
  have le: "?h + PAGE_SIZE \<le> 2 ^ 32" using sz by simp
  from set_region_state_ok [OF rep lt le, of FRAME_HEAP] obtain s1 where
    s1: "mem_set_region_state start ?h FRAME_HEAP s = Some s1"
      "marked (set (frames_in start ?h)) FRAME_HEAP s s1" "lists_rep (flists s1) FA" by auto
  let ?s2 = "s1\<lparr>heap := mem_heap_init start ?h (heap s1)\<rparr>"
  have "lists_rep (flists ?s2) FA" using s1(3) by simp
  from set_region_state_ok [OF this sz, of FRAME_AVAIL] off obtain s' where
    s': "mem_set_region_state ?h fin FRAME_AVAIL ?s2 = Some s'"
      "marked (set (frames_in ?h fin)) FRAME_AVAIL ?s2 s'"
      "lists_rep (flists s') (FA(FreeFrames := FA FreeFrames @ frames_in ?h fin))" by auto
  show ?thesis using s1 s' w l d by (auto simp: mem_scan_region_def)
qed

section \<open>The memory after boot\<close>

definition region_state :: "nat \<Rightarrow> nat \<Rightarrow> frame_state" where
  "region_state ke f =
     (if f = 0 then FRAME_UNUSED else if f < 129 then FRAME_HEAP else if f < 160 then FRAME_AVAIL
      else if f < 256 then FRAME_HW else if f = 256 then FRAME_KSTACK
      else if f < ke div PAGE_SIZE then FRAME_KERN else FRAME_AVAIL)"

lemma markedD:
  assumes "marked F st s s'"
  shows "f_state (frames s' f) = (if f \<in> F then st else f_state (frames s f))"
    "f_refcount (frames s' f) = f_refcount (frames s f)"
    "\<exists>fr l. s' = s\<lparr>frames := fr, flists := l\<rparr>"
proof -
  show "f_state (frames s' f) = (if f \<in> F then st else f_state (frames s f))"
    "f_refcount (frames s' f) = f_refcount (frames s f)" using assms by (simp_all add: marked_def)
  have "s'\<lparr>frames := frames s, flists := flists s\<rparr> = s" using assms by (simp add: marked_def)
  then have "(s'\<lparr>frames := frames s, flists := flists s\<rparr>)\<lparr>frames := frames s', flists := flists s'\<rparr>
      = s\<lparr>frames := frames s', flists := flists s'\<rparr>" by (rule arg_cong)
  then have "s' = s\<lparr>frames := frames s', flists := flists s'\<rparr>" by simp
  then show "\<exists>fr l. s' = s\<lparr>frames := fr, flists := l\<rparr>" by blast
qed

lemma div_one_above: "4096 \<le> x \<Longrightarrow> x < 8192 \<Longrightarrow> (4096 * m + x) div 4096 = m + (1 :: nat)"
  by (simp add: div_nat_eqI)

lemma frames_in_kern:
  assumes "257 \<le> k" and "0 < fl" and "fl < 4096"
  shows "frames_in 1052672 (4096 * k + fl) = [257..<Suc k]"
proof -
  have "4096 * k + fl - 1052672 + 4095 = 4096 * (k - 257) + (fl + 4095)" using assms(1) by simp
  then have "(4096 * k + fl - 1052672 + 4095) div 4096 = k - 257 + 1"
    using div_one_above [of "fl + 4095" "k - 257"] assms(2,3) by simp
  then show ?thesis using assms(1) by (simp add: frames_in_def PAGE_SIZE_def)
qed

lemma frames_in_high:
  assumes "k < N" and "0 < fl" and "fl < 4096"
  shows "frames_in (4096 * k + fl) (4096 * N) = [k..<N]"
proof -
  have "4096 * N - (4096 * k + fl) + 4095 = 4096 * (N - k - 1) + (8191 - fl)" using assms by simp
  then have "(4096 * N - (4096 * k + fl) + 4095) div 4096 = N - k"
    using div_one_above [of "8191 - fl" "N - k - 1"] assms by simp
  moreover have "(4096 * k + fl) div 4096 = k" using assms(3) by simp
  ultimately show ?thesis using assms(1) by (simp add: frames_in_def PAGE_SIZE_def)
qed

lemma frames_in_low:
  "frames_in 0 4096 = [0..<1]" "frames_in 4096 528384 = [1..<129]" "frames_in 528384 655360 = [129..<160]"
  "frames_in 655360 1048576 = [160..<256]" "frames_in 1048576 1052672 = [256..<257]"
  by (simp_all add: frames_in_def PAGE_SIZE_def)

lemma heap_frames: "frames (s\<lparr>heap := h\<rparr>) = frames s"
  by simp

lemma div_4096k: "4096 * k div 4096 = (k :: nat)"
  by simp

lemma marked_fields:
  "marked F st s s' \<Longrightarrow> heap s' = heap s \<and> s_numframes s' = s_numframes s"
  by (drule markedD(3)) auto

lemma only_frames_trans:
  "\<exists>fr l. s' = s\<lparr>frames := fr, flists := l\<rparr> \<Longrightarrow> \<exists>fr l. s'' = s'\<lparr>frames := fr, flists := l\<rparr> \<Longrightarrow>
    \<exists>fr l. s'' = s\<lparr>frames := fr, flists := l\<rparr>"
  by force

text \<open>
  \<open>mem_init\<close> on a machine with more memory than the kernel occupies.  The heap and the free low
  memory lie below the ISA hole.  The last two conditions give the size of the frame list in
  pages, which the code adds to the \<^emph>\<open>address\<close> where the kernel ends: the frame list itself
  becomes available memory.
\<close>

lemma mem_init_ok:
  assumes lay: "x86mem_init_layout end_sym boot_record = L" and ke: "kernel_end L = 4096 * k" "258 \<le> k"
    and N: "numframes L = N" "k < N" "N < 2 ^ 20" and fl: "0 < framelist_numframes L" "framelist_numframes L < 4096"
    and rep: "lists_rep (flists s) (\<lambda>_. [])"
  shows "\<exists>segs s'. mem_init s_gdt_at s_tss_at end_sym boot_record s = Some (segs, 4096 * k, s') \<and> flat_segments s_gdt_at s_tss_at segs
    \<and> lists_rep (flists s') ((\<lambda>_. [])(FreeFrames := [129..<160] @ [k..<N]))
    \<and> (\<forall>f. f_state (frames s' f) = region_state (4096 * k) f \<and> f_refcount (frames s' f) = 0)
    \<and> (\<exists>fr l. s' = s\<lparr>s_numframes := N, heap := mem_heap_init 4096 (4096 + HEAP_SIZE) (heap s), frames := fr, flists := l\<rparr>)"
proof -
  let ?fl = "framelist_numframes L" and ?E = "\<lambda>_ :: flist. [] :: nat list"
  define s0 where "s0 = snd (mem_create_framelist end_sym boot_record s)"
  define d0 where "d0 = \<lparr>heap_created = False, heap_size = 0, avail_pages = 0\<rparr>"
  have c: "mem_create_framelist end_sym boot_record s = (4096 * k, s0)"
    using lay ke by (simp add: mem_create_framelist_def s0_def Let_def)
  have r0: "lists_rep (flists s0) ?E" "\<And>f. f_refcount (frames s0 f) = 0" "\<And>f. f_state (frames s0 f) = FRAME_AVAIL"
    using rep by (simp_all add: s0_def mem_create_framelist_def Let_def)
  from scan_region_ok [OF r0(1), of 0 4096 FRAME_UNUSED d0] obtain s1 d1 where
    s1: "mem_scan_region 0 4096 FRAME_UNUSED (d0, s0) = Some (4096, d1, s1)" "\<not> heap_created d1"
      "marked (set (frames_in 0 4096)) FRAME_UNUSED s0 s1" "lists_rep (flists s1) ?E"
    by (auto simp: PAGE_SIZE_def d0_def)
  let ?A = "?E(FreeFrames := [129..<160])"
  from scan_heap_ok [OF s1(4), of 4096 655360 d1] s1(2) obtain s2 s3 d3 where
    s3: "mem_scan_region 4096 655360 FRAME_AVAIL (d1, s1) = Some (655360, d3, s3)" "heap_created d3"
      "marked (set (frames_in 4096 528384)) FRAME_HEAP s1 s2"
      "marked (set (frames_in 528384 655360)) FRAME_AVAIL (s2\<lparr>heap := mem_heap_init 4096 528384 (heap s2)\<rparr>) s3"
      "lists_rep (flists s3) ?A"
    by (auto simp: PAGE_SIZE_def HEAP_SIZE_def on_no_list_def frames_in_low)
  from scan_region_ok [OF s3(5), of 655360 1048576 FRAME_HW d3] s3(2) obtain s4 d4 where
    s4: "mem_scan_region 655360 1048576 FRAME_HW (d3, s3) = Some (1048576, d4, s4)" "heap_created d4"
      "marked (set (frames_in 655360 1048576)) FRAME_HW s3 s4" "lists_rep (flists s4) ?A"
    by (auto simp: PAGE_SIZE_def)
  from scan_region_ok [OF s4(4), of 1048576 1052672 FRAME_KSTACK d4] s4(2) obtain s5 d5 where
    s5: "mem_scan_region 1048576 1052672 FRAME_KSTACK (d4, s4) = Some (1052672, d5, s5)" "heap_created d5"
      "marked (set (frames_in 1048576 1052672)) FRAME_KSTACK s4 s5" "lists_rep (flists s5) ?A"
    by (auto simp: PAGE_SIZE_def)
  have b: "1052672 < 4096 * k + ?fl" "4096 * k + ?fl < 4096 * N" "4096 * N + PAGE_SIZE \<le> 2 ^ 32"
    using ke(2) N fl by (simp_all add: PAGE_SIZE_def)
  have w: "w32 (4096 * k + ?fl) = 4096 * k + ?fl" "w32 (N * PAGE_SIZE) = 4096 * N"
    using b by (simp_all add: w32_def PAGE_SIZE_def mult.commute)
  have k257: "257 \<le> k" using ke(2) by simp
  from scan_region_ok [OF s5(4) b(1), of FRAME_KERN d5] s5(2) b obtain s6 d6 where
    s6: "mem_scan_region 1052672 (4096 * k + ?fl) FRAME_KERN (d5, s5) = Some (4096 * k + ?fl, d6, s6)" "heap_created d6"
      "marked (set [257..<Suc k]) FRAME_KERN s5 s6" "lists_rep (flists s6) ?A"
    using frames_in_kern [OF k257 fl] by auto
  have "\<forall>f \<in> set (frames_in (4096 * k + ?fl) (4096 * N)). on_no_list f ?A"
    using ke(2) by (auto simp: on_no_list_def frames_in_high [OF N(2) fl])
  with scan_region_ok [OF s6(4) b(2,3), of FRAME_AVAIL d6] s6(2) obtain s7 d7 where
    s7: "mem_scan_region (4096 * k + ?fl) (4096 * N) FRAME_AVAIL (d6, s6) = Some (4096 * N, d7, s7)" "heap_created d7"
      "marked (set [k..<N]) FRAME_AVAIL s6 s7" "lists_rep (flists s7) (?A(FreeFrames := ?A FreeFrames @ [k..<N]))"
    using frames_in_high [OF N(2) fl] by auto
  have run: "mem_scan_regions end_sym boot_record (d0, s0) = Some (d7, s7)"
    using s1(1) s3(1) s4(1) s5(1) s6(1) s7(1) lay ke(1) N(1) w
    by (simp add: mem_scan_regions_def Let_def PAGE_SIZE_def ISA_HOLE_START_def ISA_HOLE_END_def)
  obtain segs where segs: "x86_seg_init_gdt s_gdt_at s_tss_at = Some segs" "flat_segments s_gdt_at s_tss_at segs"
    using gdt_ok by blast
  have m: "mem_init s_gdt_at s_tss_at end_sym boot_record s = Some (segs, 4096 * k, s7)"
    using run s7(2) segs(1) by (simp add: mem_init_def mem_init_segments_def c d0_def)
  note sets = frames_in_low set_upt atLeastLessThan_iff heap_frames
  have st: "f_state (frames s7 f) = region_state (4096 * k) f" for f
  proof -
    note m = markedD(1) [OF s7(3), of f] markedD(1) [OF s6(3), of f] markedD(1) [OF s5(3), of f]
      markedD(1) [OF s4(3), of f] markedD(1) [OF s3(4), of f] markedD(1) [OF s3(3), of f]
      markedD(1) [OF s1(3), of f]
    show ?thesis
      using ke(2) N(2)
      by (simp only: m [unfolded sets] r0(3) region_state_def PAGE_SIZE_def div_4096k) auto
  qed
  have rc: "f_refcount (frames s7 f) = 0" for f
    using markedD(2) [OF s7(3), of f] markedD(2) [OF s6(3), of f] markedD(2) [OF s5(3), of f]
      markedD(2) [OF s4(3), of f] markedD(2) [OF s3(4), of f] markedD(2) [OF s3(3), of f]
      markedD(2) [OF s1(3), of f] r0(2) [of f]
    by simp
  note only = only_frames_trans [OF markedD(3) [OF s3(4)] only_frames_trans [OF markedD(3) [OF s4(3)]
      only_frames_trans [OF markedD(3) [OF s5(3)] only_frames_trans [OF markedD(3) [OF s6(3)] markedD(3) [OF s7(3)]]]]]
  from markedD(3) [OF s1(3)] markedD(3) [OF s3(3)] only obtain fr1 l1 fr2 l2 fr3 l3 where
    e: "s1 = s0\<lparr>frames := fr1, flists := l1\<rparr>" "s2 = s1\<lparr>frames := fr2, flists := l2\<rparr>"
      "s7 = (s2\<lparr>heap := mem_heap_init 4096 528384 (heap s2)\<rparr>)\<lparr>frames := fr3, flists := l3\<rparr>" by blast
  have "s7 = s\<lparr>s_numframes := N, heap := mem_heap_init 4096 (4096 + HEAP_SIZE) (heap s), frames := fr3, flists := l3\<rparr>"
    using lay N(1) by (simp add: e s0_def mem_create_framelist_def Let_def HEAP_SIZE_def)
  then have fin: "\<exists>fr l. s7 = s\<lparr>s_numframes := N, heap := mem_heap_init 4096 (4096 + HEAP_SIZE) (heap s), frames := fr, flists := l\<rparr>"
    by blast
  have "?A(FreeFrames := ?A FreeFrames @ [k..<N]) = ?E(FreeFrames := [129..<160] @ [k..<N])" by simp
  with s7(4) have rp: "lists_rep (flists s7) (?E(FreeFrames := [129..<160] @ [k..<N]))" by metis
  show ?thesis using m segs(2) rp st rc fin by blast
qed

end
