(* ===== verification/Paging.thy ===== *)
theory Paging imports Memory_Map begin

text \<open>
  The kernel's address space: \<open>vm_init_paging\<close> of \<open>src/x86/kernel/x86_vm.c\<close>.  The page
  directory and the low page table are functions from entry index to entry; \<open>translate\<close> is
  what the processor does with them.
\<close>

section \<open>Operations\<close>

definition VM_PT_SPAN :: u32 where "VM_PT_SPAN = push_bit 22 1"

definition VM_PAGE_DIR_INDEX :: "u32 \<Rightarrow> nat" where
  "VM_PAGE_DIR_INDEX vaddr = unat (drop_bit 22 vaddr AND 0x3ff)"

definition VM_PAGE_TABLE_INDEX :: "u32 \<Rightarrow> nat" where
  "VM_PAGE_TABLE_INDEX vaddr = unat (drop_bit 12 vaddr AND 0x3ff)"

definition VM_PAGE_BASE_ADDR :: "u32 \<Rightarrow> u32" where
  "VM_PAGE_BASE_ADDR addr = drop_bit 12 addr"

definition VM_WRITE :: u32 where "VM_WRITE = 1"
definition VM_READ :: u32 where "VM_READ = 0"
definition VM_EXEC :: u32 where "VM_EXEC = 0"

text \<open>The bit fields \<open>flags\<close> and \<open>base_addr\<close> have 4 and 20 bits; the fields that are always 0 are left out.\<close>

record pde =
  pde_present :: bool
  pde_flags :: "4 word"
  pde_page_size :: bool
  pde_base_addr :: "20 word"

record pte =
  pte_present :: bool
  pte_flags :: "4 word"
  pte_base_addr :: "20 word"

type_synonym pagedir = "nat \<Rightarrow> pde"
type_synonym pagetab = "nat \<Rightarrow> pte"

definition zero_pde :: pde where
  "zero_pde = \<lparr>pde_present = False, pde_flags = 0, pde_page_size = False, pde_base_addr = 0\<rparr>"

definition zero_pte :: pte where
  "zero_pte = \<lparr>pte_present = False, pte_flags = 0, pte_base_addr = 0\<rparr>"

definition IS_PT_SPAN_ALIGNED :: "u32 \<Rightarrow> bool" where
  "IS_PT_SPAN_ALIGNED addr \<longleftrightarrow> addr AND 0xFFC00000 = addr"

definition vm_set_pte :: "u32 \<Rightarrow> u32 \<Rightarrow> u32 \<Rightarrow> pagetab \<Rightarrow> pagetab option" where
  "vm_set_pte flags vaddr paddr pgtab = do {
     kassert (mem_is_page_aligned vaddr);
     kassert (mem_is_page_aligned paddr);
     Some (pgtab(VM_PAGE_TABLE_INDEX vaddr := zero_pte\<lparr>pte_present := True, pte_flags := ucast flags,
       pte_base_addr := ucast (VM_PAGE_BASE_ADDR paddr)\<rparr>))
   }"

definition vm_set_pde :: "u32 \<Rightarrow> u32 \<Rightarrow> u32 \<Rightarrow> pagedir \<Rightarrow> pagedir option" where
  "vm_set_pde flags vaddr paddr_of_pagetable pgdir = do {
     kassert (IS_PT_SPAN_ALIGNED vaddr);
     kassert (mem_is_page_aligned paddr_of_pagetable);
     Some (pgdir(VM_PAGE_DIR_INDEX vaddr := zero_pde\<lparr>pde_present := True, pde_flags := ucast flags,
       pde_base_addr := ucast (VM_PAGE_BASE_ADDR paddr_of_pagetable)\<rparr>))
   }"

definition vm_set_pde_4m :: "u32 \<Rightarrow> u32 \<Rightarrow> u32 \<Rightarrow> pagedir \<Rightarrow> pagedir option" where
  "vm_set_pde_4m flags vaddr paddr_of_frame pgdir = do {
     kassert (IS_PT_SPAN_ALIGNED vaddr);
     kassert (mem_is_page_aligned paddr_of_frame);
     Some (pgdir(VM_PAGE_DIR_INDEX vaddr := zero_pde\<lparr>pde_present := True, pde_flags := ucast flags,
       pde_page_size := True, pde_base_addr := ucast (VM_PAGE_BASE_ADDR paddr_of_frame)\<rparr>))
   }"

text \<open>The loops of \<open>vm_init_paging\<close>.\<close>

partial_function (option) init_low_table :: "u32 \<Rightarrow> pagetab \<Rightarrow> pagetab option" where
  "init_low_table paddr pgtab =
     (if paddr < VM_PT_SPAN then do {
        pgtab \<leftarrow> vm_set_pte (VM_WRITE OR VM_READ OR VM_EXEC) paddr paddr pgtab;
        init_low_table (paddr + of_nat PAGE_SIZE) pgtab
      } else Some pgtab)"

partial_function (option) map_large_pages :: "u32 \<Rightarrow> u32 \<Rightarrow> pagedir \<Rightarrow> pagedir option" where
  "map_large_pages paddr mem_max pgdir =
     (if paddr < mem_max then do {
        pgdir \<leftarrow> vm_set_pde_4m (VM_WRITE OR VM_READ OR VM_EXEC) paddr paddr pgdir;
        map_large_pages (paddr + VM_PT_SPAN) mem_max pgdir
      } else Some pgdir)"

definition paging_mem_max :: "multiboot_info \<Rightarrow> u32" where
  "paging_mem_max boot_info = (let m = mem_upper boot_info * 1024 in if m > push_bit 31 1 then push_bit 31 1 else m)"

record mmu =
  cr0 :: u32
  cr3 :: u32
  cr4 :: u32
  pagedir :: pagedir
  pagetab_at :: nat
  pagetab :: pagetab

definition CR0_PG :: u32 where "CR0_PG = push_bit 31 1"
definition CR4_PSE :: u32 where "CR4_PSE = push_bit 4 1"

text \<open>\<open>pse\<close> is what \<open>x86_cpuid\<close> found: \<open>None\<close> when the processor has no \<open>cpuid\<close> instruction.\<close>

definition vm_init_paging :: "bool option \<Rightarrow> multiboot_info \<Rightarrow> mmu \<Rightarrow> kernel \<Rightarrow> mmu may_wait" where
  "vm_init_paging pse boot_info c s = do {
     panic_if (pse = None);
     panic_if (pse \<noteq> Some True);
     let c = c\<lparr>cr4 := cr4 c OR CR4_PSE\<rparr>;
     then_do (mem_alloc_frame FRAME_KERN 1 s) (\<lambda>pgdir_frame s.
       let dir_pa = mem_frame_to_pa pgdir_frame in
       then_do (mem_alloc_frame FRAME_KERN 1 s) (\<lambda>pgtab_frame s. do {
         let tab_pa = mem_frame_to_pa pgtab_frame;
         tab \<leftarrow> init_low_table (of_nat PAGE_SIZE) (\<lambda>_. zero_pte);
         dir \<leftarrow> vm_set_pde (VM_WRITE OR VM_READ OR VM_EXEC) 0 (of_nat tab_pa) (\<lambda>_. zero_pde);
         dir \<leftarrow> map_large_pages VM_PT_SPAN (paging_mem_max boot_info) dir;
         Some (Inr (c\<lparr>cr3 := of_nat dir_pa, cr0 := cr0 c OR CR0_PG, pagedir := dir,
                      pagetab_at := tab_pa, pagetab := tab\<rparr>, s))
       }))
   }"

section \<open>What the processor does\<close>

text \<open>Two-level translation with 4 KB and 4 MB pages, for supervisor accesses.\<close>

definition translate :: "mmu \<Rightarrow> u32 \<Rightarrow> u32 option" where
  "translate c v = (
     if cr0 c AND CR0_PG = 0 then Some v
     else let e = pagedir c (unat (drop_bit 22 v)) in
       if \<not> pde_present e then None
       else if pde_page_size e \<and> cr4 c AND CR4_PSE \<noteq> 0
       then Some (push_bit 12 (ucast (pde_base_addr e) AND 0xFFC00) OR (v AND 0x3FFFFF))
       else if push_bit 12 (ucast (pde_base_addr e)) = (of_nat (pagetab_at c) :: u32)
       then let t = pagetab c (unat (drop_bit 12 v AND 0x3FF)) in
         if pte_present t then Some (push_bit 12 (ucast (pte_base_addr t)) OR (v AND 0xFFF)) else None
       else None)"

subsection \<open>Word facts\<close>

lemma unat_and_mask10: "unat (w AND 0x3FF :: u32) = unat w mod 1024"
proof -
  have "w AND 0x3FF = take_bit 10 w" by (simp add: take_bit_eq_mask mask_eq_exp_minus_1)
  then show ?thesis by (simp only: unsigned_take_bit_eq) (simp add: take_bit_eq_mod)
qed

lemma unat_drop: "unat (drop_bit n w :: u32) = unat w div 2 ^ n"
  by (simp only: unsigned_drop_bit_eq) (simp add: drop_bit_eq_div take_bit_nat_eq_self)

lemma dir_index: "VM_PAGE_DIR_INDEX v = unat v div 2 ^ 22"
proof -
  have "unat v div 2 ^ 22 < 1024" using unat_u32_less [of v] by (simp add: less_mult_imp_div_less)
  then show ?thesis by (simp add: VM_PAGE_DIR_INDEX_def unat_and_mask10 unat_drop)
qed

lemma tab_index: "VM_PAGE_TABLE_INDEX v = unat v div 4096 mod 1024"
  by (simp add: VM_PAGE_TABLE_INDEX_def unat_and_mask10 unat_drop)

lemma page_alignedI: "4096 dvd unat p \<Longrightarrow> mem_is_page_aligned p"
  by (simp add: mem_is_page_aligned_def mem_round_to_page_def page_aligned_iff)

lemma unat_of_nat_page: "k < 1048576 \<Longrightarrow> unat (of_nat (4096 * k) :: u32) = 4096 * k"
  by (simp only: unat_of_nat) simp

lemma pte_base: "pte_base_addr (zero_pte\<lparr>pte_base_addr := b\<rparr>) = b"
  by simp

text \<open>A 20-bit base address gives back the page it was taken from.\<close>

lemma base_roundtrip:
  assumes "p AND PAGE_MASK = p"
  shows "push_bit 12 (ucast (ucast (VM_PAGE_BASE_ADDR p) :: 20 word) :: u32) = p"
proof (rule bit_word_eqI)
  fix n assume n: "n < LENGTH(32)"
  have "bit p n \<longleftrightarrow> bit p n \<and> 12 \<le> n"
  proof -
    have "bit p n = bit (p AND PAGE_MASK) n" using assms by simp
    then show ?thesis by (auto simp: PAGE_MASK_def bit_simps)
  qed
  then show "bit (push_bit 12 (ucast (ucast (VM_PAGE_BASE_ADDR p) :: 20 word) :: u32)) n = bit p n"
    using n by (auto simp: VM_PAGE_BASE_ADDR_def bit_simps)
qed

lemma page_parts: "(v AND PAGE_MASK) OR (v AND 0xFFF) = (v :: u32)"
proof -
  have e: "(0xFFF :: u32) = mask 12" by (simp add: mask_eq_exp_minus_1)
  show ?thesis unfolding e by (rule bit_word_eqI) (auto simp: PAGE_MASK_def bit_simps)
qed

lemma span_parts: "(push_bit 22 (drop_bit 22 v)) OR (v AND 0x3FFFFF) = (v :: u32)"
proof -
  have e: "(0x3FFFFF :: u32) = mask 22" by (simp add: mask_eq_exp_minus_1)
  show ?thesis unfolding e by (rule bit_word_eqI) (auto simp: bit_simps)
qed

lemma span_aligned: "IS_PT_SPAN_ALIGNED (push_bit 22 w)"
proof -
  have e: "(0xFFC00000 :: u32) = NOT (mask 22)" by (simp add: mask_eq_exp_minus_1)
  show ?thesis unfolding IS_PT_SPAN_ALIGNED_def e by (rule bit_word_eqI) (auto simp: bit_simps)
qed

lemma large_base:
  "push_bit 12 (ucast (ucast (VM_PAGE_BASE_ADDR (push_bit 22 w)) :: 20 word) AND 0xFFC00) = (push_bit 22 w :: u32)"
proof -
  have e: "(0xFFC00 :: u32) = push_bit 10 (mask 10)" by (simp add: mask_eq_exp_minus_1 push_bit_eq_mult)
  show ?thesis unfolding e by (rule bit_word_eqI) (auto simp: VM_PAGE_BASE_ADDR_def bit_simps)
qed

subsection \<open>The loops\<close>

lemma aligned_of_nat: "k < 1048576 \<Longrightarrow> mem_is_page_aligned (of_nat (4096 * k))"
  by (rule page_alignedI) (simp only: unat_of_nat_page dvd_triv_left)

definition low_pte :: "nat \<Rightarrow> pte" where
  "low_pte i = \<lparr>pte_present = True, pte_flags = 1, pte_base_addr = ucast (VM_PAGE_BASE_ADDR (of_nat (4096 * i)))\<rparr>"

lemma init_low_table_ok:
  "k \<le> 1024 \<Longrightarrow> init_low_table (of_nat (4096 * k)) tab
     = Some (\<lambda>i. if k \<le> i \<and> i < 1024 then low_pte i else tab i)"
proof (induction "1024 - k" arbitrary: k tab)
  case 0
  then have "k = 1024" by simp
  then show ?case by (auto simp: init_low_table.simps VM_PT_SPAN_def fun_eq_iff)
next
  case (Suc d)
  then have k: "k < 1024" by simp
  let ?p = "of_nat (4096 * k) :: u32"
  have u: "unat ?p = 4096 * k" using k by (intro unat_of_nat_page) simp
  have lt: "?p < VM_PT_SPAN" using k by (simp only: word_less_nat_alt u) (simp add: VM_PT_SPAN_def)
  have ix: "VM_PAGE_TABLE_INDEX ?p = k" using k by (simp only: tab_index u) simp
  have al: "mem_is_page_aligned ?p" using k by (intro aligned_of_nat) simp
  have nx: "?p + of_nat PAGE_SIZE = of_nat (4096 * Suc k)" by (simp add: PAGE_SIZE_def)
  have "vm_set_pte (VM_WRITE OR VM_READ OR VM_EXEC) ?p ?p tab = Some (tab(k := low_pte k))"
    unfolding vm_set_pte_def ix using al
    by (simp add: low_pte_def zero_pte_def VM_WRITE_def VM_READ_def VM_EXEC_def halt_simps)
  then have "init_low_table ?p tab = init_low_table (?p + of_nat PAGE_SIZE) (tab(k := low_pte k))"
    using lt by (subst init_low_table.simps) simp
  also have "\<dots> = init_low_table (of_nat (4096 * Suc k)) (tab(k := low_pte k))" by (simp only: nx)
  also have "\<dots> = Some (\<lambda>i. if Suc k \<le> i \<and> i < 1024 then low_pte i else (tab(k := low_pte k)) i)"
    using Suc by (intro Suc.hyps(1)) simp_all
  also have "(\<lambda>i. if Suc k \<le> i \<and> i < 1024 then low_pte i else (tab(k := low_pte k)) i)
      = (\<lambda>i. if k \<le> i \<and> i < 1024 then low_pte i else tab i)"
    using k by (auto simp: fun_eq_iff)
  finally show ?case .
qed

definition large_pde :: "nat \<Rightarrow> pde" where
  "large_pde i = \<lparr>pde_present = True, pde_flags = 1, pde_page_size = True,
     pde_base_addr = ucast (VM_PAGE_BASE_ADDR (push_bit 22 (of_nat i)))\<rparr>"

lemma unat_span: "k \<le> 512 \<Longrightarrow> unat (push_bit 22 (of_nat k) :: u32) = 2 ^ 22 * k"
  by (simp add: push_bit_eq_mult unat_word_ariths unat_of_nat)

lemma map_large_pages_ok:
  assumes m: "unat mem_max \<le> 2 ^ 31"
  shows "k \<le> 512 \<Longrightarrow> map_large_pages (push_bit 22 (of_nat k)) mem_max dir
     = Some (\<lambda>i. if k \<le> i \<and> 2 ^ 22 * i < unat mem_max then large_pde i else dir i)"
proof (induction "512 - k" arbitrary: k dir)
  case 0
  then have k: "k = 512" by simp
  have "\<not> push_bit 22 (of_nat k) < mem_max" using m unat_span [of k] k by (simp add: word_less_nat_alt)
  moreover have "\<not> (k \<le> i \<and> 2 ^ 22 * i < unat mem_max)" for i using m k by simp
  ultimately show ?case by (auto simp: map_large_pages.simps fun_eq_iff)
next
  case (Suc d)
  then have k: "k < 512" by simp
  let ?p = "push_bit 22 (of_nat k) :: u32"
  have u: "unat ?p = 2 ^ 22 * k" using k by (intro unat_span) simp
  show ?case
  proof (cases "?p < mem_max")
    case False
    then have le: "unat mem_max \<le> 2 ^ 22 * k" using u by (simp add: word_less_nat_alt)
    have "\<not> (k \<le> i \<and> 2 ^ 22 * i < unat mem_max)" for i
    proof
      assume i: "k \<le> i \<and> 2 ^ 22 * i < unat mem_max"
      then have "2 ^ 22 * k \<le> 2 ^ 22 * i" by simp
      with i le show False by linarith
    qed
    with False show ?thesis by (auto simp: map_large_pages.simps fun_eq_iff)
  next
    case True
    have ix: "VM_PAGE_DIR_INDEX ?p = k" by (simp only: dir_index u) simp
    have al: "mem_is_page_aligned ?p" by (rule page_alignedI) (simp add: u)
    have nx: "?p + VM_PT_SPAN = push_bit 22 (of_nat (Suc k))"
      by (simp add: VM_PT_SPAN_def push_bit_eq_mult algebra_simps)
    have "vm_set_pde_4m (VM_WRITE OR VM_READ OR VM_EXEC) ?p ?p dir = Some (dir(k := large_pde k))"
      unfolding vm_set_pde_4m_def ix using al
      by (simp add: large_pde_def zero_pde_def VM_WRITE_def VM_READ_def VM_EXEC_def span_aligned halt_simps)
    then have "map_large_pages ?p mem_max dir = map_large_pages (push_bit 22 (of_nat (Suc k))) mem_max (dir(k := large_pde k))"
      using True nx by (subst map_large_pages.simps) simp
    also have "\<dots> = Some (\<lambda>i. if Suc k \<le> i \<and> 2 ^ 22 * i < unat mem_max then large_pde i else (dir(k := large_pde k)) i)"
      using Suc by (intro Suc.hyps(1)) simp_all
    also have "(\<lambda>i. if Suc k \<le> i \<and> 2 ^ 22 * i < unat mem_max then large_pde i else (dir(k := large_pde k)) i)
        = (\<lambda>i. if k \<le> i \<and> 2 ^ 22 * i < unat mem_max then large_pde i else dir i)"
      using True u by (auto simp: fun_eq_iff word_less_nat_alt)
    finally show ?thesis .
  qed
qed

lemma mem_max_bound: "unat (paging_mem_max mb) \<le> 2 ^ 31"
proof (cases "mem_upper mb * 1024 > push_bit 31 1")
  case False
  then have "unat (mem_upper mb * 1024) \<le> unat (push_bit 31 1 :: u32)" by (simp only: word_less_nat_alt not_less)
  then show ?thesis using False by (simp add: paging_mem_max_def Let_def push_bit_eq_mult)
qed (simp add: paging_mem_max_def Let_def push_bit_eq_mult)

section \<open>The kernel's address space\<close>

definition low_pde :: "nat \<Rightarrow> pde" where
  "low_pde tab_pa = \<lparr>pde_present = True, pde_flags = 1, pde_page_size = False,
     pde_base_addr = ucast (VM_PAGE_BASE_ADDR (of_nat tab_pa))\<rparr>"

definition kernel_dir :: "nat \<Rightarrow> u32 \<Rightarrow> pagedir" where
  "kernel_dir tab_pa mem_max i = (if i = 0 then low_pde tab_pa
     else if 2 ^ 22 * i < unat mem_max then large_pde i else zero_pde)"

definition kernel_tab :: pagetab where
  "kernel_tab i = (if 1 \<le> i \<and> i < 1024 then low_pte i else zero_pte)"

lemma frame_pa_dvd: "4096 dvd unat (of_nat (mem_frame_to_pa f) :: u32)"
proof -
  have "mem_frame_to_pa f < 2 ^ 32" by (simp add: mem_frame_to_pa_def w32_def)
  then have "unat (of_nat (mem_frame_to_pa f) :: u32) = mem_frame_to_pa f" by (simp add: unat_of_nat)
  moreover have "4096 dvd mem_frame_to_pa f"
    unfolding mem_frame_to_pa_def w32_def PAGE_SIZE_def by (rule dvd_mod) simp_all
  ultimately show ?thesis by simp
qed

lemma frame_pa_aligned: "mem_is_page_aligned (of_nat (mem_frame_to_pa f))"
  by (rule page_alignedI [OF frame_pa_dvd])

lemma init_paging_tables:
  "init_low_table (of_nat PAGE_SIZE) (\<lambda>_. zero_pte) = Some kernel_tab"
  "\<exists>d. vm_set_pde (VM_WRITE OR VM_READ OR VM_EXEC) 0 (of_nat (mem_frame_to_pa f)) (\<lambda>_. zero_pde) = Some d
     \<and> map_large_pages VM_PT_SPAN (paging_mem_max mb) d = Some (kernel_dir (mem_frame_to_pa f) (paging_mem_max mb))"
proof -
  show "init_low_table (of_nat PAGE_SIZE) (\<lambda>_. zero_pte) = Some kernel_tab"
    using init_low_table_ok [of 1 "\<lambda>_. zero_pte"] by (simp add: PAGE_SIZE_def kernel_tab_def [abs_def])
  let ?d = "(\<lambda>_. zero_pde)(0 := low_pde (mem_frame_to_pa f))"
  have al: "IS_PT_SPAN_ALIGNED 0" by (simp add: IS_PT_SPAN_ALIGNED_def)
  have 1: "vm_set_pde (VM_WRITE OR VM_READ OR VM_EXEC) 0 (of_nat (mem_frame_to_pa f)) (\<lambda>_. zero_pde) = Some ?d"
    using frame_pa_aligned [of f] al
    by (simp add: vm_set_pde_def dir_index low_pde_def zero_pde_def VM_WRITE_def VM_READ_def VM_EXEC_def halt_simps)
  have 2: "map_large_pages VM_PT_SPAN (paging_mem_max mb) ?d
      = Some (\<lambda>i. if 1 \<le> i \<and> 2 ^ 22 * i < unat (paging_mem_max mb) then large_pde i else ?d i)"
    using map_large_pages_ok [OF mem_max_bound, of 1 mb ?d] by (simp add: VM_PT_SPAN_def)
  have 3: "(\<lambda>i. if 1 \<le> i \<and> 2 ^ 22 * i < unat (paging_mem_max mb) then large_pde i else ?d i)
      = kernel_dir (mem_frame_to_pa f) (paging_mem_max mb)"
    by (auto simp: fun_eq_iff kernel_dir_def)
  show "\<exists>d. vm_set_pde (VM_WRITE OR VM_READ OR VM_EXEC) 0 (of_nat (mem_frame_to_pa f)) (\<lambda>_. zero_pde) = Some d
     \<and> map_large_pages VM_PT_SPAN (paging_mem_max mb) d = Some (kernel_dir (mem_frame_to_pa f) (paging_mem_max mb))"
    using 1 2 3 by auto
qed

text \<open>Every mapped address is mapped to itself; page 0 and everything from \<open>mem_max\<close> on (rounded
  up to 4 MB) is not mapped.\<close>

definition kernel_mapped :: "u32 \<Rightarrow> u32 \<Rightarrow> bool" where
  "kernel_mapped mem_max v \<longleftrightarrow> 4096 \<le> unat v \<and> (unat v < 2 ^ 22 \<or> 2 ^ 22 * (unat v div 2 ^ 22) < unat mem_max)"

lemma translate_kernel:
  assumes c: "pagedir c = kernel_dir (mem_frame_to_pa f) mem_max" "pagetab c = kernel_tab"
    "pagetab_at c = mem_frame_to_pa f" and pg: "cr0 c AND CR0_PG \<noteq> 0" "cr4 c AND CR4_PSE \<noteq> 0"
  shows "translate c v = (if kernel_mapped mem_max v then Some v else None)"
proof -
  let ?i = "unat v div 2 ^ 22"
  have i: "unat (drop_bit 22 v) = ?i" by (rule unat_drop)
  have low: "unat v < 2 ^ 22 \<longleftrightarrow> ?i = 0" by auto
  have t: "unat (drop_bit 12 v AND 0x3FF) = unat v div 4096 mod 1024"
    by (simp only: unat_and_mask10 unat_drop) simp
  have tp: "push_bit 12 (ucast (pde_base_addr (low_pde (mem_frame_to_pa f)))) = (of_nat (mem_frame_to_pa f) :: u32)"
    using base_roundtrip [of "of_nat (mem_frame_to_pa f)"] frame_pa_dvd [of f]
    by (simp add: low_pde_def page_aligned_iff)
  show ?thesis
  proof (cases "?i = 0")
    case True
    let ?j = "unat v div 4096"
    have j: "?j mod 1024 = ?j" using True low by (simp add: less_mult_imp_div_less)
    have e: "translate c v = (if pte_present (kernel_tab ?j)
        then Some (push_bit 12 (ucast (pte_base_addr (kernel_tab ?j))) OR (v AND 0xFFF)) else None)"
      using pg c True tp by (simp add: translate_def i kernel_dir_def low_pde_def t j Let_def)
    have "push_bit 12 (ucast (pte_base_addr (low_pte ?j))) = v AND PAGE_MASK"
    proof -
      have "of_nat (4096 * ?j) = v AND PAGE_MASK"
        using le_less_trans [OF times_div_less_eq_dividend unat_u32_less, of 4096 v]
        by (intro word_unat_eq_iff [THEN iffD2]) (simp only: unat_page_mask unat_of_nat, simp)
      then show ?thesis using base_roundtrip [of "v AND PAGE_MASK"] by (simp add: low_pte_def and.assoc)
    qed
    then have "push_bit 12 (ucast (pte_base_addr (low_pte ?j))) OR (v AND 0xFFF) = v" by (simp only: page_parts)
    moreover have "?j < 1024" using True low by (simp add: less_mult_imp_div_less)
    moreover have "1 \<le> ?j \<longleftrightarrow> 4096 \<le> unat v" by (simp add: div_greater_zero_iff Suc_le_eq)
    ultimately show ?thesis
      using e True low by (simp add: kernel_tab_def kernel_mapped_def low_pte_def zero_pte_def)
  next
    case False
    have "push_bit 22 (of_nat ?i) = push_bit 22 (drop_bit 22 v)"
      by (simp only: i [symmetric] of_nat_unat ucast_id)
    then have "push_bit 12 (ucast (pde_base_addr (large_pde ?i)) AND 0xFFC00) OR (v AND 0x3FFFFF) = v"
      by (simp only: large_pde_def pde.simps large_base span_parts)
    moreover have "4096 \<le> unat v" using False low by simp
    ultimately show ?thesis
      using pg c False low
      by (simp add: translate_def i kernel_dir_def kernel_mapped_def Let_def large_pde_def zero_pde_def)
  qed
qed

text \<open>\<open>vm_init_paging\<close> takes two frames and turns on the identity mapping.\<close>

lemma vm_init_paging_ok:
  assumes fr: "frames_inv FA s" and free: "FA FreeFrames = d # t # fs"
  shows "\<exists>c' s'. vm_init_paging (Some True) mb c s = Some (Inr (c', s'))
    \<and> (\<forall>v. translate c' v = (if kernel_mapped (paging_mem_max mb) v then Some v else None))
    \<and> frames_inv (FA(FreeFrames := fs)) s' \<and> (\<exists>fr l. s' = s\<lparr>frames := fr, flists := l\<rparr>
         \<and> (\<forall>f. f_refcount (fr f) = (if f = d \<or> f = t then 1 else f_refcount (frames s f))))"
proof -
  let ?g = "\<lambda>f l. upd_frame f (\<lambda>fr. fr\<lparr>f_state := FRAME_KERN, f_refcount := 1\<rparr>) (s\<lparr>flists := l\<rparr>)"
  from mem_alloc_frame_ok [OF fr free] obtain l where
    l: "mem_alloc_frame FRAME_KERN 1 s = Some (Inr (d, ?g d l))" "frames_inv (FA(FreeFrames := t # fs)) (?g d l)" by blast
  have "(FA(FreeFrames := t # fs)) FreeFrames = t # fs" by simp
  have cl: "(FA(FreeFrames := t # fs))(FreeFrames := fs) = FA(FreeFrames := fs)" by simp
  from mem_alloc_frame_ok [OF l(2) \<open>(FA(FreeFrames := t # fs)) FreeFrames = t # fs\<close>, of FRAME_KERN 1, unfolded cl]
  obtain l' where
    l': "mem_alloc_frame FRAME_KERN 1 (?g d l) = Some (Inr (t, upd_frame t
        (\<lambda>fr. fr\<lparr>f_state := FRAME_KERN, f_refcount := 1\<rparr>) (?g d l\<lparr>flists := l'\<rparr>)))"
      "frames_inv (FA(FreeFrames := fs)) (upd_frame t
        (\<lambda>fr. fr\<lparr>f_state := FRAME_KERN, f_refcount := 1\<rparr>) (?g d l\<lparr>flists := l'\<rparr>))" by blast
  let ?s' = "upd_frame t (\<lambda>fr. fr\<lparr>f_state := FRAME_KERN, f_refcount := 1\<rparr>) (?g d l\<lparr>flists := l'\<rparr>)"
  let ?c = "c\<lparr>cr4 := cr4 c OR CR4_PSE, cr3 := of_nat (mem_frame_to_pa d), cr0 := cr0 c OR CR0_PG,
    pagedir := kernel_dir (mem_frame_to_pa t) (paging_mem_max mb),
    pagetab_at := mem_frame_to_pa t, pagetab := kernel_tab\<rparr>"
  obtain dir where dir: "vm_set_pde (VM_WRITE OR VM_READ OR VM_EXEC) 0 (of_nat (mem_frame_to_pa t)) (\<lambda>_. zero_pde) = Some dir"
    "map_large_pages VM_PT_SPAN (paging_mem_max mb) dir = Some (kernel_dir (mem_frame_to_pa t) (paging_mem_max mb))"
    using init_paging_tables(2) [of t mb] by blast
  have run: "vm_init_paging (Some True) mb c s = Some (Inr (?c, ?s'))"
    by (simp add: vm_init_paging_def l(1) l'(1) init_paging_tables(1) dir Let_def)
  have tr: "translate ?c v = (if kernel_mapped (paging_mem_max mb) v then Some v else None)" for v
    by (rule translate_kernel) (simp_all add: CR0_PG_def CR4_PSE_def push_bit_eq_mult)
  have "\<exists>fr l. ?s' = s\<lparr>frames := fr, flists := l\<rparr>
      \<and> (\<forall>f. f_refcount (fr f) = (if f = d \<or> f = t then 1 else f_refcount (frames s f)))"
    by (rule exI [of _ "frames ?s'"], rule exI [of _ l']) (simp add: upd_frame_def)
  with run tr l'(2) show ?thesis by blast
qed

lemma vm_init_paging_no_pse: "pse \<noteq> Some True \<Longrightarrow> vm_init_paging pse mb c s = None"
  by (auto simp: vm_init_paging_def panic_if_def)

end
