(* ===== verification/Kernel_Boot.thy ===== *)
theory Kernel_Boot imports Paging begin

text \<open>
  The boot sequence of \<open>geekos_main\<close> (\<open>src/60-330/kernel/main.c\<close>) as far as it builds the state
  of the kernel: the cleared bss segment, \<open>mem_init\<close>, \<open>vm_init_paging\<close>, \<open>thread_init\<close> and
  \<open>workqueue_init\<close>, \<open>timer_init\<close>.  The console, the interrupt controller and the IDT, which it sets up in
  between, are components of their own.  The result is where every invariant of the kernel
  starts.
\<close>

section \<open>Operations\<close>

text \<open>The globals after \<open>mem_clear_bss\<close>.\<close>

definition mem_clear_bss :: kernel where
  "mem_clear_bss = \<lparr>threads = Map.empty, tqs = empty_lists, g_current = 0, g_need_reschedule = False,
     g_preemption = False, int_flag = False, g_scheduler = FCFS, g_quantum = 0, g_numticks = 0,
     next_pid = 0, g_num_threads = 0, g_simulation_active = False, esp = 0, klog = [],
     heap = empty_heap, frames = (\<lambda>_. \<lparr>f_state = FRAME_AVAIL, vm_pgcache_page_num = 0,
       f_refcount = 0, content = PAGE_PENDING_INIT, errc = 0\<rparr>),
     flists = empty_lists, s_numframes = 0, wq_items = Map.empty, s_workqueue_head = 0,
     s_workqueue_tail = 0, mutexes = (\<lambda>_. \<lparr>m_state = MUTEX_UNLOCKED, m_owner = 0\<rparr>), keys = empty_ring\<rparr>"

definition MB_LOADER_MAGIC :: u32 where "MB_LOADER_MAGIC = 0x2BADB002"

text \<open>\<open>timer_init\<close> lets interrupts in and preemption happen.\<close>

definition timer_init :: "kernel \<Rightarrow> kernel option" where
  "timer_init s = do { s \<leftarrow> int_enable s; Some (s\<lparr>g_preemption := True\<rparr>) }"

definition geekos_boot ::
  "u32 \<Rightarrow> u32 \<Rightarrow> u32 \<Rightarrow> u32 \<Rightarrow> multiboot_info \<Rightarrow> bool option \<Rightarrow> mmu \<Rightarrow> nat \<Rightarrow> nat \<Rightarrow> (mmu \<times> nat \<times> nat) may_wait"
where
  "geekos_boot s_gdt_at s_tss_at loader_magic end_sym boot_record pse cpu thread_idle workqueue_thread = do {
     panic_if (loader_magic \<noteq> MB_LOADER_MAGIC);
     (segs, framelist, s) \<leftarrow> mem_init s_gdt_at s_tss_at end_sym boot_record mem_clear_bss;
     then_do (vm_init_paging pse boot_record cpu s) (\<lambda>cpu s.
     then_do (thread_init thread_idle s) (\<lambda>idle s.
     then_do (workqueue_init workqueue_thread s) (\<lambda>worker s. do {
       s \<leftarrow> timer_init s;
       Some (Inr ((cpu, idle, worker), s))
     })))
   }"

section \<open>Allocation from a heap in which nothing was freed\<close>

lemma malloc_fresh:
  assumes inv: "heap_inv h [] A" and room: "brk h + sz_t + len \<le> h_end h" and "sz_t \<le> len"
  shows "malloc len h = Some (brk h + sz_t, h\<lparr>h_brkval := brk h + sz_t + len, h_sz := (h_sz h)(brk h := len)\<rparr>)"
    and "A (brk h) = None"
    and "heap_inv (h\<lparr>h_brkval := brk h + sz_t + len, h_sz := (h_sz h)(brk h := len)\<rparr>) [] (A(brk h \<mapsto> len))"
proof -
  have "h_flp h = 0" using heap_invD(1) [OF inv] by simp
  moreover have "chunk_len len = len" using assms(3) by (simp add: chunk_len_def)
  ultimately show "malloc len h = Some (brk h + sz_t, h\<lparr>h_brkval := brk h + sz_t + len, h_sz := (h_sz h)(brk h := len)\<rparr>)"
    using heap_inv_extend(1) [OF inv assms(3)] room by (simp add: malloc_unfold malloc_exact.simps)
  show "A (brk h) = None"
    "heap_inv (h\<lparr>h_brkval := brk h + sz_t + len, h_sz := (h_sz h)(brk h := len)\<rparr>) [] (A(brk h \<mapsto> len))"
    using heap_inv_extend(2) [OF inv assms(3) room] by simp_all
qed

text \<open>The heap of \<open>s\<close> is used up to \<open>b\<close>.\<close>

definition used_to :: "nat \<Rightarrow> (nat \<rightharpoonup> nat) \<Rightarrow> kernel \<Rightarrow> bool" where
  "used_to b M s \<longleftrightarrow> heap_inv (heap s) [] M \<and> brk (heap s) = b \<and> 0 < b"

lemma alloc_fresh:
  assumes u: "used_to b M s" and room: "b + sz_t + sz \<le> h_end (heap s)" and "sz_t \<le> sz"
  shows "\<exists>h. mem_alloc sz s = Some (Inr (b + sz_t, s\<lparr>heap := h\<rparr>)) \<and> M b = None
    \<and> used_to (b + sz_t + sz) (M(b \<mapsto> sz)) (s\<lparr>heap := h\<rparr>) \<and> h_end h = h_end (heap s)"
proof -
  have b: "brk (heap s) = b" and inv: "heap_inv (heap s) [] M" using u by (simp_all add: used_to_def)
  note m = malloc_fresh [OF inv, unfolded b, OF room assms(3)]
  let ?h = "heap s\<lparr>h_brkval := b + sz_t + sz, h_sz := (h_sz (heap s))(b := sz)\<rparr>"
  have "mem_alloc sz s = Some (Inr (b + sz_t, s\<lparr>heap := ?h\<rparr>))"
    using m(1) by (simp add: mem_alloc_def mem_alloc_loop_def Let_def)
  moreover have "brk ?h = b + sz_t + sz" by (simp add: brk_def)
  ultimately show ?thesis using m(2,3) by (intro exI [of _ ?h]) (simp add: used_to_def)
qed

lemma kernel_inv_alloc:
  assumes "kernel_inv A M FA s" and "used_to b M' (s\<lparr>heap := h\<rparr>)" and "M' = M(a \<mapsto> k)"
  shows "kernel_inv A M' FA (s\<lparr>heap := h\<rparr>)"
proof -
  have "objects (s\<lparr>heap := h\<rparr>) = objects s" by (simp add: objects_def)
  then show ?thesis
    using assms objects_allocated_mono [of M s "s\<lparr>heap := h\<rparr>" a k]
    by (auto simp: kernel_inv_def used_to_def mem_inv_def frames_inv_def)
qed

lemma frame_fresh:
  assumes inv: "kernel_inv A M FA s" and f: "FA FreeFrames = f # fs"
  shows "\<exists>s'. mem_alloc_frame st rc s = Some (Inr (f, s')) \<and> kernel_inv A M (FA(FreeFrames := fs)) s'
    \<and> (\<exists>l. s' = upd_frame f (\<lambda>fr. fr\<lparr>f_state := st, f_refcount := rc\<rparr>) (s\<lparr>flists := l\<rparr>))"
proof -
  from mem_alloc_frame_ok [OF kernel_invD(3) [OF inv] f, of st rc] obtain l where
    l: "mem_alloc_frame st rc s = Some (Inr (f, upd_frame f (\<lambda>fr. fr\<lparr>f_state := st, f_refcount := rc\<rparr>) (s\<lparr>flists := l\<rparr>)))"
      "frames_inv (FA(FreeFrames := fs)) (upd_frame f (\<lambda>fr. fr\<lparr>f_state := st, f_refcount := rc\<rparr>) (s\<lparr>flists := l\<rparr>))"
    by blast
  let ?s = "upd_frame f (\<lambda>fr. fr\<lparr>f_state := st, f_refcount := rc\<rparr>) (s\<lparr>flists := l\<rparr>)"
  have "sched_inv A ?s" using kernel_invD(1) [OF inv] by (simp add: upd_frame_def)
  moreover have "objects ?s = objects s" "heap ?s = heap s" by (simp_all add: objects_def upd_frame_def)
  ultimately have "kernel_inv A M (FA(FreeFrames := fs)) ?s"
    using inv l(2) by (simp add: kernel_inv_def mem_inv_def objects_allocated_def)
  with l(1) show ?thesis by blast
qed

lemma created_fields:
  "refcount (created_thread fn arg mode s f p) = (if mode = THREAD_ATTACHED then 2 else 1)"
  "start_func (created_thread fn arg mode s f p) = fn" "start_arg (created_thread fn arg mode s f p) = arg"
  "stack (created_thread fn arg mode s f p) = mem_frame_to_pa f"
  by (simp_all add: created_thread_def attach_def zero_thread_def)

text \<open>Creating a thread while there is memory: its record lies at the end of the used heap.\<close>

lemma thread_create_fresh:
  assumes inv: "kernel_inv A M FA s" and u: "used_to b M s" and room: "b + 80 \<le> h_end (heap s)"
    and f: "FA FreeFrames = f # fs" and b: "0 < b"
  shows "\<exists>s' M'. thread_create fn arg mode s = Some (Inr (b + 4, s'))
    \<and> kernel_inv (A(RunQ := sched_insert (g_scheduler s) ((prio s)(b + 4 := 0)) (b + 4) (A RunQ))) M' (FA(FreeFrames := fs)) s'
    \<and> used_to (b + 80) M' s' \<and> h_end (heap s') = h_end (heap s)
    \<and> g_current s' = g_current s \<and> g_scheduler s' = g_scheduler s \<and> int_flag s' = int_flag s
    \<and> next_pid s' = next_pid s + 1
    \<and> (\<exists>th. threads s' = (threads s)(b + 4 \<mapsto> th) \<and> refcount th = (if mode = THREAD_ATTACHED then 2 else 1)
         \<and> start_func th = fn \<and> start_arg th = arg \<and> stack th = mem_frame_to_pa f \<and> priority (process th) = DEFAULT_PRIORITY
         \<and> tstate th = THREAD_READY)"
proof -
  have r1: "b + sz_t + sizeof_thread \<le> h_end (heap s)" "sz_t \<le> sizeof_thread" using room by simp_all
  obtain h1 where
    a1: "mem_alloc sizeof_thread s = Some (Inr (b + 4, s\<lparr>heap := h1\<rparr>))" "M b = None"
      "used_to (b + 4 + 48) (M(b \<mapsto> 48)) (s\<lparr>heap := h1\<rparr>)" "h_end h1 = h_end (heap s)"
    using alloc_fresh [OF u r1] by blast
  note k1 = kernel_inv_alloc [OF inv a1(3) refl]
  obtain s2 l where
    a2: "mem_alloc_frame FRAME_KSTACK 0 (s\<lparr>heap := h1\<rparr>) = Some (Inr (f, s2))"
      "kernel_inv A (M(b \<mapsto> 48)) (FA(FreeFrames := fs)) s2"
      "s2 = upd_frame f (\<lambda>fr. fr\<lparr>f_state := FRAME_KSTACK, f_refcount := 0\<rparr>) (s\<lparr>heap := h1\<rparr>\<lparr>flists := l\<rparr>)"
    using frame_fresh [OF k1 f, of FRAME_KSTACK 0] by blast
  have s2: "threads s2 = threads s" "g_current s2 = g_current s" "g_scheduler s2 = g_scheduler s"
    "next_pid s2 = next_pid s" "g_numticks s2 = g_numticks s" "int_flag s2 = int_flag s" "heap s2 = h1"
    using a2(3) by (simp_all add: upd_frame_def)
  have u2: "used_to (b + 52) (M(b \<mapsto> 48)) s2" using a1(3) s2(7) by (simp add: used_to_def)
  have r2: "b + 52 + sz_t + sizeof_process \<le> h_end (heap s2)" "sz_t \<le> sizeof_process"
    using room a1(4) s2(7) by simp_all
  obtain h3 where
    h3: "mem_alloc sizeof_process s2 = Some (Inr (b + 52 + 4, s2\<lparr>heap := h3\<rparr>))" "(M(b \<mapsto> 48)) (b + 52) = None"
      "used_to (b + 52 + 4 + 24) (M(b \<mapsto> 48, b + 52 \<mapsto> 24)) (s2\<lparr>heap := h3\<rparr>)" "h_end h3 = h_end (heap s2)"
    using alloc_fresh [OF u2 r2] by blast
  have e: "b + 52 + 4 = b + 56" "b + 52 + 4 + 24 = b + 80" by simp_all
  have he: "h_end h3 = h_end (heap s)" using h3(4) s2(7) a1(4) by simp
  note a3 = h3(1-3) [unfolded e] he
  note k3 = kernel_inv_alloc [OF a2(2) a3(3) refl]
  have "\<exists>s'. thread_create fn arg mode s = Some (Inr (b + 4, s')) \<and> threads s (b + 4) = None
    \<and> kernel_inv (A(RunQ := sched_insert (g_scheduler s) ((prio s)(b + 4 := 0)) (b + 4) (A RunQ)))
        (M(b + 4 - sz_t \<mapsto> 48, b + 56 - sz_t \<mapsto> 24)) (FA(FreeFrames := fs)) s'
    \<and> threads s' = (threads s)(b + 4 \<mapsto> (created_thread fn arg mode s f (b + 56))\<lparr>tstate := THREAD_READY,
         process := zero_process\<lparr>pid := next_pid s, priority := DEFAULT_PRIORITY, time := zero_time\<lparr>
           arrival := (if g_numticks s > 0 then g_numticks s else 1)\<rparr>\<rparr>\<rparr>)
    \<and> g_current s' = g_current s \<and> int_flag s' = int_flag s \<and> next_pid s' = next_pid s + 1
    \<and> heap s' = h3 \<and> g_scheduler s' = g_scheduler s"
    by (rule thread_create_success [OF inv, where ?h1.0 = h1 and ?s2.0 = s2])
      (use a1 a2(1,2) a3 k1 k3 s2 f b in \<open>simp_all add: add.commute [of 52 b]\<close>)
  then obtain s' where s': "thread_create fn arg mode s = Some (Inr (b + 4, s'))"
    "kernel_inv (A(RunQ := sched_insert (g_scheduler s) ((prio s)(b + 4 := 0)) (b + 4) (A RunQ)))
        (M(b \<mapsto> 48, b + 52 \<mapsto> 24)) (FA(FreeFrames := fs)) s'"
    "threads s' = (threads s)(b + 4 \<mapsto> (created_thread fn arg mode s f (b + 56))\<lparr>tstate := THREAD_READY,
         process := zero_process\<lparr>pid := next_pid s, priority := DEFAULT_PRIORITY, time := zero_time\<lparr>
           arrival := (if g_numticks s > 0 then g_numticks s else 1)\<rparr>\<rparr>\<rparr>)"
    "g_current s' = g_current s" "int_flag s' = int_flag s" "next_pid s' = next_pid s + 1"
    "heap s' = h3" "g_scheduler s' = g_scheduler s" by (auto simp: add.commute [of 52 b])
  have "used_to (b + 80) (M(b \<mapsto> 48, b + 52 \<mapsto> 24)) s'" using a3(3) s'(7) by (simp add: used_to_def)
  with s' a3(4) created_fields [of fn arg mode s f "b + 56"] show ?thesis by fastforce
qed

section \<open>The state after boot\<close>

text \<open>The main thread: its record and its process are the first two buffers of the heap.\<close>

lemma main_thread_inv:
  assumes u: "used_to b M s" and room: "b + 80 \<le> h_end (heap s)"
    and new: "threads s = Map.empty" "g_current s = 0" "wq_items s = Map.empty"
    and rep: "lists_rep (tqs s) (\<lambda>_. [])" and fr: "frames_inv FA s"
    and flags: "\<not> g_need_reschedule s" "\<not> g_preemption s"
  shows "\<exists>s1 M1. thread_init idle s = thread_create idle 0 THREAD_DETACHED s1
    \<and> kernel_inv (\<lambda>_. []) M1 FA s1 \<and> used_to (b + 80) M1 s1 \<and> h_end (heap s1) = h_end (heap s)
    \<and> g_current s1 = b + 4 \<and> g_scheduler s1 = FCFS \<and> int_flag s1 = int_flag s
    \<and> (\<exists>th. threads s1 = [b + 4 \<mapsto> th] \<and> refcount th = 1)"
proof -
  have b0: "0 < b" using u by (simp add: used_to_def)
  have r1: "b + sz_t + sizeof_thread \<le> h_end (heap s)" "sz_t \<le> sizeof_thread" using room by simp_all
  obtain h1 where
    a1: "mem_alloc sizeof_thread s = Some (Inr (b + 4, s\<lparr>heap := h1\<rparr>))"
      "used_to (b + 4 + 48) (M(b \<mapsto> 48)) (s\<lparr>heap := h1\<rparr>)" "h_end h1 = h_end (heap s)"
    using alloc_fresh [OF u r1] by blast
  let ?t = "b + 4" and ?th = "zero_thread\<lparr>stack := 0x100000, tstate := THREAD_RUNNING, refcount := 1\<rparr>"
  let ?s1 = "(put_thread ?t ?th (s\<lparr>heap := h1\<rparr>))\<lparr>g_current := ?t\<rparr>"
  have u1: "used_to (b + 4 + 48) (M(b \<mapsto> 48)) ?s1" using a1(2) by (simp add: used_to_def put_thread_def)
  have r2: "b + 4 + 48 + sz_t + sizeof_process \<le> h_end (heap ?s1)" "sz_t \<le> sizeof_process"
    using room a1(3) by (simp_all add: put_thread_def)
  obtain h2 where
    a2: "mem_alloc sizeof_process ?s1 = Some (Inr (b + 4 + 48 + 4, ?s1\<lparr>heap := h2\<rparr>))"
      "used_to (b + 4 + 48 + 4 + 24) (M(b \<mapsto> 48, b + 4 + 48 \<mapsto> 24)) (?s1\<lparr>heap := h2\<rparr>)" "h_end h2 = h_end (heap ?s1)"
    using alloc_fresh [OF u1 r2] by blast
  let ?p = "b + 4 + 48 + 4" and ?M = "M(b \<mapsto> 48, b + 4 + 48 \<mapsto> 24)"
  let ?pr = "zero_process\<lparr>pid := next_pid s, priority := DEFAULT_PRIORITY, time := zero_time\<lparr>arrival := 1\<rparr>\<rparr>"
  let ?s2 = "upd_process ?t (\<lambda>pr. ?pr) (((upd_thread ?t (\<lambda>th. th\<lparr>process_ptr := ?p\<rparr>) (?s1\<lparr>heap := h2\<rparr>))
      \<lparr>g_scheduler := FCFS\<rparr>)\<lparr>g_num_threads := next_pid s + 1, next_pid := next_pid s + 1\<rparr>)"
  have thr: "threads ?s2 = [?t \<mapsto> ?th\<lparr>process_ptr := ?p, process := ?pr\<rparr>]"
    using new(1) by (simp add: put_thread_def)
  have sel: "g_current ?s2 = ?t" "g_scheduler ?s2 = FCFS" "int_flag ?s2 = int_flag s" "heap ?s2 = h2" "tqs ?s2 = tqs s"
    "wq_items ?s2 = wq_items s" "flists ?s2 = flists s" "frames ?s2 = frames s"
    by (simp_all add: upd_process_def put_thread_def upd_thread_def)
  have emp: "list_is_empty RunQ (tqs s)" using lists_is_empty_iff [OF rep] by simp
  have run: "thread_init idle s = thread_create idle 0 THREAD_DETACHED ?s2"
    using a1(1) a2(1) new(2) flags emp
    by (simp add: thread_init_def thread_layout Let_def halt_simps gen_pid_eq put_thread_def upd_thread_def)
  have "sched_inv (\<lambda>_. []) ?s2"
    unfolding sched_inv_def queues_inv_def no_thread_lost_def queued_ok_def on_no_list_def sel thr
    using rep b0 by (simp add: zero_thread_def)
  moreover have "used_to (b + 80) ?M ?s2" using a2(2) sel(4) by (simp add: used_to_def)
  moreover have "frames_inv FA ?s2" using fr sel by (simp add: frames_inv_def)
  moreover have "objects_allocated ?M ?s2"
    unfolding objects_allocated_def objects_def thr sel(6) new(3) by (auto simp: zero_thread_def)
  ultimately have k: "kernel_inv (\<lambda>_. []) ?M FA ?s2" "used_to (b + 80) ?M ?s2"
    unfolding kernel_inv_def used_to_def mem_inv_def by blast+
  have e: "h_end (heap ?s2) = h_end (heap s)" using a2(3) a1(3) sel(4) by (simp add: put_thread_def)
  have "refcount (?th\<lparr>process_ptr := ?p, process := ?pr\<rparr>) = 1" by simp
  with run k e sel(1-3) thr show ?thesis by blast
qed

text \<open>
  The whole sequence, on a machine whose layout is as in \<open>mem_init_ok\<close>: the main thread runs,
  the idle thread and the worker are ready, in this order, interrupts and preemption are on,
  and all invariants hold.
\<close>

lemma geekos_boot_ok:
  assumes lay: "x86mem_init_layout end_sym mb = L" and ke: "kernel_end L = 4096 * k" "258 \<le> k"
    and N: "numframes L = N" "k < N" "N < 2 ^ 20" and fl: "0 < framelist_numframes L" "framelist_numframes L < 4096"
  shows "\<exists>cpu' s M. geekos_boot s_gdt_at s_tss_at MB_LOADER_MAGIC end_sym mb (Some True) cpu idle work = Some (Inr ((cpu', 4180, 4260), s))
    \<and> kernel_inv ((\<lambda>_. [])(RunQ := [4180, 4260])) M ((\<lambda>_. [])(FreeFrames := [133..<160] @ [k..<N])) s
    \<and> used_to 4336 M s \<and> h_end (heap s) = 528384 \<and> g_current s = 4100 \<and> g_scheduler s = FCFS \<and> int_flag s \<and> g_preemption s
    \<and> (\<forall>v. translate cpu' v = (if kernel_mapped (paging_mem_max mb) v then Some v else None))
    \<and> (\<exists>t0 t1 t2. threads s = [4100 \<mapsto> t0, 4180 \<mapsto> t1, 4260 \<mapsto> t2] \<and> refcount t0 = 1 \<and> refcount t1 = 1 \<and> refcount t2 = 1
         \<and> start_func t1 = idle \<and> start_func t2 = work \<and> stack t1 = mem_frame_to_pa 131 \<and> stack t2 = mem_frame_to_pa 132)"
proof -
  let ?E = "\<lambda>_. []"
  have bss: "lists_rep (flists mem_clear_bss) ?E" "lists_rep (tqs mem_clear_bss) ?E"
    by (simp_all add: mem_clear_bss_def)
  from mem_init_ok [OF lay ke N fl bss(1), of s_gdt_at s_tss_at] obtain segs s1 fr l where
    s1: "mem_init s_gdt_at s_tss_at end_sym mb mem_clear_bss = Some (segs, 4096 * k, s1)"
      "lists_rep (flists s1) (?E(FreeFrames := [129..<160] @ [k..<N]))"
      "\<forall>f. f_state (frames s1 f) = region_state (4096 * k) f \<and> f_refcount (frames s1 f) = 0"
      "s1 = mem_clear_bss\<lparr>s_numframes := N, heap := mem_heap_init 4096 (4096 + HEAP_SIZE) (heap mem_clear_bss), frames := fr, flists := l\<rparr>"
    by blast
  let ?FA = "(?E :: flist \<Rightarrow> nat list)(FreeFrames := [129..<160] @ [k..<N])"
  have "f_state (frames s1 f) = FRAME_AVAIL" if "f \<in> set [129..<160] \<union> set [k..<N]" for f
    using s1(3) that ke(2) by (auto simp: region_state_def PAGE_SIZE_def)
  then have fr1: "frames_inv ?FA s1" using s1(2) unfolding frames_inv_def by (simp del: upt_Suc)
  have free: "?FA FreeFrames = 129 # 130 # [131..<160] @ [k..<N]"
    by (simp add: upt_rec [of 129] upt_rec [of 130])
  let ?F2 = "?FA(FreeFrames := [131..<160] @ [k..<N])"
  obtain cpu' s2 fr2 l2 where s2: "vm_init_paging (Some True) mb cpu s1 = Some (Inr (cpu', s2))"
    "\<forall>v. translate cpu' v = (if kernel_mapped (paging_mem_max mb) v then Some v else None)"
    "frames_inv ?F2 s2" "s2 = s1\<lparr>frames := fr2, flists := l2\<rparr>"
    using vm_init_paging_ok [OF fr1 free, of mb cpu] by blast
  have sel: "threads s2 = Map.empty" "g_current s2 = 0" "wq_items s2 = Map.empty" "lists_rep (tqs s2) ?E"
    "\<not> g_need_reschedule s2" "\<not> g_preemption s2" "\<not> int_flag s2" "heap s2 = mem_heap_init 4096 528384 empty_heap"
    using bss(2) by (simp_all add: s2(4) s1(4) mem_clear_bss_def HEAP_SIZE_def)
  have u2: "used_to 4096 Map.empty s2"
    unfolding used_to_def sel(8) using heap_inv_init [of 4096 528384] by (simp add: brk_def mem_heap_init_def empty_heap_def)
  have he: "h_end (heap s2) = 528384" by (simp add: sel(8) mem_heap_init_def)
  have r2: "4096 + 80 \<le> h_end (heap s2)" by (simp add: he)
  obtain s3 M3 t0 where s3: "thread_init idle s2 = thread_create idle 0 THREAD_DETACHED s3"
    "kernel_inv ?E M3 ?F2 s3" "used_to (4096 + 80) M3 s3" "h_end (heap s3) = h_end (heap s2)"
    "g_current s3 = 4096 + 4" "g_scheduler s3 = FCFS" "int_flag s3 = int_flag s2" "threads s3 = [4096 + 4 \<mapsto> t0]" "refcount t0 = 1"
    using main_thread_inv [OF u2 r2 sel(1-4) s2(3) sel(5,6), of idle] by blast
  have f3: "?F2 FreeFrames = 131 # [132..<160] @ [k..<N]" by (simp add: upt_rec [of 131])
  have r3: "4096 + 80 + 80 \<le> h_end (heap s3)" by (simp add: s3(4) he)
  obtain s4 M4 t1 where s4: "thread_create idle 0 THREAD_DETACHED s3 = Some (Inr (4096 + 80 + 4, s4))"
    "kernel_inv (?E(RunQ := sched_insert (g_scheduler s3) ((prio s3)(4096 + 80 + 4 := 0)) (4096 + 80 + 4) (?E RunQ))) M4
       (?F2(FreeFrames := [132..<160] @ [k..<N])) s4"
    "used_to (4096 + 80 + 80) M4 s4" "h_end (heap s4) = h_end (heap s3)" "g_current s4 = g_current s3"
    "g_scheduler s4 = g_scheduler s3" "int_flag s4 = int_flag s3" "threads s4 = (threads s3)(4096 + 80 + 4 \<mapsto> t1)"
    "refcount t1 = (if THREAD_DETACHED = THREAD_ATTACHED then 2 else 1)" "start_func t1 = idle" "stack t1 = mem_frame_to_pa 131"
    using thread_create_fresh [OF s3(2,3) r3 f3, of idle 0 THREAD_DETACHED] by fastforce
  have run4: "sched_insert (g_scheduler s3) ((prio s3)(4096 + 80 + 4 := 0)) (4096 + 80 + 4) (?E RunQ) = [4180]"
    using s3(6) by (simp add: sched_insert_def)
  let ?A4 = "(?E :: qid \<Rightarrow> nat list)(RunQ := [4180])" and ?F4 = "?F2(FreeFrames := [132..<160] @ [k..<N])"
  have k4: "kernel_inv ?A4 M4 ?F4 s4" using s4(2) unfolding run4 .
  have f4: "?F4 FreeFrames = 132 # [133..<160] @ [k..<N]" by (simp add: upt_rec [of 132])
  have r4: "4096 + 80 + 80 + 80 \<le> h_end (heap s4)" by (simp add: s4(4) s3(4) he)
  obtain s5 M5 t2 where s5: "thread_create work 0 THREAD_DETACHED s4 = Some (Inr (4096 + 80 + 80 + 4, s5))"
    "kernel_inv (?A4(RunQ := sched_insert (g_scheduler s4) ((prio s4)(4096 + 80 + 80 + 4 := 0)) (4096 + 80 + 80 + 4) (?A4 RunQ))) M5
       (?F4(FreeFrames := [133..<160] @ [k..<N])) s5"
    "used_to (4096 + 80 + 80 + 80) M5 s5" "h_end (heap s5) = h_end (heap s4)" "g_current s5 = g_current s4"
    "g_scheduler s5 = g_scheduler s4" "int_flag s5 = int_flag s4" "threads s5 = (threads s4)(4096 + 80 + 80 + 4 \<mapsto> t2)"
    "refcount t2 = (if THREAD_DETACHED = THREAD_ATTACHED then 2 else 1)" "start_func t2 = work" "stack t2 = mem_frame_to_pa 132"
    using thread_create_fresh [OF k4 s4(3) r4 f4, of work 0 THREAD_DETACHED] by fastforce
  have run5: "sched_insert (g_scheduler s4) ((prio s4)(4096 + 80 + 80 + 4 := 0)) (4096 + 80 + 80 + 4) (?A4 RunQ) = [4180, 4260]"
    using s3(6) s4(6) by (simp add: sched_insert_def)
  have c: "?A4(RunQ := [4180, 4260]) = ?E(RunQ := [4180, 4260])"
    "?F4(FreeFrames := [133..<160] @ [k..<N]) = ?E(FreeFrames := [133..<160] @ [k..<N])" by simp_all
  have k5: "kernel_inv (?E(RunQ := [4180, 4260])) M5 (?E(FreeFrames := [133..<160] @ [k..<N])) s5"
    using s5(2) unfolding run5 c .
  let ?s = "s5\<lparr>int_flag := True, g_preemption := True\<rparr>"
  have off: "\<not> int_flag s5" using s3(7) s4(7) s5(7) sel(7) by simp
  have tm: "timer_init s5 = Some ?s"
    using off by (simp add: timer_init_def int_enable_def int_enabled_def halt_simps)
  have run: "geekos_boot s_gdt_at s_tss_at MB_LOADER_MAGIC end_sym mb (Some True) cpu idle work = Some (Inr ((cpu', 4180, 4260), ?s))"
    using s1(1) s2(1) s3(1) s4(1) s5(1) tm by (simp add: geekos_boot_def workqueue_init_def)
  have "kernel_inv (?E(RunQ := [4180, 4260])) M5 (?E(FreeFrames := [133..<160] @ [k..<N])) ?s"
    using k5 by (simp add: kernel_inv_def mem_inv_def frames_inv_def objects_allocated_def objects_def)
  moreover have "threads ?s = [4100 \<mapsto> t0, 4180 \<mapsto> t1, 4260 \<mapsto> t2]" using s3(8) s4(8) s5(8) by simp
  moreover have "used_to 4336 M5 ?s" using s5(3) by (simp add: used_to_def)
  moreover have "h_end (heap ?s) = 528384" "g_current ?s = 4100" "g_scheduler ?s = FCFS" "int_flag ?s" "g_preemption ?s"
    using s3 s4 s5 he by simp_all
  ultimately show ?thesis using run s2(2) s3(9) s4(9-11) s5(9-11)
    by (intro exI [of _ cpu'] exI [of _ ?s] exI [of _ M5] conjI) auto
qed

text \<open>A machine with 8 MB whose kernel ends at 0x110000.\<close>

lemma layout_8mb:
  "x86mem_init_layout 0x10FFF0 \<lparr>mb_flags = 1, mem_lower = 640, mem_upper = 7168\<rparr>
    = \<lparr>kernel_end = 4096 * 272, memsize_kb = 8192, numframes = 2048, framelist_numframes = 14\<rparr>"
proof -
  have "unat (mem_round_to_page 0x10FFF0) = 4096 * 272" "unat (mem_round_to_page (of_nat (2048 * 28))) = 4096 * 14"
    by (subst mem_round_to_page_ceil; simp)+
  then show ?thesis by (simp add: x86mem_init_layout_def w32_def PAGE_SIZE_def Let_def)
qed

lemma booted_8mb:
  "\<exists>s M. kernel_inv ((\<lambda>_. [])(RunQ := [4180, 4260])) M ((\<lambda>_. [])(FreeFrames := [133..<160] @ [272..<2048])) s
    \<and> used_to 4336 M s \<and> h_end (heap s) = 528384 \<and> g_current s = 4100 \<and> g_scheduler s = FCFS \<and> int_flag s
    \<and> g_preemption s
    \<and> (\<exists>t0 t1 t2. threads s = [4100 \<mapsto> t0, 4180 \<mapsto> t1, 4260 \<mapsto> t2] \<and> refcount t0 = 1 \<and> refcount t1 = 1 \<and> refcount t2 = 1)"
proof -
  define L where "L = \<lparr>kernel_end = 4096 * 272, memsize_kb = 8192, numframes = 2048, framelist_numframes = 14\<rparr>"
  have "kernel_end L = 4096 * 272" "numframes L = 2048" "0 < framelist_numframes L" "framelist_numframes L < 4096"
    by (simp_all add: L_def)
  note L = this
  have n: "(258 :: nat) \<le> 272" "(272 :: nat) < 2048" "(2048 :: nat) < 2 ^ 20" by simp_all
  show ?thesis using geekos_boot_ok [OF layout_8mb [folded L_def] L(1) n(1) L(2) n(2,3) L(3,4)] by blast
qed

text \<open>The state after boot, and the state in which its main thread waits for work.\<close>

lemma booted_sched:
  obtains s t0 t1 t2 M where "sched_inv ((\<lambda>_. [])(RunQ := [4180, 4260])) s" "g_current s = 4100" "int_flag s"
    "g_scheduler s = FCFS" "threads s = [4100 \<mapsto> t0, 4180 \<mapsto> t1, 4260 \<mapsto> t2]" "refcount t0 = 1" "g_preemption s"
    "kernel_inv ((\<lambda>_. [])(RunQ := [4180, 4260])) M ((\<lambda>_. [])(FreeFrames := [133..<160] @ [272..<2048])) s"
    "used_to 4336 M s" "h_end (heap s) = 528384"
  using booted_8mb kernel_invD(1) by fastforce

lemma booted_waiting:
  obtains s s1 where "thread_wait WorkWaitQ s = Some s1"
    "sched_inv ((\<lambda>_. [])(WorkWaitQ := [4100], RunQ := [4260])) (s1\<lparr>int_flag := False\<rparr>)" "g_current s1 = 4180"
    "g_scheduler s1 = FCFS"
proof -
  obtain s where s: "sched_inv ((\<lambda>_. [])(RunQ := [4180, 4260])) s" "g_current s = 4100" "g_scheduler s = FCFS"
    using booted_sched by metis
  let ?s = "s\<lparr>int_flag := False\<rparr>" and ?A = "(\<lambda>_. [])(RunQ := [4180, 4260])"
  have "sched_inv ?A ?s" using s(1) by simp
  from wait_ok [OF this, of WorkWaitQ 4180 "[4260]"] s(2) obtain s1 where
    s1: "thread_wait WorkWaitQ ?s = Some s1" "g_current s1 = 4180" "rest s1 = rest s"
      "sched_inv (?A(WorkWaitQ := [4100], RunQ := [4260])) s1" by auto
  have "?A(WorkWaitQ := [4100], RunQ := [4260]) = (\<lambda>_. [])(WorkWaitQ := [4100], RunQ := [4260])" by auto
  with s1 s(3) rest_sel(2) [OF s1(3)] show ?thesis by (intro that [OF s1(1)]) simp_all
qed

text \<open>An ended thread next to the booted ones: nothing refers to it but its resources.\<close>

lemma sched_inv_add_dead:
  assumes "sched_inv A s" and "on_no_list c A" and "c \<noteq> g_current s" and "tstate th = THREAD_EXITED"
  shows "sched_inv A (put_thread c th s)"
proof -
  have "queues_inv A (put_thread c th s)"
    using queues_inv_put [OF sched_invD(1) [OF assms(1)] assms(2)] by (simp add: put_thread_def)
  moreover have "no_thread_lost {g_current s} A (put_thread c th s)"
    using sched_invD(2) [OF assms(1)] assms(4) by (auto simp: no_thread_lost_def put_thread_def)
  ultimately show ?thesis using assms(1,3) by (simp add: sched_inv_def queued_ok_def put_thread_def)
qed

definition dead_thread :: "nat \<Rightarrow> thread" where
  "dead_thread par = zero_thread\<lparr>stack := mem_frame_to_pa 133, tstate := THREAD_EXITED, exitcode := 7, refcount := 1,
     parent := par, process_ptr := 4392\<rparr>"

lemma booted_dead:
  obtains s :: kernel and M where "sched_inv ((\<lambda>_. [])(RunQ := [4180, 4260])) s" "mem_inv M s"
    "frames_inv ((\<lambda>_. [])(FreeFrames := [134..<160] @ [272..<2048])) s"
    "threads s 4340 = Some (dead_thread 4100)" "g_current s = 4100" "int_flag s"
    "M 4336 = Some 48" "M 4388 = Some 24" "f_refcount (frames s 133) = 0" "g_scheduler s = FCFS"
proof -
  let ?A = "(\<lambda>_. [])(RunQ := [4180, 4260]) :: qid \<Rightarrow> nat list"
  let ?FA = "(\<lambda>_. [])(FreeFrames := [133..<160] @ [272..<2048]) :: flist \<Rightarrow> nat list"
  obtain s M where s: "kernel_inv ?A M ?FA s" "used_to 4336 M s" "h_end (heap s) = 528384"
    "g_current s = 4100" "int_flag s" "g_scheduler s = FCFS"
    by (rule booted_sched, rule that, assumption+)
  have r1: "4336 + sz_t + 48 \<le> h_end (heap s)" "sz_t \<le> 48" using s(3) by simp_all
  obtain h1 where h1: "M 4336 = None" "used_to (4336 + sz_t + 48) (M(4336 \<mapsto> 48)) (s\<lparr>heap := h1\<rparr>)" "h_end h1 = h_end (heap s)"
    using alloc_fresh [OF s(2) r1] by blast
  note k1 = kernel_inv_alloc [OF s(1) h1(2) refl]
  have r2: "4336 + sz_t + 48 + sz_t + 24 \<le> h_end (heap (s\<lparr>heap := h1\<rparr>))" "sz_t \<le> 24" using s(3) h1(3) by simp_all
  obtain h2 where h2: "used_to (4336 + sz_t + 48 + sz_t + 24) (M(4336 \<mapsto> 48, 4336 + sz_t + 48 \<mapsto> 24)) (s\<lparr>heap := h1\<rparr>\<lparr>heap := h2\<rparr>)"
    using alloc_fresh [OF h1(2) r2] by blast
  note k2 = kernel_inv_alloc [OF k1 h2 refl]
  have f: "?FA FreeFrames = 133 # [134..<160] @ [272..<2048]" by (simp add: upt_rec [of 133] del: upt_rec_numeral)
  obtain s3 l where s3: "kernel_inv ?A (M(4336 \<mapsto> 48, 4336 + sz_t + 48 \<mapsto> 24)) (?FA(FreeFrames := [134..<160] @ [272..<2048])) s3"
    "s3 = upd_frame 133 (\<lambda>fr. fr\<lparr>f_state := FRAME_KSTACK, f_refcount := 0\<rparr>) (s\<lparr>heap := h1\<rparr>\<lparr>heap := h2\<rparr>\<lparr>flists := l\<rparr>)"
    using frame_fresh [OF k2 f] by blast
  have sel: "g_current s3 = 4100" "int_flag s3" "g_scheduler s3 = FCFS" "f_refcount (frames s3 133) = 0"
    using s s3(2) by (simp_all add: upd_frame_def)
  let ?s = "put_thread 4340 (dead_thread 4100) s3" and ?M = "M(4336 \<mapsto> 48, 4336 + sz_t + 48 \<mapsto> 24)"
  have F: "?FA(FreeFrames := [134..<160] @ [272..<2048]) = (\<lambda>_. [])(FreeFrames := [134..<160] @ [272..<2048])"
    by (rule fun_upd_upd)
  show ?thesis
  proof (rule that [of ?s ?M])
    show "sched_inv ?A ?s"
      using kernel_invD(1) [OF s3(1)] sel(1) by (intro sched_inv_add_dead) (auto simp: on_no_list_def dead_thread_def)
    show "mem_inv ?M ?s" using kernel_invD(2) [OF s3(1)] by (simp add: mem_inv_def put_thread_def)
    show "frames_inv ((\<lambda>_. [])(FreeFrames := [134..<160] @ [272..<2048])) ?s"
      using kernel_invD(3) [OF s3(1)] unfolding F by (simp add: frames_inv_def put_thread_def del: upt_rec_numeral)
    show "threads ?s 4340 = Some (dead_thread 4100)" "g_current ?s = 4100" "int_flag ?s" "?M 4336 = Some 48"
      "?M 4388 = Some 24" "f_refcount (frames ?s 133) = 0" "g_scheduler ?s = FCFS"
      using sel by (simp_all add: put_thread_def)
  qed
qed

text \<open>A heap in which something is free: the booted kernel after a block was allocated and freed.\<close>

lemma booted_freed:
  obtains s M where "kernel_inv ((\<lambda>_. [])(RunQ := [4180, 4260])) M ((\<lambda>_. [])(FreeFrames := [133..<160] @ [272..<2048])) s"
    "h_flp (heap s) = 4336" "brk (heap s) = 4388" "h_end (heap s) = 528384" "g_current s = 4100" "g_scheduler s = FCFS"
proof -
  let ?A = "(\<lambda>_. [])(RunQ := [4180, 4260]) :: qid \<Rightarrow> nat list"
  let ?FA = "(\<lambda>_. [])(FreeFrames := [133..<160] @ [272..<2048]) :: flist \<Rightarrow> nat list"
  obtain s M where s: "kernel_inv ?A M ?FA s" "used_to 4336 M s" "h_end (heap s) = 528384" "g_current s = 4100" "g_scheduler s = FCFS"
    by (rule booted_sched, rule that, assumption+)
  have r1: "4336 + sz_t + 48 \<le> h_end (heap s)" "sz_t \<le> 48" using s(3) by simp_all
  obtain h1 where h1: "M 4336 = None" "used_to (4336 + sz_t + 48) (M(4336 \<mapsto> 48)) (s\<lparr>heap := h1\<rparr>)" "h_end h1 = h_end (heap s)"
    using alloc_fresh [OF s(2) r1] by blast
  let ?s1 = "s\<lparr>heap := h1\<rparr>" and ?M1 = "M(4336 \<mapsto> 48)"
  note k1 = kernel_inv_alloc [OF s(1) h1(2) refl]
  have hp: "heap_inv h1 [] ?M1" "brk h1 = 4388" using h1(2) by (simp_all add: used_to_def)
  let ?h = "h1\<lparr>h_nx := (h_nx h1)(4336 := 0), h_flp := 4336\<rparr>"
  have bd: "h_start h1 \<le> 4340" "h_flp h1 = 0"
    using allocated_block_in_heap [OF hp(1), of 4336 48] heap_invD(1) [OF hp(1)] by simp_all
  have emp: "list_is_empty HeapWaitQ (tqs s)"
    using lists_is_empty_iff [OF queues_invD(1) [OF sched_invD(1) [OF kernel_invD(1) [OF s(1)]]], of HeapWaitQ] by simp
  have run: "mem_free 4340 ?s1 = Some (s\<lparr>heap := ?h\<rparr>)"
  proof -
    have "free 4340 h1 = Some ?h" using bd(2) by (simp add: free_def Let_def)
    moreover have "thread_wakeup HeapWaitQ (s\<lparr>int_flag := False, heap := ?h\<rparr>) = Some (s\<lparr>int_flag := False, heap := ?h\<rparr>)"
      using emp by (subst thread_wakeup.simps) simp
    ultimately show ?thesis using bd(1) h1(3) s(3) by (simp add: mem_free_def halt_simps)
  qed
  have p: "?M1 (4340 - sz_t) = Some 48" "sz_t \<le> 4340" and a: "4340 - sz_t = 4336" by simp_all
  obtain s' where s': "mem_free 4340 ?s1 = Some s'" "mem_inv (?M1(4340 - sz_t := None)) s'"
    using mem_free_ok [OF kernel_invD(1,2) [OF k1] p] by blast
  have "s' = s\<lparr>heap := ?h\<rparr>" using s'(1) run by (simp only: option.inject)
  with s'(2) have m: "mem_inv (?M1(4336 := None)) (s\<lparr>heap := ?h\<rparr>)" unfolding a by (simp only:)
  have e: "?M1(4336 := None) = M" using h1(1) by (simp add: fun_upd_idem_iff)
  have "objects (s\<lparr>heap := ?h\<rparr>) = objects s" by (simp add: objects_def)
  then have "objects_allocated M (s\<lparr>heap := ?h\<rparr>)" using kernel_invD(4) [OF s(1)] by (simp add: objects_allocated_def)
  moreover have "sched_inv ?A (s\<lparr>heap := ?h\<rparr>)" using kernel_invD(1) [OF s(1)] by simp
  moreover have "frames_inv FA (s\<lparr>heap := ?h\<rparr>) = frames_inv FA s" for FA by (simp add: frames_inv_def)
  then have "frames_inv ?FA (s\<lparr>heap := ?h\<rparr>)" using kernel_invD(3) [OF s(1)] by blast
  ultimately have "kernel_inv ?A M ?FA (s\<lparr>heap := ?h\<rparr>)" using m unfolding e kernel_inv_def by blast
  moreover have "brk ?h = 4388" using hp(2) by (auto simp: brk_def split: if_splits)
  ultimately show ?thesis using s(3-5) h1(3) by (intro that [of M "s\<lparr>heap := ?h\<rparr>"]) (assumption | simp del: upt_rec_numeral)+
qed

end
