(* ===== verification/Range_Lba.thy ===== *)
theory Range_Lba imports Kernel_Prelude begin

text \<open>
  \<open>src/kernel/range.c\<close> (unsigned integer helpers and overflow-safe range checks) and
  \<open>src/kernel/lba.c\<close> (logical block addresses and block sizes).  Everything is computed on
  32-bit words, as the code does; a division by a zero block size is the processor's divide
  fault and hence \<open>None\<close>.
\<close>

section \<open>range.c\<close>

definition range_umin :: "u32 \<Rightarrow> u32 \<Rightarrow> u32" where
  "range_umin a b = (if a < b then a else b)"

definition range_umax :: "u32 \<Rightarrow> u32 \<Rightarrow> u32" where
  "range_umax a b = (if a > b then a else b)"

definition range_is_valid_u32 :: "u32 \<Rightarrow> u32 \<Rightarrow> u32 \<Rightarrow> bool" where
  "range_is_valid_u32 start num tot =
     (if num > tot then False else start \<le> tot - num)"

lemma drop_bit_one_less: "val \<noteq> (0 :: u32) \<Longrightarrow> unat (drop_bit 1 val) < unat val"
proof -
  assume "val \<noteq> 0"
  then have "0 < unat val" by (simp add: unat_gt_0)
  moreover have "unat (drop_bit 1 val) = unat val div 2"
    by (simp add: drop_bit_eq_div unat_div_distrib)
  ultimately show ?thesis by simp
qed

function range_bit_count_loop :: "u32 \<Rightarrow> int \<Rightarrow> int" where
  "range_bit_count_loop val bit_count =
     (if val \<noteq> 0 then range_bit_count_loop (drop_bit 1 val) (bit_count + uint (val AND 1))
      else bit_count)"
  by pat_completeness auto
termination
  by (relation "measure (unat \<circ> fst)") (use drop_bit_one_less in auto)

declare range_bit_count_loop.simps [simp del]

definition range_bit_count :: "u32 \<Rightarrow> int" where
  "range_bit_count val = range_bit_count_loop val 0"

definition range_is_power_of_two :: "u32 \<Rightarrow> bool" where
  "range_is_power_of_two val = (range_bit_count val = 1)"

subsection \<open>The range check does not wrap\<close>

lemma range_umin_eq_min [simp]: "range_umin a b = min a b"
  by (auto simp: range_umin_def not_less min_absorb1 min_absorb2 less_imp_le)

lemma range_umax_eq_max [simp]: "range_umax a b = max a b"
  by (auto simp: range_umax_def not_less max_absorb1 max_absorb2 less_imp_le)

lemma range_valid_iff:
  "range_is_valid_u32 start num tot \<longleftrightarrow> unat start + unat num \<le> unat tot"
proof (cases "num \<le> tot")
  case True
  then have sub: "unat (tot - num) = unat tot - unat num" and le: "unat num \<le> unat tot"
    by (simp_all add: unat_sub word_le_nat_alt)
  have "range_is_valid_u32 start num tot \<longleftrightarrow> unat start \<le> unat (tot - num)"
    by (simp add: range_is_valid_u32_def True [folded not_less] word_le_nat_alt [symmetric])
  then show ?thesis using sub le by linarith
next
  case False
  then show ?thesis
    by (simp add: range_is_valid_u32_def not_le word_less_nat_alt)
qed

subsection \<open>Counting bits\<close>

definition bits_set :: "u32 \<Rightarrow> nat set" where
  "bits_set val = {n. n < 32 \<and> bit val n}"

lemma finite_bits_set [simp]: "finite (bits_set val)"
  by (simp add: bits_set_def)

lemma bits_set_zero [simp]: "bits_set 0 = {}"
  by (simp add: bits_set_def)

lemma bits_set_empty_iff [simp]: "bits_set val = {} \<longleftrightarrow> val = 0"
  by (auto simp: bits_set_def intro!: bit_word_eqI)

lemma bits_set_shift:
  "bits_set val = (if bit val 0 then {0} else {}) \<union> Suc ` bits_set (drop_bit 1 val)"
proof (rule set_eqI)
  fix n
  show "n \<in> bits_set val
    \<longleftrightarrow> n \<in> (if bit val 0 then {0} else {}) \<union> Suc ` bits_set (drop_bit 1 val)"
    using bit_imp_le_length [of val n]
    by (cases n) (auto simp: bits_set_def bit_drop_bit_eq dest: bit_imp_le_length)
qed

lemma card_bits_set_shift:
  "int (card (bits_set val)) = uint (val AND 1) + int (card (bits_set (drop_bit 1 val)))"
proof -
  have "card (bits_set val)
      = card (if bit val 0 then {0 :: nat} else {}) + card (Suc ` bits_set (drop_bit 1 val))"
    by (subst bits_set_shift, rule card_Un_disjoint) auto
  moreover have "uint (val AND 1) = (if bit val 0 then 1 else 0)"
    by (simp add: and_one_eq bit_0 mod_2_eq_odd)
  ultimately show ?thesis by (simp add: card_image)
qed

lemma range_bit_count_loop_eq:
  "range_bit_count_loop val bc = bc + int (card (bits_set val))"
proof (induction val bc rule: range_bit_count_loop.induct)
  case (1 val bc)
  then show ?case
    by (subst range_bit_count_loop.simps) (simp add: card_bits_set_shift [of val])
qed

lemma range_bit_count_card: "range_bit_count val = int (card (bits_set val))"
  by (simp add: range_bit_count_def range_bit_count_loop_eq)

lemma bits_set_exp: "k < 32 \<Longrightarrow> bits_set (2 ^ k) = {k}"
  by (auto simp: bits_set_def bit_exp_iff)

lemma power_of_two_iff: "range_is_power_of_two val \<longleftrightarrow> (\<exists>k < 32. val = 2 ^ k)"
proof
  assume "range_is_power_of_two val"
  then have "card (bits_set val) = 1"
    by (simp add: range_is_power_of_two_def range_bit_count_card)
  then obtain k where k: "bits_set val = {k}" by (auto simp: card_1_singleton_iff)
  then have "k < 32" by (auto simp: bits_set_def)
  moreover have "val = 2 ^ k"
  proof (rule bit_word_eqI)
    fix n :: nat
    assume "n < LENGTH(32)"
    then show "bit val n \<longleftrightarrow> bit (2 ^ k :: u32) n"
      using k bits_set_exp [OF \<open>k < 32\<close>] by (auto simp: bits_set_def set_eq_iff)
  qed
  ultimately show "\<exists>k < 32. val = 2 ^ k" by blast
next
  assume "\<exists>k < 32. val = 2 ^ k"
  then show "range_is_power_of_two val"
    by (auto simp: range_is_power_of_two_def range_bit_count_card bits_set_exp)
qed

section \<open>lba.c\<close>

record blocksize = bs_size :: u32

record lba = lba_val :: u32

definition blocksize_from_size :: "u32 \<Rightarrow> blocksize" where
  "blocksize_from_size sz = \<lparr>bs_size = sz\<rparr>"

definition blocksize_size :: "blocksize \<Rightarrow> u32" where
  "blocksize_size b = bs_size b"

definition lba_from_num :: "u32 \<Rightarrow> lba" where
  "lba_from_num num = \<lparr>lba_val = num\<rparr>"

definition lba_add_offset :: "lba \<Rightarrow> u32 \<Rightarrow> lba option" where
  "lba_add_offset start off = do {
     let dest = lba_val start + off;
     kassert (dest \<ge> lba_val start);
     Some \<lparr>lba_val = dest\<rparr>
   }"

definition lba_num :: "lba \<Rightarrow> u32" where
  "lba_num l = lba_val l"

definition lba_is_range_valid :: "lba \<Rightarrow> u32 \<Rightarrow> u32 \<Rightarrow> bool" where
  "lba_is_range_valid start num_blocks total_blocks =
     range_is_valid_u32 (lba_val start) num_blocks total_blocks"

definition lba_block_offset_in_bytes :: "lba \<Rightarrow> blocksize \<Rightarrow> u32" where
  "lba_block_offset_in_bytes l block_size = lba_val l * bs_size block_size"

definition lba_range_size_in_bytes :: "u32 \<Rightarrow> blocksize \<Rightarrow> u32" where
  "lba_range_size_in_bytes num_blocks block_size = num_blocks * bs_size block_size"

definition lba_get_num_blocks_in_table :: "blocksize \<Rightarrow> u32 \<Rightarrow> u32 \<Rightarrow> u32 option" where
  "lba_get_num_blocks_in_table block_size num_entries entry_size =
     (let table_size_in_bytes = num_entries * entry_size in
      if bs_size block_size = 0 then None
      else let table_size_in_blocks = table_size_in_bytes div bs_size block_size in
        if table_size_in_bytes mod bs_size block_size \<noteq> 0
        then Some (table_size_in_blocks + 1) else Some table_size_in_blocks)"

definition lba_compare :: "lba \<Rightarrow> lba \<Rightarrow> int" where
  "lba_compare lhs rhs =
     (if lba_val lhs < lba_val rhs then -1
      else if lba_val lhs > lba_val rhs then 1 else 0)"

definition lba_num_blocks_in_range :: "lba \<Rightarrow> lba \<Rightarrow> u32 option" where
  "lba_num_blocks_in_range start fin = do {
     kassert (lba_val start \<le> lba_val fin);
     Some (lba_val fin - lba_val start)
   }"

lemmas lba_defs = blocksize_from_size_def blocksize_size_def lba_from_num_def lba_num_def
  lba_is_range_valid_def lba_block_offset_in_bytes_def lba_range_size_in_bytes_def

subsection \<open>Facts used by the block device components\<close>

lemma plus_no_wrap_iff: "x \<le> x + (y :: u32) \<longleftrightarrow> unat x + unat y < 2 ^ 32"
  by (simp add: no_olen_add_nat)

lemma lba_add_offset_eq:
  "lba_add_offset start off =
     (if unat (lba_val start) + unat off < 2 ^ 32
      then Some \<lparr>lba_val = lba_val start + off\<rparr> else None)"
  by (simp add: lba_add_offset_def bind_kassert plus_no_wrap_iff)

lemma lba_compare_less_0 [simp]: "lba_compare lhs rhs < 0 \<longleftrightarrow> lba_val lhs < lba_val rhs"
  by (auto simp: lba_compare_def)

text \<open>The order of block addresses, of which \<open>lba_compare\<close> gives the sign.\<close>

instantiation lba_ext :: (linorder) linorder
begin

definition less_eq_lba_ext :: "'a lba_scheme \<Rightarrow> 'a lba_scheme \<Rightarrow> bool" where
  "less_eq_lba_ext x y \<longleftrightarrow> lba_val x < lba_val y \<or> lba_val x = lba_val y \<and> lba.more x \<le> lba.more y"

definition less_lba_ext :: "'a lba_scheme \<Rightarrow> 'a lba_scheme \<Rightarrow> bool" where
  "less_lba_ext x y \<longleftrightarrow> lba_val x < lba_val y \<or> lba_val x = lba_val y \<and> lba.more x < lba.more y"

instance
proof
  fix x y z :: "'a lba_scheme"
  show "(x < y) = (x \<le> y \<and> \<not> y \<le> x)" by (auto simp: less_eq_lba_ext_def less_lba_ext_def)
  show "x \<le> x" by (simp add: less_eq_lba_ext_def)
  show "x \<le> z" if "x \<le> y" "y \<le> z" using that by (auto simp: less_eq_lba_ext_def)
  show "x = y" if "x \<le> y" "y \<le> x" using that by (cases x; cases y) (auto simp: less_eq_lba_ext_def)
  show "x \<le> y \<or> y \<le> x" by (auto simp: less_eq_lba_ext_def)
qed

end

lemma lba_compare_sgn: "lba_compare lhs rhs = (if lhs < rhs then -1 else if lhs = rhs then 0 else 1)"
  by (cases lhs; cases rhs) (auto simp: lba_compare_def less_lba_ext_def)

lemma min_lba: "(if lba_compare lhs rhs < 0 then lhs else rhs) = min lhs rhs"
  by (auto simp: min_def less_eq_lba_ext_def lba_compare_def)

lemma num_blocks_in_table_ceil:
  assumes "bs_size bs \<noteq> 0" and "unat n * unat e < 2 ^ 32"
  shows "\<exists>b. lba_get_num_blocks_in_table bs n e = Some b
    \<and> unat b = (unat n * unat e + unat (bs_size bs) - 1) div unat (bs_size bs)"
proof -
  let ?t = "unat n * unat e" and ?s = "unat (bs_size bs)"
  have s: "0 < ?s" using assms(1) by (simp add: unat_gt_0)
  have t: "unat (n * e) = ?t" using assms(2) by (rule unat_times_no_wrap)
  have d: "unat (n * e div bs_size bs) = ?t div ?s"
    and m: "unat (n * e mod bs_size bs) = ?t mod ?s"
    by (simp_all add: unat_div_distrib unat_mod_distrib t)
  have z: "n * e mod bs_size bs = 0 \<longleftrightarrow> ?t mod ?s = 0"
    using m by (metis unat_0 unat_eq_0)
  have "?t mod ?s \<noteq> 0 \<Longrightarrow> ?t div ?s + 1 < 2 ^ 32"
  proof -
    assume r: "?t mod ?s \<noteq> 0"
    then have "?s \<noteq> 1" by (metis mod_by_1)
    then have "2 \<le> ?s" using s by simp
    then have "?t div ?s \<le> ?t div 2" by (intro div_le_mono2) auto
    then show ?thesis using assms(2) by simp
  qed
  then have "?t mod ?s \<noteq> 0 \<Longrightarrow> unat (n * e div bs_size bs + 1) = ?t div ?s + 1"
    using d unat_plus_no_wrap [of "n * e div bs_size bs" 1] by simp
  then show ?thesis
    using assms(1) z d ceil_div_nat [OF s, of ?t]
    by (simp add: lba_get_num_blocks_in_table_def Let_def)
qed

end
