(* ===== verification/Peterson.thy ===== *)
theory Peterson imports Kernel_Prelude begin

text \<open>
  Peterson's algorithm (\<open>src/60-330/peterson.c\<close>): the function \<open>peterson\<close> as a sequence of single
  loads and stores, run by two threads in any interleaving.  The two sections are arguments, as in
  the code; they work on a shared state of their own.  The player threads of \<open>job.c\<close> call the
  function again and again; whether a thread that has returned calls it again is open.
\<close>

section \<open>The algorithm\<close>

datatype peterson_index_t = P_I | P_J

record peterson_t =
  flag :: "peterson_index_t \<Rightarrow> bool"
  turn :: peterson_index_t

text \<open>The other index: \<open>j\<close> in the code.\<close>

definition other :: "peterson_index_t \<Rightarrow> peterson_index_t" where
  "other index = (if index = P_I then P_J else P_I)"

text \<open>The statement that a thread executes next; \<open>Returned\<close> is outside the function.\<close>

datatype peterson_pc = Set_flag | Set_turn | Test_flag | Test_turn | Critical | Clear_flag | Remainder | Returned

definition peterson ::
  "('w \<Rightarrow> 'w) \<Rightarrow> ('w \<Rightarrow> 'w) \<Rightarrow> peterson_index_t \<Rightarrow> peterson_pc \<Rightarrow> peterson_t \<times> 'w \<Rightarrow> peterson_pc \<times> peterson_t \<times> 'w"
where
  "peterson critical_section remainder_section i pc = (\<lambda>(p, w).
     let j = other i in
     case pc of
       Set_flag \<Rightarrow> (Set_turn, p\<lparr>flag := (flag p)(i := True)\<rparr>, w)
     | Set_turn \<Rightarrow> (Test_flag, p\<lparr>turn := j\<rparr>, w)
     | Test_flag \<Rightarrow> (if flag p j then Test_turn else Critical, p, w)
     | Test_turn \<Rightarrow> (if turn p = j then Test_flag else Critical, p, w)
     | Critical \<Rightarrow> (Clear_flag, p, critical_section w)
     | Clear_flag \<Rightarrow> (Remainder, p\<lparr>flag := (flag p)(i := False)\<rparr>, w)
     | Remainder \<Rightarrow> (Returned, p, remainder_section w)
     | Returned \<Rightarrow> (Returned, p, w))"

text \<open>Both threads: one step of thread \<open>i\<close>.  A thread that has returned calls the function again
  when \<open>again\<close> says so.\<close>

type_synonym 'w players = "(peterson_index_t \<Rightarrow> peterson_pc) \<times> peterson_t \<times> 'w"

definition player_step ::
  "('w \<Rightarrow> 'w) \<Rightarrow> ('w \<Rightarrow> 'w) \<Rightarrow> peterson_index_t \<times> bool \<Rightarrow> 'w players \<Rightarrow> 'w players"
where
  "player_step cs rs = (\<lambda>(i, again) (pc, s).
     if pc i = Returned then (if again then pc(i := Set_flag) else pc, s)
     else let (c, s) = peterson cs rs i (pc i) s in (pc(i := c), s))"

fun play ::
  "('w \<Rightarrow> 'w) \<Rightarrow> ('w \<Rightarrow> 'w) \<Rightarrow> (nat \<Rightarrow> peterson_index_t \<times> bool) \<Rightarrow> nat \<Rightarrow> 'w players \<Rightarrow> 'w players"
where
  "play cs rs sched 0 s = s"
| "play cs rs sched (Suc n) s = player_step cs rs (sched n) (play cs rs sched n s)"

definition players_start :: "'w \<Rightarrow> 'w players" where
  "players_start w = (\<lambda>_. Returned, \<lparr>flag = \<lambda>_. False, turn = P_I\<rparr>, w)"

section \<open>Mutual exclusion\<close>

definition holds_flag :: "peterson_pc \<Rightarrow> bool" where
  "holds_flag c \<longleftrightarrow> c \<in> {Set_turn, Test_flag, Test_turn, Critical, Clear_flag}"

definition inside :: "peterson_pc \<Rightarrow> bool" where
  "inside c \<longleftrightarrow> c \<in> {Critical, Clear_flag}"

text \<open>The flag of a thread says where it is, and a thread that is inside has been let in: the other
  one is not competing, has not yet given way, or has given way.\<close>

definition players_inv :: "'w players \<Rightarrow> bool" where
  "players_inv = (\<lambda>(pc, p, w). (\<forall>i. flag p i = holds_flag (pc i))
     \<and> (\<forall>i. inside (pc i) \<longrightarrow> pc (other i) \<in> {Test_flag, Test_turn} \<longrightarrow> turn p = i)
     \<and> (\<forall>i. inside (pc i) \<longrightarrow> \<not> inside (pc (other i))))"

lemma other_simps [simp]: "other (other i) = i" "other i \<noteq> i" "i \<noteq> other i"
  by (cases i; simp add: other_def)+

lemma other_cases: "k = i \<or> k = other i"
  by (cases i; cases k) (simp_all add: other_def)

lemma not_other: "k \<noteq> other i \<longleftrightarrow> k = i"
  using other_cases other_simps(2) by metis

lemma all_index: "(\<forall>k. P k) \<longleftrightarrow> P i \<and> P (other i)"
  using other_cases by metis

lemma players_inv_start: "players_inv (players_start w)"
  by (simp add: players_inv_def players_start_def holds_flag_def inside_def)

lemma players_inv_step:
  assumes "players_inv s"
  shows "players_inv (player_step cs rs a s)"
proof -
  obtain i again pc p w where s: "a = (i, again)" "s = (pc, p, w)" by (metis prod.exhaust)
  show ?thesis
    using assms unfolding s players_inv_def all_index [where i = i]
    by (cases "pc i"; cases "pc (other i)")
      (auto simp: player_step_def peterson_def Let_def holds_flag_def inside_def not_other)
qed

lemma players_inv_play: "players_inv s \<Longrightarrow> players_inv (play cs rs sched n s)"
  by (induction n) (simp_all add: players_inv_step)

section \<open>Progress under a fair schedule\<close>

text \<open>
  The rule for progress: in every state of \<open>within\<close> a component is helpful.  Its step lowers the measure
  or reaches the goal; a step of another one does that too or leaves the measure and the helpful
  component as they are.  When every component is scheduled again and again, the goal is reached.
\<close>

locale fair_progress =
  fixes stp :: "'i \<times> 'b \<Rightarrow> 's \<Rightarrow> 's" and within :: "'s \<Rightarrow> bool" and goal :: "'s \<Rightarrow> bool"
    and helpful :: "'s \<Rightarrow> 'i" and meas :: "'s \<Rightarrow> nat"
  assumes stays: "within s \<Longrightarrow> goal (stp a s) \<or> within (stp a s)"
    and lowers: "within s \<Longrightarrow> fst a = helpful s \<Longrightarrow> goal (stp a s) \<or> meas (stp a s) < meas s"
    and keeps: "within s \<Longrightarrow> fst a \<noteq> helpful s \<Longrightarrow> goal (stp a s) \<or> meas (stp a s) < meas s
        \<or> (meas (stp a s) = meas s \<and> helpful (stp a s) = helpful s)"
begin

lemma reaches_goal:
  fixes run :: "nat \<Rightarrow> 's" and sched :: "nat \<Rightarrow> 'i \<times> 'b"
  assumes run: "\<And>k. run (Suc k) = stp (sched k) (run k)" and fair: "\<And>i k. \<exists>m \<ge> k. fst (sched m) = i"
    and "within (run n)"
  shows "\<exists>m \<ge> n. goal (run m)"
  using assms(3)
proof (induction "meas (run n)" arbitrary: n rule: less_induct)
  case less
  obtain m where m: "m \<ge> n" "fst (sched m) = helpful (run n)" using fair by blast
  have "(\<exists>l \<ge> n. goal (run l)) \<or> (within (run k) \<and> meas (run k) = meas (run n) \<and> helpful (run k) = helpful (run n))
      \<or> (\<exists>l \<ge> n. within (run l) \<and> meas (run l) < meas (run n))" if "n \<le> k" for k
    using that
  proof (induction k rule: dec_induct)
    case base
    then show ?case using less.prems by simp
  next
    case (step k)
    show ?case
    proof (cases "within (run k) \<and> meas (run k) = meas (run n) \<and> helpful (run k) = helpful (run n)")
      case True
      then have "goal (run (Suc k)) \<or> within (run (Suc k)) \<and> (meas (run (Suc k)) < meas (run n)
          \<or> (meas (run (Suc k)) = meas (run n) \<and> helpful (run (Suc k)) = helpful (run n)))"
        using stays [of "run k" "sched k"] lowers [of "run k" "sched k"] keeps [of "run k" "sched k"] run [of k] by metis
      then show ?thesis using step.hyps by (meson le_SucI)
    next
      case False
      then show ?thesis using step.IH by blast
    qed
  qed
  from this [OF m(1)] consider "\<exists>l \<ge> n. goal (run l)" | "\<exists>l \<ge> n. within (run l) \<and> meas (run l) < meas (run n)"
    | "within (run m)" "meas (run m) = meas (run n)" "helpful (run m) = helpful (run n)" by blast
  then show ?case
  proof cases
    case 2
    then obtain l where "l \<ge> n" "within (run l)" "meas (run l) < meas (run n)" by blast
    then show ?thesis using less.hyps [of l] by (meson le_trans)
  next
    case 3
    then have "goal (run (Suc m)) \<or> within (run (Suc m)) \<and> meas (run (Suc m)) < meas (run n)"
      using stays [of "run m" "sched m"] lowers [of "run m" "sched m"] run [of m] m(2) by metis
    then show ?thesis using less.hyps [of "Suc m"] m(1) by (meson le_SucI le_trans)
  qed blast
qed

end

text \<open>Thread \<open>i\<close> waits at the loop.  The other one is helpful until it gives way, unless it has
  returned; the measure is the number of its statements until then.\<close>

fun until_gives_way :: "peterson_pc \<Rightarrow> nat" where
  "until_gives_way Set_turn = 1"
| "until_gives_way Set_flag = 2"
| "until_gives_way Returned = 3"
| "until_gives_way Remainder = 4"
| "until_gives_way Clear_flag = 5"
| "until_gives_way Critical = 6"
| "until_gives_way Test_turn = 7"
| "until_gives_way Test_flag = 8"

definition waiting_at :: "peterson_index_t \<Rightarrow> 'w players \<Rightarrow> bool" where
  "waiting_at i s \<longleftrightarrow> players_inv s \<and> fst s i \<in> {Test_flag, Test_turn}"

definition way_helper :: "peterson_index_t \<Rightarrow> 'w players \<Rightarrow> peterson_index_t" where
  "way_helper i = (\<lambda>(pc, p, w). if turn p = i \<or> pc (other i) = Returned then i else other i)"

definition way_measure :: "peterson_index_t \<Rightarrow> 'w players \<Rightarrow> nat" where
  "way_measure i = (\<lambda>(pc, p, w).
     if turn p = i then (if pc i = Test_flag then 1 else 0)
     else 2 * until_gives_way (pc (other i)) + (if pc (other i) = Returned \<and> pc i = Test_turn then 1 else 0))"

definition way_goal :: "peterson_index_t \<Rightarrow> 'w players \<Rightarrow> bool" where
  "way_goal i s \<longleftrightarrow> fst s i = Critical"

lemmas way_defs = waiting_at_def way_helper_def way_measure_def way_goal_def

interpretation way: fair_progress "player_step cs rs" "waiting_at i" "way_goal i" "way_helper i" "way_measure i"
  for cs rs :: "'w \<Rightarrow> 'w" and i
proof unfold_locales
  fix s :: "'w players" and a :: "peterson_index_t \<times> bool"
  obtain k again pc p w where s: "a = (k, again)" "s = (pc, p, w)" by (metis prod.exhaust)
  assume w: "waiting_at i s"
  have inv: "players_inv (player_step cs rs a s)" using w by (simp only: waiting_at_def players_inv_step)
  show "way_goal i (player_step cs rs a s) \<or> waiting_at i (player_step cs rs a s)"
    using w inv other_cases [of k i] unfolding s way_defs
    by (auto simp: player_step_def peterson_def Let_def split: prod.splits peterson_pc.splits if_splits)
  have h: "flag p (other i) = holds_flag (pc (other i))" using w unfolding s by (simp add: waiting_at_def players_inv_def)
  { assume "fst a = way_helper i s"
    then show "way_goal i (player_step cs rs a s) \<or> way_measure i (player_step cs rs a s) < way_measure i s"
      using w h unfolding s way_defs players_inv_def all_index [where i = i]
      by (cases "turn p = i"; cases "pc (other i)"; cases "pc i")
        (auto simp: player_step_def peterson_def Let_def holds_flag_def inside_def) }
  { assume "fst a \<noteq> way_helper i s"
    then show "way_goal i (player_step cs rs a s) \<or> way_measure i (player_step cs rs a s) < way_measure i s
        \<or> way_measure i (player_step cs rs a s) = way_measure i s \<and> way_helper i (player_step cs rs a s) = way_helper i s"
      using w h other_cases [of k i] unfolding s way_defs players_inv_def all_index [where i = i]
      by (cases "turn p = i"; cases "pc (other i)"; cases "pc i")
        (auto simp: player_step_def peterson_def Let_def holds_flag_def inside_def) }
qed

section \<open>Nobody starves\<close>

lemma other_moves: "k \<noteq> i \<Longrightarrow> fst (player_step cs rs (k, again) (pc, s)) i = pc i"
  by (cases s) (auto simp: player_step_def split: prod.splits)

lemma own_step:
  assumes fair: "\<And>i k. \<exists>m \<ge> k. fst (sched m) = i"
  shows "\<exists>m \<ge> n. fst (sched m) = i \<and> fst (play cs rs sched m s) i = fst (play cs rs sched n s) i"
proof -
  let ?m = "LEAST m. m \<ge> n \<and> fst (sched m) = i"
  have m: "?m \<ge> n \<and> fst (sched ?m) = i" using fair [of n i] by (rule LeastI_ex)
  have "fst (play cs rs sched k s) i = fst (play cs rs sched n s) i" if "n \<le> k" "k \<le> ?m" for k
    using that
  proof (induction k rule: dec_induct)
    case (step k)
    then have "fst (sched k) \<noteq> i" using not_less_Least [of k "\<lambda>m. m \<ge> n \<and> fst (sched m) = i"] by auto
    then have "fst (play cs rs sched (Suc k) s) i = fst (play cs rs sched k s) i"
      using other_moves by (metis play.simps(2) prod.collapse)
    with step show ?case by simp
  qed simp
  with m show ?thesis by blast
qed

lemma own_step_to:
  assumes fair: "\<And>i k. \<exists>m \<ge> k. fst (sched m) = i"
    and at: "fst (play cs rs sched n s) i = c" "c = Set_flag \<and> d = Set_turn \<or> c = Set_turn \<and> d = Test_flag"
  shows "\<exists>m \<ge> n. fst (play cs rs sched m s) i = d"
proof -
  obtain m where m: "m \<ge> n" "fst (sched m) = i" "fst (play cs rs sched m s) i = c" using own_step [OF fair] at(1) by metis
  then have "fst (play cs rs sched (Suc m) s) i = d"
    using at(2) by (cases "sched m"; cases "play cs rs sched m s") (auto simp: player_step_def peterson_def Let_def split: prod.splits)
  then show ?thesis using m(1) by (intro exI [of _ "Suc m"]) simp
qed

lemma enters:
  assumes fair: "\<And>i k. \<exists>m \<ge> k. fst (sched m) = i" and "players_inv s"
    and "fst (play cs rs sched n s) i \<in> {Set_flag, Set_turn, Test_flag, Test_turn}"
  shows "\<exists>m \<ge> n. fst (play cs rs sched m s) i = Critical"
proof -
  have "\<exists>k \<ge> n. fst (play cs rs sched k s) i \<in> {Test_flag, Test_turn}"
    using assms(3) own_step_to [OF fair, of cs rs _ s i Set_flag Set_turn] own_step_to [OF fair, of cs rs _ s i Set_turn Test_flag]
    by (smt (verit) insert_iff empty_iff le_trans order_refl)
  then obtain k where k: "k \<ge> n" "waiting_at i (play cs rs sched k s)"
    using players_inv_play [OF assms(2)] by (auto simp: waiting_at_def)
  have "\<exists>m \<ge> k. way_goal i (play cs rs sched m s)"
    by (rule way.reaches_goal [where run = "\<lambda>k. play cs rs sched k s" and sched = sched, OF _ fair k(2)]) simp
  with k(1) show ?thesis by (auto simp: way_goal_def intro: le_trans)
qed

end
