(* ===== verification/X86_Interrupts.thy ===== *)
theory X86_Interrupts imports X86_Cpu Kernel_State begin

text \<open>
  Interrupts of the processor and of the interrupt controllers: the stubs and the common
  entry and exit code of \<open>src/x86/kernel/x86_int_asm.S\<close> with the frame that \<open>struct thread_context\<close>
  describes (\<open>include/x86/arch/thread.h\<close>), the handler table and the IDT (\<open>x86_int.c\<close>) and the
  masks of the two i8259A controllers (\<open>x86_irq.c\<close>).  What the processor pushes and pops, and
  that a controller keeps the last byte written to its mask port, is taken from their documentation.
\<close>

section \<open>Saving and restoring a thread's registers\<close>

record registers =
  r_eax :: u32
  r_ebx :: u32
  r_ecx :: u32
  r_edx :: u32
  r_esi :: u32
  r_edi :: u32
  r_ebp :: u32
  r_ds :: u32
  r_es :: u32
  r_fs :: u32
  r_gs :: u32

text \<open>A stack is the list of its words, top first.\<close>

definition THREAD_SAVE_REGISTERS :: "registers \<Rightarrow> u32 list \<Rightarrow> u32 list" where
  "THREAD_SAVE_REGISTERS r st = (
     let st = r_eax r # st; st = r_ebx r # st; st = r_ecx r # st; st = r_edx r # st; st = r_esi r # st;
         st = r_edi r # st; st = r_ebp r # st; st = r_ds r # st; st = r_es r # st; st = r_fs r # st
     in r_gs r # st)"

fun THREAD_RESTORE_REGISTERS :: "u32 list \<Rightarrow> (registers \<times> u32 list) option" where
  "THREAD_RESTORE_REGISTERS (gs # fs # es # ds # ebp # edi # esi # edx # ecx # ebx # eax # st) =
     Some (\<lparr>r_eax = eax, r_ebx = ebx, r_ecx = ecx, r_edx = edx, r_esi = esi, r_edi = edi, r_ebp = ebp,
            r_ds = ds, r_es = es, r_fs = fs, r_gs = gs\<rparr>, st)"
| "THREAD_RESTORE_REGISTERS _ = None"

definition THREAD_SAVED_REG_LEN :: nat where "THREAD_SAVED_REG_LEN = 44"

text \<open>The frame that a handler gets a pointer to.\<close>

record thread_context =
  tc_gs :: u32
  tc_fs :: u32
  tc_es :: u32
  tc_ds :: u32
  tc_ebp :: u32
  tc_edi :: u32
  tc_esi :: u32
  tc_edx :: u32
  tc_ecx :: u32
  tc_ebx :: u32
  tc_eax :: u32
  tc_int_num :: int
  tc_errorcode :: u32
  tc_eip :: u32
  tc_cs :: u32
  tc_eflags :: u32

definition context_at :: "u32 list \<Rightarrow> thread_context" where
  "context_at st = \<lparr>tc_gs = st ! 0, tc_fs = st ! 1, tc_es = st ! 2, tc_ds = st ! 3, tc_ebp = st ! 4, tc_edi = st ! 5,
     tc_esi = st ! 6, tc_edx = st ! 7, tc_ecx = st ! 8, tc_ebx = st ! 9, tc_eax = st ! 10, tc_int_num = sint (st ! 11),
     tc_errorcode = st ! 12, tc_eip = st ! 13, tc_cs = st ! 14, tc_eflags = st ! 15\<rparr>"

section \<open>Stubs\<close>

definition INT_HANDLER_STUB_LEN :: nat where "INT_HANDLER_STUB_LEN = 16"
definition INT_NUM_INTERRUPTS :: nat where "INT_NUM_INTERRUPTS = 64"

datatype int_stub = Stub nat | Stub_errcode nat

definition HANDLER_STUB_X2 :: "nat \<Rightarrow> int_stub list" where
  "HANDLER_STUB_X2 n = [Stub n, Stub (n + 1)]"

definition HANDLER_STUB_X4 :: "nat \<Rightarrow> int_stub list" where
  "HANDLER_STUB_X4 n = HANDLER_STUB_X2 n @ HANDLER_STUB_X2 (n + 2)"

definition HANDLER_STUB_X8 :: "nat \<Rightarrow> int_stub list" where
  "HANDLER_STUB_X8 n = HANDLER_STUB_X4 n @ HANDLER_STUB_X4 (n + 4)"

definition int_handler_stub_vector :: "int_stub list" where
  "int_handler_stub_vector = HANDLER_STUB_X8 0 @ [Stub_errcode 8, Stub 9, Stub_errcode 10, Stub_errcode 11,
     Stub_errcode 12, Stub_errcode 13, Stub_errcode 14] @ HANDLER_STUB_X2 15 @ [Stub_errcode 17]
     @ HANDLER_STUB_X2 18 @ HANDLER_STUB_X4 20 @ HANDLER_STUB_X8 24 @ HANDLER_STUB_X8 32 @ HANDLER_STUB_X8 40
     @ HANDLER_STUB_X8 48 @ HANDLER_STUB_X8 56"

fun run_stub :: "int_stub \<Rightarrow> u32 list \<Rightarrow> u32 list" where
  "run_stub (Stub n) st = of_nat n # 0 # st"
| "run_stub (Stub_errcode n) st = of_nat n # st"

text \<open>The processor pushes flags and return address, and an error code for some exceptions.\<close>

definition cpu_error_code :: "nat \<Rightarrow> bool" where
  "cpu_error_code n \<longleftrightarrow> n \<in> {8, 10, 11, 12, 13, 14, 17}"

definition cpu_push :: "nat \<Rightarrow> u32 \<Rightarrow> u32 \<Rightarrow> u32 \<Rightarrow> u32 \<Rightarrow> u32 list \<Rightarrow> u32 list" where
  "cpu_push n err eip cs eflags st = (if cpu_error_code n then err # eip # cs # eflags # st else eip # cs # eflags # st)"

text \<open>The common code before the call of the C handler and after it, when the thread goes on.\<close>

definition int_enter :: "nat \<Rightarrow> u32 \<Rightarrow> u32 \<Rightarrow> u32 \<Rightarrow> u32 \<Rightarrow> registers \<Rightarrow> u32 list \<Rightarrow> registers \<times> u32 list" where
  "int_enter n err eip cs eflags r st = (
     let st = THREAD_SAVE_REGISTERS r (run_stub (int_handler_stub_vector ! n) (cpu_push n err eip cs eflags st))
     in (r\<lparr>r_ds := ucast KERN_DS, r_es := ucast KERN_DS, r_esi := st ! (THREAD_SAVED_REG_LEN div 4)\<rparr>, st))"

definition int_leave :: "u32 list \<Rightarrow> (registers \<times> u32 \<times> u32 \<times> u32 \<times> u32 list) option" where
  "int_leave st = do {
     (r, st) \<leftarrow> THREAD_RESTORE_REGISTERS st;
     let st = drop 2 st;
     (case st of eip # cs # eflags # st \<Rightarrow> Some (r, eip, cs, eflags, st) | _ \<Rightarrow> None)
   }"

section \<open>The handler table and the IDT\<close>

record int_state =
  s_idt :: "x86_interrupt_gate list"
  idtr :: "u16 list"
  g_int_handler_table :: "nat list"

text \<open>\<open>stubs_at\<close> and \<open>stubs_end\<close> are the addresses of the two labels around the stubs.\<close>

definition int_init :: "u32 \<Rightarrow> u32 \<Rightarrow> u32 \<Rightarrow> nat \<Rightarrow> int_state option" where
  "int_init stubs_at stubs_end s_idt_at int_unexpected_int_handler = do {
     let num_handler_stubs = sint (stubs_end - stubs_at);
     panic_if (num_handler_stubs div int INT_HANDLER_STUB_LEN \<noteq> int INT_NUM_INTERRUPTS);
     Some \<lparr>s_idt = map (\<lambda>i. x86_init_int_gate (stubs_at + of_nat (i * INT_HANDLER_STUB_LEN)) PRIV_KERN) [0..<INT_NUM_INTERRUPTS],
           idtr = [of_nat (8 * INT_NUM_INTERRUPTS), ucast (s_idt_at AND 0xFFFF), ucast (drop_bit 16 s_idt_at)],
           g_int_handler_table = map (\<lambda>i. int_unexpected_int_handler) [0..<INT_NUM_INTERRUPTS]\<rparr>
   }"

definition int_install_handler :: "int \<Rightarrow> nat \<Rightarrow> int_state \<Rightarrow> int_state option" where
  "int_install_handler int_num handler s = do {
     kassert (int_num \<ge> 0 \<and> int_num < int INT_NUM_INTERRUPTS);
     Some (s\<lparr>g_int_handler_table := (g_int_handler_table s)[nat int_num := handler]\<rparr>)
   }"

text \<open>The handler that the common code calls for the frame on top of the stack.\<close>

definition int_dispatch :: "int_state \<Rightarrow> u32 list \<Rightarrow> nat" where
  "int_dispatch s st = g_int_handler_table s ! unat (st ! (THREAD_SAVED_REG_LEN div 4))"

section \<open>The interrupt controllers\<close>

definition ICW1 :: u8 where "ICW1 = 0x11"
definition ICW2_MASTER :: u8 where "ICW2_MASTER = 0x20"
definition ICW2_SLAVE :: u8 where "ICW2_SLAVE = 0x28"
definition ICW3_MASTER :: u8 where "ICW3_MASTER = 0x04"
definition ICW3_SLAVE :: u8 where "ICW3_SLAVE = 0x02"
definition ICW4 :: u8 where "ICW4 = 0x01"
definition MASTER :: "u16 \<Rightarrow> u8" where "MASTER msk = ucast (msk AND 0xff)"
definition SLAVE :: "u16 \<Rightarrow> u8" where "SLAVE msk = ucast (drop_bit 8 msk AND 0xff)"
definition FIRST_IRQ :: int where "FIRST_IRQ = 32"
definition NUM_IRQS :: int where "NUM_IRQS = 16"
definition VALID_IRQ :: "int \<Rightarrow> bool" where "VALID_IRQ irq \<longleftrightarrow> irq \<ge> 0 \<and> irq < NUM_IRQS"

text \<open>The mask and the bytes written to the ports so far, first one first.\<close>

record irq_state =
  s_irqmask :: u16
  port_out :: "(u16 \<times> u8) list"

definition ioport_outb :: "u16 \<Rightarrow> u8 \<Rightarrow> irq_state \<Rightarrow> irq_state" where
  "ioport_outb port val s = s\<lparr>port_out := port_out s @ [(port, val)]\<rparr>"

definition irq_init :: "irq_state \<Rightarrow> irq_state" where
  "irq_init s = (
     let s = ioport_outb 0x20 ICW1 s;
         s = ioport_outb 0xA0 ICW1 s;
         s = ioport_outb 0x21 ICW2_MASTER s;
         s = ioport_outb 0xA1 ICW2_SLAVE s;
         s = ioport_outb 0x21 ICW3_MASTER s;
         s = ioport_outb 0xA1 ICW3_SLAVE s;
         s = ioport_outb 0x21 ICW4 s;
         s = ioport_outb 0xA1 ICW4 s;
         s = ioport_outb 0xA1 0xFF s;
         s = ioport_outb 0x21 0xFB s
     in s\<lparr>s_irqmask := 0xfffb\<rparr>)"

definition irq_install_handler :: "int \<Rightarrow> nat \<Rightarrow> int_state \<Rightarrow> int_state option" where
  "irq_install_handler irq handler s = do {
     kassert (VALID_IRQ irq);
     int_install_handler (FIRST_IRQ + irq) handler s
   }"

definition irq_get_mask :: "irq_state \<Rightarrow> u16" where "irq_get_mask s = s_irqmask s"

definition irq_set_mask :: "u16 \<Rightarrow> irq_state \<Rightarrow> irq_state" where
  "irq_set_mask msk s = (
     let oldmask = MASTER (s_irqmask s); newmask = MASTER msk;
         s = (if newmask \<noteq> oldmask then ioport_outb 0x21 newmask s else s);
         oldmask = SLAVE (s_irqmask s); newmask = SLAVE msk;
         s = (if newmask \<noteq> oldmask then ioport_outb 0xA1 newmask s else s)
     in s\<lparr>s_irqmask := msk\<rparr>)"

definition MODIFY_IRQ_MASK :: "int \<Rightarrow> (u16 \<Rightarrow> u16) \<Rightarrow> kernel \<times> irq_state \<Rightarrow> (kernel \<times> irq_state) option" where
  "MODIFY_IRQ_MASK irq upd = (\<lambda>(k, s). do {
     (iflag, k) \<leftarrow> int_begin_atomic k;
     let msk = irq_get_mask s;
     kassert (VALID_IRQ irq);
     let s = irq_set_mask (upd msk) s;
     k \<leftarrow> int_end_atomic iflag k;
     Some (k, s)
   })"

definition irq_enable :: "int \<Rightarrow> kernel \<times> irq_state \<Rightarrow> (kernel \<times> irq_state) option" where
  "irq_enable irq = MODIFY_IRQ_MASK irq (\<lambda>msk. msk AND NOT (push_bit (nat irq) 1))"

definition irq_disable :: "int \<Rightarrow> kernel \<times> irq_state \<Rightarrow> (kernel \<times> irq_state) option" where
  "irq_disable irq = MODIFY_IRQ_MASK irq (\<lambda>msk. msk OR push_bit (nat irq) 1)"

definition irq_begin :: "thread_context \<Rightarrow> irq_state \<Rightarrow> irq_state" where
  "irq_begin context s = s"

definition irq_end :: "thread_context \<Rightarrow> irq_state \<Rightarrow> irq_state option" where
  "irq_end context s = do {
     let irq = tc_int_num context - FIRST_IRQ;
     let command = (0x60 OR (word_of_int irq AND 0x7) :: u8);
     kassert (VALID_IRQ irq);
     if irq < 8 then Some (ioport_outb 0x20 command s)
     else Some (ioport_outb 0x20 0x62 (ioport_outb 0xA0 command s))
   }"

section \<open>Entry and exit\<close>

lemma stub_vector_all:
  "list_all (\<lambda>n. int_handler_stub_vector ! n = (if cpu_error_code n then Stub_errcode n else Stub n)) [0..<64]
   \<and> length int_handler_stub_vector = INT_NUM_INTERRUPTS"
  by code_simp

lemma stub_vector:
  assumes "n < 64"
  shows "int_handler_stub_vector ! n = (if cpu_error_code n then Stub_errcode n else Stub n)"
  using stub_vector_all assms by (simp add: list_all_iff)

text \<open>Whether or not the processor pushes an error code, the frame has the same layout.\<close>

lemma stub_frame:
  assumes "n < 64"
  shows "run_stub (int_handler_stub_vector ! n) (cpu_push n err eip cs eflags st)
    = of_nat n # (if cpu_error_code n then err else 0) # eip # cs # eflags # st"
  using stub_vector [OF assms] by (simp add: cpu_push_def)

lemma restore_save [simp]: "THREAD_RESTORE_REGISTERS (THREAD_SAVE_REGISTERS r st) = Some (r, st)"
  by (simp add: THREAD_SAVE_REGISTERS_def Let_def)

lemma sint_small: "n < 64 \<Longrightarrow> sint (of_nat n :: u32) = int n"
  by (simp add: signed_of_nat signed_take_bit_int_eq_self)

text \<open>Every field of the frame, the segments that the handler runs with, and the size of the frame.\<close>

lemma interrupt_frame:
  assumes n: "n < 64" and e: "int_enter n err eip cs eflags r st = (r', st')"
  shows "context_at st' = \<lparr>tc_gs = r_gs r, tc_fs = r_fs r, tc_es = r_es r, tc_ds = r_ds r, tc_ebp = r_ebp r, tc_edi = r_edi r,
        tc_esi = r_esi r, tc_edx = r_edx r, tc_ecx = r_ecx r, tc_ebx = r_ebx r, tc_eax = r_eax r, tc_int_num = int n,
        tc_errorcode = (if cpu_error_code n then err else 0), tc_eip = eip, tc_cs = cs, tc_eflags = eflags\<rparr>"
    and "r' = r\<lparr>r_ds := ucast KERN_DS, r_es := ucast KERN_DS, r_esi := of_nat n\<rparr>"
    and "4 * length st' = 4 * length st + THREAD_CONTEXT_SIZE"
    and "int_dispatch h st' = g_int_handler_table h ! n"
    and "int_leave st' = Some (r, eip, cs, eflags, st)"
proof -
  have st: "st' = r_gs r # r_fs r # r_es r # r_ds r # r_ebp r # r_edi r # r_esi r # r_edx r # r_ecx r # r_ebx r # r_eax r #
      of_nat n # (if cpu_error_code n then err else 0) # eip # cs # eflags # st"
    using e unfolding int_enter_def Let_def stub_frame [OF n] THREAD_SAVE_REGISTERS_def by simp
  have u: "unat (of_nat n :: u32) = n" using n by (simp add: unat_of_nat take_bit_nat_eq_self)
  show "context_at st' = \<lparr>tc_gs = r_gs r, tc_fs = r_fs r, tc_es = r_es r, tc_ds = r_ds r, tc_ebp = r_ebp r, tc_edi = r_edi r,
        tc_esi = r_esi r, tc_edx = r_edx r, tc_ecx = r_ecx r, tc_ebx = r_ebx r, tc_eax = r_eax r, tc_int_num = int n,
        tc_errorcode = (if cpu_error_code n then err else 0), tc_eip = eip, tc_cs = cs, tc_eflags = eflags\<rparr>"
    unfolding st context_at_def using sint_small [OF n] by simp
  show "4 * length st' = 4 * length st + THREAD_CONTEXT_SIZE" unfolding st by (simp add: THREAD_CONTEXT_SIZE_def)
  show "r' = r\<lparr>r_ds := ucast KERN_DS, r_es := ucast KERN_DS, r_esi := of_nat n\<rparr>"
    using e unfolding int_enter_def Let_def stub_frame [OF n] THREAD_SAVE_REGISTERS_def THREAD_SAVED_REG_LEN_def by auto
  show "int_dispatch h st' = g_int_handler_table h ! n"
    unfolding st int_dispatch_def THREAD_SAVED_REG_LEN_def using u by simp
  show "int_leave st' = Some (r, eip, cs, eflags, st)" unfolding st int_leave_def by simp
qed

section \<open>The IDT\<close>

lemma int_init_ok:
  assumes "stubs_end = stubs_at + of_nat (INT_NUM_INTERRUPTS * INT_HANDLER_STUB_LEN)"
  shows "\<exists>s. int_init stubs_at stubs_end s_idt_at unexpected = Some s \<and> length (s_idt s) = 64
    \<and> g_int_handler_table s = replicate 64 unexpected
    \<and> idtr s = [512, ucast (s_idt_at AND 0xFFFF), ucast (drop_bit 16 s_idt_at)]
    \<and> (\<forall>i < 64. s_idt s ! i = x86_init_int_gate (stubs_at + of_nat (i * INT_HANDLER_STUB_LEN)) PRIV_KERN)"
  using assms by (auto simp: int_init_def INT_NUM_INTERRUPTS_def INT_HANDLER_STUB_LEN_def map_replicate_const)

lemma install_handler_ok:
  assumes "0 \<le> n" and "n < 64" and "length (g_int_handler_table s) = 64"
  shows "\<exists>s'. int_install_handler n h s = Some s' \<and> g_int_handler_table s' = (g_int_handler_table s)[nat n := h]
    \<and> s_idt s' = s_idt s \<and> g_int_handler_table s' ! nat n = h"
  using assms by (simp add: int_install_handler_def INT_NUM_INTERRUPTS_def halt_simps)

section \<open>The masks of the controllers\<close>

text \<open>The register behind a mask port is the last byte written to it.\<close>

definition mask_register :: "u16 \<Rightarrow> irq_state \<Rightarrow> u8 option" where
  "mask_register port s = map_of (rev (port_out s)) port"

definition irq_inv :: "irq_state \<Rightarrow> bool" where
  "irq_inv s \<longleftrightarrow> mask_register 0x21 s = Some (MASTER (s_irqmask s)) \<and> mask_register 0xA1 s = Some (SLAVE (s_irqmask s))"

text \<open>Interrupt line \<open>n\<close> is masked in its controller.\<close>

definition line_masked :: "irq_state \<Rightarrow> nat \<Rightarrow> bool" where
  "line_masked s n \<longleftrightarrow> (if n < 8 then \<exists>b. mask_register 0x21 s = Some b \<and> bit b n
     else \<exists>b. mask_register 0xA1 s = Some b \<and> bit b (n - 8))"

lemma mask_register_outb [simp]:
  "mask_register p (ioport_outb q v s) = (if p = q then Some v else mask_register p s)"
  "mask_register p (s\<lparr>s_irqmask := msk\<rparr>) = mask_register p s"
  "s_irqmask (ioport_outb q v s) = s_irqmask s"
  by (simp_all add: mask_register_def ioport_outb_def)

lemma irq_init_inv: "irq_inv (irq_init s)"
  by (simp add: irq_inv_def irq_init_def Let_def MASTER_def SLAVE_def)

lemma irq_set_mask_inv: "irq_inv s \<Longrightarrow> irq_inv (irq_set_mask msk s) \<and> s_irqmask (irq_set_mask msk s) = msk"
  by (auto simp: irq_inv_def irq_set_mask_def Let_def)

lemma line_masked_iff:
  assumes "irq_inv s" and "n < 16"
  shows "line_masked s n \<longleftrightarrow> bit (s_irqmask s) n"
proof -
  have e: "(0xff :: u16) = mask 8" by (simp add: mask_eq_exp_minus_1)
  show ?thesis using assms unfolding irq_inv_def line_masked_def MASTER_def SLAVE_def e
    by (auto simp: bit_simps)
qed

lemma modify_mask_ok:
  assumes "irq_inv s" and "VALID_IRQ irq"
  shows "\<exists>s'. MODIFY_IRQ_MASK irq upd (k, s) = Some (k, s') \<and> irq_inv s' \<and> s_irqmask s' = upd (s_irqmask s)"
proof -
  have "k\<lparr>int_flag := False, int_flag := int_flag k\<rparr> = k" by simp
  then show ?thesis using assms irq_set_mask_inv [OF assms(1), of "upd (s_irqmask s)"]
    by (simp add: MODIFY_IRQ_MASK_def irq_get_mask_def halt_simps)
qed

text \<open>A sequence of requests: \<open>True\<close> enables the line.\<close>

fun irq_requests :: "(int \<times> bool) list \<Rightarrow> kernel \<times> irq_state \<Rightarrow> (kernel \<times> irq_state) option" where
  "irq_requests [] ks = Some ks"
| "irq_requests ((irq, on) # rs) ks = do {
     ks \<leftarrow> (if on then irq_enable irq ks else irq_disable irq ks);
     irq_requests rs ks
   }"

lemma irq_requests_ok:
  assumes "irq_inv s" and "\<forall>(irq, on) \<in> set rs. VALID_IRQ irq"
  shows "\<exists>s'. irq_requests rs (k, s) = Some (k, s') \<and> irq_inv s'
    \<and> (\<forall>n < 16. bit (s_irqmask s') n \<longleftrightarrow>
         (case map_of (rev rs) (int n) of Some on \<Rightarrow> \<not> on | None \<Rightarrow> bit (s_irqmask s) n))"
  using assms
proof (induction rs arbitrary: s)
  case (Cons r rs)
  obtain irq on where r: "r = (irq, on)" by (cases r)
  have v: "VALID_IRQ irq" using Cons.prems(2) r by auto
  let ?u = "if on then (\<lambda>msk. msk AND NOT (push_bit (nat irq) 1)) else (\<lambda>msk. msk OR push_bit (nat irq) (1 :: u16))"
  obtain s1 where s1: "MODIFY_IRQ_MASK irq ?u (k, s) = Some (k, s1)" "irq_inv s1" "s_irqmask s1 = ?u (s_irqmask s)"
    using modify_mask_ok [OF Cons.prems(1) v, of ?u k] by blast
  have b: "bit (s_irqmask s1) n = (if n = nat irq then \<not> on else bit (s_irqmask s) n)" if "n < 16" for n
    using that unfolding s1(3) by (auto simp: bit_simps)
  have first: "(if on then irq_enable irq (k, s) else irq_disable irq (k, s)) = Some (k, s1)"
    using s1(1) by (simp add: irq_enable_def irq_disable_def split: if_splits)
  obtain s2 where s2: "irq_requests rs (k, s1) = Some (k, s2)" "irq_inv s2" "\<forall>n < 16. bit (s_irqmask s2) n \<longleftrightarrow>
      (case map_of (rev rs) (int n) of Some on \<Rightarrow> \<not> on | None \<Rightarrow> bit (s_irqmask s1) n)"
    using Cons.IH [OF s1(2)] Cons.prems(2) by auto
  have "irq_requests (r # rs) (k, s) = Some (k, s2)" using first s2(1) by (simp only: r irq_requests.simps bind.simps)
  moreover have "bit (s_irqmask s2) n \<longleftrightarrow>
      (case map_of (rev (r # rs)) (int n) of Some on \<Rightarrow> \<not> on | None \<Rightarrow> bit (s_irqmask s) n)" if n: "n < 16" for n
    using s2(3) b [OF n] n v by (auto simp: r map_add_def VALID_IRQ_def split: option.splits)
  ultimately show ?case using s2(2) by blast
qed simp

lemma irq_init_mask_all: "list_all (\<lambda>n. bit (0xfffb :: u16) n \<longleftrightarrow> n \<noteq> 2) [0..<16]"
  by code_simp

lemma irq_init_mask: "n < 16 \<Longrightarrow> bit (s_irqmask (irq_init s)) n \<longleftrightarrow> n \<noteq> 2"
  using irq_init_mask_all by (simp add: irq_init_def Let_def list_all_iff)

section \<open>End of interrupt\<close>

lemma irq_end_all:
  "list_all (\<lambda>n. (0x60 OR (word_of_int (int n) AND 0x7) :: u8) = (if n < 8 then 0x60 + of_nat n else 0x60 + of_nat (n - 8))) [0..<16]"
  by code_simp

lemma irq_end_ok:
  assumes "tc_int_num c = 32 + int n" and "n < 16"
  shows "irq_end c s = Some (s\<lparr>port_out := port_out s @
    (if n < 8 then [(0x20, 0x60 + of_nat n)] else [(0xA0, 0x60 + of_nat (n - 8)), (0x20, 0x62)])\<rparr>)"
proof -
  have "(0x60 OR (word_of_int (int n) AND 0x7) :: u8) = (if n < 8 then 0x60 + of_nat n else 0x60 + of_nat (n - 8))"
    using irq_end_all assms(2) by (simp add: list_all_iff)
  then show ?thesis using assms
    by (simp add: irq_end_def FIRST_IRQ_def VALID_IRQ_def NUM_IRQS_def ioport_outb_def halt_simps)
qed

end
