(* ===== verification/Strings.thy ===== *)
theory Strings imports Kernel_Prelude begin

text \<open>
  The string functions of \<open>src/kernel/string.c\<close> on a byte memory.  Addresses are numbers and do not
  wrap around; \<open>char\<close> is signed, as on the target.  The loops of \<open>strlen\<close> and \<open>strcmp\<close> end only when
  a terminator is found: \<open>None\<close> is a loop that never ends.
\<close>

type_synonym byte_mem = "nat \<Rightarrow> u8"

section \<open>Functions\<close>

fun memcpy :: "nat \<Rightarrow> nat \<Rightarrow> nat \<Rightarrow> byte_mem \<Rightarrow> byte_mem" where
  "memcpy d s 0 m = m"
| "memcpy d s (Suc n) m = memcpy (d + 1) (s + 1) n (m(d := m s))"

fun memset :: "nat \<Rightarrow> int \<Rightarrow> nat \<Rightarrow> byte_mem \<Rightarrow> byte_mem" where
  "memset d c 0 m = m"
| "memset d c (Suc n) m = memset (d + 1) c n (m(d := word_of_int c))"

partial_function (option) strlen_loop :: "byte_mem \<Rightarrow> nat \<Rightarrow> nat \<Rightarrow> nat option" where
  "strlen_loop m s len = (if m s \<noteq> 0 then strlen_loop m (s + 1) (len + 1) else Some len)"

definition strlen :: "byte_mem \<Rightarrow> nat \<Rightarrow> nat option" where
  "strlen m s = strlen_loop m s 0"

function strnlen_loop :: "byte_mem \<Rightarrow> nat \<Rightarrow> nat \<Rightarrow> nat \<Rightarrow> nat" where
  "strnlen_loop m s maxlen len =
     (if len < maxlen \<and> m s \<noteq> 0 then strnlen_loop m (s + 1) maxlen (len + 1) else len)"
  by auto
termination by (relation "measure (\<lambda>(m, s, maxlen, len). maxlen - len)") auto

definition strnlen :: "byte_mem \<Rightarrow> nat \<Rightarrow> nat \<Rightarrow> nat" where
  "strnlen m s maxlen = strnlen_loop m s maxlen 0"

definition byte_cmp :: "u8 \<Rightarrow> u8 \<Rightarrow> int" where
  "byte_cmp a b = sint a - sint b"

partial_function (option) strcmp :: "byte_mem \<Rightarrow> nat \<Rightarrow> nat \<Rightarrow> int option" where
  "strcmp m s1 s2 = (
     let cmp = byte_cmp (m s1) (m s2) in
     if cmp \<noteq> 0 \<or> m s1 = 0 \<or> m s2 = 0 then Some cmp else strcmp m (s1 + 1) (s2 + 1))"

text \<open>\<open>limit\<close> is what is left of the limit.\<close>

fun strncmp :: "byte_mem \<Rightarrow> nat \<Rightarrow> nat \<Rightarrow> nat \<Rightarrow> int" where
  "strncmp m s1 s2 0 = 0"
| "strncmp m s1 s2 (Suc limit) = (
     let cmp = byte_cmp (m s1) (m s2) in
     if cmp \<noteq> 0 \<or> m s1 = 0 \<or> m s2 = 0 then cmp else strncmp m (s1 + 1) (s2 + 1) limit)"

fun strncpy :: "nat \<Rightarrow> nat \<Rightarrow> nat \<Rightarrow> byte_mem \<Rightarrow> byte_mem" where
  "strncpy d s 0 m = m"
| "strncpy d s (Suc limit) m =
     (if m s \<noteq> 0 then strncpy (d + 1) (s + 1) limit (m(d := m s)) else m(d := 0))"

section \<open>Strings in memory\<close>

text \<open>The bytes of \<open>xs\<close> are stored at \<open>a\<close>; a string has no zero byte and is followed by one.\<close>

definition bytes_at :: "byte_mem \<Rightarrow> nat \<Rightarrow> u8 list \<Rightarrow> bool" where
  "bytes_at m a xs \<longleftrightarrow> (\<forall>i < length xs. m (a + i) = xs ! i)"

definition cstring :: "byte_mem \<Rightarrow> nat \<Rightarrow> u8 list \<Rightarrow> bool" where
  "cstring m a xs \<longleftrightarrow> bytes_at m a (xs @ [0]) \<and> 0 \<notin> set xs"

lemma bytes_at_Nil [simp]: "bytes_at m a []"
  by (simp add: bytes_at_def)

lemma bytes_at_Cons [simp]: "bytes_at m a (x # xs) \<longleftrightarrow> m a = x \<and> bytes_at m (a + 1) xs"
  by (auto simp: bytes_at_def less_Suc_eq_0_disj)

lemma bytes_at_append: "bytes_at m a (xs @ ys) \<longleftrightarrow> bytes_at m a xs \<and> bytes_at m (a + length xs) ys"
  by (induction xs arbitrary: a) (auto simp: ac_simps)

lemma cstring_Nil [simp]: "cstring m a [] \<longleftrightarrow> m a = 0"
  by (simp add: cstring_def)

lemma cstring_Cons [simp]: "cstring m a (x # xs) \<longleftrightarrow> m a = x \<and> x \<noteq> 0 \<and> cstring m (a + 1) xs"
  by (auto simp: cstring_def)

lemma sint_inject [simp]: "sint a = sint b \<longleftrightarrow> a = b" for a b :: u8
  by (metis uint_sint word_uint_eq_iff)

lemma sint_zero_iff [simp]: "sint a = 0 \<longleftrightarrow> a = 0" for a :: u8
  using sint_inject [of a 0] by simp

lemma byte_cmp_zero [simp]: "byte_cmp a b = 0 \<longleftrightarrow> a = b"
  by (simp add: byte_cmp_def)

section \<open>Copying and filling\<close>

text \<open>A byte behind the target is not overwritten before it is read when the source does not lie
  below an overlapping target.\<close>

lemma memcpy_at:
  assumes "d \<le> s \<or> s + n \<le> d"
  shows "memcpy d s n m a = (if d \<le> a \<and> a < d + n then m (s + (a - d)) else m a)"
  using assms
proof (induction n arbitrary: d s m)
  case (Suc n)
  have "d + 1 \<le> s + 1 \<or> s + 1 + n \<le> d + 1" using Suc.prems by auto
  note IH = Suc.IH [OF this, of "m(d := m s)"]
  show ?case unfolding memcpy.simps IH using Suc.prems by (auto simp: Suc_diff_Suc)
qed auto

lemma memcpy_copies:
  assumes "bytes_at m s xs" and "n = length xs" and "d \<le> s \<or> s + n \<le> d"
  shows "bytes_at (memcpy d s n m) d xs"
  using assms by (auto simp: bytes_at_def memcpy_at)

lemma memset_at: "memset d c n m a = (if d \<le> a \<and> a < d + n then word_of_int c else m a)"
  by (induction n arbitrary: d m) auto

lemma memset_fills: "bytes_at (memset d c n m) d (replicate n (word_of_int c))"
  by (simp add: bytes_at_def memset_at)

section \<open>Length\<close>

lemma strlen_loop_cstring: "cstring m s xs \<Longrightarrow> strlen_loop m s len = Some (len + length xs)"
  by (induction xs arbitrary: s len) (subst strlen_loop.simps, simp)+

lemma strlen_cstring: "cstring m s xs \<Longrightarrow> strlen m s = Some (length xs)"
  by (simp add: strlen_def strlen_loop_cstring)

lemma strnlen_loop_cstring:
  "cstring m s xs \<Longrightarrow> len \<le> maxlen \<Longrightarrow> strnlen_loop m s maxlen len = min maxlen (len + length xs)"
proof (induction xs arbitrary: s len)
  case (Cons x xs)
  then show ?case by (subst strnlen_loop.simps) (auto simp del: strnlen_loop.simps)
qed simp

lemma strnlen_cstring: "cstring m s xs \<Longrightarrow> strnlen m s maxlen = min maxlen (length xs)"
  by (simp add: strnlen_def strnlen_loop_cstring del: strnlen_loop.simps)

section \<open>Comparison\<close>

text \<open>The sign of the result is the lexicographic order of the signed bytes.\<close>

fun lex_cmp :: "u8 list \<Rightarrow> u8 list \<Rightarrow> int" where
  "lex_cmp (x # xs) (y # ys) = (if x = y then lex_cmp xs ys else sint x - sint y)"
| "lex_cmp (x # xs) [] = sint x"
| "lex_cmp [] (y # ys) = - sint y"
| "lex_cmp [] [] = 0"

lemma lex_cmp_zero: "0 \<notin> set xs \<Longrightarrow> 0 \<notin> set ys \<Longrightarrow> lex_cmp xs ys = 0 \<longleftrightarrow> xs = ys"
  by (induction xs ys rule: lex_cmp.induct) auto

lemma strcmp_cstring:
  assumes "cstring m a xs" and "cstring m b ys"
  shows "strcmp m a b = Some (lex_cmp xs ys)"
  using assms
proof (induction xs ys arbitrary: a b rule: lex_cmp.induct)
  case (1 x xs y ys)
  then show ?case by (subst strcmp.simps) (auto simp: Let_def byte_cmp_def)
qed (subst strcmp.simps, auto simp: Let_def byte_cmp_def)+

lemma strncmp_cstring:
  assumes "cstring m a xs" and "cstring m b ys"
  shows "strncmp m a b n = lex_cmp (take n xs) (take n ys)"
  using assms
proof (induction xs ys arbitrary: a b n rule: lex_cmp.induct)
  case (1 x xs y ys)
  then show ?case by (cases n) (auto simp: Let_def byte_cmp_def)
next
  case (2 x xs)
  then show ?case by (cases n) (auto simp: Let_def byte_cmp_def)
next
  case (3 y ys)
  then show ?case by (cases n) (auto simp: Let_def byte_cmp_def)
next
  case 4
  then show ?case by (cases n) (auto simp: Let_def)
qed

lemma strncmp_eq:
  assumes "cstring m a xs" and "cstring m b ys"
  shows "strncmp m a b n = 0 \<longleftrightarrow> take n xs = take n ys"
proof -
  have "0 \<notin> set (take n xs)" "0 \<notin> set (take n ys)"
    using assms by (auto simp: cstring_def dest: in_set_takeD)
  then show ?thesis by (simp add: strncmp_cstring [OF assms] lex_cmp_zero)
qed

section \<open>Copying a string\<close>

lemma strncpy_other: "a < d \<or> d + n \<le> a \<Longrightarrow> strncpy d s n m a = m a"
  by (induction n arbitrary: d s m) auto

text \<open>The copy is cut at the limit and is terminated only when there is room.\<close>

lemma strncpy_copies:
  assumes "cstring m s xs" and "d + n \<le> s \<or> s + length xs < d"
  shows "bytes_at (strncpy d s n m) d (take n xs) \<and> (length xs < n \<longrightarrow> cstring (strncpy d s n m) d xs)"
  using assms
proof (induction n arbitrary: d s xs m)
  case (Suc n)
  show ?case
  proof (cases xs)
    case Nil
    then show ?thesis using Suc.prems by simp
  next
    case (Cons x ys)
    let ?m = "m(d := m s)"
    have x: "m s = x" "x \<noteq> 0" "cstring m (s + 1) ys" using Suc.prems(1) Cons by auto
    have "cstring ?m (s + 1) ys"
      using x(3) Suc.prems(2) Cons by (auto simp: cstring_def bytes_at_def)
    moreover have "d + 1 + n \<le> s + 1 \<or> s + 1 + length ys < d + 1" using Suc.prems(2) Cons by auto
    ultimately have i: "bytes_at (strncpy (d + 1) (s + 1) n ?m) (d + 1) (take n ys)"
      "length ys < n \<longrightarrow> cstring (strncpy (d + 1) (s + 1) n ?m) (d + 1) ys" using Suc.IH by blast+
    have "strncpy (d + 1) (s + 1) n ?m d = x" using x(1) by (simp add: strncpy_other)
    with i x(1,2) Cons show ?thesis by simp
  qed
qed simp

text \<open>Nothing but the copied bytes and one terminator is written: the rest of the target is not filled.\<close>

lemma strncpy_writes:
  assumes "cstring m s xs" and "d + n \<le> s \<or> s + length xs < d" and "a < d \<or> d + min n (length xs + 1) \<le> a"
  shows "strncpy d s n m a = m a"
  using assms
proof (induction n arbitrary: d s xs m)
  case (Suc n)
  show ?case
  proof (cases xs)
    case Nil
    then show ?thesis using Suc.prems by auto
  next
    case (Cons x ys)
    have x: "m s = x" "x \<noteq> 0" "cstring m (s + 1) ys" using Suc.prems(1) Cons by auto
    have "cstring (m(d := m s)) (s + 1) ys"
      using x(3) Suc.prems(2) Cons by (auto simp: cstring_def bytes_at_def)
    moreover have "d + 1 + n \<le> s + 1 \<or> s + 1 + length ys < d + 1" "a < d + 1 \<or> d + 1 + min n (length ys + 1) \<le> a"
      using Suc.prems(2,3) Cons by auto
    ultimately have "strncpy (d + 1) (s + 1) n (m(d := m s)) a = (m(d := m s)) a" by (rule Suc.IH)
    moreover have "a \<noteq> d" using Suc.prems(3) Cons by auto
    ultimately show ?thesis using x(1,2) by simp
  qed
qed simp

end
