(* ===== verification/Wait_Lift.thy ===== *)
theory Wait_Lift imports Synch Strings begin

text \<open>
  Operations on the kernel and on a component's own state beside it.  As for the operations on
  the kernel alone, a result is either \<open>Inl\<close>, the state in which the caller waits and another
  thread runs, or \<open>Inr\<close> with a value; \<open>None\<close> is a kernel that has halted.
\<close>

type_synonym ('x, 'a) waits = "(kernel \<times> 'x + 'a \<times> kernel \<times> 'x) option"

definition with_kernel :: "(kernel \<Rightarrow> 'a may_wait) \<Rightarrow> kernel \<times> 'x \<Rightarrow> ('x, 'a) waits" where
  "with_kernel f = (\<lambda>(k, x). do {
     r \<leftarrow> f k;
     Some (case r of Inl k \<Rightarrow> Inl (k, x) | Inr (v, k) \<Rightarrow> Inr (v, k, x))
   })"

definition and_then :: "('x, 'a) waits \<Rightarrow> ('a \<Rightarrow> kernel \<times> 'x \<Rightarrow> ('x, 'b) waits) \<Rightarrow> ('x, 'b) waits" where
  "and_then m f = do { r \<leftarrow> m; case r of Inl s \<Rightarrow> Some (Inl s) | Inr (v, s) \<Rightarrow> f v s }"

definition give :: "'a \<Rightarrow> kernel \<times> 'x \<Rightarrow> ('x, 'a) waits" where
  "give v s = Some (Inr (v, s))"

text \<open>An operation of the kernel that never waits.\<close>

definition on_kernel :: "(kernel \<Rightarrow> kernel option) \<Rightarrow> kernel \<times> 'x \<Rightarrow> (kernel \<times> 'x) option" where
  "on_kernel f = (\<lambda>(k, x). do { k \<leftarrow> f k; Some (k, x) })"

lemma and_then_simps [simp]:
  "and_then (Some (Inr (v, s))) f = f v s" "and_then (Some (Inl s)) f = Some (Inl s)" "and_then None f = None"
  "and_then (give v s) f = f v s"
  by (simp_all add: and_then_def give_def)

lemma with_kernel_simps [simp]:
  "f k = Some (Inr (v, k')) \<Longrightarrow> with_kernel f (k, x) = Some (Inr (v, k', x))"
  "f k = Some (Inl k') \<Longrightarrow> with_kernel f (k, x) = Some (Inl (k', x))"
  "f k = None \<Longrightarrow> with_kernel f (k, x) = None"
  by (simp_all add: with_kernel_def)

lemma on_kernel_simps [simp]:
  "f k = Some k' \<Longrightarrow> on_kernel f (k, x) = Some (k', x)" "f k = None \<Longrightarrow> on_kernel f (k, x) = None"
  by (simp_all add: on_kernel_def)

section \<open>A mutex and a condition that nobody waits for\<close>

lemma and_then_Inr:
  "and_then m f = Some (Inr r) \<longleftrightarrow> (\<exists>x s. m = Some (Inr (x, s)) \<and> f x s = Some (Inr r))"
proof (cases m)
  case (Some q)
  then show ?thesis by (cases q) auto
qed simp

lemma with_kernel_Inr: "with_kernel f (k, x) = Some (Inr (v, k', x')) \<longleftrightarrow> f k = Some (Inr (v, k')) \<and> x' = x"
  by (cases "f k") (auto simp: with_kernel_def split: sum.split)

definition quiet :: "nat \<Rightarrow> kernel \<Rightarrow> bool" where
  "quiet obj k \<longleftrightarrow> (\<exists>A. lists_rep (tqs k) A \<and> A (MutexWaitQ obj) = [] \<and> A (CondWaitQ obj) = []) \<and> int_flag k"

lemma quiet_upd [simp]:
  "quiet obj (set_mutex m st ow k) = quiet obj k" "quiet obj (k\<lparr>g_preemption := b\<rparr>) = quiet obj k"
  "quiet obj (k\<lparr>flists := l\<rparr>) = quiet obj k" "quiet obj (upd_frame f g k) = quiet obj k"
  by (simp_all add: quiet_def set_mutex_def upd_frame_def)

lemma upd_frame_sel [simp]:
  "frames (upd_frame f g k) = (frames k)(f := g (frames k f))" "flists (upd_frame f g k) = flists k"
  "mutexes (upd_frame f g k) = mutexes k" "g_current (upd_frame f g k) = g_current k" "int_flag (upd_frame f g k) = int_flag k"
  "MUTEX_IS_HELD m (upd_frame f g k) = MUTEX_IS_HELD m k" "tqs (upd_frame f g k) = tqs k"
  by (simp_all add: upd_frame_def MUTEX_IS_HELD_def)

lemma set_mutex_frames [simp]:
  "frames (set_mutex m st ow k) = frames k" "flists (set_mutex m st ow k) = flists k"
  by (simp_all add: set_mutex_def)

lemma held_set [simp]: "MUTEX_IS_HELD m (set_mutex m MUTEX_LOCKED (g_current k) k') = (g_current k' = g_current k)"
  by (auto simp: MUTEX_IS_HELD_def)

lemma held_flists [simp]:
  "MUTEX_IS_HELD m (k\<lparr>flists := l\<rparr>) = MUTEX_IS_HELD m k" "MUTEX_IS_HELD m (k\<lparr>g_preemption := b\<rparr>) = MUTEX_IS_HELD m k"
  "MUTEX_IS_HELD m (k\<lparr>int_flag := b\<rparr>) = MUTEX_IS_HELD m k"
  by (simp_all add: MUTEX_IS_HELD_def)

lemma unlock_alone:
  assumes "quiet obj k" and "MUTEX_IS_HELD obj k"
  shows "mutex_unlock obj k = Some (set_mutex obj MUTEX_UNLOCKED 0 (k\<lparr>g_preemption := True\<rparr>))"
proof -
  have "list_is_empty (MutexWaitQ obj) (tqs k)" using assms(1) by (auto simp: quiet_def lists_is_empty_iff)
  then show ?thesis using assms
    by (simp add: mutex_unlock_def mutex_unlock_imp_def int_enabled_def quiet_def halt_simps Let_def set_mutex_def)
qed

lemma broadcast_nobody:
  assumes "quiet obj k"
  shows "cond_broadcast obj k = Some k"
proof -
  have "list_is_empty (CondWaitQ obj) (tqs k)" using assms by (auto simp: quiet_def lists_is_empty_iff)
  then have "thread_wakeup (CondWaitQ obj) (k\<lparr>int_flag := False\<rparr>) = Some (k\<lparr>int_flag := False\<rparr>)"
    by (subst thread_wakeup.simps) simp
  then show ?thesis using assms
    by (simp add: cond_broadcast_def int_disable_def int_enable_def int_enabled_def quiet_def halt_simps)
qed

lemma lock_quiet:
  assumes "quiet obj k" and "m_state (mutexes k obj) = MUTEX_UNLOCKED"
  shows "mutex_lock obj k = Some (Inr ((), set_mutex obj MUTEX_LOCKED (g_current k) (k\<lparr>g_preemption := True\<rparr>)))"
  using assms by (intro mutex_lock_free) (simp_all add: quiet_def)

end
