(* ===== verification/Block_Device.thy ===== *)
theory Block_Device imports Wait_Lift Range_Lba begin

text \<open>
  Block devices: the request protocol of \<open>src/kernel/blockdev.c\<close>, the RAM disk of
  \<open>src/kernel/ramdisk.c\<close> whose requests the worker thread carries out, and the pager of
  \<open>src/kernel/blockdev_pager.c\<close> that maps pages to blocks.  The wait queue of a request is the
  kernel's \<open>ReqWaitQ\<close>; the buffers are in a byte memory.  A function that waits is split at the
  wait.
\<close>

section \<open>Data\<close>

datatype blockdev_req_type_t = BLOCKDEV_REQ_READ | BLOCKDEV_REQ_WRITE

datatype blockdev_req_state_t = BLOCKDEV_REQ_PENDING | BLOCKDEV_REQ_FINISHED

record blockdev_req =
  req_lba :: lba
  num_blocks :: u32
  req_buf :: nat
  req_type :: blockdev_req_type_t
  req_state :: blockdev_req_state_t
  req_rc :: int
  req_dev :: nat

text \<open>The operations of a device.  The only device type is the RAM disk; its table has no entry
  for \<open>close\<close>.\<close>

datatype blockdev_ops = No_ops | S_ramdisk_blockdev_ops

record blockdev =
  dev_ops :: blockdev_ops
  dev_data :: nat

record ramdisk_data =
  rd_buf :: nat
  rd_size :: u32

record blockdev_pager =
  pg_dev :: nat
  pg_start :: lba
  pg_num_blocks :: u32
  num_blocks_per_page :: u32

record vm_pager =
  pager_p :: nat

text \<open>A page cache: its lock, its condition and its list of frames are the mutex, the condition and
  the frame list of the same number in the kernel.\<close>

record vm_pagecache =
  pc_pager :: nat

record devices =
  reqs :: "nat \<rightharpoonup> blockdev_req"
  devs :: "nat \<rightharpoonup> blockdev"
  ramdisks :: "nat \<rightharpoonup> ramdisk_data"
  blkdev_pagers :: "nat \<rightharpoonup> blockdev_pager"
  pagers :: "nat \<rightharpoonup> vm_pager"
  pgcaches :: "nat \<rightharpoonup> vm_pagecache"
  bytes :: byte_mem

abbreviation sizeof_req :: nat where "sizeof_req \<equiv> 40"
abbreviation sizeof_blockdev :: nat where "sizeof_blockdev \<equiv> 8"
abbreviation sizeof_ramdisk_data :: nat where "sizeof_ramdisk_data \<equiv> 8"
abbreviation sizeof_blockdev_pager :: nat where "sizeof_blockdev_pager \<equiv> 16"
abbreviation sizeof_vm_pager :: nat where "sizeof_vm_pager \<equiv> 8"

text \<open>The value of an enumerator, for the conversion from \<open>int\<close>.\<close>

fun state_num :: "blockdev_req_state_t \<Rightarrow> int" where
  "state_num BLOCKDEV_REQ_PENDING = 0"
| "state_num BLOCKDEV_REQ_FINISHED = 1"

definition upd_req :: "nat \<Rightarrow> (blockdev_req \<Rightarrow> blockdev_req) \<Rightarrow> devices \<Rightarrow> devices" where
  "upd_req r f d = d\<lparr>reqs := (reqs d)(r := map_option f (reqs d r))\<rparr>"

section \<open>Requests\<close>

definition blockdev_create_request ::
  "lba \<Rightarrow> u32 \<Rightarrow> nat \<Rightarrow> blockdev_req_type_t \<Rightarrow> kernel \<times> devices \<Rightarrow> (devices, nat) waits"
where
  "blockdev_create_request l n buf ty s =
     and_then (with_kernel (mem_alloc sizeof_req) s) (\<lambda>req (k, d).
       give req (k\<lparr>tqs := list_clear (ReqWaitQ req) (tqs k)\<rparr>,
         d\<lparr>reqs := (reqs d)(req \<mapsto> \<lparr>req_lba = l, num_blocks = n, req_buf = buf, req_type = ty,
            req_state = BLOCKDEV_REQ_PENDING, req_rc = 0, req_dev = 0\<rparr>)\<rparr>))"

definition blockdev_notify_complete :: "nat \<Rightarrow> int \<Rightarrow> kernel \<times> devices \<Rightarrow> (kernel \<times> devices) option" where
  "blockdev_notify_complete req rc = (\<lambda>(k, d). do {
     (iflag, k) \<leftarrow> int_begin_atomic k;
     let d = upd_req req (\<lambda>r. r\<lparr>req_state := BLOCKDEV_REQ_FINISHED, req_rc := rc\<rparr>) d;
     k \<leftarrow> thread_wakeup (ReqWaitQ req) k;
     k \<leftarrow> int_end_atomic iflag k;
     Some (k, d)
   })"

section \<open>The RAM disk\<close>

definition RAMDISK_BLOCK_SIZE :: blocksize where "RAMDISK_BLOCK_SIZE = \<lparr>bs_size = 512\<rparr>"

definition RAMDISK_NUM_BLOCKS :: "ramdisk_data \<Rightarrow> u32" where
  "RAMDISK_NUM_BLOCKS dev = rd_size dev div blocksize_size RAMDISK_BLOCK_SIZE"

definition ramdisk_handle_request :: "nat \<Rightarrow> kernel \<times> devices \<Rightarrow> (kernel \<times> devices) option" where
  "ramdisk_handle_request req = (\<lambda>(k, d). do {
     r \<leftarrow> reqs d req;
     dev \<leftarrow> devs d (req_dev r);
     rd \<leftarrow> ramdisks d (dev_data dev);
     if \<not> lba_is_range_valid (req_lba r) (num_blocks r) (RAMDISK_NUM_BLOCKS rd)
     then blockdev_notify_complete req EINVAL (k, d)
     else do {
       let ramdisk_buf = rd_buf rd + unat (lba_block_offset_in_bytes (req_lba r) RAMDISK_BLOCK_SIZE);
       let copy_size = unat (lba_range_size_in_bytes (num_blocks r) RAMDISK_BLOCK_SIZE);
       let d = (if req_type r = BLOCKDEV_REQ_READ
                then d\<lparr>bytes := memcpy (req_buf r) ramdisk_buf copy_size (bytes d)\<rparr>
                else d\<lparr>bytes := memcpy ramdisk_buf (req_buf r) copy_size (bytes d)\<rparr>);
       blockdev_notify_complete req 0 (k, d)
     }
   })"

definition ramdisk_post_request :: "nat \<Rightarrow> nat \<Rightarrow> kernel \<times> devices \<Rightarrow> (devices, unit) waits" where
  "ramdisk_post_request dev req = with_kernel (workqueue_schedule_work Ramdisk_handle_request req)"

definition ramdisk_get_num_blocks :: "nat \<Rightarrow> devices \<Rightarrow> u32 option" where
  "ramdisk_get_num_blocks dev d = do {
     b \<leftarrow> devs d dev;
     rd \<leftarrow> ramdisks d (dev_data b);
     Some (RAMDISK_NUM_BLOCKS rd)
   }"

definition ramdisk_get_block_size :: "nat \<Rightarrow> blocksize" where
  "ramdisk_get_block_size dev = RAMDISK_BLOCK_SIZE"

definition ramdisk_create :: "nat \<Rightarrow> u32 \<Rightarrow> kernel \<times> devices \<Rightarrow> (devices, nat) waits" where
  "ramdisk_create buf sz s =
     and_then (with_kernel (mem_alloc sizeof_blockdev) s) (\<lambda>dev s.
     and_then (with_kernel (mem_alloc sizeof_ramdisk_data) s) (\<lambda>rd (k, d).
       give dev (k, d\<lparr>ramdisks := (ramdisks d)(rd \<mapsto> \<lparr>rd_buf = buf, rd_size = sz\<rparr>),
                      devs := (devs d)(dev \<mapsto> \<lparr>dev_ops = S_ramdisk_blockdev_ops, dev_data = rd\<rparr>)\<rparr>)))"

section \<open>Operations of any device\<close>

text \<open>A call through the table; a null entry halts.\<close>

definition blockdev_post_request :: "nat \<Rightarrow> nat \<Rightarrow> kernel \<times> devices \<Rightarrow> (devices, unit) waits" where
  "blockdev_post_request dev req = (\<lambda>(k, d). do {
     let d = upd_req req (\<lambda>r. r\<lparr>req_dev := dev\<rparr>) d;
     b \<leftarrow> devs d dev;
     case dev_ops b of
       S_ramdisk_blockdev_ops \<Rightarrow> ramdisk_post_request dev req (k, d)
     | No_ops \<Rightarrow> None
   })"

definition blockdev_get_num_blocks :: "nat \<Rightarrow> devices \<Rightarrow> u32 option" where
  "blockdev_get_num_blocks dev d = do {
     b \<leftarrow> devs d dev;
     case dev_ops b of S_ramdisk_blockdev_ops \<Rightarrow> ramdisk_get_num_blocks dev d | No_ops \<Rightarrow> None
   }"

definition blockdev_get_block_size :: "nat \<Rightarrow> devices \<Rightarrow> blocksize option" where
  "blockdev_get_block_size dev d = do {
     b \<leftarrow> devs d dev;
     case dev_ops b of S_ramdisk_blockdev_ops \<Rightarrow> Some (ramdisk_get_block_size dev) | No_ops \<Rightarrow> None
   }"

definition blockdev_close :: "nat \<Rightarrow> devices \<Rightarrow> int option" where
  "blockdev_close dev d =
     (if dev = 0 then Some 0
      else do { b \<leftarrow> devs d dev; case dev_ops b of S_ramdisk_blockdev_ops \<Rightarrow> None | No_ops \<Rightarrow> None })"

text \<open>The loop of \<open>blockdev_wait_for_completion\<close>; a thread that was woken up goes through it again.\<close>

definition blockdev_wait_loop :: "bool \<Rightarrow> nat \<Rightarrow> kernel \<times> devices \<Rightarrow> (devices, int) waits" where
  "blockdev_wait_loop iflag req = (\<lambda>(k, d). do {
     r \<leftarrow> reqs d req;
     if req_state r = BLOCKDEV_REQ_PENDING
     then do { k \<leftarrow> thread_wait (ReqWaitQ req) k; Some (Inl (k, d)) }
     else do { k \<leftarrow> int_end_atomic iflag k; give (req_rc r) (k, d) }
   })"

definition blockdev_wait_for_completion :: "nat \<Rightarrow> kernel \<times> devices \<Rightarrow> (devices, int) waits" where
  "blockdev_wait_for_completion req = (\<lambda>(k, d). do {
     (iflag, k) \<leftarrow> int_begin_atomic k;
     blockdev_wait_loop iflag req (k, d)
   })"

definition blockdev_post_and_wait :: "nat \<Rightarrow> nat \<Rightarrow> kernel \<times> devices \<Rightarrow> (devices, int) waits" where
  "blockdev_post_and_wait dev req s =
     and_then (blockdev_post_request dev req s) (\<lambda>_ s. blockdev_wait_for_completion req s)"

text \<open>The end of \<open>blockdev_issue_sync\<close>: the return code is converted to a state.\<close>

definition blockdev_issue_end :: "nat \<Rightarrow> int \<Rightarrow> kernel \<times> devices \<Rightarrow> (devices, int) waits" where
  "blockdev_issue_end req state = (\<lambda>(k, d). do {
     kassert (state = state_num BLOCKDEV_REQ_FINISHED);
     k \<leftarrow> mem_free req k;
     r \<leftarrow> reqs d req;
     give (req_rc r) (k, d\<lparr>reqs := (reqs d)(req := None)\<rparr>)
   })"

definition blockdev_issue_sync ::
  "nat \<Rightarrow> lba \<Rightarrow> u32 \<Rightarrow> nat \<Rightarrow> blockdev_req_type_t \<Rightarrow> kernel \<times> devices \<Rightarrow> (devices, int) waits"
where
  "blockdev_issue_sync dev l n buf ty s =
     and_then (blockdev_create_request l n buf ty s) (\<lambda>req s.
     and_then (blockdev_post_and_wait dev req s) (\<lambda>state s. blockdev_issue_end req state s))"

text \<open>The same thread, when it has been woken up in the wait.\<close>

definition blockdev_issue_sync_resume :: "bool \<Rightarrow> nat \<Rightarrow> kernel \<times> devices \<Rightarrow> (devices, int) waits" where
  "blockdev_issue_sync_resume iflag req s =
     and_then (blockdev_wait_loop iflag req s) (\<lambda>state s. blockdev_issue_end req state s)"

definition blockdev_read_sync :: "nat \<Rightarrow> lba \<Rightarrow> u32 \<Rightarrow> nat \<Rightarrow> kernel \<times> devices \<Rightarrow> (devices, int) waits" where
  "blockdev_read_sync dev l n buf = blockdev_issue_sync dev l n buf BLOCKDEV_REQ_READ"

definition blockdev_write_sync :: "nat \<Rightarrow> lba \<Rightarrow> u32 \<Rightarrow> nat \<Rightarrow> kernel \<times> devices \<Rightarrow> (devices, int) waits" where
  "blockdev_write_sync dev l n buf = blockdev_issue_sync dev l n buf BLOCKDEV_REQ_WRITE"

text \<open>The worker's callbacks.\<close>

definition run_callback :: "callback \<Rightarrow> nat \<Rightarrow> kernel \<times> devices \<Rightarrow> (kernel \<times> devices) option" where
  "run_callback cb x = (case cb of
     Thread_destroy \<Rightarrow> on_kernel (thread_destroy x) | Ramdisk_handle_request \<Rightarrow> ramdisk_handle_request x)"

section \<open>The pager\<close>

text \<open>The blocks that \<open>blockdev_pager_rw_page\<close> reads or writes for a page: the first one and
  their number.\<close>

definition blockdev_pager_blocks :: "blockdev_pager \<Rightarrow> u32 \<Rightarrow> (lba \<times> u32) option" where
  "blockdev_pager_blocks bp page_num = do {
     io_start_lba \<leftarrow> lba_add_offset (pg_start bp) (page_num * num_blocks_per_page bp);
     io_end_lba \<leftarrow> lba_add_offset io_start_lba (num_blocks_per_page bp);
     range_end_lba \<leftarrow> lba_add_offset (pg_start bp) (pg_num_blocks bp);
     let io_end_lba = (if lba_compare range_end_lba io_end_lba < 0 then range_end_lba else io_end_lba);
     n \<leftarrow> lba_num_blocks_in_range io_start_lba io_end_lba;
     Some (io_start_lba, n)
   }"

definition blockdev_pager_rw_page ::
  "nat \<Rightarrow> nat \<Rightarrow> u32 \<Rightarrow> (nat \<Rightarrow> lba \<Rightarrow> u32 \<Rightarrow> nat \<Rightarrow> kernel \<times> devices \<Rightarrow> (devices, int) waits)
   \<Rightarrow> kernel \<times> devices \<Rightarrow> (devices, int) waits"
where
  "blockdev_pager_rw_page pager buf page_num rw_func = (\<lambda>(k, d). do {
     p \<leftarrow> pagers d pager;
     bp \<leftarrow> blkdev_pagers d (pager_p p);
     (io_start_lba, n) \<leftarrow> blockdev_pager_blocks bp page_num;
     rw_func (pg_dev bp) io_start_lba n buf (k, d)
   })"

definition blockdev_pager_read_page :: "nat \<Rightarrow> nat \<Rightarrow> u32 \<Rightarrow> kernel \<times> devices \<Rightarrow> (devices, int) waits" where
  "blockdev_pager_read_page pager buf page_num = blockdev_pager_rw_page pager buf page_num blockdev_read_sync"

definition blockdev_pager_write_page :: "nat \<Rightarrow> nat \<Rightarrow> u32 \<Rightarrow> kernel \<times> devices \<Rightarrow> (devices, int) waits" where
  "blockdev_pager_write_page pager buf page_num = blockdev_pager_rw_page pager buf page_num blockdev_write_sync"

definition vm_pager_create :: "nat \<Rightarrow> kernel \<times> devices \<Rightarrow> (devices, int \<times> nat) waits" where
  "vm_pager_create p s =
     and_then (with_kernel (mem_alloc sizeof_vm_pager) s) (\<lambda>pager (k, d).
       give (0, pager) (k, d\<lparr>pagers := (pagers d)(pager \<mapsto> \<lparr>pager_p = p\<rparr>)\<rparr>))"

text \<open>The return code, and what is stored in \<open>*p_pager\<close> when it is 0.\<close>

definition blockdev_pager_create :: "nat \<Rightarrow> lba \<Rightarrow> u32 \<Rightarrow> kernel \<times> devices \<Rightarrow> (devices, int \<times> nat) waits" where
  "blockdev_pager_create dev start n = (\<lambda>(k, d). do {
     dev_num_blocks \<leftarrow> blockdev_get_num_blocks dev d;
     dev_block_size \<leftarrow> blockdev_get_block_size dev d;
     kassert (range_is_power_of_two (blocksize_size dev_block_size));
     kassert (range_is_power_of_two (of_nat PAGE_SIZE));
     if \<not> lba_is_range_valid start n dev_num_blocks
     then do { k \<leftarrow> mem_free 0 k; give (EINVAL, 0) (k, d) }
     else if blocksize_size dev_block_size > of_nat PAGE_SIZE
     then do { k \<leftarrow> mem_free 0 k; give (EINVAL, 0) (k, d) }
     else and_then (with_kernel (mem_alloc sizeof_blockdev_pager) (k, d)) (\<lambda>bp (k, d).
       let d = d\<lparr>blkdev_pagers := (blkdev_pagers d)(bp \<mapsto> \<lparr>pg_dev = dev, pg_start = start, pg_num_blocks = n,
                   num_blocks_per_page = of_nat PAGE_SIZE div blocksize_size dev_block_size\<rparr>)\<rparr> in
       and_then (vm_pager_create bp (k, d)) (\<lambda>(rc, pager) (k, d).
         if rc \<noteq> 0 then do { k \<leftarrow> mem_free bp k; give (rc, 0) (k, d) }
         else give (0, pager) (k, d)))
   })"

section \<open>Completion\<close>

lemma upd_req_sel [simp]:
  "reqs (upd_req r f d) x = (if x = r then map_option f (reqs d r) else reqs d x)"
  "devs (upd_req r f d) = devs d" "ramdisks (upd_req r f d) = ramdisks d" "bytes (upd_req r f d) = bytes d"
  by (simp_all add: upd_req_def)

lemma notify_ok:
  assumes inv: "sched_inv A k"
  shows "\<exists>k'. blockdev_notify_complete req rc (k, d) =
      Some (k', upd_req req (\<lambda>r. r\<lparr>req_state := BLOCKDEV_REQ_FINISHED, req_rc := rc\<rparr>) d)
    \<and> sched_inv (wake_all (g_scheduler k) (prio k) (ReqWaitQ req) A) k' \<and> g_current k' = g_current k
    \<and> int_flag k' = int_flag k"
proof -
  let ?k = "k\<lparr>int_flag := False\<rparr>"
  have "sched_inv A ?k" using inv by simp
  from wakeup_ok [where q = "ReqWaitQ req", OF this] obtain k' where
    k': "thread_wakeup (ReqWaitQ req) ?k = Some k'" "undisturbed ?k k'"
      "sched_inv (wake_all (g_scheduler k) (prio k) (ReqWaitQ req) A) k'" by auto
  note u = undisturbedD [OF k'(2)]
  show ?thesis using k' u by (simp add: blockdev_notify_complete_def Let_def)
qed

section \<open>RAM disk requests\<close>

text \<open>The bytes of the blocks of a request on a RAM disk.\<close>

definition disk_range_ok :: "ramdisk_data \<Rightarrow> blockdev_req \<Rightarrow> bool" where
  "disk_range_ok rd r \<longleftrightarrow> unat (lba_val (req_lba r)) + unat (num_blocks r) \<le> unat (rd_size rd) div 512"

definition disk_start :: "ramdisk_data \<Rightarrow> blockdev_req \<Rightarrow> nat" where
  "disk_start rd r = rd_buf rd + 512 * unat (lba_val (req_lba r))"

definition disk_len :: "blockdev_req \<Rightarrow> nat" where
  "disk_len r = 512 * unat (num_blocks r)"

lemma range_valid_disk:
  "lba_is_range_valid (req_lba r) (num_blocks r) (RAMDISK_NUM_BLOCKS rd) \<longleftrightarrow> disk_range_ok rd r"
  by (simp add: lba_defs range_valid_iff RAMDISK_NUM_BLOCKS_def RAMDISK_BLOCK_SIZE_def disk_range_ok_def unat_div_distrib)

lemma disk_offsets:
  assumes "disk_range_ok rd r"
  shows "unat (lba_block_offset_in_bytes (req_lba r) RAMDISK_BLOCK_SIZE) = 512 * unat (lba_val (req_lba r))"
    and "unat (lba_range_size_in_bytes (num_blocks r) RAMDISK_BLOCK_SIZE) = disk_len r"
    and "disk_start rd r + disk_len r \<le> rd_buf rd + unat (rd_size rd)"
proof -
  have s: "unat (rd_size rd) < 4294967296" by (rule unat_less_32)
  have le: "512 * unat (lba_val (req_lba r)) + 512 * unat (num_blocks r) \<le> unat (rd_size rd)"
    using assms by (simp add: disk_range_ok_def)
  have small: "unat (lba_val (req_lba r)) < 8388608" using le s by linarith
  have small2: "unat (num_blocks r) < 8388608" using le s by linarith
  show "unat (lba_block_offset_in_bytes (req_lba r) RAMDISK_BLOCK_SIZE) = 512 * unat (lba_val (req_lba r))"
    using small unat_times_no_wrap [of "lba_val (req_lba r)" 512] by (simp add: lba_defs RAMDISK_BLOCK_SIZE_def mult.commute)
  show "unat (lba_range_size_in_bytes (num_blocks r) RAMDISK_BLOCK_SIZE) = disk_len r"
    using small2 unat_times_no_wrap [of "num_blocks r" 512]
    by (simp add: lba_defs RAMDISK_BLOCK_SIZE_def disk_len_def mult.commute)
  show "disk_start rd r + disk_len r \<le> rd_buf rd + unat (rd_size rd)"
    using le by (simp add: disk_start_def disk_len_def)
qed

definition moved :: "ramdisk_data \<Rightarrow> blockdev_req \<Rightarrow> byte_mem \<Rightarrow> byte_mem" where
  "moved rd r m = (if req_type r = BLOCKDEV_REQ_READ then memcpy (req_buf r) (disk_start rd r) (disk_len r) m
     else memcpy (disk_start rd r) (req_buf r) (disk_len r) m)"

lemma handle_request_ok:
  assumes inv: "sched_inv A k" and r: "reqs d req = Some r" and b: "devs d (req_dev r) = Some b"
    and rd: "ramdisks d (dev_data b) = Some rd"
  shows "\<exists>k'. ramdisk_handle_request req (k, d) = Some (k', upd_req req (\<lambda>r. r\<lparr>req_state := BLOCKDEV_REQ_FINISHED,
        req_rc := (if disk_range_ok rd r then 0 else EINVAL)\<rparr>)
        (if disk_range_ok rd r then d\<lparr>bytes := moved rd r (bytes d)\<rparr> else d))
    \<and> sched_inv (wake_all (g_scheduler k) (prio k) (ReqWaitQ req) A) k' \<and> g_current k' = g_current k
    \<and> int_flag k' = int_flag k"
proof (cases "disk_range_ok rd r")
  case True
  let ?d = "d\<lparr>bytes := moved rd r (bytes d)\<rparr>"
  note o = disk_offsets(1,2) [OF True]
  have "ramdisk_handle_request req (k, d) = blockdev_notify_complete req 0 (k, ?d)"
    using r b rd True range_valid_disk [of r rd] o
    by (simp add: ramdisk_handle_request_def moved_def disk_start_def Let_def cong: if_cong)
  then show ?thesis using notify_ok [OF inv, of req 0 ?d] True r by (auto simp: upd_req_def)
next
  case False
  have "ramdisk_handle_request req (k, d) = blockdev_notify_complete req EINVAL (k, d)"
    using r b rd False range_valid_disk [of r rd] by (simp add: ramdisk_handle_request_def Let_def)
  then show ?thesis using notify_ok [OF inv, of req EINVAL d] False r by (auto simp: upd_req_def)
qed

lemma handled_rc:
  assumes "ramdisk_handle_request req (k, d) = Some (k', d')"
  shows "\<exists>r. reqs d' req = Some r \<and> req_state r = BLOCKDEV_REQ_FINISHED \<and> req_rc r \<in> {0, EINVAL}"
proof -
  obtain r where r: "reqs d req = Some r" using assms by (auto simp: ramdisk_handle_request_def bind_eq_Some_conv)
  have n: "\<exists>r. reqs d2 req = Some r \<and> req_state r = BLOCKDEV_REQ_FINISHED \<and> req_rc r = rc"
    if "blockdev_notify_complete req rc (k, d1) = Some (k', d2)" "reqs d1 req = Some r" for rc d1 d2
    using that by (auto simp: blockdev_notify_complete_def bind_eq_Some_conv Let_def)
  show ?thesis using assms r n
    by (fastforce simp: ramdisk_handle_request_def bind_eq_Some_conv Let_def split: if_splits)
qed

text \<open>Writing blocks and reading them back.\<close>

lemma moved_roundtrip:
  assumes w: "req_type w = BLOCKDEV_REQ_WRITE" and r: "req_type r = BLOCKDEV_REQ_READ"
    and same: "req_lba r = req_lba w" "num_blocks r = num_blocks w" and ok: "disk_range_ok rd w"
    and bw: "req_buf w + disk_len w \<le> rd_buf rd \<or> rd_buf rd + unat (rd_size rd) \<le> req_buf w"
    and br: "req_buf r + disk_len w \<le> rd_buf rd \<or> rd_buf rd + unat (rd_size rd) \<le> req_buf r"
    and xs: "bytes_at m (req_buf w) xs" "length xs = disk_len w"
  shows "bytes_at (moved rd r (moved rd w m)) (req_buf r) xs"
proof -
  have e: "disk_start rd r = disk_start rd w" "disk_len r = disk_len w"
    using same by (simp_all add: disk_start_def disk_len_def)
  have b: "rd_buf rd \<le> disk_start rd w" "disk_start rd w + disk_len w \<le> rd_buf rd + unat (rd_size rd)"
    using disk_offsets(3) [OF ok] by (simp_all add: disk_start_def)
  have "bytes_at (moved rd w m) (disk_start rd w) xs"
    unfolding moved_def using w xs bw b by (simp, intro memcpy_copies) auto
  then show ?thesis unfolding moved_def [of rd r] e using r br b xs(2) by (simp, intro memcpy_copies) auto
qed

section \<open>Synchronous requests\<close>

text \<open>The return code of a request is never the value of \<open>BLOCKDEV_REQ_FINISHED\<close>, which the
  caller asserts it to be.\<close>

lemma issue_end_halts: "state \<in> {0, EINVAL} \<Longrightarrow> blockdev_issue_end req state s = None"
  by (cases s) (auto simp: blockdev_issue_end_def EINVAL_def halt_simps)

lemma issue_resume_halts:
  assumes "reqs d req = Some r" and "req_state r = BLOCKDEV_REQ_FINISHED" and "req_rc r \<in> {0, EINVAL}" and "\<not> int_flag k"
  shows "blockdev_issue_sync_resume iflag req (k, d) = None"
  using assms issue_end_halts [of "req_rc r"]
  by (simp add: blockdev_issue_sync_resume_def blockdev_wait_loop_def)

text \<open>The caller itself never gets past the wait.\<close>

lemma issue_sync_never_returns: "blockdev_issue_sync dev l n buf ty s \<noteq> Some (Inr res)"
proof
  assume "blockdev_issue_sync dev l n buf ty s = Some (Inr res)"
  then obtain req k1 d1 where 1: "blockdev_create_request l n buf ty s = Some (Inr (req, k1, d1))"
    and 2: "and_then (blockdev_post_and_wait dev req (k1, d1)) (\<lambda>state s. blockdev_issue_end req state s) = Some (Inr res)"
    by (auto simp: blockdev_issue_sync_def and_then_Inr)
  have r1: "\<exists>r. reqs d1 req = Some r \<and> req_state r = BLOCKDEV_REQ_PENDING"
    using 1 by (cases s) (auto simp: blockdev_create_request_def and_then_Inr give_def)
  obtain k2 d2 x k3 d3 where 3: "blockdev_post_request dev req (k1, d1) = Some (Inr ((), k2, d2))"
    and 4: "blockdev_wait_for_completion req (k2, d2) = Some (Inr (x, k3, d3))"
    using 2 by (auto simp: blockdev_post_and_wait_def and_then_Inr)
  obtain b where b: "devs d1 dev = Some b" using 3 by (auto simp: blockdev_post_request_def bind_eq_Some_conv Let_def)
  have "d2 = upd_req req (\<lambda>r. r\<lparr>req_dev := dev\<rparr>) d1"
    using 3 b by (cases "dev_ops b") (auto simp: blockdev_post_request_def ramdisk_post_request_def with_kernel_Inr Let_def)
  then have "\<exists>r. reqs d2 req = Some r \<and> req_state r = BLOCKDEV_REQ_PENDING" using r1 by auto
  then show False using 4
    by (auto simp: blockdev_wait_for_completion_def blockdev_wait_loop_def bind_eq_Some_conv)
qed

section \<open>The blocks of a page\<close>

lemma pager_blocks_ok:
  assumes bp: "s = unat (lba_val (pg_start bp))" "n = unat (pg_num_blocks bp)" "b = unat (num_blocks_per_page bp)"
    and wrap: "s + n < 2 ^ 32" "s + (unat p + 1) * b < 2 ^ 32" and inside: "unat p * b \<le> n"
  shows "\<exists>l c. blockdev_pager_blocks bp p = Some (l, c) \<and> unat (lba_val l) = s + unat p * b
    \<and> unat c = min b (n - unat p * b)"
proof -
  have t: "unat (p * num_blocks_per_page bp) = unat p * b"
    unfolding bp(3) by (rule unat_times_no_wrap) (use wrap(2) bp(3) in simp)
  let ?l = "lba_val (pg_start bp) + p * num_blocks_per_page bp"
  have l: "unat ?l = s + unat p * b" unfolding bp(1) t [symmetric]
    by (rule unat_plus_no_wrap) (use wrap(2) bp(1) t in simp)
  let ?e = "?l + num_blocks_per_page bp" and ?r = "lba_val (pg_start bp) + pg_num_blocks bp"
  have e: "unat ?e = s + unat p * b + b" unfolding bp(3) l [unfolded bp(3), symmetric]
    by (rule unat_plus_no_wrap) (use wrap(2) bp(3) l in simp)
  have r: "unat ?r = s + n" unfolding bp(1,2) by (rule unat_plus_no_wrap) (use wrap(1) bp in simp)
  let ?f = "if ?r < ?e then ?r else ?e"
  have f: "unat ?f = min (s + n) (s + unat p * b + b)" using e r by (simp add: word_less_nat_alt min_def)
  have le: "?l \<le> ?f" unfolding word_le_nat_alt f l using inside by simp
  have "blockdev_pager_blocks bp p = Some (\<lparr>lba_val = ?l\<rparr>, ?f - ?l)"
  proof -
    have 1: "lba_add_offset (pg_start bp) (p * num_blocks_per_page bp) = Some \<lparr>lba_val = ?l\<rparr>"
      using wrap(2) t bp(1) by (simp add: lba_add_offset_eq)
    have 2: "lba_add_offset \<lparr>lba_val = ?l\<rparr> (num_blocks_per_page bp) = Some \<lparr>lba_val = ?e\<rparr>"
      using wrap(2) l bp(3) by (simp add: lba_add_offset_eq)
    have 3: "lba_add_offset (pg_start bp) (pg_num_blocks bp) = Some \<lparr>lba_val = ?r\<rparr>"
      using wrap(1) bp(1,2) by (simp add: lba_add_offset_eq)
    have 4: "(if lba_compare \<lparr>lba_val = ?r\<rparr> \<lparr>lba_val = ?e\<rparr> < 0 then \<lparr>lba_val = ?r\<rparr> else \<lparr>lba_val = ?e\<rparr>) = \<lparr>lba_val = ?f\<rparr>"
      by simp
    have 5: "lba_num_blocks_in_range \<lparr>lba_val = ?l\<rparr> \<lparr>lba_val = ?f\<rparr> = Some (?f - ?l)"
      using le by (simp only: lba_num_blocks_in_range_def lba.simps kassert_simps bind.simps)
    show ?thesis by (simp only: blockdev_pager_blocks_def 1 2 3 4 5 bind.simps Let_def)
  qed
  moreover have "unat (?f - ?l) = min b (n - unat p * b)" using le f l by (simp add: unat_sub)
  ultimately show ?thesis using l by auto
qed

end
