(* ===== verification/Page_Cache.thy ===== *)
theory Page_Cache imports Block_Device begin

text \<open>
  The page cache (\<open>src/kernel/vm.c\<close>).  The pager's operations are arguments: a pager calls through a
  table that the block device pager fills.  A thread that waits for a page to be read by another one
  does so in a loop whose body is \<open>vm_lock_page_loop\<close>; \<open>junk\<close> is what the local variable \<open>rc\<close> holds
  before anything is assigned to it.
\<close>

section \<open>Operations\<close>

type_synonym page_op = "nat \<Rightarrow> nat \<Rightarrow> u32 \<Rightarrow> kernel \<times> devices \<Rightarrow> (devices, int) waits"

abbreviation sizeof_vm_pagecache :: nat where "sizeof_vm_pagecache \<equiv> 36"

definition vm_release_frame_ref :: "nat \<Rightarrow> nat \<Rightarrow> kernel \<Rightarrow> kernel option" where
  "vm_release_frame_ref obj f k = do {
     kassert (MUTEX_IS_HELD obj k);
     kassert (f_refcount (frames k f) > 0);
     kassert (content (frames k f) \<noteq> PAGE_PENDING_INIT);
     let k = upd_frame f (\<lambda>fr. fr\<lparr>f_refcount := f_refcount fr - 1\<rparr>) k;
     if f_refcount (frames k f) = 0 \<and> content (frames k f) = PAGE_FAILED_INIT
     then mem_free_frame f (k\<lparr>flists := list_remove (PgCacheFrames obj) f (flists k)\<rparr>)
     else Some k
   }"

definition vm_pagein :: "page_op \<Rightarrow> nat \<Rightarrow> u32 \<Rightarrow> nat \<Rightarrow> kernel \<times> devices \<Rightarrow> (devices, int) waits" where
  "vm_pagein read_page pager page_num f = read_page pager (mem_frame_to_pa f) page_num"

definition vm_pageout :: "page_op \<Rightarrow> nat \<Rightarrow> u32 \<Rightarrow> nat \<Rightarrow> kernel \<times> devices \<Rightarrow> (devices, int) waits" where
  "vm_pageout write_page pager page_num f = write_page pager (mem_frame_to_pa f) page_num"

text \<open>\<open>vm_alloc_and_page_in\<close> before and after the page is read.  The result is the return code and
  what has been stored in \<open>*p_frame\<close>.\<close>

definition vm_alloc_page :: "nat \<Rightarrow> kernel \<times> devices \<Rightarrow> (devices, nat) waits" where
  "vm_alloc_page obj = (\<lambda>(k, d). do {
     kassert (MUTEX_IS_HELD obj k);
     and_then (with_kernel (mem_alloc_frame FRAME_VM_PGCACHE 1) (k, d)) (\<lambda>f (k, d). do {
       l \<leftarrow> list_append (PgCacheFrames obj) f (flists k);
       let k = upd_frame f (\<lambda>fr. fr\<lparr>content := PAGE_PENDING_INIT\<rparr>) (k\<lparr>flists := l\<rparr>);
       k \<leftarrow> mutex_unlock obj k;
       give f (k, d)
     })
   })"

definition vm_page_in_done :: "nat \<Rightarrow> nat \<Rightarrow> int \<Rightarrow> kernel \<times> devices \<Rightarrow> (devices, int \<times> nat option) waits" where
  "vm_page_in_done obj f rc s =
     and_then (with_kernel (mutex_lock obj) s) (\<lambda>_ (k, d). do {
       let k = upd_frame f (\<lambda>fr. fr\<lparr>content := (if rc = 0 then PAGE_CLEAN else PAGE_FAILED_INIT)\<rparr>) k;
       k \<leftarrow> cond_broadcast obj k;
       if rc = 0 then give (rc, Some f) (k, d)
       else do { k \<leftarrow> vm_release_frame_ref obj f k; give (rc, None) (k, d) }
     })"

definition vm_alloc_and_page_in ::
  "page_op \<Rightarrow> nat \<Rightarrow> u32 \<Rightarrow> kernel \<times> devices \<Rightarrow> (devices, int \<times> nat option) waits"
where
  "vm_alloc_and_page_in read_page obj page_num s =
     and_then (vm_alloc_page obj s) (\<lambda>f (k, d). do {
       pc \<leftarrow> pgcaches d obj;
       and_then (vm_pagein read_page (pc_pager pc) page_num f (k, d)) (\<lambda>rc s. vm_page_in_done obj f rc s)
     })"

definition vm_pagecache_create :: "nat \<Rightarrow> kernel \<times> devices \<Rightarrow> (devices, int \<times> nat) waits" where
  "vm_pagecache_create pager s =
     and_then (with_kernel (mem_alloc sizeof_vm_pagecache) s) (\<lambda>obj (k, d).
       let k = mutex_init obj k;
           k = cond_init obj k;
           k = k\<lparr>flists := list_clear (PgCacheFrames obj) (flists k)\<rparr>
       in give (0, obj) (k, d\<lparr>pgcaches := (pgcaches d)(obj \<mapsto> \<lparr>pc_pager = pager\<rparr>)\<rparr>))"

text \<open>The search along the list of frames.\<close>

partial_function (option) find_page :: "kernel \<Rightarrow> u32 \<Rightarrow> nat option \<Rightarrow> nat option option" where
  "find_page k page_num fo = (case fo of
     None \<Rightarrow> Some None
   | Some f \<Rightarrow> if vm_pgcache_page_num (frames k f) = page_num then Some (Some f)
              else find_page k page_num (list_next f (flists k)))"

text \<open>A page that is present: the body of the loop that waits until it has been read, and the end.\<close>

definition vm_lock_page_loop :: "int \<Rightarrow> nat \<Rightarrow> nat \<Rightarrow> kernel \<times> devices \<Rightarrow> (devices, int \<times> nat option) waits" where
  "vm_lock_page_loop junk obj f = (\<lambda>(k, d).
     if content (frames k f) = PAGE_PENDING_INIT
     then do { k \<leftarrow> cond_wait obj obj k; Some (Inl (k, d)) }
     else if content (frames k f) = PAGE_FAILED_INIT
     then do {
       let rc = errc (frames k f);
       k \<leftarrow> vm_release_frame_ref obj f k;
       k \<leftarrow> mutex_unlock obj k;
       give (rc, None) (k, d)
     }
     else do { k \<leftarrow> mutex_unlock obj k; give (junk, Some f) (k, d) })"

definition vm_lock_page ::
  "page_op \<Rightarrow> int \<Rightarrow> nat \<Rightarrow> u32 \<Rightarrow> kernel \<times> devices \<Rightarrow> (devices, int \<times> nat option) waits"
where
  "vm_lock_page read_page junk obj page_num s =
     and_then (with_kernel (mutex_lock obj) s) (\<lambda>_ (k, d). do {
       fo \<leftarrow> find_page k page_num (list_get_first (PgCacheFrames obj) (flists k));
       case fo of
         None \<Rightarrow> and_then (vm_alloc_and_page_in read_page obj page_num (k, d)) (\<lambda>r (k, d). do {
             k \<leftarrow> mutex_unlock obj k;
             give r (k, d)
           })
       | Some f \<Rightarrow> vm_lock_page_loop junk obj f (upd_frame f (\<lambda>fr. fr\<lparr>f_refcount := f_refcount fr + 1\<rparr>) k, d)
     })"

definition vm_unlock_page :: "nat \<Rightarrow> nat \<Rightarrow> kernel \<times> devices \<Rightarrow> (devices, int) waits" where
  "vm_unlock_page obj f s =
     and_then (with_kernel (mutex_lock obj) s) (\<lambda>_ (k, d). do {
       kassert (f_refcount (frames k f) > 0);
       let k = upd_frame f (\<lambda>fr. fr\<lparr>f_refcount := f_refcount fr - 1\<rparr>) k;
       k \<leftarrow> mutex_unlock obj k;
       give 0 (k, d)
     })"

section \<open>The search\<close>

lemma find_page_rep:
  assumes "list_rep (flists k) q (xs @ ys)"
  shows "find_page k p (first_or ys None) = Some (find (\<lambda>f. vm_pgcache_page_num (frames k f) = p) ys)"
  using assms
proof (induction ys arbitrary: xs)
  case Nil
  then show ?case by (subst find_page.simps) simp
next
  case (Cons y ys)
  have "list_next y (flists k) = first_or ys None" using list_next_rep [OF Cons.prems] .
  moreover have "find_page k p (first_or ys None) = Some (find (\<lambda>f. vm_pgcache_page_num (frames k f) = p) ys)"
    using Cons.IH [of "xs @ [y]"] Cons.prems by simp
  ultimately show ?case by (subst find_page.simps) simp
qed

lemma find_first:
  assumes "lists_rep (flists k) FA"
  shows "find_page k p (list_get_first q (flists k)) = Some (find (\<lambda>f. vm_pgcache_page_num (frames k f) = p) (FA q))"
proof -
  have r: "list_rep (flists k) q ([] @ FA q)" using lists_repD [OF assms] by simp
  show ?thesis using find_page_rep [OF r] list_get_first_rep [OF lists_repD [OF assms, of q]] by simp
qed

section \<open>Locking a page\<close>

lemma lock_page_hit:
  assumes q: "quiet obj k" and m: "m_state (mutexes k obj) = MUTEX_UNLOCKED" and rep: "lists_rep (flists k) FA"
    and f: "find (\<lambda>f. vm_pgcache_page_num (frames k f) = p) (FA (PgCacheFrames obj)) = Some f"
    and c: "content (frames k f) \<in> {PAGE_CLEAN, PAGE_DIRTY}"
  shows "\<exists>k'. vm_lock_page read_page junk obj p (k, d) = Some (Inr ((junk, Some f), k', d))
    \<and> frames k' = (frames k)(f := (frames k f)\<lparr>f_refcount := f_refcount (frames k f) + 1\<rparr>) \<and> flists k' = flists k
    \<and> quiet obj k' \<and> m_state (mutexes k' obj) = MUTEX_UNLOCKED"
proof -
  let ?k = "set_mutex obj MUTEX_LOCKED (g_current k) (k\<lparr>g_preemption := True\<rparr>)"
  let ?k2 = "upd_frame f (\<lambda>fr. fr\<lparr>f_refcount := f_refcount fr + 1\<rparr>) ?k"
  have l: "mutex_lock obj k = Some (Inr ((), ?k))" using q m by (intro mutex_lock_free) (simp_all add: quiet_def)
  have "lists_rep (flists ?k) FA" using rep by simp
  then have fp: "find_page ?k p (list_get_first (PgCacheFrames obj) (flists ?k)) = Some (Some f)"
    using f by (simp add: find_first del: set_mutex_frames(2))
  have u: "mutex_unlock obj ?k2 = Some (set_mutex obj MUTEX_UNLOCKED 0 (?k2\<lparr>g_preemption := True\<rparr>))"
    using q by (intro unlock_alone) (simp_all add: MUTEX_IS_HELD_def)
  show ?thesis
    using fp u c q by (auto simp: vm_lock_page_def l vm_lock_page_loop_def give_def)
qed

lemma alloc_page_ok:
  assumes q: "quiet obj k" and h: "MUTEX_IS_HELD obj k" and rep: "lists_rep (flists k) FA"
    and free: "FA FreeFrames = f # fs"
  shows "\<exists>k'. vm_alloc_page obj (k, d) = Some (Inr (f, k', d))
    \<and> frames k' = (frames k)(f := (frames k f)\<lparr>f_state := FRAME_VM_PGCACHE, f_refcount := 1, content := PAGE_PENDING_INIT\<rparr>)
    \<and> lists_rep (flists k') (FA(FreeFrames := fs, PgCacheFrames obj := FA (PgCacheFrames obj) @ [f]))
    \<and> quiet obj k' \<and> m_state (mutexes k' obj) = MUTEX_UNLOCKED \<and> g_current k' = g_current k"
proof -
  obtain l where l: "list_remove_first FreeFrames (flists k) = Some (f, l)" "lists_rep l (FA(FreeFrames := fs))"
    using lists_remove_first [where q = FreeFrames, OF rep free] by blast
  have "\<not> list_is_empty FreeFrames (flists k)" using lists_is_empty_iff [OF rep, of FreeFrames] free by simp
  then have a: "mem_alloc_frame FRAME_VM_PGCACHE 1 k = Some (Inr (f, upd_frame f
      (\<lambda>fr. fr\<lparr>f_state := FRAME_VM_PGCACHE, f_refcount := 1\<rparr>) (k\<lparr>flists := l\<rparr>)))"
    using l(1) by (simp add: mem_alloc_frame_def mem_alloc_frame_loop_def upd_frame_def Let_def)
  let ?k1 = "upd_frame f (\<lambda>fr. fr\<lparr>f_state := FRAME_VM_PGCACHE, f_refcount := 1\<rparr>) (k\<lparr>flists := l\<rparr>)"
  have "on_no_list f (FA(FreeFrames := fs))" using on_no_list_head [OF rep free] .
  then obtain l2 where l2: "list_append (PgCacheFrames obj) f l = Some l2"
    "lists_rep l2 (FA(FreeFrames := fs, PgCacheFrames obj := FA (PgCacheFrames obj) @ [f]))"
    using lists_append [OF l(2), of f "PgCacheFrames obj"] by auto
  let ?k2 = "upd_frame f (\<lambda>fr. fr\<lparr>content := PAGE_PENDING_INIT\<rparr>) (?k1\<lparr>flists := l2\<rparr>)"
  have u: "mutex_unlock obj ?k2 = Some (set_mutex obj MUTEX_UNLOCKED 0 (?k2\<lparr>g_preemption := True\<rparr>))"
    using q h by (intro unlock_alone) simp_all
  show ?thesis using a l2 u h q
    by (simp add: vm_alloc_page_def give_def)
qed

lemma page_in_done_ok:
  assumes q: "quiet obj k" and m: "m_state (mutexes k obj) = MUTEX_UNLOCKED"
  shows "\<exists>k'. vm_page_in_done obj f 0 (k, d) = Some (Inr ((0, Some f), k', d))
    \<and> frames k' = (frames k)(f := (frames k f)\<lparr>content := PAGE_CLEAN\<rparr>) \<and> flists k' = flists k
    \<and> quiet obj k' \<and> MUTEX_IS_HELD obj k' \<and> g_current k' = g_current k"
proof -
  let ?k = "set_mutex obj MUTEX_LOCKED (g_current k) (k\<lparr>g_preemption := True\<rparr>)"
  let ?k2 = "upd_frame f (\<lambda>fr. fr\<lparr>content := PAGE_CLEAN\<rparr>) ?k"
  have l: "mutex_lock obj k = Some (Inr ((), ?k))" using q m by (intro mutex_lock_free) (simp_all add: quiet_def)
  have b: "cond_broadcast obj ?k2 = Some ?k2" using q by (intro broadcast_nobody) simp
  show ?thesis using q b by (simp add: vm_page_in_done_def l give_def)
qed

text \<open>A page that is not found is read into a new frame, which joins the cache with the page number
  that the frame happens to have.\<close>

lemma lock_page_miss:
  assumes q: "quiet obj k" and m: "m_state (mutexes k obj) = MUTEX_UNLOCKED" and rep: "lists_rep (flists k) FA"
    and none: "\<forall>f \<in> set (FA (PgCacheFrames obj)). vm_pgcache_page_num (frames k f) \<noteq> p"
    and free: "FA FreeFrames = f # fs" and pc: "pgcaches d obj = Some pc"
    and rd: "\<And>k'. read_page (pc_pager pc) (mem_frame_to_pa f) p (k', d) = give 0 (k', d')"
  shows "\<exists>k'. vm_lock_page read_page junk obj p (k, d) = Some (Inr ((0, Some f), k', d'))
    \<and> frames k' = (frames k)(f := (frames k f)\<lparr>f_state := FRAME_VM_PGCACHE, f_refcount := 1, content := PAGE_CLEAN\<rparr>)
    \<and> lists_rep (flists k') (FA(FreeFrames := fs, PgCacheFrames obj := FA (PgCacheFrames obj) @ [f]))
    \<and> quiet obj k' \<and> m_state (mutexes k' obj) = MUTEX_UNLOCKED"
proof -
  let ?k = "set_mutex obj MUTEX_LOCKED (g_current k) (k\<lparr>g_preemption := True\<rparr>)"
  have l: "mutex_lock obj k = Some (Inr ((), ?k))" using q m by (intro mutex_lock_free) (simp_all add: quiet_def)
  have r: "lists_rep (flists ?k) FA" using rep by simp
  have "find (\<lambda>f. vm_pgcache_page_num (frames k f) = p) (FA (PgCacheFrames obj)) = None"
    using none by (simp add: find_None_iff)
  then have fp: "find_page ?k p (list_get_first (PgCacheFrames obj) (flists ?k)) = Some None"
    using find_first [OF r, of p "PgCacheFrames obj"] by simp
  have "quiet obj ?k" "MUTEX_IS_HELD obj ?k" using q by (simp_all add: MUTEX_IS_HELD_def)
  from alloc_page_ok [OF this r free] obtain k1 where k1: "vm_alloc_page obj (?k, d) = Some (Inr (f, k1, d))"
    "frames k1 = (frames k)(f := (frames k f)\<lparr>f_state := FRAME_VM_PGCACHE, f_refcount := 1, content := PAGE_PENDING_INIT\<rparr>)"
    "lists_rep (flists k1) (FA(FreeFrames := fs, PgCacheFrames obj := FA (PgCacheFrames obj) @ [f]))"
    "quiet obj k1" "m_state (mutexes k1 obj) = MUTEX_UNLOCKED" by auto
  from page_in_done_ok [OF k1(4,5), of f d'] obtain k2 where k2:
    "vm_page_in_done obj f 0 (k1, d') = Some (Inr ((0, Some f), k2, d'))"
    "frames k2 = (frames k1)(f := (frames k1 f)\<lparr>content := PAGE_CLEAN\<rparr>)" "flists k2 = flists k1"
    "quiet obj k2" "MUTEX_IS_HELD obj k2" by auto
  have "vm_alloc_and_page_in read_page obj p (?k, d) = Some (Inr ((0, Some f), k2, d'))"
    using k1(1) pc rd [of k1] k2(1) by (simp add: vm_alloc_and_page_in_def vm_pagein_def)
  with fp unlock_alone [OF k2(4,5)] have "vm_lock_page read_page junk obj p (k, d)
      = Some (Inr ((0, Some f), set_mutex obj MUTEX_UNLOCKED 0 (k2\<lparr>g_preemption := True\<rparr>), d'))"
    by (simp add: vm_lock_page_def l give_def)
  then show ?thesis using k1(2,3) k2 by simp
qed

text \<open>After a page has been read, a thread that locks the page whose number the frame happens to have
  gets the same frame, and a return code that was never assigned.\<close>

lemma lock_wrong_page:
  assumes q: "quiet obj k" and m: "m_state (mutexes k obj) = MUTEX_UNLOCKED" and rep: "lists_rep (flists k) FA"
    and none: "FA (PgCacheFrames obj) = []"
    and free: "FA FreeFrames = f # fs" and pc: "pgcaches d obj = Some pc"
    and rd: "\<And>k'. read_page (pc_pager pc) (mem_frame_to_pa f) p (k', d) = give 0 (k', d')"
    and old: "vm_pgcache_page_num (frames k f) = p'"
  shows "\<exists>k1 k2. vm_lock_page read_page junk obj p (k, d) = Some (Inr ((0, Some f), k1, d'))
    \<and> vm_lock_page read_page junk obj p' (k1, d') = Some (Inr ((junk, Some f), k2, d'))
    \<and> f_refcount (frames k2 f) = 2"
proof -
  have "\<forall>f \<in> set (FA (PgCacheFrames obj)). vm_pgcache_page_num (frames k f) \<noteq> p" using none by simp
  from lock_page_miss [where read_page = read_page and junk = junk, OF q m rep this free pc rd] obtain k1 where k1:
    "vm_lock_page read_page junk obj p (k, d) = Some (Inr ((0, Some f), k1, d'))"
    "frames k1 = (frames k)(f := (frames k f)\<lparr>f_state := FRAME_VM_PGCACHE, f_refcount := 1, content := PAGE_CLEAN\<rparr>)"
    "lists_rep (flists k1) (FA(FreeFrames := fs, PgCacheFrames obj := FA (PgCacheFrames obj) @ [f]))"
    "quiet obj k1" "m_state (mutexes k1 obj) = MUTEX_UNLOCKED" by auto
  have "find (\<lambda>f. vm_pgcache_page_num (frames k1 f) = p')
      ((FA(FreeFrames := fs, PgCacheFrames obj := FA (PgCacheFrames obj) @ [f])) (PgCacheFrames obj)) = Some f"
    using none old k1(2) by simp
  moreover have "content (frames k1 f) \<in> {PAGE_CLEAN, PAGE_DIRTY}" using k1(2) by simp
  ultimately obtain k2 where "vm_lock_page read_page junk obj p' (k1, d') = Some (Inr ((junk, Some f), k2, d'))"
    "frames k2 = (frames k1)(f := (frames k1 f)\<lparr>f_refcount := f_refcount (frames k1 f) + 1\<rparr>)"
    using lock_page_hit [OF k1(4,5,3)] by blast
  then show ?thesis using k1(1,2) by auto
qed

section \<open>Releasing a page\<close>

lemma unlock_page_ok:
  assumes q: "quiet obj k" and m: "m_state (mutexes k obj) = MUTEX_UNLOCKED" and r: "f_refcount (frames k f) > 0"
  shows "\<exists>k'. vm_unlock_page obj f (k, d) = Some (Inr (0, k', d))
    \<and> frames k' = (frames k)(f := (frames k f)\<lparr>f_refcount := f_refcount (frames k f) - 1\<rparr>) \<and> flists k' = flists k
    \<and> quiet obj k' \<and> m_state (mutexes k' obj) = MUTEX_UNLOCKED"
proof -
  let ?k = "set_mutex obj MUTEX_LOCKED (g_current k) (k\<lparr>g_preemption := True\<rparr>)"
  let ?k2 = "upd_frame f (\<lambda>fr. fr\<lparr>f_refcount := f_refcount fr - 1\<rparr>) ?k"
  have l: "mutex_lock obj k = Some (Inr ((), ?k))" using q m by (intro mutex_lock_free) (simp_all add: quiet_def)
  have u: "mutex_unlock obj ?k2 = Some (set_mutex obj MUTEX_UNLOCKED 0 (?k2\<lparr>g_preemption := True\<rparr>))"
    using q by (intro unlock_alone) (simp_all add: MUTEX_IS_HELD_def)
  show ?thesis using r u q by (simp add: vm_unlock_page_def l give_def)
qed

lemma unlock_page_unreferenced:
  assumes q: "quiet obj k" and m: "m_state (mutexes k obj) = MUTEX_UNLOCKED" and r: "f_refcount (frames k f) \<le> 0"
  shows "vm_unlock_page obj f (k, d) = None"
proof -
  let ?k = "set_mutex obj MUTEX_LOCKED (g_current k) (k\<lparr>g_preemption := True\<rparr>)"
  have l: "mutex_lock obj k = Some (Inr ((), ?k))" using q m by (intro mutex_lock_free) (simp_all add: quiet_def)
  show ?thesis using r by (simp add: vm_unlock_page_def l halt_simps)
qed

end
