(* ===== verification/Device_Registry.thy ===== *)
theory Device_Registry imports Wait_Lift begin

text \<open>
  The registry of devices (\<open>src/kernel/dev.c\<close>): a list of named devices under a mutex.  Names are the
  bytes of a C string before its terminator; \<open>str_ncmp\<close> and \<open>str_ncpy\<close> are what \<open>strncmp\<close> and \<open>strncpy\<close>
  compute on such strings.
\<close>

section \<open>Strings as values\<close>

type_synonym cstr = "u8 list"

definition str_ncmp :: "cstr \<Rightarrow> cstr \<Rightarrow> nat \<Rightarrow> int" where
  "str_ncmp xs ys n = lex_cmp (take n xs) (take n ys)"

definition str_ncpy :: "cstr \<Rightarrow> nat \<Rightarrow> cstr" where
  "str_ncpy xs n = take n xs"

definition is_cstr :: "cstr \<Rightarrow> bool" where
  "is_cstr xs \<longleftrightarrow> 0 \<notin> set xs"

lemma str_ncmp_memory:
  assumes "cstring m a xs" and "cstring m b ys"
  shows "strncmp m a b n = str_ncmp xs ys n"
  by (simp add: str_ncmp_def strncmp_cstring [OF assms])

lemma str_ncmp_zero: "is_cstr xs \<Longrightarrow> is_cstr ys \<Longrightarrow> str_ncmp xs ys n = 0 \<longleftrightarrow> take n xs = take n ys"
  using lex_cmp_zero [of "take n xs" "take n ys"] by (auto simp: str_ncmp_def is_cstr_def dest: in_set_takeD)

section \<open>Data and operations\<close>

definition DEV_NAME_MAXLEN :: nat where "DEV_NAME_MAXLEN = 31"

datatype dev_type_t = DEV_CHAR | DEV_BLOCK

record device =
  dev_name :: cstr
  dev_type :: dev_type_t
  devobj :: nat

record registry =
  device_at :: "nat \<rightharpoonup> device"
  s_devlist :: "(unit, nat) lstore"

definition S_DEVLIST_MUTEX :: nat where "S_DEVLIST_MUTEX = 3"

abbreviation sizeof_device :: nat where "sizeof_device \<equiv> 48"

text \<open>The loops go from one device to the next along the list.\<close>

partial_function (option) dev_name_taken :: "cstr \<Rightarrow> registry \<Rightarrow> nat option \<Rightarrow> bool option" where
  "dev_name_taken name r p = (case p of
     None \<Rightarrow> Some False
   | Some dev \<Rightarrow> do {
       d \<leftarrow> device_at r dev;
       if str_ncmp name (dev_name d) DEV_NAME_MAXLEN = 0 then Some True
       else dev_name_taken name r (list_next dev (s_devlist r))
     })"

definition dev_register :: "dev_type_t \<Rightarrow> cstr \<Rightarrow> nat \<Rightarrow> kernel \<times> registry \<Rightarrow> (registry, int) waits" where
  "dev_register ty name obj s =
     and_then (with_kernel (mutex_lock S_DEVLIST_MUTEX) s) (\<lambda>_ (k, r). do {
       taken \<leftarrow> dev_name_taken name r (list_get_first () (s_devlist r));
       if taken then do { k \<leftarrow> mutex_unlock S_DEVLIST_MUTEX k; give EEXIST (k, r) }
       else and_then (with_kernel (mem_alloc sizeof_device) (k, r)) (\<lambda>dev (k, r). do {
         let r = r\<lparr>device_at := (device_at r)(dev \<mapsto>
               \<lparr>dev_name = str_ncpy name DEV_NAME_MAXLEN, dev_type = ty, devobj = obj\<rparr>)\<rparr>;
         l \<leftarrow> list_append () dev (s_devlist r);
         k \<leftarrow> mutex_unlock S_DEVLIST_MUTEX k;
         give 0 (k, r\<lparr>s_devlist := l\<rparr>)
       })
     })"

definition dev_register_blockdev :: "cstr \<Rightarrow> nat \<Rightarrow> kernel \<times> registry \<Rightarrow> (registry, int) waits" where
  "dev_register_blockdev name dev = dev_register DEV_BLOCK name dev"

text \<open>A callback gets the data by reference: it returns whether to go on, and the data.\<close>

type_synonym 'c dev_callback = "dev_type_t \<Rightarrow> cstr \<Rightarrow> nat \<Rightarrow> 'c \<Rightarrow> bool \<times> 'c"

partial_function (option) dev_enumerate_loop :: "'c dev_callback \<Rightarrow> registry \<Rightarrow> 'c \<Rightarrow> nat option \<Rightarrow> 'c option" where
  "dev_enumerate_loop cb r c p = (case p of
     None \<Rightarrow> Some c
   | Some dev \<Rightarrow> do {
       d \<leftarrow> device_at r dev;
       let (go_on, c) = cb (dev_type d) (dev_name d) (devobj d) c;
       if \<not> go_on then Some c else dev_enumerate_loop cb r c (list_next dev (s_devlist r))
     })"

definition dev_enumerate :: "'c dev_callback \<Rightarrow> 'c \<Rightarrow> kernel \<times> registry \<Rightarrow> (registry, 'c) waits" where
  "dev_enumerate cb c s =
     and_then (with_kernel (mutex_lock S_DEVLIST_MUTEX) s) (\<lambda>_ (k, r). do {
       c \<leftarrow> dev_enumerate_loop cb r c (list_get_first () (s_devlist r));
       k \<leftarrow> mutex_unlock S_DEVLIST_MUTEX k;
       give c (k, r)
     })"

record dev_find_callback_data =
  fc_type :: dev_type_t
  fc_name :: cstr
  fc_result :: nat

definition dev_find_callback :: "dev_find_callback_data dev_callback" where
  "dev_find_callback ty name obj data =
     (if ty = fc_type data \<and> str_ncmp name (fc_name data) DEV_NAME_MAXLEN = 0
      then (False, data\<lparr>fc_result := obj\<rparr>)
      else (True, data))"

text \<open>The return code and the device stored in \<open>*p_dev\<close>.\<close>

definition dev_find_blockdev :: "cstr \<Rightarrow> kernel \<times> registry \<Rightarrow> (registry, int \<times> nat) waits" where
  "dev_find_blockdev name s =
     and_then (dev_enumerate dev_find_callback \<lparr>fc_type = DEV_BLOCK, fc_name = name, fc_result = 0\<rparr> s) (\<lambda>data s.
       if fc_result data = 0 then give (ENODEV, 0) s else give (0, fc_result data) s)"

section \<open>What the registry stands for\<close>

text \<open>The devices in the order in which they were registered.\<close>

definition reg_rep :: "registry \<Rightarrow> (nat \<times> device) list \<Rightarrow> bool" where
  "reg_rep r ds \<longleftrightarrow> list_rep (s_devlist r) () (map fst ds) \<and> (\<forall>(a, d) \<in> set ds. device_at r a = Some d)
     \<and> (\<forall>(a, d) \<in> set ds. is_cstr (dev_name d) \<and> length (dev_name d) \<le> DEV_NAME_MAXLEN)"

definition clip :: "cstr \<Rightarrow> cstr" where "clip name = take DEV_NAME_MAXLEN name"

definition find_block :: "cstr \<Rightarrow> (nat \<times> device) list \<Rightarrow> nat option" where
  "find_block name ds = map_option (devobj \<circ> snd)
     (find (\<lambda>(a, d). dev_type d = DEV_BLOCK \<and> dev_name d = clip name) ds)"

lemma ncmp_clip:
  assumes "is_cstr name" and "is_cstr n" and "length n \<le> DEV_NAME_MAXLEN"
  shows "str_ncmp name n DEV_NAME_MAXLEN = 0 \<longleftrightarrow> n = clip name" and "str_ncmp n name DEV_NAME_MAXLEN = 0 \<longleftrightarrow> n = clip name"
  using assms by (auto simp: str_ncmp_zero clip_def)

lemma name_taken_rep:
  assumes "list_rep (s_devlist r) () (xs @ map fst ds)" and "\<forall>(a, d) \<in> set ds. device_at r a = Some d"
    and "\<forall>(a, d) \<in> set ds. is_cstr (dev_name d) \<and> length (dev_name d) \<le> DEV_NAME_MAXLEN" and "is_cstr name"
  shows "dev_name_taken name r (first_or (map fst ds) None) = Some (\<exists>(a, d) \<in> set ds. dev_name d = clip name)"
  using assms
proof (induction ds arbitrary: xs)
  case Nil
  then show ?case by (subst dev_name_taken.simps) simp
next
  case (Cons x ds)
  obtain a d where x: "x = (a, d)" by (cases x)
  have n: "list_next a (s_devlist r) = first_or (map fst ds) None"
    using list_next_rep [of "s_devlist r" "()" xs a "map fst ds"] Cons.prems(1) x by simp
  have "dev_name_taken name r (first_or (map fst ds) None) = Some (\<exists>(a, d) \<in> set ds. dev_name d = clip name)"
    using Cons.IH [of "xs @ [a]"] Cons.prems x by simp
  moreover have "str_ncmp name (dev_name d) DEV_NAME_MAXLEN = 0 \<longleftrightarrow> dev_name d = clip name"
    using Cons.prems(3,4) x by (intro ncmp_clip(1)) auto
  ultimately show ?case using Cons.prems(2) x n by (subst dev_name_taken.simps) simp
qed

lemma enumerate_find_rep:
  assumes "list_rep (s_devlist r) () (xs @ map fst ds)" and "\<forall>(a, d) \<in> set ds. device_at r a = Some d"
    and "\<forall>(a, d) \<in> set ds. is_cstr (dev_name d) \<and> length (dev_name d) \<le> DEV_NAME_MAXLEN" and "is_cstr name"
  shows "dev_enumerate_loop dev_find_callback r \<lparr>fc_type = DEV_BLOCK, fc_name = name, fc_result = 0\<rparr>
      (first_or (map fst ds) None)
    = Some \<lparr>fc_type = DEV_BLOCK, fc_name = name, fc_result = (case find_block name ds of None \<Rightarrow> 0 | Some p \<Rightarrow> p)\<rparr>"
  using assms
proof (induction ds arbitrary: xs)
  case Nil
  then show ?case by (subst dev_enumerate_loop.simps) (simp add: find_block_def)
next
  case (Cons x ds)
  obtain a d where x: "x = (a, d)" by (cases x)
  have n: "list_next a (s_devlist r) = first_or (map fst ds) None"
    using list_next_rep [of "s_devlist r" "()" xs a "map fst ds"] Cons.prems(1) x by simp
  have i: "dev_enumerate_loop dev_find_callback r \<lparr>fc_type = DEV_BLOCK, fc_name = name, fc_result = 0\<rparr>
      (first_or (map fst ds) None)
    = Some \<lparr>fc_type = DEV_BLOCK, fc_name = name, fc_result = (case find_block name ds of None \<Rightarrow> 0 | Some p \<Rightarrow> p)\<rparr>"
    using Cons.IH [of "xs @ [a]"] Cons.prems x by simp
  have "str_ncmp (dev_name d) name DEV_NAME_MAXLEN = 0 \<longleftrightarrow> dev_name d = clip name"
    using Cons.prems(3,4) x by (intro ncmp_clip(2)) auto
  then show ?case using Cons.prems(2) x n i
    by (subst dev_enumerate_loop.simps) (auto simp: dev_find_callback_def find_block_def Let_def)
qed

section \<open>Registering and finding\<close>

lemma set_mutex_heap [simp]: "heap (set_mutex m st ow k) = heap k"
  by (simp add: set_mutex_def)

lemma heap_set_mutex [simp]: "(set_mutex m st ow k)\<lparr>heap := h\<rparr> = set_mutex m st ow (k\<lparr>heap := h\<rparr>)"
  by (simp add: set_mutex_def)

lemma mem_alloc_some:
  assumes "malloc sz (heap k) = Some (a, h)" and "a \<noteq> 0"
  shows "mem_alloc sz k = Some (Inr (a, k\<lparr>heap := h\<rparr>))"
  using assms by (simp add: mem_alloc_def mem_alloc_loop_def Let_def)

lemma quiet_heap [simp]: "quiet obj (k\<lparr>heap := h\<rparr>) = quiet obj k"
  by (simp add: quiet_def)

lemma held_heap [simp]: "MUTEX_IS_HELD m (k\<lparr>heap := h\<rparr>) = MUTEX_IS_HELD m k"
  by (simp add: MUTEX_IS_HELD_def)

lemma reg_list: "reg_rep r ds \<Longrightarrow> list_get_first () (s_devlist r) = first_or (map fst ds) None"
  by (auto simp: reg_rep_def dest: list_get_first_rep)

definition unused :: "nat \<Rightarrow> kernel \<Rightarrow> bool" where
  "unused m k \<longleftrightarrow> quiet m k \<and> m_state (mutexes k m) = MUTEX_UNLOCKED"

lemma register_new:
  assumes q: "unused S_DEVLIST_MUTEX k" and rep: "reg_rep r ds" and name: "is_cstr name"
    and new: "\<forall>(a, d) \<in> set ds. dev_name d \<noteq> clip name"
    and mem: "malloc sizeof_device (heap k) = Some (a, h)" "a \<noteq> 0" "a \<notin> fst ` set ds"
  shows "\<exists>k' r'. dev_register ty name obj (k, r) = Some (Inr (0, k', r')) \<and> unused S_DEVLIST_MUTEX k' \<and> heap k' = h
    \<and> reg_rep r' (ds @ [(a, \<lparr>dev_name = clip name, dev_type = ty, devobj = obj\<rparr>)])"
proof -
  let ?k = "set_mutex S_DEVLIST_MUTEX MUTEX_LOCKED (g_current k) (k\<lparr>g_preemption := True\<rparr>)"
  let ?d = "\<lparr>dev_name = clip name, dev_type = ty, devobj = obj\<rparr>"
  have l: "mutex_lock S_DEVLIST_MUTEX k = Some (Inr ((), ?k))" using q by (intro lock_quiet) (simp_all add: unused_def)
  have t: "dev_name_taken name r (list_get_first () (s_devlist r)) = Some False"
    using name_taken_rep [of r "[]" ds name] rep name new reg_list [OF rep] by (auto simp: reg_rep_def)
  have "malloc sizeof_device (heap ?k) = Some (a, h)" using mem(1) by simp
  from mem_alloc_some [OF this mem(2)] have m: "mem_alloc sizeof_device ?k = Some (Inr (a, ?k\<lparr>heap := h\<rparr>))" .
  have "list_rep (s_devlist r) () (map fst ds)" using rep by (simp add: reg_rep_def)
  from list_append_rep [OF this, of a] mem(3) obtain l' where
    a: "list_append () a (s_devlist r) = Some l'" "list_rep l' () (map fst ds @ [a])" by auto
  have "quiet S_DEVLIST_MUTEX (?k\<lparr>heap := h\<rparr>)" "MUTEX_IS_HELD S_DEVLIST_MUTEX (?k\<lparr>heap := h\<rparr>)"
    using q by (simp_all add: unused_def)
  note u = unlock_alone [OF this]
  let ?r = "r\<lparr>device_at := (device_at r)(a \<mapsto> ?d)\<rparr>"
  have run: "dev_register ty name obj (k, r) = Some (Inr (0, set_mutex S_DEVLIST_MUTEX MUTEX_UNLOCKED 0
      ((?k\<lparr>heap := h\<rparr>)\<lparr>g_preemption := True\<rparr>), ?r\<lparr>s_devlist := l'\<rparr>))"
    using t m a(1) u by (simp add: dev_register_def l give_def str_ncpy_def clip_def)
  have "is_cstr (clip name) \<and> length (clip name) \<le> DEV_NAME_MAXLEN"
    using name by (auto simp: is_cstr_def clip_def dest: in_set_takeD)
  then have "reg_rep (?r\<lparr>s_devlist := l'\<rparr>) (ds @ [(a, ?d)])"
    using rep a(2) mem(3) by (force simp: reg_rep_def)
  then show ?thesis using run q by (simp add: unused_def)
qed

lemma register_taken:
  assumes q: "unused S_DEVLIST_MUTEX k" and rep: "reg_rep r ds" and name: "is_cstr name"
    and old: "(a, d) \<in> set ds" "dev_name d = clip name"
  shows "\<exists>k'. dev_register ty name obj (k, r) = Some (Inr (EEXIST, k', r)) \<and> unused S_DEVLIST_MUTEX k'"
proof -
  let ?k = "set_mutex S_DEVLIST_MUTEX MUTEX_LOCKED (g_current k) (k\<lparr>g_preemption := True\<rparr>)"
  have l: "mutex_lock S_DEVLIST_MUTEX k = Some (Inr ((), ?k))" using q by (intro lock_quiet) (simp_all add: unused_def)
  have "\<exists>(a, d) \<in> set ds. dev_name d = clip name" using old by blast
  then have t: "dev_name_taken name r (list_get_first () (s_devlist r)) = Some True"
    using name_taken_rep [of r "[]" ds name] rep name reg_list [OF rep] by (simp add: reg_rep_def)
  have "quiet S_DEVLIST_MUTEX ?k" "MUTEX_IS_HELD S_DEVLIST_MUTEX ?k" using q by (simp_all add: unused_def)
  from unlock_alone [OF this] t q show ?thesis by (simp add: dev_register_def l give_def unused_def)
qed

lemma find_blockdev_ok:
  assumes q: "unused S_DEVLIST_MUTEX k" and rep: "reg_rep r ds" and name: "is_cstr name"
  shows "\<exists>k'. dev_find_blockdev name (k, r) = Some (Inr (case find_block name ds of
      Some p \<Rightarrow> if p = 0 then (ENODEV, 0) else (0, p) | None \<Rightarrow> (ENODEV, 0), k', r))
    \<and> unused S_DEVLIST_MUTEX k' \<and> heap k' = heap k"
proof -
  let ?k = "set_mutex S_DEVLIST_MUTEX MUTEX_LOCKED (g_current k) (k\<lparr>g_preemption := True\<rparr>)"
  have l: "mutex_lock S_DEVLIST_MUTEX k = Some (Inr ((), ?k))" using q by (intro lock_quiet) (simp_all add: unused_def)
  have e: "dev_enumerate_loop dev_find_callback r \<lparr>fc_type = DEV_BLOCK, fc_name = name, fc_result = 0\<rparr>
      (list_get_first () (s_devlist r))
    = Some \<lparr>fc_type = DEV_BLOCK, fc_name = name, fc_result = (case find_block name ds of None \<Rightarrow> 0 | Some p \<Rightarrow> p)\<rparr>"
    using enumerate_find_rep [of r "[]" ds name] rep name reg_list [OF rep] by (simp add: reg_rep_def)
  have "quiet S_DEVLIST_MUTEX ?k" "MUTEX_IS_HELD S_DEVLIST_MUTEX ?k" using q by (simp_all add: unused_def)
  from unlock_alone [OF this] e q show ?thesis
    by (auto simp: dev_find_blockdev_def dev_enumerate_def l give_def unused_def split: option.splits)
qed

text \<open>A device that has been registered under a new name is found under every name with the same
  first 31 bytes, and what is found under other names does not change.\<close>

lemma register_find:
  assumes q: "unused S_DEVLIST_MUTEX k" and rep: "reg_rep r ds" and name: "is_cstr name"
    and new: "\<forall>(a, d) \<in> set ds. dev_name d \<noteq> clip name"
    and mem: "malloc sizeof_device (heap k) = Some (a, h)" "a \<noteq> 0" "a \<notin> fst ` set ds"
    and n: "is_cstr n" and "obj \<noteq> 0"
  shows "\<exists>k1 r1 k2 k3. dev_register_blockdev name obj (k, r) = Some (Inr (0, k1, r1))
    \<and> dev_find_blockdev n (k1, r1) = Some (Inr (if clip n = clip name then (0, obj) else
        (case find_block n ds of Some p \<Rightarrow> if p = 0 then (ENODEV, 0) else (0, p) | None \<Rightarrow> (ENODEV, 0)), k2, r1))
    \<and> dev_register_blockdev name obj' (k1, r1) = Some (Inr (EEXIST, k3, r1))"
proof -
  let ?d = "\<lparr>dev_name = clip name, dev_type = DEV_BLOCK, devobj = obj\<rparr>"
  from register_new [OF q rep name new mem] obtain k1 r1 where
    1: "dev_register DEV_BLOCK name obj (k, r) = Some (Inr (0, k1, r1))" "unused S_DEVLIST_MUTEX k1"
      "reg_rep r1 (ds @ [(a, ?d)])" by blast
  from find_blockdev_ok [OF 1(2,3) n] obtain k2 where
    2: "dev_find_blockdev n (k1, r1) = Some (Inr (case find_block n (ds @ [(a, ?d)]) of
      Some p \<Rightarrow> if p = 0 then (ENODEV, 0) else (0, p) | None \<Rightarrow> (ENODEV, 0), k2, r1))" by blast
  have "\<exists>k'. dev_register DEV_BLOCK name obj' (k1, r1) = Some (Inr (EEXIST, k', r1)) \<and> unused S_DEVLIST_MUTEX k'"
    by (rule register_taken [OF 1(2,3) name, of a ?d]) simp_all
  then obtain k3 where 3: "dev_register DEV_BLOCK name obj' (k1, r1) = Some (Inr (EEXIST, k3, r1))" by blast
  have none: "find (\<lambda>(a, d). dev_type d = DEV_BLOCK \<and> dev_name d = clip name) ds = None"
    using new by (auto simp: find_None_iff)
  have app: "find P (xs @ ys) = (case find P xs of Some x \<Rightarrow> Some x | None \<Rightarrow> find P ys)" for P xs ys
    by (induction xs) auto
  have "(case find_block n (ds @ [(a, ?d)]) of Some p \<Rightarrow> if p = 0 then (ENODEV, 0) else (0, p) | None \<Rightarrow> (ENODEV, 0))
    = (if clip n = clip name then (0, obj) else
        (case find_block n ds of Some p \<Rightarrow> if p = 0 then (ENODEV, 0) else (0, p) | None \<Rightarrow> (ENODEV, 0)))"
    using none assms(9) by (auto simp: find_block_def app split: option.splits)
  with 1(1) 2 3 show ?thesis by (simp add: dev_register_blockdev_def)
qed

end
