(* ===== verification/Vfs.thy ===== *)
theory Vfs imports Device_Registry Block_Device begin

text \<open>
  The virtual filesystem (\<open>src/kernel/vfs.c\<close>, \<open>include/geekos/vfs.h\<close>): the tree of inodes with its
  reference counts, path names, the list of drivers, mounting and lookup.  The operations of a
  filesystem are an argument (\<open>fs_ops\<close>); the one that the repository has is in \<open>Pfat\<close>.  A string is
  the list of its bytes before the terminator, a null pointer to one is \<open>None\<close>.  Where a function
  waits, its result is the waiting state.
\<close>

section \<open>Data\<close>

definition VFS_PATHLEN_MAX :: nat where "VFS_PATHLEN_MAX = 1023"
definition VFS_NAMELEN_MAX :: nat where "VFS_NAMELEN_MAX = 255"
definition SLASH :: u8 where "SLASH = 0x2F"

datatype vfs_inode_type_t = VFS_FILE | VFS_DIR

text \<open>The child list of an inode and its condition have the address of the inode.\<close>

record inode =
  i_fs_inst :: nat
  i_parent :: nat
  i_type :: vfs_inode_type_t
  i_name :: "cstr option"
  i_mount :: nat
  i_refcount :: int
  i_busy :: bool
  i_p :: nat

record fs_driver =
  drv_next :: nat

record fs_instance =
  inst_p :: nat

text \<open>What the \<open>p\<close> fields of instances and inodes of the PFAT filesystem point to: the device, the
  superblock in memory and the root directory; the first FAT entry.\<close>

record pfat_instance =
  pi_dev :: nat
  pi_super :: nat
  pi_root_dir :: nat

record vfs =
  inodes :: "nat \<rightharpoonup> inode"
  child_lists :: "(nat, nat) lstore"
  fs_drivers :: "nat \<rightharpoonup> fs_driver"
  s_driver_list :: nat
  fs_instances :: "nat \<rightharpoonup> fs_instance"
  s_inst_list :: "(unit, nat) lstore"
  s_root_instance :: nat
  s_root_dir :: nat
  vfs_registry :: registry
  vfs_devices :: devices
  pfat_instances :: "nat \<rightharpoonup> pfat_instance"
  pfat_inodes :: "nat \<rightharpoonup> u32"

definition S_FS_MUTEX :: nat where "S_FS_MUTEX = 1"
definition S_DRIVER_LIST_MUTEX :: nat where "S_DRIVER_LIST_MUTEX = 2"

abbreviation sizeof_inode :: nat where "sizeof_inode \<equiv> 60"
abbreviation sizeof_fs_instance :: nat where "sizeof_fs_instance \<equiv> 16"

text \<open>The operations of filesystem drivers, instances and directories.  An operation that stores a
  pointer through an argument returns it beside the code.\<close>

record fs_ops =
  op_get_name :: "nat \<Rightarrow> cstr"
  op_create_instance :: "nat \<Rightarrow> cstr \<Rightarrow> cstr \<Rightarrow> kernel \<times> vfs \<Rightarrow> (vfs, int \<times> nat) waits"
  op_get_root :: "nat \<Rightarrow> kernel \<times> vfs \<Rightarrow> (vfs, int \<times> nat) waits"
  op_close_instance :: "nat \<Rightarrow> kernel \<times> vfs \<Rightarrow> (vfs, int) waits"
  op_lookup :: "nat \<Rightarrow> cstr \<Rightarrow> kernel \<times> vfs \<Rightarrow> (vfs, int \<times> nat) waits"

definition upd_inode :: "nat \<Rightarrow> (inode \<Rightarrow> inode) \<Rightarrow> vfs \<Rightarrow> vfs" where
  "upd_inode i f v = v\<lparr>inodes := (inodes v)(i := map_option f (inodes v i))\<rparr>"

section \<open>Private functions\<close>

partial_function (option) adjust_loop :: "nat \<Rightarrow> int \<Rightarrow> vfs \<Rightarrow> vfs option" where
  "adjust_loop inode delta v =
     (if inode = 0 then Some v
      else do {
        i \<leftarrow> inodes v inode;
        kassert (i_refcount i \<ge> 0);
        kassert (delta > 0 \<or> i_refcount i > 0);
        adjust_loop (i_parent i) delta (upd_inode inode (\<lambda>i. i\<lparr>i_refcount := i_refcount i + delta\<rparr>) v)
      })"

definition vfs_adjust_refcounts :: "nat \<Rightarrow> int \<Rightarrow> kernel \<times> vfs \<Rightarrow> (kernel \<times> vfs) option" where
  "vfs_adjust_refcounts inode delta = (\<lambda>(k, v). do {
     kassert (MUTEX_IS_HELD S_FS_MUTEX k);
     v \<leftarrow> adjust_loop inode delta v;
     Some (k, v)
   })"

partial_function (option) find_driver_loop :: "fs_ops \<Rightarrow> cstr \<Rightarrow> vfs \<Rightarrow> nat \<Rightarrow> nat option" where
  "find_driver_loop ops name v drv =
     (if drv = 0 then Some 0
      else if lex_cmp name (op_get_name ops drv) = 0 then Some drv
      else do { d \<leftarrow> fs_drivers v drv; find_driver_loop ops name v (drv_next d) })"

definition vfs_find_fs_driver :: "fs_ops \<Rightarrow> cstr \<Rightarrow> kernel \<times> vfs \<Rightarrow> (vfs, int \<times> nat) waits" where
  "vfs_find_fs_driver ops name s =
     and_then (with_kernel (mutex_lock S_DRIVER_LIST_MUTEX) s) (\<lambda>_ (k, v). do {
       drv \<leftarrow> find_driver_loop ops name v (s_driver_list v);
       k \<leftarrow> mutex_unlock S_DRIVER_LIST_MUTEX k;
       if drv \<noteq> 0 then give (0, drv) (k, v) else give (EINVAL, 0) (k, v)
     })"

text \<open>The exit at \<open>done\<close> when the return code is not 0.\<close>

definition mount_failed :: "fs_ops \<Rightarrow> int \<Rightarrow> nat \<Rightarrow> nat \<Rightarrow> kernel \<times> vfs \<Rightarrow> (vfs, int \<times> nat) waits" where
  "mount_failed ops rc fs_inst root_dir s = do {
     kassert (root_dir = 0);
     if fs_inst \<noteq> 0 then and_then (op_close_instance ops fs_inst s) (\<lambda>_ s. give (rc, 0) s)
     else give (rc, 0) s
   }"

definition vfs_do_mount :: "fs_ops \<Rightarrow> cstr \<Rightarrow> nat \<Rightarrow> cstr \<Rightarrow> cstr \<Rightarrow> kernel \<times> vfs \<Rightarrow> (vfs, int \<times> nat) waits" where
  "vfs_do_mount ops fs_driver_name mountpoint init opts = (\<lambda>(k, v). do {
     kassert (MUTEX_IS_HELD S_FS_MUTEX k);
     (if mountpoint = 0 then Some ()
      else do { m \<leftarrow> inodes v mountpoint; kassert (i_type m = VFS_DIR \<and> i_mount m = 0) });
     if mountpoint = 0 \<and> s_root_instance v \<noteq> 0 then mount_failed ops EEXIST 0 0 (k, v)
     else and_then (vfs_find_fs_driver ops fs_driver_name (k, v)) (\<lambda>(rc, drv) s.
       if rc \<noteq> 0 then mount_failed ops rc 0 0 s
       else and_then (op_create_instance ops drv init opts s) (\<lambda>(rc, fs_inst) s.
         if rc \<noteq> 0 then mount_failed ops rc fs_inst 0 s
         else do {
           kassert (fs_inst \<noteq> 0);
           and_then (op_get_root ops fs_inst s) (\<lambda>(rc, root_dir) (k, v).
             if rc \<noteq> 0 then mount_failed ops rc fs_inst root_dir (k, v)
             else do {
               l \<leftarrow> list_append () fs_inst (s_inst_list v);
               give (0, root_dir) (k, v\<lparr>s_inst_list := l\<rparr>)
             })
         }))
   })"

definition vfs_has_more_path_elements :: "cstr \<Rightarrow> bool" where
  "vfs_has_more_path_elements path \<longleftrightarrow> path \<noteq> []"

text \<open>An error code, or the name and the rest of the path.\<close>

definition vfs_get_next_path_element :: "cstr \<Rightarrow> (int + cstr \<times> cstr) option" where
  "vfs_get_next_path_element path = do {
     kassert (path = [] \<or> hd path \<noteq> SLASH);
     let namebuf = takeWhile (\<lambda>c. c \<noteq> SLASH) path;
     let p = dropWhile (\<lambda>c. c \<noteq> SLASH) path;
     if length namebuf > VFS_NAMELEN_MAX then Some (Inl EINVAL)
     else do {
       kassert (min (VFS_NAMELEN_MAX + 1) (length namebuf) \<le> VFS_NAMELEN_MAX);
       Some (Inr (namebuf, dropWhile (\<lambda>c. c = SLASH) p))
     }
   }"

text \<open>The loop over the children compares with the name of the directory, which is dereferenced as
  soon as there is a child.\<close>

partial_function (option) child_loop :: "cstr \<Rightarrow> cstr \<Rightarrow> vfs \<Rightarrow> nat option \<Rightarrow> nat option option" where
  "child_loop name dirname v child =
     (if child = None then Some None
      else if str_ncmp name dirname VFS_NAMELEN_MAX = 0 then Some child
      else child_loop name dirname v (do { c \<leftarrow> child; list_next c (child_lists v) }))"

definition child_search :: "cstr \<Rightarrow> cstr option \<Rightarrow> vfs \<Rightarrow> nat option \<Rightarrow> nat option option" where
  "child_search name dirname v child =
     (if child = None then Some None else do { n \<leftarrow> dirname; child_loop name n v child })"

definition vfs_lookup_child :: "fs_ops \<Rightarrow> nat \<Rightarrow> cstr \<Rightarrow> kernel \<times> vfs \<Rightarrow> (vfs, int \<times> nat) waits" where
  "vfs_lookup_child ops dir name = (\<lambda>(k, v). do {
     kassert (MUTEX_IS_HELD S_FS_MUTEX k);
     d \<leftarrow> inodes v dir;
     kassert (i_type d = VFS_DIR);
     kassert (i_busy d);
     found \<leftarrow> child_search name (i_name d) v (list_get_first dir (child_lists v));
     case found of
       Some c \<Rightarrow> give (0, c) (k, v)
     | None \<Rightarrow> do {
         k \<leftarrow> mutex_unlock S_FS_MUTEX k;
         and_then (op_lookup ops dir name (k, v)) (\<lambda>(rc, inode) (k, v). do {
           v \<leftarrow> (if rc = 0 then do { l \<leftarrow> list_append dir inode (child_lists v); Some (v\<lparr>child_lists := l\<rparr>) }
                 else Some v);
           and_then (with_kernel (mutex_lock S_FS_MUTEX) (k, v)) (\<lambda>_ s. give (rc, inode) s)
         })
       }
   })"

text \<open>The body of the loop that waits for the directory.\<close>

definition vfs_lock_dir :: "nat \<Rightarrow> kernel \<times> vfs \<Rightarrow> (vfs, unit) waits" where
  "vfs_lock_dir dir = (\<lambda>(k, v). do {
     kassert (MUTEX_IS_HELD S_FS_MUTEX k);
     d \<leftarrow> inodes v dir;
     if i_busy d then do { k \<leftarrow> cond_wait dir S_FS_MUTEX k; Some (Inl (k, v)) }
     else give () (k, upd_inode dir (\<lambda>i. i\<lparr>i_busy := True\<rparr>) v)
   })"

definition vfs_unlock_dir :: "nat \<Rightarrow> kernel \<times> vfs \<Rightarrow> (kernel \<times> vfs) option" where
  "vfs_unlock_dir dir = (\<lambda>(k, v). do {
     kassert (MUTEX_IS_HELD S_FS_MUTEX k);
     d \<leftarrow> inodes v dir;
     kassert (i_busy d);
     let v = upd_inode dir (\<lambda>i. i\<lparr>i_busy := False\<rparr>) v;
     k \<leftarrow> cond_broadcast dir k;
     Some (k, v)
   })"

section \<open>Public functions\<close>

definition vfs_mount_root :: "fs_ops \<Rightarrow> cstr \<Rightarrow> cstr \<Rightarrow> cstr \<Rightarrow> kernel \<times> vfs \<Rightarrow> (vfs, int) waits" where
  "vfs_mount_root ops fs_driver_name init opts s =
     and_then (with_kernel (mutex_lock S_FS_MUTEX) s) (\<lambda>_ s.
     and_then (vfs_do_mount ops fs_driver_name 0 init opts s) (\<lambda>(rc, root_dir) (k, v). do {
       let v = (if rc = 0 then v\<lparr>s_root_dir := root_dir\<rparr> else v);
       k \<leftarrow> mutex_unlock S_FS_MUTEX k;
       give rc (k, v)
     }))"

text \<open>Both exits of \<open>vfs_get_root_dir\<close> lock the mutex once more.\<close>

definition vfs_get_root_dir :: "kernel \<times> vfs \<Rightarrow> (vfs, int \<times> nat) waits" where
  "vfs_get_root_dir s =
     and_then (with_kernel (mutex_lock S_FS_MUTEX) s) (\<lambda>_ (k, v).
       if s_root_dir v = 0
       then and_then (with_kernel (mutex_lock S_FS_MUTEX) (k, v)) (\<lambda>_ s. give (EEXIST, 0) s)
       else let dir = s_root_dir v; v = upd_inode dir (\<lambda>i. i\<lparr>i_refcount := i_refcount i + 1\<rparr>) v in
         and_then (with_kernel (mutex_lock S_FS_MUTEX) (k, v)) (\<lambda>_ s. give (0, dir) s))"

definition vfs_release_ref :: "nat \<Rightarrow> kernel \<times> vfs \<Rightarrow> (vfs, unit) waits" where
  "vfs_release_ref inode s =
     (if inode = 0 then give () s
      else and_then (with_kernel (mutex_lock S_FS_MUTEX) s) (\<lambda>_ (k, v). do {
        i \<leftarrow> inodes v inode;
        kassert (i_refcount i > 0);
        (k, v) \<leftarrow> vfs_adjust_refcounts inode (-1) (k, v);
        k \<leftarrow> mutex_unlock S_FS_MUTEX k;
        give () (k, v)
      }))"

lemma next_path_element_shorter:
  assumes "vfs_get_next_path_element path = Some (Inr (name, rst))" and "vfs_has_more_path_elements path"
  shows "length rst < length path"
proof -
  let ?d = "dropWhile (\<lambda>c. c \<noteq> SLASH) path"
  from assms obtain c cs where p: "path = c # cs" "c \<noteq> SLASH" "rst = dropWhile (\<lambda>c. c = SLASH) ?d"
    by (cases path) (auto simp: vfs_get_next_path_element_def vfs_has_more_path_elements_def Let_def split: if_splits)
  have "length rst \<le> length ?d" unfolding p(3) by (rule length_dropWhile_le)
  also have "\<dots> < length path" unfolding p(1) using p(2) by (simp add: le_imp_less_Suc length_dropWhile_le)
  finally show ?thesis .
qed

text \<open>The loop of \<open>vfs_lookup_inode\<close>: the return code, the inode at which it ends.\<close>

function lookup_loop :: "fs_ops \<Rightarrow> nat \<Rightarrow> cstr \<Rightarrow> kernel \<times> vfs \<Rightarrow> (vfs, int \<times> nat) waits" where
  "lookup_loop ops inode path s =
     (if \<not> vfs_has_more_path_elements path then give (0, inode) s
      else case vfs_get_next_path_element path of
        None \<Rightarrow> None
      | Some (Inl rc) \<Rightarrow> give (rc, inode) s
      | Some (Inr (name, path)) \<Rightarrow> do {
          i \<leftarrow> inodes (snd s) inode;
          if i_type i \<noteq> VFS_DIR then give (ENOTDIR, inode) s
          else and_then (vfs_lock_dir inode s) (\<lambda>_ s.
            and_then (vfs_lookup_child ops inode name s) (\<lambda>(rc, child) s. do {
              s \<leftarrow> vfs_unlock_dir inode s;
              if rc \<noteq> 0 then give (rc, inode) s
              else lookup_loop ops child path
                (fst s, upd_inode child (\<lambda>i. i\<lparr>i_refcount := i_refcount i + 1\<rparr>) (snd s))
            }))
        })"
  by pat_completeness auto
termination
  by (relation "measure (\<lambda>(ops, inode, path, s). length path)") (auto dest: next_path_element_shorter)

declare lookup_loop.simps [simp del]

definition vfs_lookup_inode :: "fs_ops \<Rightarrow> nat \<Rightarrow> cstr \<Rightarrow> kernel \<times> vfs \<Rightarrow> (vfs, int \<times> nat) waits" where
  "vfs_lookup_inode ops start_dir path = (\<lambda>(k, v). do {
     kassert (path = [] \<or> hd path \<noteq> SLASH);
     d \<leftarrow> inodes v start_dir;
     kassert (i_refcount d > 0);
     if min (VFS_PATHLEN_MAX + 1) (length path) > VFS_PATHLEN_MAX then give (EINVAL, 0) (k, v)
     else and_then (with_kernel (mem_alloc (VFS_NAMELEN_MAX + 1)) (k, v)) (\<lambda>name s.
       and_then (with_kernel (mutex_lock S_FS_MUTEX) s) (\<lambda>_ s. do {
         s \<leftarrow> vfs_adjust_refcounts start_dir 1 s;
         and_then (lookup_loop ops start_dir path s) (\<lambda>(rc, inode) (k, v). do {
           (k, v) \<leftarrow> (if rc \<noteq> 0 then vfs_adjust_refcounts inode (-1) (k, v)
                     else do {
                       kassert (inode \<noteq> 0);
                       i \<leftarrow> inodes v inode;
                       kassert (i_refcount i > 0);
                       Some (k, v)
                     });
           k \<leftarrow> mutex_unlock S_FS_MUTEX k;
           k \<leftarrow> mem_free name k;
           give (rc, if rc = 0 then inode else 0) (k, v)
         })
       }))
   })"

text \<open>The exit of \<open>vfs_mount\<close>.\<close>

definition mount_done :: "int \<Rightarrow> nat \<Rightarrow> nat \<Rightarrow> kernel \<times> vfs \<Rightarrow> (vfs, int) waits" where
  "mount_done rc mountpoint root_dir s =
     and_then (vfs_release_ref mountpoint s) (\<lambda>_ s. and_then (vfs_release_ref root_dir s) (\<lambda>_ s. give rc s))"

definition vfs_mount :: "fs_ops \<Rightarrow> cstr \<Rightarrow> cstr \<Rightarrow> cstr \<Rightarrow> cstr \<Rightarrow> kernel \<times> vfs \<Rightarrow> (vfs, int) waits" where
  "vfs_mount ops path fs_driver_name init opts s =
     and_then (vfs_get_root_dir s) (\<lambda>(rc, root_dir) s.
     if rc \<noteq> 0 then mount_done rc 0 root_dir s
     else and_then (vfs_lookup_inode ops root_dir path s) (\<lambda>(rc, mountpoint) (k, v).
       if rc \<noteq> 0 then mount_done rc mountpoint root_dir (k, v)
       else do {
         m \<leftarrow> inodes v mountpoint;
         if i_type m \<noteq> VFS_DIR then mount_done ENOTDIR mountpoint root_dir (k, v)
         else if i_mount m \<noteq> 0 then mount_done EEXIST mountpoint root_dir (k, v)
         else and_then (with_kernel (mutex_lock S_FS_MUTEX) (k, v)) (\<lambda>_ s.
           and_then (vfs_do_mount ops fs_driver_name 0 init opts s) (\<lambda>(rc, mount_root_dir) (k, v). do {
             (k, v) \<leftarrow> (if rc = 0 then do {
                 m \<leftarrow> inodes v mountpoint;
                 let v = upd_inode mountpoint (\<lambda>i. i\<lparr>i_mount := mount_root_dir\<rparr>) v;
                 let v = upd_inode mount_root_dir (\<lambda>i. i\<lparr>i_parent := i_parent m\<rparr>) v;
                 vfs_adjust_refcounts mountpoint 1 (k, v)
               } else Some (k, v));
             k \<leftarrow> mutex_unlock S_FS_MUTEX k;
             mount_done rc mountpoint root_dir (k, v)
           }))
       }))"

definition vfs_read :: "nat \<Rightarrow> nat \<Rightarrow> nat \<Rightarrow> int" where "vfs_read inode buf len = -1"
definition vfs_write :: "nat \<Rightarrow> nat \<Rightarrow> nat \<Rightarrow> int" where "vfs_write inode buf len = -1"
definition vfs_close :: "nat \<Rightarrow> int" where "vfs_close inode = -1"

definition vfs_register_fs_driver :: "nat \<Rightarrow> kernel \<times> vfs \<Rightarrow> (vfs, int) waits" where
  "vfs_register_fs_driver fs s =
     and_then (with_kernel (mutex_lock S_DRIVER_LIST_MUTEX) s) (\<lambda>_ (k, v). do {
       let v = v\<lparr>fs_drivers := (fs_drivers v)(fs \<mapsto> \<lparr>drv_next = s_driver_list v\<rparr>), s_driver_list := fs\<rparr>;
       k \<leftarrow> mutex_unlock S_DRIVER_LIST_MUTEX k;
       give 0 (k, v)
     })"

definition vfs_fs_instance_create :: "nat \<Rightarrow> kernel \<times> vfs \<Rightarrow> (vfs, int \<times> nat) waits" where
  "vfs_fs_instance_create p s =
     and_then (with_kernel (mem_alloc sizeof_fs_instance) s) (\<lambda>fs_inst (k, v).
       give (0, fs_inst) (k, v\<lparr>fs_instances := (fs_instances v)(fs_inst \<mapsto> \<lparr>inst_p = p\<rparr>)\<rparr>))"

definition vfs_inode_create ::
  "nat \<Rightarrow> nat \<Rightarrow> vfs_inode_type_t \<Rightarrow> cstr option \<Rightarrow> nat \<Rightarrow> kernel \<times> vfs \<Rightarrow> (vfs, int \<times> nat) waits"
where
  "vfs_inode_create fs_inst par ty name p s =
     and_then (with_kernel (mem_alloc sizeof_inode) s) (\<lambda>inode (k, v).
       give (0, inode) (k, v\<lparr>inodes := (inodes v)(inode \<mapsto> \<lparr>i_fs_inst = fs_inst, i_parent = par, i_type = ty,
           i_name = name, i_mount = 0, i_refcount = 0, i_busy = False, i_p = p\<rparr>),
         child_lists := list_clear inode (child_lists v)\<rparr>))"

section \<open>Reference counts\<close>

text \<open>The inode and its ancestors, up to the root.\<close>

fun parent_chain :: "vfs \<Rightarrow> nat \<Rightarrow> nat list \<Rightarrow> bool" where
  "parent_chain v i [] \<longleftrightarrow> i = 0"
| "parent_chain v i (x # xs) \<longleftrightarrow> i = x \<and> x \<noteq> 0 \<and> (\<exists>n. inodes v x = Some n \<and> parent_chain v (i_parent n) xs)"

lemma parent_chain_unique: "parent_chain v i xs \<Longrightarrow> parent_chain v i ys \<Longrightarrow> xs = ys"
proof (induction xs arbitrary: i ys)
  case Nil
  then show ?case by (cases ys) auto
next
  case (Cons x xs)
  then show ?case by (cases ys) auto
qed

lemma parent_chain_suffix: "parent_chain v i (xs @ ys) \<Longrightarrow> \<exists>j. parent_chain v j ys"
  by (induction xs arbitrary: i) auto

lemma parent_chain_distinct: "parent_chain v i xs \<Longrightarrow> distinct xs"
proof (induction xs arbitrary: i)
  case (Cons x xs)
  then obtain j where c: "parent_chain v j xs" by auto
  have "x \<notin> set xs"
  proof
    assume "x \<in> set xs"
    then obtain us vs where e: "xs = us @ x # vs" using split_list by metis
    from parent_chain_suffix [OF c [unfolded e]] have "parent_chain v x (x # vs)" by auto
    moreover have "parent_chain v x (x # xs)" using Cons.prems by auto
    ultimately have "vs = xs" using parent_chain_unique by fastforce
    then show False using e by simp
  qed
  then show ?case using Cons.IH [OF c] by simp
qed simp

lemma parent_chain_upd:
  assumes "\<And>n. i_parent (f n) = i_parent n"
  shows "parent_chain (upd_inode x f v) i xs = parent_chain v i xs"
  by (induction xs arbitrary: i) (auto simp: upd_inode_def assms)

definition add_refs :: "nat set \<Rightarrow> int \<Rightarrow> vfs \<Rightarrow> vfs" where
  "add_refs X delta v = v\<lparr>inodes := \<lambda>x. if x \<in> X then map_option (\<lambda>i. i\<lparr>i_refcount := i_refcount i + delta\<rparr>) (inodes v x)
     else inodes v x\<rparr>"

lemma adjust_loop_ok:
  assumes "parent_chain v i xs" and "\<forall>x \<in> set xs. \<forall>n. inodes v x = Some n \<longrightarrow> 0 \<le> i_refcount n \<and> (delta > 0 \<or> 0 < i_refcount n)"
  shows "adjust_loop i delta v = Some (add_refs (set xs) delta v)"
  using assms
proof (induction xs arbitrary: i v)
  case Nil
  then show ?case by (subst adjust_loop.simps) (simp add: add_refs_def)
next
  case (Cons x xs)
  let ?f = "\<lambda>i :: inode. i\<lparr>i_refcount := i_refcount i + delta\<rparr>"
  obtain n where n: "i = x" "x \<noteq> 0" "inodes v x = Some n" "parent_chain v (i_parent n) xs" using Cons.prems(1) by auto
  have x: "x \<notin> set xs" using parent_chain_distinct [OF Cons.prems(1)] by simp
  have "adjust_loop (i_parent n) delta (upd_inode x ?f v) = Some (add_refs (set xs) delta (upd_inode x ?f v))"
  proof (rule Cons.IH)
    show "parent_chain (upd_inode x ?f v) (i_parent n) xs" using n(4) by (simp add: parent_chain_upd)
    show "\<forall>y \<in> set xs. \<forall>n. inodes (upd_inode x ?f v) y = Some n \<longrightarrow> 0 \<le> i_refcount n \<and> (delta > 0 \<or> 0 < i_refcount n)"
      using x Cons.prems(2) by (auto simp: upd_inode_def)
  qed
  moreover have "add_refs (set xs) delta (upd_inode x ?f v) = add_refs (set (x # xs)) delta v"
    using x n(3) by (auto simp: add_refs_def upd_inode_def fun_eq_iff)
  moreover have "i_refcount n \<ge> 0" "delta > 0 \<or> i_refcount n > 0" using Cons.prems(2) n(3) by auto
  ultimately show ?case using n(1-3) by (subst adjust_loop.simps) (simp add: halt_simps)
qed

lemma parent_chain_add_refs: "parent_chain (add_refs X d v) i xs = parent_chain v i xs"
  by (induction xs arbitrary: i) (auto simp: add_refs_def)

lemma add_refs_back: "add_refs X (-1) (add_refs X 1 v) = v"
proof -
  have "inodes (add_refs X (-1) (add_refs X 1 v)) = inodes v"
    by (auto simp: add_refs_def fun_eq_iff option.map_comp comp_def option.map_ident)
  then show ?thesis by (simp add: add_refs_def)
qed

lemma adjust_back_and_forth:
  assumes "parent_chain v i xs" and "\<forall>x \<in> set xs. \<forall>n. inodes v x = Some n \<longrightarrow> 0 \<le> i_refcount n" and "MUTEX_IS_HELD S_FS_MUTEX k"
  shows "vfs_adjust_refcounts i 1 (k, v) = Some (k, add_refs (set xs) 1 v)"
    and "vfs_adjust_refcounts i (-1) (k, add_refs (set xs) 1 v) = Some (k, v)"
proof -
  show "vfs_adjust_refcounts i 1 (k, v) = Some (k, add_refs (set xs) 1 v)"
    using assms by (simp add: vfs_adjust_refcounts_def adjust_loop_ok halt_simps)
  have "adjust_loop i (-1) (add_refs (set xs) 1 v) = Some (add_refs (set xs) (-1) (add_refs (set xs) 1 v))"
  proof (rule adjust_loop_ok)
    show "parent_chain (add_refs (set xs) 1 v) i xs" using assms(1) by (simp add: parent_chain_add_refs)
    show "\<forall>x \<in> set xs. \<forall>n. inodes (add_refs (set xs) 1 v) x = Some n \<longrightarrow> 0 \<le> i_refcount n \<and> (- 1 > (0 :: int) \<or> 0 < i_refcount n)"
      using assms(2) by (fastforce simp: add_refs_def)
  qed
  then show "vfs_adjust_refcounts i (-1) (k, add_refs (set xs) 1 v) = Some (k, v)"
    using assms(3) by (simp add: vfs_adjust_refcounts_def add_refs_back halt_simps)
qed

section \<open>Path names\<close>

text \<open>All elements of a path, one after the other; \<open>None\<close> when one is too long.\<close>

function path_elements :: "cstr \<Rightarrow> cstr list option" where
  "path_elements path =
     (if \<not> vfs_has_more_path_elements path then Some []
      else case vfs_get_next_path_element path of
        Some (Inr (name, path)) \<Rightarrow> map_option (Cons name) (path_elements path)
      | _ \<Rightarrow> None)"
  by pat_completeness auto
termination by (relation "measure length") (auto dest: next_path_element_shorter)

declare path_elements.simps [simp del]

text \<open>A path from names, each with the number of separators behind it.\<close>

fun path_of :: "(cstr \<times> nat) list \<Rightarrow> cstr" where
  "path_of [] = []"
| "path_of ((n, k) # ps) = n @ replicate k SLASH @ path_of ps"

fun good_path :: "(cstr \<times> nat) list \<Rightarrow> bool" where
  "good_path [] = True"
| "good_path ((n, k) # ps) = (n \<noteq> [] \<and> SLASH \<notin> set n \<and> length n \<le> VFS_NAMELEN_MAX \<and> (ps = [] \<or> 0 < k) \<and> good_path ps)"

lemma hd_not_slash: "n \<noteq> [] \<Longrightarrow> SLASH \<notin> set n \<Longrightarrow> hd n \<noteq> SLASH"
  by (cases n) auto

lemma path_of_head: "good_path ps \<Longrightarrow> ps \<noteq> [] \<Longrightarrow> path_of ps \<noteq> [] \<and> hd (path_of ps) \<noteq> SLASH"
  by (cases ps) (auto simp: hd_append hd_not_slash)

lemma drop_slashes: "good_path ps \<Longrightarrow> dropWhile (\<lambda>c. c = SLASH) (replicate k SLASH @ path_of ps) = path_of ps"
proof (induction k)
  case 0
  show ?case
  proof (cases ps)
    case Nil
    then show ?thesis by simp
  next
    case Cons
    then have "path_of ps \<noteq> []" "hd (path_of ps) \<noteq> SLASH" using path_of_head [OF 0] by simp_all
    then show ?thesis by (cases "path_of ps") simp_all
  qed
qed simp

lemma next_path_element_ok:
  assumes "good_path ((n, k) # ps)"
  shows "vfs_get_next_path_element (path_of ((n, k) # ps)) = Some (Inr (n, path_of ps))"
proof -
  have n: "n \<noteq> []" "SLASH \<notin> set n" "length n \<le> VFS_NAMELEN_MAX" and r: "ps = [] \<or> 0 < k" and ps: "good_path ps"
    using assms by auto
  have all: "\<forall>c \<in> set n. c \<noteq> SLASH" using n(2) by blast
  obtain r where r: "replicate k SLASH @ path_of ps = r" "r = [] \<or> hd r = SLASH"
    using r by (cases k) auto
  have "takeWhile (\<lambda>c. c \<noteq> SLASH) (n @ r) = n" "dropWhile (\<lambda>c. c \<noteq> SLASH) (n @ r) = r"
    using all r(2) by (cases r; auto simp: takeWhile_append dropWhile_append)+
  moreover have "hd (n @ r) \<noteq> SLASH" using n(1) all by simp
  moreover have "dropWhile (\<lambda>c. c = SLASH) r = path_of ps" unfolding r(1) [symmetric] by (rule drop_slashes [OF ps])
  ultimately show ?thesis using n r(1) by (simp add: vfs_get_next_path_element_def Let_def halt_simps)
qed

lemma path_elements_of: "good_path ps \<Longrightarrow> path_elements (path_of ps) = Some (map fst ps)"
proof (induction ps)
  case Nil
  then show ?case by (subst path_elements.simps) (simp add: vfs_has_more_path_elements_def)
next
  case (Cons p ps)
  obtain n k where p: "p = (n, k)" by (cases p)
  have "vfs_has_more_path_elements (path_of (p # ps))"
    using Cons.prems p by (simp add: vfs_has_more_path_elements_def)
  moreover have "good_path ps" using Cons.prems p by simp
  ultimately show ?case
    using Cons.IH next_path_element_ok [of n k ps] Cons.prems p by (subst path_elements.simps) simp
qed

section \<open>The root directory\<close>

lemma lock_twice: "mutex_lock m k = Some (Inr ((), k')) \<Longrightarrow> MUTEX_IS_HELD m k' \<Longrightarrow> mutex_lock m k' = None"
  by (rule mutex_lock_held)

lemma get_root_dir_halts:
  assumes "unused S_FS_MUTEX k"
  shows "vfs_get_root_dir (k, v) = None"
proof -
  let ?k = "set_mutex S_FS_MUTEX MUTEX_LOCKED (g_current k) (k\<lparr>g_preemption := True\<rparr>)"
  have l: "mutex_lock S_FS_MUTEX k = Some (Inr ((), ?k))" using assms by (intro lock_quiet) (simp_all add: unused_def)
  have "MUTEX_IS_HELD S_FS_MUTEX ?k" by (simp add: MUTEX_IS_HELD_def)
  then have "mutex_lock S_FS_MUTEX ?k = None" by (rule mutex_lock_held)
  then show ?thesis by (simp add: vfs_get_root_dir_def l Let_def)
qed

section \<open>Lookup\<close>

text \<open>A directory that has cached children finds its first child under its own name.\<close>

lemma lookup_child_own_name:
  assumes "MUTEX_IS_HELD S_FS_MUTEX k" and "inodes v dir = Some d" and "i_type d = VFS_DIR" and "i_busy d"
    and "i_name d = Some name" and "list_rep (child_lists v) dir (c # cs)"
  shows "vfs_lookup_child ops dir name (k, v) = give (0, c) (k, v)"
proof -
  have "list_get_first dir (child_lists v) = Some c" using list_get_first_rep [OF assms(6)] by simp
  moreover have "str_ncmp name name VFS_NAMELEN_MAX = 0"
  proof -
    have "lex_cmp xs xs = 0" for xs by (induction xs) auto
    then show ?thesis by (simp add: str_ncmp_def)
  qed
  ultimately have "child_search name (i_name d) v (list_get_first dir (child_lists v)) = Some (Some c)"
    using assms(5) by (simp add: child_search_def) (subst child_loop.simps, simp)
  then show ?thesis using assms by (simp add: vfs_lookup_child_def halt_simps)
qed

text \<open>The root directory of a filesystem has no name: its cached children make the kernel halt.\<close>

lemma lookup_child_no_name:
  assumes "inodes v dir = Some d" and "i_name d = None" and "list_rep (child_lists v) dir (c # cs)"
  shows "vfs_lookup_child ops dir name (k, v) = None"
proof -
  have "list_get_first dir (child_lists v) = Some c" using list_get_first_rep [OF assms(3)] by simp
  then show ?thesis using assms by (simp add: vfs_lookup_child_def child_search_def)
qed

text \<open>A failed lookup gives back every reference it has taken.\<close>

lemma quiet_tqs: "tqs k' = tqs k \<Longrightarrow> int_flag k' = int_flag k \<Longrightarrow> quiet m k' = quiet m k"
  by (simp add: quiet_def)

lemma set_mutex_twice [simp]:
  "set_mutex m a b (set_mutex m c d k) = set_mutex m a b k"
  "(set_mutex m a b k)\<lparr>g_preemption := p\<rparr> = set_mutex m a b (k\<lparr>g_preemption := p\<rparr>)"
  by (simp_all add: set_mutex_def)

lemma lookup_loop_fails:
  assumes held: "MUTEX_IS_HELD S_FS_MUTEX k" and q: "quiet S_FS_MUTEX k" "quiet dir k" and "dir \<noteq> S_FS_MUTEX"
    and d: "inodes v dir = Some d" "i_type d = VFS_DIR" "\<not> i_busy d" and l: "list_rep (child_lists v) dir []"
    and p: "vfs_has_more_path_elements path" "vfs_get_next_path_element path = Some (Inr (name, rst))"
    and fails: "\<And>k v. op_lookup ops dir name (k, v) = give (rc, 0) (k, v)" "rc \<noteq> 0"
  shows "\<exists>k'. lookup_loop ops dir path (k, v) = give (rc, dir) (k', v) \<and> MUTEX_IS_HELD S_FS_MUTEX k'
    \<and> (\<exists>b. k' = set_mutex S_FS_MUTEX MUTEX_LOCKED (g_current k) (k\<lparr>g_preemption := b\<rparr>))"
proof -
  let ?v = "upd_inode dir (\<lambda>i. i\<lparr>i_busy := True\<rparr>) v"
  have e: "list_get_first dir (child_lists ?v) = None" using list_get_first_rep [OF l] by (simp add: upd_inode_def)
  let ?k1 = "set_mutex S_FS_MUTEX MUTEX_UNLOCKED 0 (k\<lparr>g_preemption := True\<rparr>)"
  have u: "mutex_unlock S_FS_MUTEX k = Some ?k1" using unlock_alone [OF q(1) held] .
  let ?k2 = "set_mutex S_FS_MUTEX MUTEX_LOCKED (g_current ?k1) (?k1\<lparr>g_preemption := True\<rparr>)"
  have l2: "mutex_lock S_FS_MUTEX ?k1 = Some (Inr ((), ?k2))" by (rule lock_quiet) (use q in simp_all)
  have h2: "MUTEX_IS_HELD S_FS_MUTEX ?k2" by (simp add: MUTEX_IS_HELD_def)
  have b: "cond_broadcast dir ?k2 = Some ?k2" by (rule broadcast_nobody) (use q in simp)
  have c: "vfs_lookup_child ops dir name (k, ?v) = give (rc, 0) (?k2, ?v)"
    using held d e u l2 fails by (simp add: vfs_lookup_child_def upd_inode_def child_search_def halt_simps give_def)
  have undone: "upd_inode dir (\<lambda>i. i\<lparr>i_busy := False\<rparr>) ?v = v"
  proof -
    have "d\<lparr>i_busy := False\<rparr> = d" using d(3) by simp
    then have "(inodes v)(dir := Some (d\<lparr>i_busy := False\<rparr>)) = inodes v" using d(1) by auto
    then show ?thesis using d(1) by (simp add: upd_inode_def)
  qed
  have ul: "vfs_unlock_dir dir (?k2, ?v) = Some (?k2, v)"
    using h2 d(1) b undone by (simp add: vfs_unlock_dir_def halt_simps Let_def) (simp add: upd_inode_def)
  have lk: "vfs_lock_dir dir (k, v) = give () (k, ?v)" using held d by (simp add: vfs_lock_dir_def halt_simps)
  have "lookup_loop ops dir path (k, v) = give (rc, dir) (?k2, v)"
    using p d lk c ul fails(2) by (subst lookup_loop.simps) simp
  then show ?thesis using h2 by auto
qed

text \<open>Waking up the threads that wait for memory leaves every mutex and condition unused.\<close>

lemma quiet_after_free:
  assumes "sched_inv A k" and "sched_inv (wake_all sc p HeapWaitQ A) k'" and "quiet m k" and "int_flag k'"
  shows "quiet m k'"
proof -
  have rep: "lists_rep (tqs k) A" "lists_rep (tqs k') (wake_all sc p HeapWaitQ A)" using assms(1,2) by (simp_all add: sched_inv_def queues_inv_def)
  have "A (MutexWaitQ m) = []" "A (CondWaitQ m) = []"
    using assms(3) lists_is_empty_iff [OF rep(1)] lists_is_empty_iff [of "tqs k"] unfolding quiet_def by blast+
  then have "wake_all sc p HeapWaitQ A (MutexWaitQ m) = []" "wake_all sc p HeapWaitQ A (CondWaitQ m) = []"
    by (simp_all add: wake_all_def)
  then show ?thesis using rep(2) assms(4) unfolding quiet_def by blast
qed

lemma lookup_inode_fails:
  assumes inv: "sched_inv A k" "mem_inv M k" and un: "unused S_FS_MUTEX k" and q: "quiet dir k" and "dir \<noteq> S_FS_MUTEX" and nz: "dir \<noteq> 0"
    and d: "inodes v dir = Some d" "i_type d = VFS_DIR" "\<not> i_busy d" "0 < i_refcount d" and l: "list_rep (child_lists v) dir []"
    and ch: "parent_chain v dir xs" "\<forall>x \<in> set xs. \<forall>n. inodes v x = Some n \<longrightarrow> 0 \<le> i_refcount n"
    and p: "vfs_has_more_path_elements path" "vfs_get_next_path_element path = Some (Inr (name, rst))"
      "length path \<le> VFS_PATHLEN_MAX"
    and fails: "\<And>k v. op_lookup ops dir name (k, v) = give (rc, 0) (k, v)" "rc \<noteq> 0"
    and mem: "mem_alloc (VFS_NAMELEN_MAX + 1) k = Some (Inr (buf, k\<lparr>heap := h\<rparr>))"
  shows "\<exists>k'. vfs_lookup_inode ops dir path (k, v) = Some (Inr ((rc, 0), k', v)) \<and> mem_inv M k'
    \<and> sched_inv (wake_all (g_scheduler k) (prio k) HeapWaitQ A) k'
    \<and> mutexes k' = (mutexes k)(S_FS_MUTEX := \<lparr>m_state = MUTEX_UNLOCKED, m_owner = 0\<rparr>)
    \<and> unused S_FS_MUTEX k' \<and> quiet dir k' \<and> g_current k' = g_current k \<and> int_flag k' = int_flag k"
proof -
  let ?k0 = "k\<lparr>heap := h\<rparr>"
  obtain n where al: "sz_t < buf" "M (buf - sz_t) = None" "mem_inv (M(buf - sz_t \<mapsto> n)) ?k0"
  proof -
    from mem_alloc_cases [OF inv, of "VFS_NAMELEN_MAX + 1"] show ?thesis
    proof (elim disjE exE conjE)
      fix q h' j assume "mem_alloc (VFS_NAMELEN_MAX + 1) k = Some (Inr (q, k\<lparr>heap := h'\<rparr>))" "sz_t < q" "M (q - sz_t) = None"
        "mem_inv (M(q - sz_t \<mapsto> j)) (k\<lparr>heap := h'\<rparr>)"
      then show ?thesis using that mem by auto
    next
      fix h' assume "mem_alloc (VFS_NAMELEN_MAX + 1) k = map_option Inl (thread_wait HeapWaitQ (k\<lparr>int_flag := False, heap := h'\<rparr>))"
      then show ?thesis using mem by (cases "thread_wait HeapWaitQ (k\<lparr>int_flag := False, heap := h'\<rparr>)") auto
    qed
  qed
  let ?k1 = "set_mutex S_FS_MUTEX MUTEX_LOCKED (g_current k) (?k0\<lparr>g_preemption := True\<rparr>)"
  have l1: "mutex_lock S_FS_MUTEX ?k0 = Some (Inr ((), ?k1))"
    using lock_quiet [of S_FS_MUTEX ?k0] un by (simp add: unused_def)
  have h1: "MUTEX_IS_HELD S_FS_MUTEX ?k1" by (simp add: MUTEX_IS_HELD_def)
  let ?v1 = "add_refs (set xs) 1 v"
  note adj = adjust_back_and_forth [OF ch]
  obtain xs' where xs: "xs = dir # xs'" using ch(1) nz by (cases xs) auto
  have d1: "inodes ?v1 dir = Some (d\<lparr>i_refcount := i_refcount d + 1\<rparr>)" using d(1) xs by (simp add: add_refs_def)
  have q1: "quiet S_FS_MUTEX ?k1" "quiet dir ?k1" using un q by (simp_all add: unused_def)
  have ll: "list_rep (child_lists ?v1) dir []" using l by (simp add: add_refs_def)
  have d1': "i_type (d\<lparr>i_refcount := i_refcount d + 1\<rparr>) = VFS_DIR" "\<not> i_busy (d\<lparr>i_refcount := i_refcount d + 1\<rparr>)"
    using d by simp_all
  from lookup_loop_fails [OF h1 q1 assms(5) d1 d1' ll p(1,2) fails] obtain k2 b where
    k2: "lookup_loop ops dir path (?k1, ?v1) = give (rc, dir) (k2, ?v1)" "MUTEX_IS_HELD S_FS_MUTEX k2"
      "k2 = set_mutex S_FS_MUTEX MUTEX_LOCKED (g_current ?k1) (?k1\<lparr>g_preemption := b\<rparr>)" by auto
  have q2: "quiet S_FS_MUTEX k2" using q1(1) k2(3) by simp
  let ?k3 = "set_mutex S_FS_MUTEX MUTEX_UNLOCKED 0 (k2\<lparr>g_preemption := True\<rparr>)"
  have u: "mutex_unlock S_FS_MUTEX k2 = Some ?k3" by (rule unlock_alone [OF q2 k2(2)])
  have s3: "sched_inv A ?k3" "mem_inv (M(buf - sz_t \<mapsto> n)) ?k3" using inv(1) al(3) k2(3) by (simp_all add: mem_inv_def)
  have "(M(buf - sz_t \<mapsto> n)) (buf - sz_t) = Some n" "sz_t \<le> buf" using al(1) by simp_all
  from mem_free_ok [OF s3 this] obtain k4 where k4: "mem_free buf ?k3 = Some k4"
    "sched_inv (wake_all (g_scheduler ?k3) (prio ?k3) HeapWaitQ A) k4"
    "mem_inv (M(buf - sz_t \<mapsto> n, buf - sz_t := None)) k4" "undisturbed (?k3\<lparr>heap := heap k4\<rparr>) k4" by blast
  note und = undisturbedD [OF k4(4)]
  have mx: "mutexes k4 = (mutexes k)(S_FS_MUTEX := \<lparr>m_state = MUTEX_UNLOCKED, m_owner = 0\<rparr>)"
    using rest_sel(13) [OF und(3)] k2(3) by (simp add: set_mutex_def)
  have fl: "g_current k4 = g_current k" "int_flag k4 = int_flag k" using und(1,2) k2(3) by (simp_all add: set_mutex_def)
  have on: "int_flag k4" using fl(2) un by (simp add: unused_def quiet_def)
  note qk = quiet_after_free [OF inv(1) k4(2) _ on]
  have us: "unused S_FS_MUTEX k4" using qk un mx by (simp add: unused_def)
  have qd: "quiet dir k4" using qk q by blast
  have "M(buf - sz_t \<mapsto> n, buf - sz_t := None) = M" using al(2) by auto
  moreover have "prio ?k3 = prio k" "g_scheduler ?k3 = g_scheduler k" using k2(3) by (simp_all add: prio_def prio_of_def process_of_def fun_eq_iff)
  moreover have hd: "path = [] \<or> hd path \<noteq> SLASH"
    using p(2) by (auto simp: vfs_get_next_path_element_def split: if_splits)
  moreover have "vfs_lookup_inode ops dir path (k, v) = Some (Inr ((rc, 0), k4, v))"
  proof -
    have "vfs_lookup_inode ops dir path (k, v) =
      and_then (with_kernel (mem_alloc (VFS_NAMELEN_MAX + 1)) (k, v)) (\<lambda>name s.
       and_then (with_kernel (mutex_lock S_FS_MUTEX) s) (\<lambda>_ s. do {
         s \<leftarrow> vfs_adjust_refcounts dir 1 s;
         and_then (lookup_loop ops dir path s) (\<lambda>(rc, inode) (k, v). do {
           (k, v) \<leftarrow> (if rc \<noteq> 0 then vfs_adjust_refcounts inode (-1) (k, v)
                     else do {
                       kassert (inode \<noteq> 0);
                       i \<leftarrow> inodes v inode;
                       kassert (i_refcount i > 0);
                       Some (k, v)
                     });
           k \<leftarrow> mutex_unlock S_FS_MUTEX k;
           k \<leftarrow> mem_free name k;
           give (rc, if rc = 0 then inode else 0) (k, v)
         })
       }))"
      using hd d(1,4) p(3) by (simp add: vfs_lookup_inode_def halt_simps not_less)
    also have "\<dots> = Some (Inr ((rc, 0), k4, v))"
      using mem l1 adj [OF h1] k2(1) adj(2) [OF k2(2)] fails(2) u k4(1) by (simp add: give_def)
    finally show ?thesis .
  qed
  ultimately show ?thesis using k4(2,3) mx us qd fl by simp
qed

end
