(* ===== verification/Pfat.thy ===== *)
theory Pfat imports Vfs begin

text \<open>
  The PFAT filesystem (\<open>src/kernel/pfat.c\<close>, \<open>include/geekos/pfat.h\<close>) as far as it is written: reading
  and checking the superblock, creating an instance, the root directory; the other operations are
  stubs that halt.  The synchronous read of the block device is an argument (\<open>read_sync\<close>), which
  \<open>blockdev_read_sync\<close> of \<open>Block_Device\<close> instantiates.
\<close>

section \<open>Data on the device\<close>

definition PFAT_MAGIC :: u32 where "PFAT_MAGIC = 0x77e2ef5a"
definition PFAT_FORMAT_ERROR :: int where "PFAT_FORMAT_ERROR = EINVAL"

record pfat_superblock =
  magic :: u32
  fat_lba :: u32
  fat_num_entries :: u32
  first_cluster_lba :: u32
  cluster_size :: u32
  root_dir_fat_index :: u32

text \<open>The size with the reserved bytes, and the size of an entry of the FAT.\<close>

abbreviation sizeof_superblock :: u32 where "sizeof_superblock \<equiv> 512"
abbreviation sizeof_pfat_entry :: u32 where "sizeof_pfat_entry \<equiv> 4"
abbreviation sizeof_pfat_inode :: nat where "sizeof_pfat_inode \<equiv> 4"
abbreviation sizeof_pfat_instance :: nat where "sizeof_pfat_instance \<equiv> 32"

text \<open>A little-endian word in memory.\<close>

definition u32_at :: "byte_mem \<Rightarrow> nat \<Rightarrow> u32" where
  "u32_at m a = ucast (m a) OR push_bit 8 (ucast (m (a + 1))) OR push_bit 16 (ucast (m (a + 2)))
     OR push_bit 24 (ucast (m (a + 3)))"

text \<open>A null pointer cannot be followed.\<close>

definition superblock_at :: "nat \<Rightarrow> vfs \<Rightarrow> pfat_superblock option" where
  "superblock_at a v = do {
     kassert (a \<noteq> 0);
     let m = bytes (vfs_devices v);
     Some \<lparr>magic = u32_at m a, fat_lba = u32_at m (a + 4), fat_num_entries = u32_at m (a + 8),
           first_cluster_lba = u32_at m (a + 12), cluster_size = u32_at m (a + 16), root_dir_fat_index = u32_at m (a + 20)\<rparr>
   }"

section \<open>Operations on parts of the state\<close>

definition in_devices :: "(kernel \<times> devices \<Rightarrow> (devices, 'a) waits) \<Rightarrow> kernel \<times> vfs \<Rightarrow> (vfs, 'a) waits" where
  "in_devices f = (\<lambda>(k, v). do {
     r \<leftarrow> f (k, vfs_devices v);
     Some (case r of Inl (k, d) \<Rightarrow> Inl (k, v\<lparr>vfs_devices := d\<rparr>) | Inr (x, k, d) \<Rightarrow> Inr (x, k, v\<lparr>vfs_devices := d\<rparr>))
   })"

definition in_registry :: "(kernel \<times> registry \<Rightarrow> (registry, 'a) waits) \<Rightarrow> kernel \<times> vfs \<Rightarrow> (vfs, 'a) waits" where
  "in_registry f = (\<lambda>(k, v). do {
     r \<leftarrow> f (k, vfs_registry v);
     Some (case r of Inl (k, d) \<Rightarrow> Inl (k, v\<lparr>vfs_registry := d\<rparr>) | Inr (x, k, d) \<Rightarrow> Inr (x, k, v\<lparr>vfs_registry := d\<rparr>))
   })"

type_synonym read_op = "nat \<Rightarrow> lba \<Rightarrow> u32 \<Rightarrow> nat \<Rightarrow> kernel \<times> devices \<Rightarrow> (devices, int) waits"

section \<open>The superblock\<close>

text \<open>The exit at \<open>fail\<close>.  \<open>*p_super\<close> is not assigned on any path.\<close>

definition pfat_read_super :: "read_op \<Rightarrow> nat \<Rightarrow> kernel \<times> vfs \<Rightarrow> (vfs, int) waits" where
  "pfat_read_super read_sync dev = (\<lambda>(k, v). do {
     dev_block_size \<leftarrow> blockdev_get_block_size dev (vfs_devices v);
     let super_bufsize = range_umax sizeof_superblock (blocksize_size dev_block_size);
     kassert (blocksize_size dev_block_size \<noteq> 0);
     and_then (with_kernel (mem_alloc (unat super_bufsize)) (k, v)) (\<lambda>super s.
       and_then (in_devices (read_sync dev (lba_from_num 0) (super_bufsize div blocksize_size dev_block_size) super) s)
         (\<lambda>rc (k, v).
           if rc \<noteq> 0 then do { k \<leftarrow> mem_free super k; give rc (k, v) }
           else do {
             sb \<leftarrow> superblock_at super v;
             if magic sb \<noteq> PFAT_MAGIC then do { k \<leftarrow> mem_free super k; give PFAT_FORMAT_ERROR (k, v) }
             else give 0 (k, v)
           }))
   })"

definition pfat_get_fat_num_blocks :: "nat \<Rightarrow> pfat_superblock \<Rightarrow> devices \<Rightarrow> u32 option" where
  "pfat_get_fat_num_blocks dev super d = do {
     bs \<leftarrow> blockdev_get_block_size dev d;
     lba_get_num_blocks_in_table bs (fat_num_entries super) sizeof_pfat_entry
   }"

definition pfat_check_super :: "nat \<Rightarrow> nat \<Rightarrow> vfs \<Rightarrow> int option" where
  "pfat_check_super dev super_ptr v = do {
     super \<leftarrow> superblock_at super_ptr v;
     fat_num_blocks \<leftarrow> pfat_get_fat_num_blocks dev super (vfs_devices v);
     n \<leftarrow> blockdev_get_num_blocks dev (vfs_devices v);
     if \<not> range_is_valid_u32 (fat_lba super) fat_num_blocks n then Some PFAT_FORMAT_ERROR
     else if first_cluster_lba super < fat_lba super + fat_num_blocks then Some PFAT_FORMAT_ERROR
     else Some 0
   }"

section \<open>Inodes and instances\<close>

definition pfat_get_inode ::
  "nat \<Rightarrow> u32 \<Rightarrow> nat \<Rightarrow> vfs_inode_type_t \<Rightarrow> cstr option \<Rightarrow> kernel \<times> vfs \<Rightarrow> (vfs, int \<times> nat) waits"
where
  "pfat_get_inode fs_inst fat_index par ty name s =
     and_then (with_kernel (mem_alloc sizeof_pfat_inode) s) (\<lambda>pfat_inode (k, v).
       let v = v\<lparr>pfat_inodes := (pfat_inodes v)(pfat_inode \<mapsto> fat_index)\<rparr> in
       and_then (vfs_inode_create fs_inst par ty name pfat_inode (k, v)) (\<lambda>(rc, inode) (k, v).
         if rc \<noteq> 0 then do { k \<leftarrow> mem_free pfat_inode k; give (rc, 0) (k, v) }
         else do {
           let v = upd_inode inode (\<lambda>i. i\<lparr>i_refcount := i_refcount i + 1\<rparr>) v;
           i \<leftarrow> inodes v inode;
           kassert (i_refcount i = 1);
           give (0, inode) (k, v)
         }))"

definition S_PFAT_DRIVER :: nat where "S_PFAT_DRIVER = 4"

text \<open>The bytes of the string constant.\<close>

definition pfat_get_name :: "nat \<Rightarrow> cstr" where
  "pfat_get_name driver = [0x70, 0x66, 0x61, 0x74]"

text \<open>The exit of \<open>pfat_create_instance\<close> with an error.\<close>

definition create_failed :: "int \<Rightarrow> nat \<Rightarrow> nat \<Rightarrow> nat \<Rightarrow> kernel \<times> vfs \<Rightarrow> (vfs, int \<times> nat) waits" where
  "create_failed rc inst_data super dev = (\<lambda>(k, v). do {
     k \<leftarrow> mem_free inst_data k;
     k \<leftarrow> mem_free super k;
     _ \<leftarrow> blockdev_close dev (vfs_devices v);
     give (rc, 0) (k, v)
   })"

text \<open>The local variable \<open>super\<close> stays null, and \<open>*p_instance\<close> is not assigned.  The lock of an
  instance is the mutex with the address of its data.  \<open>mem_alloc\<close> fills the new block with zeroes
  (\<open>mem.c\<close>), so that \<open>root_dir\<close>, which the function does not assign, is null.\<close>

definition pfat_create_instance :: "read_op \<Rightarrow> nat \<Rightarrow> cstr \<Rightarrow> cstr \<Rightarrow> kernel \<times> vfs \<Rightarrow> (vfs, int \<times> nat) waits" where
  "pfat_create_instance read_sync fs init opts s = do {
     kassert (fs = S_PFAT_DRIVER);
     and_then (in_registry (dev_find_blockdev init) s) (\<lambda>(rc, dev) s.
       if rc \<noteq> 0 then create_failed rc 0 0 0 s
       else and_then (pfat_read_super read_sync dev s) (\<lambda>rc (k, v).
         if rc \<noteq> 0 then create_failed rc 0 0 dev (k, v)
         else let super = 0 in do {
           rc \<leftarrow> pfat_check_super dev super v;
           if rc \<noteq> 0 then create_failed rc 0 super dev (k, v)
           else and_then (with_kernel (mem_alloc sizeof_pfat_instance) (k, v)) (\<lambda>inst_data (k, v).
             let v = v\<lparr>pfat_instances := (pfat_instances v)(inst_data \<mapsto> \<lparr>pi_dev = dev, pi_super = super, pi_root_dir = 0\<rparr>)\<rparr>;
                 k = mutex_init inst_data k in
             and_then (vfs_fs_instance_create inst_data (k, v)) (\<lambda>(rc, fs_inst) s.
               if rc \<noteq> 0 then create_failed rc inst_data super dev s else give (rc, 0) s))
         }))
   }"

definition pfat_get_root :: "nat \<Rightarrow> kernel \<times> vfs \<Rightarrow> (vfs, int \<times> nat) waits" where
  "pfat_get_root instanc = (\<lambda>(k, v). do {
     i \<leftarrow> fs_instances v instanc;
     let inst_data = inst_p i;
     and_then (with_kernel (mutex_lock inst_data) (k, v)) (\<lambda>_ (k, v). do {
       pi \<leftarrow> pfat_instances v inst_data;
       and_then
         (if pi_root_dir pi = 0
          then do {
            super \<leftarrow> superblock_at (pi_super pi) v;
            pfat_get_inode instanc (root_dir_fat_index super) 0 VFS_DIR None (k, v)
          }
          else give (0, pi_root_dir pi) (k, upd_inode (pi_root_dir pi) (\<lambda>i. i\<lparr>i_refcount := i_refcount i + 1\<rparr>) v))
         (\<lambda>(rc, dir) (k, v). do {
            (if rc \<noteq> 0 then Some () else do { d \<leftarrow> inodes v dir; kassert (i_refcount d > 0) });
            k \<leftarrow> mutex_unlock inst_data k;
            give (rc, dir) (k, v)
          })
     })
   })"

section \<open>Stubs\<close>

definition pfat_open :: "nat \<Rightarrow> cstr \<Rightarrow> int \<Rightarrow> kernel \<times> vfs \<Rightarrow> (vfs, int \<times> nat) waits" where
  "pfat_open instanc path mode s = do { kassert False; give (ENOTSUP, 0) s }"

definition pfat_close_instance :: "nat \<Rightarrow> kernel \<times> vfs \<Rightarrow> (vfs, int) waits" where
  "pfat_close_instance instanc s = do { kassert False; give ENOTSUP s }"

definition pfat_read_page :: "nat \<Rightarrow> nat \<Rightarrow> u32 \<Rightarrow> kernel \<times> vfs \<Rightarrow> (vfs, int) waits" where
  "pfat_read_page inode buf page_num s = do { kassert False; give ENOTSUP s }"

definition pfat_write_page :: "nat \<Rightarrow> nat \<Rightarrow> u32 \<Rightarrow> kernel \<times> vfs \<Rightarrow> (vfs, int) waits" where
  "pfat_write_page inode buf page_num s = do { kassert False; give ENOTSUP s }"

definition pfat_close :: "nat \<Rightarrow> kernel \<times> vfs \<Rightarrow> (vfs, int) waits" where
  "pfat_close inode s = do { kassert False; give ENOTSUP s }"

definition pfat_lookup :: "nat \<Rightarrow> cstr \<Rightarrow> kernel \<times> vfs \<Rightarrow> (vfs, int \<times> nat) waits" where
  "pfat_lookup inode name s = do { kassert False; give (ENOTSUP, 0) s }"

definition pfat_init :: "kernel \<times> vfs \<Rightarrow> (vfs, int) waits" where
  "pfat_init = vfs_register_fs_driver S_PFAT_DRIVER"

definition pfat_ops :: "read_op \<Rightarrow> fs_ops" where
  "pfat_ops read_sync = \<lparr>op_get_name = pfat_get_name, op_create_instance = pfat_create_instance read_sync,
     op_get_root = pfat_get_root, op_close_instance = pfat_close_instance, op_lookup = pfat_lookup\<rparr>"

section \<open>The check of the superblock\<close>

lemma check_super_ok:
  assumes s: "superblock_at a v = Some sb" and b: "devs (vfs_devices v) dev = Some b" "dev_ops b = S_ramdisk_blockdev_ops"
    and rd: "ramdisks (vfs_devices v) (dev_data b) = Some rd" and small: "unat (fat_num_entries sb) < 2 ^ 30"
  shows "\<exists>rc. pfat_check_super dev a v = Some rc \<and>
    (rc = 0 \<longleftrightarrow> unat (fat_lba sb) + (unat (fat_num_entries sb) * 4 + 511) div 512 \<le> unat (rd_size rd) div 512
       \<and> unat (fat_lba sb) + (unat (fat_num_entries sb) * 4 + 511) div 512 \<le> unat (first_cluster_lba sb))"
proof -
  have "bs_size RAMDISK_BLOCK_SIZE \<noteq> 0" "unat (fat_num_entries sb) * unat (4 :: u32) < 2 ^ 32"
    using small by (simp_all add: RAMDISK_BLOCK_SIZE_def)
  from num_blocks_in_table_ceil [OF this] obtain n where
    n: "lba_get_num_blocks_in_table RAMDISK_BLOCK_SIZE (fat_num_entries sb) 4 = Some n"
      "unat n = (unat (fat_num_entries sb) * 4 + 511) div 512" by (auto simp: RAMDISK_BLOCK_SIZE_def)
  have fn: "pfat_get_fat_num_blocks dev sb (vfs_devices v) = Some n"
    using b n(1) by (simp add: pfat_get_fat_num_blocks_def blockdev_get_block_size_def ramdisk_get_block_size_def)
  have nb: "blockdev_get_num_blocks dev (vfs_devices v) = Some (RAMDISK_NUM_BLOCKS rd)"
    using b rd by (simp add: blockdev_get_num_blocks_def ramdisk_get_num_blocks_def)
  have rb: "unat (RAMDISK_NUM_BLOCKS rd) = unat (rd_size rd) div 512"
    by (simp add: RAMDISK_NUM_BLOCKS_def RAMDISK_BLOCK_SIZE_def lba_defs unat_div_distrib)
  have v: "range_is_valid_u32 (fat_lba sb) n (RAMDISK_NUM_BLOCKS rd) \<longleftrightarrow>
      unat (fat_lba sb) + unat n \<le> unat (rd_size rd) div 512" by (simp add: range_valid_iff rb)
  have c: "first_cluster_lba sb < fat_lba sb + n \<longleftrightarrow> unat (first_cluster_lba sb) < unat (fat_lba sb) + unat n"
    if "unat (fat_lba sb) + unat n \<le> unat (rd_size rd) div 512"
  proof -
    have "unat (rd_size rd) div 512 < 4294967296"
      using unat_less_32 [of "rd_size rd"] div_le_dividend [of "unat (rd_size rd)" 512] by linarith
    then have "unat (fat_lba sb + n) = unat (fat_lba sb) + unat n" using that by (intro unat_plus_no_wrap) simp
    then show ?thesis by (simp add: word_less_nat_alt)
  qed
  show ?thesis
    using s fn nb v c n(2) by (auto simp: pfat_check_super_def PFAT_FORMAT_ERROR_def not_less)
qed

section \<open>No instance can be created\<close>

text \<open>When the superblock has been read and its magic number is right, the pointer that is checked is
  still null.\<close>

lemma create_instance_halts:
  assumes f: "in_registry (dev_find_blockdev init) s = Some (Inr ((0, dev), s1))"
    and r: "pfat_read_super read_sync dev s1 = Some (Inr (0, s2))"
  shows "pfat_create_instance read_sync S_PFAT_DRIVER init opts s = None"
  using f r by (cases s2) (simp add: pfat_create_instance_def pfat_check_super_def superblock_at_def halt_simps)

lemma create_failed_rc: "create_failed rc i super dev s = Some (Inr ((rc', x), s')) \<Longrightarrow> rc' = rc"
  by (cases s) (auto simp: create_failed_def give_def bind_eq_Some_conv)

lemma check_null: "pfat_check_super dev 0 v = None"
  by (simp add: pfat_check_super_def superblock_at_def halt_simps)

lemma create_instance_fails:
  assumes "pfat_create_instance read_sync fs init opts s = Some (Inr ((rc, x), s'))"
  shows "rc \<noteq> 0"
proof -
  obtain rc1 dev s1 where 1: "in_registry (dev_find_blockdev init) s = Some (Inr ((rc1, dev), s1))"
    and 2: "(if rc1 \<noteq> 0 then create_failed rc1 0 0 0 s1
       else and_then (pfat_read_super read_sync dev s1) (\<lambda>rc (k, v).
         if rc \<noteq> 0 then create_failed rc 0 0 dev (k, v) else None)) = Some (Inr ((rc, x), s'))"
    using assms by (auto simp: pfat_create_instance_def and_then_Inr check_null Let_def bind_eq_Some_conv
        simp del: prod.case_distrib cong: if_cong)
  show ?thesis
  proof (cases "rc1 = 0")
    case False
    then have "create_failed rc1 0 0 0 s1 = Some (Inr ((rc, x), s'))" using 2 by simp
    from create_failed_rc [OF this] False show ?thesis by simp
  next
    case True
    then obtain rc2 s2 where "rc2 \<noteq> 0" "create_failed rc2 0 0 dev s2 = Some (Inr ((rc, x), s'))"
      using 2 by (auto simp: and_then_Inr split: if_splits)
    from this(1) create_failed_rc [OF this(2)] show ?thesis by simp
  qed
qed

lemma mount_failed_rc:
  assumes "mount_failed (pfat_ops rs) rc i r s = Some (Inr ((rc', x), s'))"
  shows "rc' = rc"
  using assms by (auto simp: mount_failed_def give_def and_then_Inr bind_eq_Some_conv split: if_splits)

lemma find_driver_rc:
  assumes "vfs_find_fs_driver ops name s = Some (Inr ((rc, drv), s'))"
  shows "rc = 0 \<or> rc = EINVAL"
  using assms by (auto simp: vfs_find_fs_driver_def and_then_Inr give_def bind_eq_Some_conv split: if_splits prod.splits)

lemma do_mount_pfat_fails:
  assumes "vfs_do_mount (pfat_ops rs) name mp init opts s = Some (Inr ((rc, x), s'))"
  shows "rc \<noteq> 0"
proof -
  obtain k v where s: "s = (k, v)" by (cases s)
  show ?thesis
  proof (cases "mp = 0 \<and> s_root_instance v \<noteq> 0")
    case True
    then have "mount_failed (pfat_ops rs) EEXIST 0 0 (k, v) = Some (Inr ((rc, x), s'))"
      using assms by (auto simp: s vfs_do_mount_def bind_eq_Some_conv)
    then show ?thesis using mount_failed_rc by fastforce
  next
    case False
    then obtain rc1 drv s1 where "vfs_find_fs_driver (pfat_ops rs) name s = Some (Inr ((rc1, drv), s1))"
      and 1: "rc1 \<noteq> 0 \<longrightarrow> mount_failed (pfat_ops rs) rc1 0 0 s1 = Some (Inr ((rc, x), s'))"
      and 2: "rc1 = 0 \<longrightarrow> (\<exists>rc2 i s2. op_create_instance (pfat_ops rs) drv init opts s1 = Some (Inr ((rc2, i), s2))
        \<and> (rc2 \<noteq> 0 \<longrightarrow> mount_failed (pfat_ops rs) rc2 i 0 s2 = Some (Inr ((rc, x), s'))))"
      using assms unfolding s vfs_do_mount_def
      by (simp add: bind_eq_Some_conv and_then_Inr split: if_splits) (fastforce simp: s)+
    show ?thesis
    proof (cases "rc1 = 0")
      case False
      then show ?thesis using 1 mount_failed_rc by metis
    next
      case True
      then obtain rc2 i s2 where 3: "pfat_create_instance rs drv init opts s1 = Some (Inr ((rc2, i), s2))"
        and 4: "rc2 \<noteq> 0 \<longrightarrow> mount_failed (pfat_ops rs) rc2 i 0 s2 = Some (Inr ((rc, x), s'))"
        using 2 by (auto simp: pfat_ops_def)
      have "rc2 \<noteq> 0" using create_instance_fails [OF 3] .
      then show ?thesis using 4 mount_failed_rc by metis
    qed
  qed
qed

lemma mount_root_pfat_fails:
  assumes "vfs_mount_root (pfat_ops rs) name init opts s = Some (Inr (rc, s'))"
  shows "rc \<noteq> 0"
proof -
  obtain x s1 s2 where 1: "vfs_do_mount (pfat_ops rs) name 0 init opts s1 = Some (Inr (x, s2))"
    and 2: "(\<lambda>(rc, root_dir) (k, v). do {
       let v = (if rc = 0 then v\<lparr>s_root_dir := root_dir\<rparr> else v);
       k \<leftarrow> mutex_unlock S_FS_MUTEX k;
       give rc (k, v)
     }) x s2 = Some (Inr (rc, s'))"
    using assms by (auto simp: vfs_mount_root_def and_then_Inr)
  obtain rc1 d where x: "x = (rc1, d)" by (cases x)
  have "rc1 \<noteq> 0" using do_mount_pfat_fails 1 x by blast
  moreover have "rc = rc1" using 2 x by (auto simp: give_def bind_eq_Some_conv split: prod.splits)
  ultimately show ?thesis by simp
qed

end
