(* ===== verification/Console.thy ===== *)
theory Console imports Strings Kernel_State begin

text \<open>
  The console: the VGA text screen (\<open>src/x86/kernel/x86_cons.c\<close>) and the functions that print on it
  (\<open>src/kernel/cons.c\<close>).  The screen is the part of memory at 0xB8000; the CRT controller and the
  debug port of the emulator are fields of the state.  There is one console, and \<open>s_console\<close> says
  whether \<open>cons_init\<close> has set the pointer to it.  The arguments of \<open>cons_printf\<close> are the words on the
  stack and \<open>buf\<close> is the address of its local buffer; reading an argument that was not passed is
  \<open>None\<close>, like a failed assertion.
\<close>

section \<open>Constants and state\<close>

definition VGA_VIDMEM :: int where "VGA_VIDMEM = 0xB8000"
definition VGA_NUMROWS :: int where "VGA_NUMROWS = 25"
definition VGA_NUMCOLS :: int where "VGA_NUMCOLS = 80"
definition VGA_BYTES_PER_ROW :: int where "VGA_BYTES_PER_ROW = VGA_NUMCOLS * 2"
definition CONS_TABSIZE :: int where "CONS_TABSIZE = 8"

definition VALID_ROW :: "int \<Rightarrow> bool" where "VALID_ROW row \<longleftrightarrow> row \<ge> 0 \<and> row < VGA_NUMROWS"
definition VALID_COL :: "int \<Rightarrow> bool" where "VALID_COL col \<longleftrightarrow> col \<ge> 0 \<and> col < VGA_NUMCOLS"

definition ROW_ADDR :: "int \<Rightarrow> int" where "ROW_ADDR row = VGA_VIDMEM + row * VGA_BYTES_PER_ROW"
definition ADDR :: "int \<Rightarrow> int \<Rightarrow> nat" where "ADDR x y = nat (ROW_ADDR y + x * 2)"

definition VGA_CRT_ADDR_REG :: u16 where "VGA_CRT_ADDR_REG = 0x3D4"
definition VGA_CRT_DATA_REG :: u16 where "VGA_CRT_DATA_REG = 0x3D5"
definition VGA_CRT_CURSOR_LOC_HIGH_REG :: u8 where "VGA_CRT_CURSOR_LOC_HIGH_REG = 0x0E"
definition VGA_CRT_CURSOR_LOC_LOW_REG :: u8 where "VGA_CRT_CURSOR_LOC_LOW_REG = 0x0F"
definition DEBUG_PORT :: u16 where "DEBUG_PORT = 0xE9"
definition DEFAULT_ATTR :: u8 where "DEFAULT_ATTR = 7"

record x86cons =
  c_y :: int
  c_x :: int
  c_attr :: u8

text \<open>The rest of the machine that the console uses: memory, the address register and the registers of
  the CRT controller, the bytes written to the debug port.\<close>

record console = x86cons +
  s_console :: bool
  cmem :: byte_mem
  crt_index :: u8
  crt_regs :: "u8 \<Rightarrow> u8"
  tty :: "u8 list"

definition cons_outb :: "u16 \<Rightarrow> u8 \<Rightarrow> console \<Rightarrow> console" where
  "cons_outb port v c =
     (if port = VGA_CRT_ADDR_REG then c\<lparr>crt_index := v\<rparr>
      else if port = VGA_CRT_DATA_REG then c\<lparr>crt_regs := (crt_regs c)(crt_index c := v)\<rparr>
      else if port = DEBUG_PORT then c\<lparr>tty := tty c @ [v]\<rparr>
      else c)"

section \<open>The screen\<close>

function clear_area_loop :: "u8 \<Rightarrow> nat \<Rightarrow> nat \<Rightarrow> byte_mem \<Rightarrow> byte_mem" where
  "clear_area_loop attr ptr final m =
     (if ptr < final then clear_area_loop attr (ptr + 2) final (m(ptr := 0x20, ptr + 1 := attr)) else m)"
  by pat_completeness auto
termination by (relation "measure (\<lambda>(attr, ptr, final, m). final - ptr)") auto

declare clear_area_loop.simps [simp del]

definition x86cons_clear_area :: "int \<Rightarrow> int \<Rightarrow> int \<Rightarrow> console \<Rightarrow> console option" where
  "x86cons_clear_area x y N c = do {
     kassert (y * VGA_NUMCOLS + x + N \<le> VGA_NUMCOLS * VGA_NUMROWS);
     let ptr = ADDR x y;
     let final = nat (int ptr + N * 2);
     Some (c\<lparr>cmem := clear_area_loop (c_attr c) ptr final (cmem c)\<rparr>)
   }"

text \<open>The rows from \<open>j\<close> on are moved up, \<open>n\<close> of them.\<close>

fun move_rows_up :: "nat \<Rightarrow> int \<Rightarrow> byte_mem \<Rightarrow> byte_mem" where
  "move_rows_up 0 j m = m"
| "move_rows_up (Suc n) j m =
     move_rows_up n (j + 1) (memcpy (nat (ROW_ADDR (j - 1))) (nat (ROW_ADDR j)) (nat VGA_BYTES_PER_ROW) m)"

definition x86cons_scroll :: "console \<Rightarrow> console option" where
  "x86cons_scroll c = (
     let c = c\<lparr>cmem := move_rows_up (nat (VGA_NUMROWS - 1)) 1 (cmem c)\<rparr>
     in x86cons_clear_area (VGA_NUMROWS - 1) 0 VGA_NUMCOLS c)"

definition x86cons_newline :: "console \<Rightarrow> console option" where
  "x86cons_newline c = do {
     let c = c\<lparr>c_x := 0\<rparr>;
     c \<leftarrow> (if c_y c = VGA_NUMROWS - 1 then x86cons_scroll c else Some (c\<lparr>c_y := c_y c + 1\<rparr>));
     Some (cons_outb DEBUG_PORT 10 c)
   }"

definition x86cons_putgraphic :: "int \<Rightarrow> console \<Rightarrow> console option" where
  "x86cons_putgraphic ch c = do {
     let ptr = ADDR (c_x c) (c_y c);
     let c = c\<lparr>cmem := (cmem c)(ptr := word_of_int ch, ptr + 1 := c_attr c)\<rparr>;
     let c = c\<lparr>c_x := c_x c + 1\<rparr>;
     let c = cons_outb DEBUG_PORT (word_of_int ch) c;
     if c_x c \<ge> VGA_NUMCOLS then x86cons_newline c else Some c
   }"

definition x86cons_updatecurs :: "console \<Rightarrow> console" where
  "x86cons_updatecurs c = (
     let charoff = (word_of_int (c_y c * VGA_NUMCOLS + c_x c) :: u32);
         origaddr = crt_index c;
         c = cons_outb VGA_CRT_ADDR_REG VGA_CRT_CURSOR_LOC_HIGH_REG c;
         c = cons_outb VGA_CRT_DATA_REG (ucast (drop_bit 8 charoff AND 0xFF)) c;
         c = cons_outb VGA_CRT_ADDR_REG VGA_CRT_CURSOR_LOC_LOW_REG c;
         c = cons_outb VGA_CRT_DATA_REG (ucast (charoff AND 0xFF)) c
     in cons_outb VGA_CRT_ADDR_REG origaddr c)"

definition x86cons_movecurs :: "int \<Rightarrow> int \<Rightarrow> console \<Rightarrow> console" where
  "x86cons_movecurs row col c =
     (if VALID_ROW row \<and> VALID_COL col then x86cons_updatecurs (c\<lparr>c_y := row, c_x := col\<rparr>) else c)"

definition x86cons_clear :: "console \<Rightarrow> console option" where
  "x86cons_clear c = do {
     c \<leftarrow> x86cons_clear_area 0 0 (VGA_NUMROWS * VGA_NUMCOLS) c;
     Some (x86cons_movecurs 0 0 c)
   }"

definition x86cons_numrows :: "console \<Rightarrow> int" where "x86cons_numrows c = VGA_NUMROWS"
definition x86cons_numcols :: "console \<Rightarrow> int" where "x86cons_numcols c = VGA_NUMCOLS"
definition x86cons_getx :: "console \<Rightarrow> int" where "x86cons_getx c = c_x c"
definition x86cons_gety :: "console \<Rightarrow> int" where "x86cons_gety c = c_y c"

definition x86cons_cleartoeol :: "console \<Rightarrow> console option" where
  "x86cons_cleartoeol c = (
     let toclear = VGA_NUMCOLS - c_x c
     in x86cons_clear_area (c_x c) (c_y c) toclear c)"

fun put_spaces :: "nat \<Rightarrow> console \<Rightarrow> console option" where
  "put_spaces 0 c = Some c"
| "put_spaces (Suc n) c = do { c \<leftarrow> x86cons_putgraphic 32 c; put_spaces n c }"

definition x86cons_putchar :: "int \<Rightarrow> console \<Rightarrow> console option" where
  "x86cons_putchar ch c = do {
     c \<leftarrow> (if ch = 9 then put_spaces (nat (8 - c_x c mod CONS_TABSIZE)) c
          else if ch = 10 then do { c \<leftarrow> x86cons_cleartoeol c; x86cons_newline c }
          else x86cons_putgraphic ch c);
     Some (x86cons_updatecurs c)
   }"

text \<open>The characters are read from memory while the screen is written.\<close>

partial_function (option) x86cons_write :: "nat \<Rightarrow> console \<Rightarrow> console option" where
  "x86cons_write str c =
     (if cmem c str = 0 then Some c
      else do { c \<leftarrow> x86cons_putchar (sint (cmem c str)) c; x86cons_write (str + 1) c })"

definition s_xcons :: "console \<Rightarrow> console" where
  "s_xcons c = c\<lparr>c_y := 0, c_x := 0, c_attr := DEFAULT_ATTR\<rparr>"

definition cons_getdefault :: "console \<Rightarrow> int \<times> console" where
  "cons_getdefault c = (0, c\<lparr>s_console := True\<rparr>)"

section \<open>Numbers as strings\<close>

definition MAXDIGITS :: nat where "MAXDIGITS = 39"

text \<open>The digits, lowest first, from \<open>buf[ndigits]\<close> on, and how many there are at the end.\<close>

function ultoa_digits :: "nat \<Rightarrow> nat \<Rightarrow> u32 \<Rightarrow> byte_mem \<Rightarrow> nat \<times> byte_mem" where
  "ultoa_digits buf ndigits v m = (
     let m = m(buf + ndigits := ucast (v mod 10) + 48);
         ndigits = ndigits + 1;
         v = v div 10
     in if v > 0 then ultoa_digits buf ndigits v m else (ndigits, m))"
  by pat_completeness auto
termination
proof (relation "measure (\<lambda>(buf, ndigits, v, m). unat v)")
  fix buf ndigits :: nat and v :: u32 and m x xa xb
  assume "xb = v div 10" "0 < xb"
  then have "unat v div 10 \<noteq> 0" by (auto simp: unat_div_distrib word_less_nat_alt)
  then have "0 < unat v" by (cases "unat v = 0") auto
  then have "unat v div 10 < unat v" by simp
  then show "((buf, xa, xb, x), buf, ndigits, v, m) \<in> measure (\<lambda>(buf, ndigits, v, m). unat v)"
    using \<open>xb = v div 10\<close> by (simp add: unat_div_distrib)
qed simp

declare ultoa_digits.simps [simp del]

definition swap_bytes :: "nat \<Rightarrow> nat \<Rightarrow> byte_mem \<Rightarrow> byte_mem" where
  "swap_bytes i j m = m(i := m j, j := m i)"

fun reverse_digits :: "nat \<Rightarrow> nat \<Rightarrow> nat \<Rightarrow> byte_mem \<Rightarrow> byte_mem" where
  "reverse_digits buf ndigits 0 m = m"
| "reverse_digits buf ndigits (Suc i) m =
     swap_bytes (buf + i) (buf + (ndigits - (i + 1))) (reverse_digits buf ndigits i m)"

definition cons_ultoa :: "nat \<Rightarrow> u32 \<Rightarrow> byte_mem \<Rightarrow> byte_mem" where
  "cons_ultoa buf v m = (
     let (ndigits, m) = ultoa_digits buf 0 v m;
         m = reverse_digits buf ndigits (ndigits div 2) m
     in m(buf + ndigits := 0))"

definition cons_ltoa :: "nat \<Rightarrow> u32 \<Rightarrow> byte_mem \<Rightarrow> byte_mem" where
  "cons_ltoa buf v m =
     (if sint v < 0 then cons_ultoa (buf + 1) (- v) (m(buf := 0x2D)) else cons_ultoa buf v m)"

definition hex_digits :: "u8 list" where
  "hex_digits = [0x30, 0x31, 0x32, 0x33, 0x34, 0x35, 0x36, 0x37, 0x38, 0x39, 0x41, 0x42, 0x43, 0x44, 0x45, 0x46]"

text \<open>Digit number \<open>n\<close> from the left is written, then the ones right of it; 8 in all.\<close>

fun ltox_loop :: "nat \<Rightarrow> nat \<Rightarrow> u32 \<Rightarrow> byte_mem \<Rightarrow> byte_mem" where
  "ltox_loop buf 0 v m = m(buf := 0)"
| "ltox_loop buf (Suc n) v m = ltox_loop (buf + 1) n v (m(buf := hex_digits ! unat (drop_bit (4 * n) v AND 0xF)))"

definition cons_ltox :: "nat \<Rightarrow> u32 \<Rightarrow> byte_mem \<Rightarrow> byte_mem" where
  "cons_ltox buf v m = ltox_loop buf 8 v m"

section \<open>Printing\<close>

definition cons_init :: "console \<Rightarrow> (int \<times> console) option" where
  "cons_init c = (
     let (rc, c) = cons_getdefault c
     in if rc \<noteq> 0 then Some (rc, c) else do { c \<leftarrow> x86cons_clear c; Some (rc, c) })"

text \<open>An operation of the console, called with interrupts off.\<close>

definition cons_atomic :: "(console \<Rightarrow> ('a \<times> console) option) \<Rightarrow> kernel \<times> console \<Rightarrow> ('a \<times> kernel \<times> console) option" where
  "cons_atomic op = (\<lambda>(k, c). do {
     (iflag, k) \<leftarrow> int_begin_atomic k;
     kassert (s_console c);
     (x, c) \<leftarrow> op c;
     k \<leftarrow> int_end_atomic iflag k;
     Some (x, k, c)
   })"

definition no_result :: "(console \<Rightarrow> console option) \<Rightarrow> console \<Rightarrow> (unit \<times> console) option" where
  "no_result op c = map_option (Pair ()) (op c)"

definition cons_clear :: "kernel \<times> console \<Rightarrow> (unit \<times> kernel \<times> console) option" where
  "cons_clear = cons_atomic (no_result x86cons_clear)"
definition cons_numrows :: "kernel \<times> console \<Rightarrow> (int \<times> kernel \<times> console) option" where
  "cons_numrows = cons_atomic (\<lambda>c. Some (x86cons_numrows c, c))"
definition cons_numcols :: "kernel \<times> console \<Rightarrow> (int \<times> kernel \<times> console) option" where
  "cons_numcols = cons_atomic (\<lambda>c. Some (x86cons_numcols c, c))"
definition cons_getx :: "kernel \<times> console \<Rightarrow> (int \<times> kernel \<times> console) option" where
  "cons_getx = cons_atomic (\<lambda>c. Some (x86cons_getx c, c))"
definition cons_gety :: "kernel \<times> console \<Rightarrow> (int \<times> kernel \<times> console) option" where
  "cons_gety = cons_atomic (\<lambda>c. Some (x86cons_gety c, c))"
definition cons_movecurs :: "int \<Rightarrow> int \<Rightarrow> kernel \<times> console \<Rightarrow> (unit \<times> kernel \<times> console) option" where
  "cons_movecurs row col = cons_atomic (\<lambda>c. Some ((), x86cons_movecurs row col c))"
definition cons_putchar :: "int \<Rightarrow> kernel \<times> console \<Rightarrow> (unit \<times> kernel \<times> console) option" where
  "cons_putchar ch = cons_atomic (no_result (x86cons_putchar ch))"
definition cons_write :: "nat \<Rightarrow> kernel \<times> console \<Rightarrow> (unit \<times> kernel \<times> console) option" where
  "cons_write str = cons_atomic (no_result (x86cons_write str))"

definition on_mem :: "(byte_mem \<Rightarrow> byte_mem) \<Rightarrow> kernel \<times> console \<Rightarrow> kernel \<times> console" where
  "on_mem f = (\<lambda>(k, c). (k, c\<lparr>cmem := f (cmem c)\<rparr>))"

text \<open>\<open>va_arg\<close>: the next word.\<close>

definition va_arg :: "u32 list \<Rightarrow> (u32 \<times> u32 list) option" where
  "va_arg args = (case args of [] \<Rightarrow> None | a # args \<Rightarrow> Some (a, args))"

text \<open>The inner \<open>switch\<close>; \<open>int\<close>, \<open>long\<close> and pointers have one size, so that \<open>is_long\<close> makes no difference.\<close>

definition printf_item :: "nat \<Rightarrow> u8 \<Rightarrow> u32 list \<Rightarrow> kernel \<times> console \<Rightarrow> (u32 list \<times> kernel \<times> console) option" where
  "printf_item buf d args s =
     (if d = 0x64 then do { (a, args) \<leftarrow> va_arg args; (_, s) \<leftarrow> cons_write buf (on_mem (cons_ltoa buf a) s); Some (args, s) }
      else if d = 0x75 then do { (a, args) \<leftarrow> va_arg args; (_, s) \<leftarrow> cons_write buf (on_mem (cons_ultoa buf a) s); Some (args, s) }
      else if d = 0x78 \<or> d = 0x70 then do { (a, args) \<leftarrow> va_arg args; (_, s) \<leftarrow> cons_write buf (on_mem (cons_ltox buf a) s); Some (args, s) }
      else if d = 0x63 then do { (a, args) \<leftarrow> va_arg args; (_, s) \<leftarrow> cons_putchar (sint (a AND 0xFF)) s; Some (args, s) }
      else if d = 0x73 then do { (a, args) \<leftarrow> va_arg args; (_, s) \<leftarrow> cons_write (unat a) s; Some (args, s) }
      else do { (_, s) \<leftarrow> cons_putchar (sint d) s; Some (args, s) })"

partial_function (option) printf_loop :: "nat \<Rightarrow> nat \<Rightarrow> u32 list \<Rightarrow> kernel \<times> console \<Rightarrow> (kernel \<times> console) option" where
  "printf_loop buf fmt args s = (
     let at = cmem (snd s) in
     if at fmt = 0 then Some s
     else if at fmt = 0x25 then
       (let fmt = fmt + 1 in
        if at fmt = 0 then Some s
        else if at fmt = 0x6C \<and> at (fmt + 1) = 0 then Some s
        else let fmt = (if at fmt = 0x6C then fmt + 1 else fmt) in
          do { (args, s) \<leftarrow> printf_item buf (at fmt) args s; printf_loop buf (fmt + 1) args s })
     else do { (_, s) \<leftarrow> cons_putchar (sint (at fmt)) s; printf_loop buf (fmt + 1) args s })"

definition cons_printf :: "nat \<Rightarrow> nat \<Rightarrow> u32 list \<Rightarrow> kernel \<times> console \<Rightarrow> (kernel \<times> console) option" where
  "cons_printf buf fmt args = (\<lambda>(k, c). do {
     (iflag, k) \<leftarrow> int_begin_atomic k;
     (k, c) \<leftarrow> printf_loop buf fmt args (k, c);
     k \<leftarrow> int_end_atomic iflag k;
     Some (k, c)
   })"

section \<open>What the operations touch\<close>

text \<open>The cursor is on the screen.\<close>

definition cons_ok :: "console \<Rightarrow> bool" where
  "cons_ok c \<longleftrightarrow> VALID_ROW (c_y c) \<and> VALID_COL (c_x c)"

text \<open>Memory that is not part of the screen; the same console with other memory around the screen.\<close>

definition off_screen :: "nat \<Rightarrow> bool" where
  "off_screen a \<longleftrightarrow> a < 0xB8000 \<or> 0xB8FA0 \<le> a"

definition merge :: "byte_mem \<Rightarrow> byte_mem \<Rightarrow> byte_mem" where
  "merge m scr = (\<lambda>a. if off_screen a then m a else scr a)"

definition with_mem :: "byte_mem \<Rightarrow> console \<Rightarrow> console" where
  "with_mem m c = c\<lparr>cmem := merge m (cmem c)\<rparr>"

named_theorems cons_defs \<open>constants of the screen\<close>

lemmas [cons_defs] = VGA_VIDMEM_def VGA_NUMROWS_def VGA_NUMCOLS_def VGA_BYTES_PER_ROW_def CONS_TABSIZE_def VALID_ROW_def
  VALID_COL_def ROW_ADDR_def ADDR_def

lemma merge_simps [simp]:
  "merge m (merge m' s) = merge m s" "merge (merge m s') s = merge m s" "merge m m = m"
  by (auto simp: merge_def)

lemma merge_at: "merge m s a = (if off_screen a then m a else s a)"
  by (simp add: merge_def)

lemma with_mem_simps [simp]:
  "with_mem m (with_mem m' c) = with_mem m c" "cons_ok (with_mem m c) = cons_ok c" "s_console (with_mem m c) = s_console c"
  "c_x (with_mem m c) = c_x c" "c_y (with_mem m c) = c_y c" "c_attr (with_mem m c) = c_attr c"
  "crt_index (with_mem m c) = crt_index c" "crt_regs (with_mem m c) = crt_regs c" "tty (with_mem m c) = tty c"
  "cmem (with_mem m c) = merge m (cmem c)" "with_mem (cmem c) c = c"
  by (simp_all add: with_mem_def cons_ok_def)

lemma with_mem_upd [simp]:
  "(with_mem m c)\<lparr>c_x := x\<rparr> = with_mem m (c\<lparr>c_x := x\<rparr>)" "(with_mem m c)\<lparr>c_y := y\<rparr> = with_mem m (c\<lparr>c_y := y\<rparr>)"
  "(with_mem m c)\<lparr>crt_index := i\<rparr> = with_mem m (c\<lparr>crt_index := i\<rparr>)"
  "(with_mem m c)\<lparr>crt_regs := r\<rparr> = with_mem m (c\<lparr>crt_regs := r\<rparr>)"
  "(with_mem m c)\<lparr>tty := t\<rparr> = with_mem m (c\<lparr>tty := t\<rparr>)"
  by (simp_all add: with_mem_def)

text \<open>A function on memory that reads and writes the screen only.\<close>

definition screen_fun :: "(byte_mem \<Rightarrow> byte_mem) \<Rightarrow> bool" where
  "screen_fun F \<longleftrightarrow> (\<forall>m s. F (merge m s) = merge m (F s))"

lemma screen_fun_comp: "screen_fun F \<Longrightarrow> screen_fun G \<Longrightarrow> screen_fun (\<lambda>m. G (F m))"
  by (simp add: screen_fun_def)

lemma screen_fun_upd: "\<not> off_screen a \<Longrightarrow> screen_fun (\<lambda>m. m(a := v))"
  by (auto simp: screen_fun_def merge_def)

lemma screen_fun_cmem: "screen_fun F \<Longrightarrow> (with_mem m c)\<lparr>cmem := F (merge m (cmem c))\<rparr> = with_mem m (c\<lparr>cmem := F (cmem c)\<rparr>)"
  by (simp add: screen_fun_def with_mem_def)

lemma clear_area_loop_at:
  "clear_area_loop attr p (p + 2 * n) m a =
     (if p \<le> a \<and> a < p + 2 * n then if even (a - p) then 0x20 else attr else m a)"
proof (induction n arbitrary: p m)
  case 0
  then show ?case by (auto simp: clear_area_loop.simps)
next
  case (Suc n)
  have "clear_area_loop attr p (p + 2 * Suc n) m = clear_area_loop attr (p + 2) (p + 2 + 2 * n) (m(p := 0x20, p + 1 := attr))"
    by (subst clear_area_loop.simps) simp
  note e = this Suc.IH [of "p + 2" "m(p := 0x20, p + 1 := attr)"]
  consider "a < p" | "a = p" | "a = p + 1" | "p + 2 \<le> a" by linarith
  then show ?case
  proof cases
    case 4
    then have "a - p = 2 + (a - (p + 2))" by simp
    then have "even (a - p) = even (a - (p + 2))" by (simp only: even_add) simp
    with 4 show ?thesis unfolding e by auto
  qed (unfold e, auto)
qed

lemma screen_fun_clear:
  assumes "0xB8000 \<le> p" and "p + 2 * n \<le> 0xB8FA0"
  shows "screen_fun (clear_area_loop attr p (p + 2 * n))"
  using assms by (auto simp: screen_fun_def merge_def clear_area_loop_at off_screen_def fun_eq_iff)

lemma screen_fun_memcpy:
  assumes "0xB8000 \<le> d" and "d \<le> s" and "s + n \<le> 0xB8FA0"
  shows "screen_fun (memcpy d s n)"
  using assms by (auto simp: screen_fun_def merge_def memcpy_at off_screen_def fun_eq_iff)

lemma screen_fun_rows: "1 \<le> j \<Longrightarrow> j + int n \<le> 25 \<Longrightarrow> screen_fun (move_rows_up n j)"
proof (induction n arbitrary: j)
  case 0
  then show ?case by (simp add: screen_fun_def)
next
  case (Suc n)
  have "screen_fun (memcpy (nat (ROW_ADDR (j - 1))) (nat (ROW_ADDR j)) (nat VGA_BYTES_PER_ROW))"
    using Suc.prems by (intro screen_fun_memcpy) (auto simp: cons_defs)
  moreover have "screen_fun (move_rows_up n (j + 1))" using Suc by simp
  ultimately show ?case by (simp add: screen_fun_comp)
qed

section \<open>Every operation keeps to the screen\<close>

text \<open>The operation succeeds, leaves the cursor on the screen, and neither reads nor writes the memory
  around the screen.\<close>

definition local_op :: "(console \<Rightarrow> console option) \<Rightarrow> console \<Rightarrow> bool" where
  "local_op f c \<longleftrightarrow> (\<exists>c1. f c = Some c1 \<and> cons_ok c1 \<and> s_console c1 = s_console c \<and> (\<forall>m. f (with_mem m c) = Some (with_mem m c1)))"

lemma local_opD:
  assumes "local_op f c"
  obtains c1 where "f c = Some c1" "cons_ok c1" "s_console c1 = s_console c" "\<forall>m. f (with_mem m c) = Some (with_mem m c1)"
  using assms unfolding local_op_def by blast

lemma local_op_mem:
  assumes "local_op f c" and "f c = Some c1"
  shows "with_mem (cmem c) c1 = c1"
proof -
  obtain c2 where c2: "f c = Some c2" "\<forall>m. f (with_mem m c) = Some (with_mem m c2)" using assms(1) by (rule local_opD)
  from c2(2) [rule_format, of "cmem c"] c2(1) assms(2) show ?thesis by simp
qed

lemma local_bind:
  assumes "local_op f c" and "\<And>c1. f c = Some c1 \<Longrightarrow> cons_ok c1 \<Longrightarrow> local_op g c1"
  shows "local_op (\<lambda>c. do { c \<leftarrow> f c; g c }) c"
proof -
  obtain c1 where 1: "f c = Some c1" "cons_ok c1" "s_console c1 = s_console c" "\<forall>m. f (with_mem m c) = Some (with_mem m c1)"
    using assms(1) by (rule local_opD)
  obtain c2 where 2: "g c1 = Some c2" "cons_ok c2" "s_console c2 = s_console c1" "\<forall>m. g (with_mem m c1) = Some (with_mem m c2)"
    using assms(2) [OF 1(1,2)] by (rule local_opD)
  show ?thesis using 1 2 by (simp add: local_op_def)
qed

lemma local_Some:
  assumes "cons_ok (h c)" and "s_console (h c) = s_console c" and "\<And>m. h (with_mem m c) = with_mem m (h c)"
  shows "local_op (\<lambda>c. Some (h c)) c"
  using assms by (simp add: local_op_def)

lemma outb_local [simp]:
  "cons_ok (cons_outb p v c) = cons_ok c" "s_console (cons_outb p v c) = s_console c"
  "cons_outb p v (with_mem m c) = with_mem m (cons_outb p v c)" "c_x (cons_outb p v c) = c_x c" "c_y (cons_outb p v c) = c_y c"
  "cmem (cons_outb p v c) = cmem c" "c_attr (cons_outb p v c) = c_attr c"
  by (simp_all add: cons_outb_def cons_ok_def)

lemma updatecurs_local [simp]:
  "cons_ok (x86cons_updatecurs c) = cons_ok c" "s_console (x86cons_updatecurs c) = s_console c"
  "x86cons_updatecurs (with_mem m c) = with_mem m (x86cons_updatecurs c)"
  "cmem (x86cons_updatecurs c) = cmem c" "c_x (x86cons_updatecurs c) = c_x c" "c_y (x86cons_updatecurs c) = c_y c"
  by (simp_all add: x86cons_updatecurs_def Let_def)

lemma clear_area_ok:
  assumes "0 \<le> x" and "0 \<le> y" and "0 \<le> N" and "y * 80 + x + N \<le> 2000"
  shows "x86cons_clear_area x y N c
      = Some (c\<lparr>cmem := clear_area_loop (c_attr c) (ADDR x y) (ADDR x y + 2 * nat N) (cmem c)\<rparr>)"
    and "screen_fun (clear_area_loop attr (ADDR x y) (ADDR x y + 2 * nat N))"
proof -
  have a: "int (ADDR x y) = 0xB8000 + y * 160 + x * 2" using assms by (simp add: cons_defs)
  have "nat (int (ADDR x y) + N * 2) = ADDR x y + 2 * nat N" using assms(3) by (simp add: nat_add_distrib nat_mult_distrib)
  then show "x86cons_clear_area x y N c
      = Some (c\<lparr>cmem := clear_area_loop (c_attr c) (ADDR x y) (ADDR x y + 2 * nat N) (cmem c)\<rparr>)"
    using assms by (simp add: x86cons_clear_area_def Let_def halt_simps VGA_NUMCOLS_def VGA_NUMROWS_def)
  show "screen_fun (clear_area_loop attr (ADDR x y) (ADDR x y + 2 * nat N))"
    by (rule screen_fun_clear) (use a assms in \<open>linarith+\<close>)
qed

lemma cleartoeol_local: "cons_ok c \<Longrightarrow> local_op x86cons_cleartoeol c"
proof -
  assume ok: "cons_ok c"
  have b: "0 \<le> c_x c" "0 \<le> c_y c" "0 \<le> 80 - c_x c" "c_y c * 80 + c_x c + (80 - c_x c) \<le> 2000"
    using ok by (auto simp: cons_ok_def cons_defs)
  note s = clear_area_ok [OF b]
  show ?thesis
    using ok s(2) [of "c_attr c"] by (simp add: local_op_def x86cons_cleartoeol_def VGA_NUMCOLS_def s(1) cons_ok_def screen_fun_cmem)
qed

lemma scroll_local: "cons_ok c \<Longrightarrow> local_op x86cons_scroll c"
proof -
  assume ok: "cons_ok c"
  have b: "(0 :: int) \<le> 24" "(0 :: int) \<le> 0" "(0 :: int) \<le> 80" "(0 :: int) * 80 + 24 + 80 \<le> 2000" by simp_all
  note s = clear_area_ok [OF b]
  have r: "screen_fun (move_rows_up 24 1)" by (rule screen_fun_rows) simp_all
  have "screen_fun (\<lambda>m. clear_area_loop (c_attr c) (ADDR 24 0) (ADDR 24 0 + 2 * nat 80) (move_rows_up 24 1 m))"
    by (rule screen_fun_comp [OF r s(2)])
  from screen_fun_cmem [OF this] show ?thesis
    using ok by (simp add: local_op_def x86cons_scroll_def VGA_NUMCOLS_def VGA_NUMROWS_def s(1) cons_ok_def)
qed

lemma newline_local:
  assumes "VALID_ROW (c_y c)"
  shows "local_op x86cons_newline c"
proof -
  have ok: "cons_ok (c\<lparr>c_x := 0\<rparr>)" using assms by (simp add: cons_ok_def cons_defs)
  show ?thesis
  proof (cases "c_y c = VGA_NUMROWS - 1")
    case True
    obtain c1 where "x86cons_scroll (c\<lparr>c_x := 0\<rparr>) = Some c1" "cons_ok c1" "s_console c1 = s_console (c\<lparr>c_x := 0\<rparr>)"
      "\<forall>m. x86cons_scroll (with_mem m (c\<lparr>c_x := 0\<rparr>)) = Some (with_mem m c1)"
      using scroll_local [OF ok] by (rule local_opD)
    with True show ?thesis by (simp add: local_op_def x86cons_newline_def Let_def)
  next
    case False
    then show ?thesis using assms by (auto simp: local_op_def x86cons_newline_def Let_def cons_ok_def cons_defs)
  qed
qed

lemma putgraphic_local: "cons_ok c \<Longrightarrow> local_op (x86cons_putgraphic ch) c"
proof -
  assume ok: "cons_ok c"
  let ?p = "ADDR (c_x c) (c_y c)"
  have a: "int ?p = 0xB8000 + c_y c * 160 + c_x c * 2" and b: "0 \<le> c_y c" "c_y c < 25" "0 \<le> c_x c" "c_x c < 80"
    using ok by (auto simp: cons_ok_def cons_defs)
  have "0xB8000 \<le> ?p" "?p + 1 < 0xB8FA0" using a b by linarith+
  then have "\<not> off_screen ?p" "\<not> off_screen (?p + 1)" by (simp_all add: off_screen_def)
  then have "screen_fun (\<lambda>m. m(?p := v, ?p + 1 := w))" for v w
    using screen_fun_comp [OF screen_fun_upd screen_fun_upd] by blast
  note e = screen_fun_cmem [OF this]
  let ?c = "cons_outb DEBUG_PORT (word_of_int ch) (c\<lparr>cmem := (cmem c)(?p := word_of_int ch, ?p + 1 := c_attr c), c_x := c_x c + 1\<rparr>)"
  have w: "cons_outb DEBUG_PORT (word_of_int ch) ((with_mem m c)\<lparr>cmem := (merge m (cmem c))(?p := word_of_int ch, ?p + 1 := c_attr c),
      c_x := c_x c + 1\<rparr>) = with_mem m ?c" for m
    by (simp only: e with_mem_upd outb_local)
  have r: "x86cons_putgraphic ch c = (if c_x c + 1 \<ge> 80 then x86cons_newline ?c else Some ?c)"
    "x86cons_putgraphic ch (with_mem m c) = (if c_x c + 1 \<ge> 80 then x86cons_newline (with_mem m ?c) else Some (with_mem m ?c))" for m
    using w [of m] by (simp_all add: x86cons_putgraphic_def Let_def VGA_NUMCOLS_def)
  show ?thesis
  proof (cases "c_x c + 1 \<ge> 80")
    case True
    have "VALID_ROW (c_y ?c)" using b by (simp add: cons_defs)
    from newline_local [OF this] True show ?thesis unfolding local_op_def r by simp
  next
    case False
    have "cons_ok ?c" using b False by (simp add: cons_ok_def cons_defs)
    with False show ?thesis unfolding local_op_def r by simp
  qed
qed

lemma put_spaces_local: "cons_ok c \<Longrightarrow> local_op (put_spaces n) c"
proof (induction n arbitrary: c)
  case 0
  then show ?case by (simp add: local_op_def)
next
  case (Suc n)
  show ?case using local_bind [OF putgraphic_local [OF Suc.prems, of 32]] Suc.IH by simp
qed

lemma putchar_local:
  assumes ok: "cons_ok c"
  shows "local_op (x86cons_putchar ch) c"
proof -
  have nl: "local_op (\<lambda>c. do { c \<leftarrow> x86cons_cleartoeol c; x86cons_newline c }) c"
    using cleartoeol_local [OF ok] by (rule local_bind) (simp add: newline_local cons_ok_def)
  define n where "n = nat (8 - c_x c mod CONS_TABSIZE)"
  have "local_op (\<lambda>c. if ch = 9 then put_spaces n c
      else if ch = 10 then do { c \<leftarrow> x86cons_cleartoeol c; x86cons_newline c } else x86cons_putgraphic ch c) c"
    using nl put_spaces_local [OF ok, of n] putgraphic_local [OF ok, of ch] by (cases "ch = 9"; cases "ch = 10") simp_all
  from local_bind [OF this, of "\<lambda>c. Some (x86cons_updatecurs c)"]
  have "local_op (\<lambda>c. do {
      c \<leftarrow> (if ch = 9 then put_spaces n c
          else if ch = 10 then do { c \<leftarrow> x86cons_cleartoeol c; x86cons_newline c } else x86cons_putgraphic ch c);
      Some (x86cons_updatecurs c) }) c" by (simp add: local_Some)
  then show ?thesis by (simp only: local_op_def x86cons_putchar_def with_mem_simps n_def)
qed

end
