(* ===== verification/Console_Print.thy ===== *)
theory Console_Print imports Console begin

text \<open>
  What the printing functions of \<open>src/kernel/cons.c\<close> mean: the strings that the number conversions
  leave in the buffer, and \<open>cons_printf\<close> as the writing of one formatted text.
\<close>

section \<open>Writing a string\<close>

text \<open>The characters one after the other.\<close>

fun put_all :: "u8 list \<Rightarrow> console \<Rightarrow> console option" where
  "put_all [] c = Some c"
| "put_all (x # xs) c = do { c \<leftarrow> x86cons_putchar (sint x) c; put_all xs c }"

lemma put_all_append: "put_all (xs @ ys) c = do { c \<leftarrow> put_all xs c; put_all ys c }"
proof (induction xs arbitrary: c)
  case (Cons x xs)
  then show ?case by (cases "x86cons_putchar (sint x) c") simp_all
qed simp

lemma put_all_local: "cons_ok c \<Longrightarrow> local_op (put_all xs) c"
proof (induction xs arbitrary: c)
  case Nil
  then show ?case by (simp add: local_op_def)
next
  case (Cons x xs)
  show ?case using local_bind [OF putchar_local [OF Cons.prems, of "sint x"], of "put_all xs"] Cons.IH by simp
qed

lemma write_cstring:
  assumes "cons_ok c" and "cstring (cmem c) str xs" and "\<forall>i \<le> length xs. off_screen (str + i)"
  shows "x86cons_write str c = put_all xs c"
  using assms
proof (induction xs arbitrary: str c)
  case Nil
  then show ?case by (subst x86cons_write.simps) simp
next
  case (Cons x xs)
  have s: "cmem c str = x" "x \<noteq> 0" "cstring (cmem c) (str + 1) xs" using Cons.prems(2) by simp_all
  have l: "local_op (x86cons_putchar (sint x)) c" by (rule putchar_local [OF Cons.prems(1)])
  then obtain c1 where c1: "x86cons_putchar (sint x) c = Some c1" "cons_ok c1" by (rule local_opD)
  have "cmem c1 a = cmem c a" if "off_screen a" for a
  proof -
    have "cmem (with_mem (cmem c) c1) a = cmem c a" using that by (simp add: merge_at)
    then show ?thesis unfolding local_op_mem [OF l c1(1)] .
  qed
  moreover have off: "\<forall>i \<le> length xs. off_screen (str + 1 + i)"
    using Cons.prems(3) by (metis Suc_le_mono add.assoc add_Suc_shift length_Cons plus_1_eq_Suc)
  ultimately have "cstring (cmem c1) (str + 1) xs" using s(3) by (auto simp: cstring_def bytes_at_def less_Suc_eq_le)
  from Cons.IH [OF c1(2) this off] s c1(1) show ?case by (subst x86cons_write.simps) simp
qed

section \<open>Numbers\<close>

text \<open>Decimal digits, highest first, and their value.\<close>

fun dec :: "nat \<Rightarrow> u8 list" where
  "dec n = (if n < 10 then [] else dec (n div 10)) @ [48 + of_nat (n mod 10)]"

declare dec.simps [simp del]

definition undec :: "u8 list \<Rightarrow> nat" where
  "undec = foldl (\<lambda>n x. n * 10 + unat (x - 48)) 0"

lemma undec_dec: "undec (dec n) = n"
proof (induction n rule: dec.induct)
  case (1 n)
  have d: "unat (of_nat (n mod 10) :: u8) = n mod 10"
    by (simp add: unat_of_nat take_bit_nat_eq_self)
  show ?case
  proof (cases "n < 10")
    case True
    then show ?thesis using d by (subst dec.simps) (simp add: undec_def)
  next
    case False
    then have "undec (dec (n div 10)) = n div 10" using 1 by simp
    then show ?thesis using d False by (subst dec.simps) (simp add: undec_def)
  qed
qed

lemma dec_nonzero: "0 \<notin> set (dec n)"
proof (induction n rule: dec.induct)
  case (1 n)
  have "unat (48 + of_nat (n mod 10) :: u8) \<noteq> 0"
    by (simp add: unat_word_ariths unat_of_nat take_bit_nat_eq_self)
  then have "48 + of_nat (n mod 10) \<noteq> (0 :: u8)" by (metis unat_0)
  then show ?case using 1 by (subst dec.simps) auto
qed

lemma dec_length: "n < 10 ^ k \<Longrightarrow> 0 < k \<Longrightarrow> length (dec n) \<le> k"
proof (induction k arbitrary: n)
  case (Suc k)
  show ?case
  proof (cases "n < 10")
    case True
    then show ?thesis by (subst dec.simps) simp
  next
    case False
    then have "0 < k" using Suc.prems(1) by (cases k) auto
    moreover have "n div 10 < 10 ^ k" using Suc.prems(1) by (simp add: less_mult_imp_div_less)
    ultimately show ?thesis using False Suc.IH [of "n div 10"] by (subst dec.simps) simp
  qed
qed simp

lemma dec_length_u32: "length (dec (unat v)) \<le> 10" for v :: u32
  using dec_length [of "unat v" 10] unat_less_32 [of v] by simp

lemma ultoa_digits_ok:
  "\<exists>m'. ultoa_digits buf k v m = (k + length (dec (unat v)), m') \<and> bytes_at m' (buf + k) (rev (dec (unat v)))
    \<and> (\<forall>a. a < buf + k \<or> buf + k + length (dec (unat v)) \<le> a \<longrightarrow> m' a = m a)"
proof (induction "unat v" arbitrary: k v m rule: less_induct)
  case less
  let ?m = "m(buf + k := ucast (v mod 10) + 48)"
  have d: "ucast (v mod 10) + 48 = (48 + of_nat (unat v mod 10) :: u8)"
  proof -
    have "unat (v mod 10) = unat v mod 10" by (simp add: unat_mod_distrib)
    then show ?thesis by (metis add.commute of_nat_unat)
  qed
  have q: "unat (v div 10) = unat v div 10" by (simp add: unat_div_distrib)
  show ?case
  proof (cases "v div 10 > 0")
    case False
    then have "unat v div 10 = 0" using q by (metis word_gt_0 unat_0)
    then have "unat v < 10" by simp
    moreover have "ultoa_digits buf k v m = (k + 1, ?m)" using False by (subst ultoa_digits.simps) (simp add: Let_def)
    ultimately show ?thesis using d by (subst (1 2 3) dec.simps) (simp add: bytes_at_def)
  next
    case True
    then have g: "\<not> unat v < 10" using q by (metis div_less less_numeral_extra(3) unat_0 word_less_nat_alt)
    then have l: "unat (v div 10) < unat v" using q by simp
    obtain m' where m': "ultoa_digits buf (k + 1) (v div 10) ?m = (k + 1 + length (dec (unat v div 10)), m')"
      "bytes_at m' (buf + (k + 1)) (rev (dec (unat v div 10)))"
      "\<forall>a. a < buf + (k + 1) \<or> buf + (k + 1) + length (dec (unat v div 10)) \<le> a \<longrightarrow> m' a = ?m a"
      using less [OF l, of "k + 1" ?m] unfolding q by blast
    have "ultoa_digits buf k v m = (k + 1 + length (dec (unat v div 10)), m')"
      using True m'(1) by (subst ultoa_digits.simps) (simp add: Let_def)
    moreover have e: "dec (unat v) = dec (unat v div 10) @ [48 + of_nat (unat v mod 10)]" using g by (subst dec.simps) simp
    moreover have "m' (buf + k) = 48 + of_nat (unat v mod 10)" using m'(3) d by simp
    ultimately show ?thesis using m'(2,3) by (intro exI [of _ m']) (auto simp: e add.assoc)
  qed
qed

lemma reverse_digits_at:
  "i \<le> n div 2 \<Longrightarrow> reverse_digits buf n i m a =
     (if buf \<le> a \<and> a < buf + n \<and> (a - buf < i \<or> n - i \<le> a - buf) then m (buf + (n - 1 - (a - buf))) else m a)"
proof (induction i arbitrary: a)
  case 0
  then show ?case by auto
next
  case (Suc i)
  have i: "i \<le> n div 2" "i < n - (i + 1)" "i < n" using Suc.prems by auto
  note IH = Suc.IH [OF i(1)]
  have ne: "buf + i \<noteq> buf + (n - (i + 1))" using i by linarith
  have old: "reverse_digits buf n i m (buf + i) = m (buf + i)" "reverse_digits buf n i m (buf + (n - (i + 1))) = m (buf + (n - (i + 1)))"
    using i unfolding IH by auto
  consider "a = buf + i" | "a = buf + (n - (i + 1))" | "a \<noteq> buf + i" "a \<noteq> buf + (n - (i + 1))" by blast
  then show ?case
  proof cases
    case 1
    have "reverse_digits buf n (Suc i) m a = m (buf + (n - (i + 1)))"
      using 1 ne old(2) unfolding reverse_digits.simps swap_bytes_def by simp
    moreover have "n - 1 - (a - buf) = n - (i + 1)" "buf \<le> a" "a < buf + n" "a - buf < Suc i" using 1 i by simp_all
    ultimately show ?thesis by simp
  next
    case 2
    have "reverse_digits buf n (Suc i) m a = m (buf + i)"
      using 2 old(1) unfolding reverse_digits.simps swap_bytes_def by simp
    moreover have "n - 1 - (a - buf) = i" "buf \<le> a" "a < buf + n" "n - Suc i \<le> a - buf" using i unfolding 2 by linarith+
    ultimately show ?thesis by simp
  next
    case 3
    then have "reverse_digits buf n (Suc i) m a = reverse_digits buf n i m a" by (simp add: swap_bytes_def)
    then show ?thesis unfolding IH using 3 i by auto
  qed
qed

lemma reverse_digits_ok:
  assumes "bytes_at m buf (rev xs)" and "n = length xs"
  shows "bytes_at (reverse_digits buf n (n div 2) m) buf xs"
    and "a < buf \<or> buf + n \<le> a \<Longrightarrow> reverse_digits buf n (n div 2) m a = m a"
proof -
  have "reverse_digits buf n (n div 2) m (buf + j) = xs ! j" if j: "j < n" for j
  proof -
    have r: "m (buf + k) = xs ! (n - 1 - k)" if "k < n" for k
      using assms that by (simp add: bytes_at_def rev_nth)
    show ?thesis
    proof (cases "j < n div 2 \<or> n - n div 2 \<le> j")
      case True
      then show ?thesis using j r [of "n - 1 - j"] reverse_digits_at [of "n div 2" n buf m "buf + j"] by simp
    next
      case False
      then have "n - 1 - j = j" using j div_mult_mod_eq [of n 2] mod_less_divisor [of 2 n] by linarith
      then have "m (buf + j) = xs ! j" using r [OF j] by (simp only:)
      moreover have "reverse_digits buf n (n div 2) m (buf + j) = m (buf + j)"
        using False reverse_digits_at [of "n div 2" n buf m "buf + j"] by simp
      ultimately show ?thesis by simp
    qed
  qed
  then show "bytes_at (reverse_digits buf n (n div 2) m) buf xs" using assms(2) by (simp add: bytes_at_def)
  show "a < buf \<or> buf + n \<le> a \<Longrightarrow> reverse_digits buf n (n div 2) m a = m a"
    using reverse_digits_at [of "n div 2" n buf m a] by auto
qed

lemma bytes_at_upd: "a + length xs \<le> b \<Longrightarrow> bytes_at (m(b := v)) a xs = bytes_at m a xs"
  by (auto simp: bytes_at_def)

lemma ultoa_ok:
  "cstring (cons_ultoa buf v m) buf (dec (unat v))"
  "a < buf \<or> buf + 11 \<le> a \<Longrightarrow> cons_ultoa buf v m a = m a"
proof -
  let ?n = "length (dec (unat v))"
  obtain m' where m': "ultoa_digits buf 0 v m = (?n, m')" "bytes_at m' buf (rev (dec (unat v)))"
    "\<forall>a. a < buf \<or> buf + ?n \<le> a \<longrightarrow> m' a = m a"
    using ultoa_digits_ok [of buf 0 v m] by auto
  note r = reverse_digits_ok [OF m'(2) refl]
  have e: "cons_ultoa buf v m = (reverse_digits buf ?n (?n div 2) m')(buf + ?n := 0)" by (simp add: cons_ultoa_def m'(1))
  show "cstring (cons_ultoa buf v m) buf (dec (unat v))"
    unfolding e cstring_def bytes_at_append using r(1) dec_nonzero by (simp add: bytes_at_upd)
  show "a < buf \<or> buf + 11 \<le> a \<Longrightarrow> cons_ultoa buf v m a = m a"
    unfolding e using r(2) [of a] m'(3) dec_length_u32 [of v] by auto
qed

text \<open>Signed numbers, with the most negative one.\<close>

definition dec_int :: "int \<Rightarrow> u8 list" where
  "dec_int i = (if i < 0 then 0x2D # dec (nat (- i)) else dec (nat i))"

lemma uint_mod_sint: "uint v = sint v mod 2 ^ 32" for v :: u32
  by (simp add: uint_sint take_bit_eq_mod)

lemma unat_sint_nonneg: "0 \<le> sint v \<Longrightarrow> unat v = nat (sint v)" for v :: u32
  using uint_mod_sint [of v] sint_lt [of v] by (simp add: unat_eq_nat_uint)

lemma unat_minus_sint:
  fixes v :: u32
  assumes "sint v < 0"
  shows "unat (- v) = nat (- sint v)"
proof -
  have "uint (- v) = (- sint v) mod 2 ^ 32"
    unfolding uint_word_ariths(4) using uint_mod_sint [of v] by (simp add: mod_minus_eq)
  also have "\<dots> = - sint v" using assms sint_ge [of v] by simp
  finally show ?thesis by (simp add: unat_eq_nat_uint)
qed

lemma ltoa_ok:
  "cstring (cons_ltoa buf v m) buf (dec_int (sint v))"
  "a < buf \<or> buf + 12 \<le> a \<Longrightarrow> cons_ltoa buf v m a = m a"
proof -
  show "cstring (cons_ltoa buf v m) buf (dec_int (sint v))"
  proof (cases "sint v < 0")
    case True
    have "cons_ultoa (buf + 1) (- v) (m(buf := 0x2D)) buf = 0x2D" using ultoa_ok(2) [of buf "buf + 1" "- v"] by simp
    then show ?thesis using True ultoa_ok(1) [of "buf + 1" "- v"] unat_minus_sint [OF True]
      by (simp add: cons_ltoa_def dec_int_def)
  next
    case False
    then have "unat v = nat (sint v)" by (simp add: unat_sint_nonneg)
    with False show ?thesis using ultoa_ok(1) [of buf v m] by (simp add: cons_ltoa_def dec_int_def)
  qed
  show "a < buf \<or> buf + 12 \<le> a \<Longrightarrow> cons_ltoa buf v m a = m a"
    using ultoa_ok(2) [of a "buf + 1" "- v"] ultoa_ok(2) [of a buf v] by (auto simp: cons_ltoa_def)
qed

text \<open>Hexadecimal digits, always 8.\<close>

fun hexes :: "nat \<Rightarrow> u32 \<Rightarrow> u8 list" where
  "hexes 0 v = []"
| "hexes (Suc n) v = hex_digits ! unat (drop_bit (4 * n) v AND 0xF) # hexes n v"

lemma hex_digits_nonzero: "list_all (\<lambda>i. hex_digits ! i \<noteq> 0) [0..<16]"
  by code_simp

lemma hex_digit_nonzero: "hex_digits ! unat (w AND 0xF) \<noteq> 0" for w :: u32
proof -
  have "w AND 0xF = take_bit 4 w" by (simp add: take_bit_eq_mask mask_eq_exp_minus_1)
  then have "unat (w AND 0xF) = take_bit 4 (unat w)" by (simp add: unsigned_take_bit_eq)
  then have "unat (w AND 0xF) < 16" using take_bit_nat_less_exp [of 4 "unat w"] by simp
  then have "unat (w AND 0xF) \<in> set [0..<16]" unfolding set_upt atLeastLessThan_iff by simp
  then show ?thesis using hex_digits_nonzero unfolding list_all_iff by (rule bspec [rotated])
qed

lemma length_hexes [simp]: "length (hexes n v) = n"
  by (induction n) simp_all

lemma ltox_loop_ok:
  "cstring (ltox_loop buf n v m) buf (hexes n v)
   \<and> (\<forall>a. a < buf \<or> buf + n < a \<longrightarrow> ltox_loop buf n v m a = m a)"
proof (induction n arbitrary: buf m)
  case (Suc n)
  let ?m = "m(buf := hex_digits ! unat (drop_bit (4 * n) v AND 0xF))"
  have i: "cstring (ltox_loop (buf + 1) n v ?m) (buf + 1) (hexes n v)"
    "\<forall>a. a < buf + 1 \<or> buf + 1 + n < a \<longrightarrow> ltox_loop (buf + 1) n v ?m a = ?m a" using Suc by blast+
  then have "ltox_loop (buf + 1) n v ?m buf = ?m buf" by simp
  with i show ?case by (simp add: hex_digit_nonzero)
qed simp

section \<open>Formatted text\<close>

datatype farg = Num u32 | Str "u8 list"

fun item_text :: "u8 \<Rightarrow> farg list \<Rightarrow> (u8 list \<times> farg list) option" where
  "item_text d (Num v # as) =
     (if d = 0x64 then Some (dec_int (sint v), as)
      else if d = 0x75 then Some (dec (unat v), as)
      else if d = 0x78 \<or> d = 0x70 then Some (hexes 8 v, as)
      else if d = 0x63 then Some ([ucast v], as)
      else if d = 0x73 then None
      else Some ([d], Num v # as))"
| "item_text d (Str xs # as) =
     (if d \<in> {0x64, 0x75, 0x78, 0x70, 0x63} then None else if d = 0x73 then Some (xs, as) else Some ([d], Str xs # as))"
| "item_text d [] = (if d \<in> {0x64, 0x75, 0x78, 0x70, 0x63, 0x73} then None else Some ([d], []))"

text \<open>The \<open>l\<close> of \<open>%ld\<close> is skipped; a format that ends after the percent sign prints nothing there.\<close>

fun skip_l :: "u8 list \<Rightarrow> u8 list" where
  "skip_l (d # xs) = (if d = 0x6C then xs else d # xs)"
| "skip_l [] = []"

lemma skip_l_length: "skip_l xs = d # ys \<Longrightarrow> length ys < length xs"
  by (cases xs) (auto split: if_splits)

function format_text :: "u8 list \<Rightarrow> farg list \<Rightarrow> u8 list option" where
  "format_text [] as = Some []"
| "format_text (c # xs) as =
     (if c \<noteq> 0x25 then map_option (Cons c) (format_text xs as)
      else case skip_l xs of
        [] \<Rightarrow> Some []
      | d # ys \<Rightarrow> do { (t, as) \<leftarrow> item_text d as; t' \<leftarrow> format_text ys as; Some (t @ t') })"
  by pat_completeness auto
termination by (relation "measure (length \<circ> fst)") (auto dest: skip_l_length)

text \<open>A string in memory that the screen and the buffer do not overlap, and how an argument is passed.\<close>

definition apart :: "nat \<Rightarrow> nat \<Rightarrow> bool" where
  "apart buf a \<longleftrightarrow> off_screen a \<and> (a < buf \<or> buf + MAXDIGITS + 2 \<le> a)"

definition safe_str :: "nat \<Rightarrow> byte_mem \<Rightarrow> nat \<Rightarrow> u8 list \<Rightarrow> bool" where
  "safe_str buf m p xs \<longleftrightarrow> cstring m p xs \<and> (\<forall>i \<le> length xs. apart buf (p + i))"

definition safe_buf :: "nat \<Rightarrow> bool" where
  "safe_buf buf \<longleftrightarrow> (\<forall>i < MAXDIGITS + 2. off_screen (buf + i))"

fun arg_word :: "nat \<Rightarrow> byte_mem \<Rightarrow> farg \<Rightarrow> u32 \<Rightarrow> bool" where
  "arg_word buf m (Num v) w \<longleftrightarrow> w = v"
| "arg_word buf m (Str xs) w \<longleftrightarrow> safe_str buf m (unat w) xs"

text \<open>A console in working order whose memory is \<open>m\<close>, the screen and the buffer excepted; and the
  state after a text has been printed.\<close>

definition printing :: "byte_mem \<Rightarrow> nat \<Rightarrow> console \<Rightarrow> bool" where
  "printing m buf c \<longleftrightarrow> s_console c \<and> cons_ok c \<and> (\<forall>a. apart buf a \<longrightarrow> cmem c a = m a)"

definition prints :: "byte_mem \<Rightarrow> nat \<Rightarrow> console \<Rightarrow> u8 list \<Rightarrow> console \<Rightarrow> bool" where
  "prints m buf c t c' \<longleftrightarrow> printing m buf c' \<and> (\<exists>c1. put_all t c = Some c1 \<and> c' = with_mem (cmem c') c1)"

lemma prints_Nil: "printing m buf c \<Longrightarrow> prints m buf c [] c"
  by (simp add: prints_def)

lemma prints_trans:
  assumes "printing m buf c" and "prints m buf c t c'" and "prints m buf c' t' c''"
  shows "prints m buf c (t @ t') c''"
proof -
  obtain c1 where c1: "put_all t c = Some c1" "c' = with_mem (cmem c') c1" using assms(2) by (auto simp: prints_def)
  have "cons_ok c'" using assms(2) by (simp add: prints_def printing_def)
  then have "cons_ok c1" by (subst (asm) c1(2)) simp
  then have "local_op (put_all t') c1" by (rule put_all_local)
  then obtain c2 where c2: "put_all t' c1 = Some c2" "\<forall>m. put_all t' (with_mem m c1) = Some (with_mem m c2)" by (rule local_opD)
  have "put_all t' c' = Some (with_mem (cmem c') c2)" by (subst (1) c1(2)) (simp add: c2(2))
  then have "c'' = with_mem (cmem c'') (with_mem (cmem c') c2)" using assms(3) by (auto simp: prints_def)
  moreover have "put_all (t @ t') c = Some c2" using c1(1) c2(1) by (simp add: put_all_append)
  ultimately show ?thesis using assms(3) by (auto simp: prints_def)
qed

lemma cons_atomic_eq: "s_console c \<Longrightarrow> \<not> int_flag k \<Longrightarrow> cons_atomic op (k, c) = map_option (\<lambda>(x, c). (x, k, c)) (op c)"
  by (cases "op c") (auto simp: cons_atomic_def)

lemma putchar_byte:
  assumes "-128 \<le> ch" and "ch < 256"
  shows "x86cons_putchar ch = x86cons_putchar (sint (word_of_int ch :: u8))"
proof -
  have s: "sint (word_of_int ch :: u8) = (if ch < 128 then ch else ch - 256)"
  proof (cases "ch < 128")
    case True
    then show ?thesis using assms(1) by (simp add: signed_of_int signed_take_bit_int_eq_self)
  next
    case False
    have e: "(word_of_int ch :: u8) = word_of_int (ch - 256)" by (simp add: word_of_int_eq_iff take_bit_eq_mod)
    have "sint (word_of_int (ch - 256) :: u8) = ch - 256"
      using False assms(2) by (simp only: signed_of_int) (simp add: signed_take_bit_int_eq_self)
    with False show ?thesis unfolding e by simp
  qed
  moreover have "x86cons_putgraphic ch = x86cons_putgraphic (sint (word_of_int ch :: u8))"
    by (rule ext) (simp add: x86cons_putgraphic_def)
  ultimately show ?thesis using assms by (auto simp: x86cons_putchar_def fun_eq_iff)
qed

lemma prints_char:
  assumes "printing m buf c" and "\<not> int_flag k" and "x86cons_putchar ch = x86cons_putchar (sint x)"
  shows "\<exists>c'. cons_putchar ch (k, c) = Some ((), k, c') \<and> prints m buf c [x] c'"
proof -
  have ok: "cons_ok c" "s_console c" using assms(1) by (simp_all add: printing_def)
  have l: "local_op (x86cons_putchar (sint x)) c" by (rule putchar_local [OF ok(1)])
  then obtain c1 where c1: "x86cons_putchar (sint x) c = Some c1" "cons_ok c1" "s_console c1 = s_console c" by (rule local_opD)
  have e: "with_mem (cmem c) c1 = c1" by (rule local_op_mem [OF l c1(1)])
  have "printing m buf c1"
  proof -
    have "cmem (with_mem (cmem c) c1) a = m a" if "apart buf a" for a
      using that assms(1) by (simp add: merge_at printing_def apart_def)
    then show ?thesis unfolding e using c1(2,3) ok by (simp add: printing_def)
  qed
  moreover have "c1 = with_mem (cmem c1) c1" by simp
  ultimately show ?thesis using c1(1) assms(2,3) ok(2)
    by (intro exI [of _ c1]) (simp add: cons_putchar_def cons_atomic_eq no_result_def prints_def)
qed

text \<open>A string that lies in the buffer or elsewhere is written; the buffer may have been filled before.\<close>

lemma prints_string:
  assumes p: "printing m buf c" and "\<not> int_flag k" and X: "\<forall>a. apart buf a \<longrightarrow> X a = cmem c a"
    and s: "cstring X str xs" and off: "\<forall>i \<le> length xs. off_screen (str + i)"
  shows "\<exists>c'. cons_write str (k, with_mem X c) = Some ((), k, c') \<and> prints m buf c xs c'"
proof -
  have ok: "cons_ok c" "s_console c" using p by (simp_all add: printing_def)
  have "cstring (cmem (with_mem X c)) str xs"
    using s off by (auto simp: cstring_def bytes_at_def merge_at less_Suc_eq_le)
  then have w: "x86cons_write str (with_mem X c) = put_all xs (with_mem X c)" using ok off by (intro write_cstring) simp_all
  obtain c1 where c1: "put_all xs c = Some c1" "cons_ok c1" "s_console c1 = s_console c" "\<forall>m. put_all xs (with_mem m c) = Some (with_mem m c1)"
    using put_all_local [OF ok(1)] by (rule local_opD)
  have "printing m buf (with_mem X c1)"
    using p X c1(2,3) ok by (auto simp: printing_def merge_at apart_def)
  then have "prints m buf c xs (with_mem X c1)" using c1(1) by (auto simp: prints_def)
  then show ?thesis using w c1(4) assms(2) ok(2) by (intro exI [of _ "with_mem X c1"]) (simp add: cons_write_def cons_atomic_eq no_result_def)
qed

lemma printing_mem: "printing m buf c \<Longrightarrow> apart buf a \<Longrightarrow> cmem c a = m a"
  by (simp add: printing_def)

text \<open>One conversion.\<close>

lemma prints_buffer:
  assumes "printing m buf c" and "\<not> int_flag k" and "safe_buf buf"
    and "cstring (f (cmem c)) buf xs" and "length xs \<le> 12"
    and "\<forall>a. a < buf \<or> buf + 12 \<le> a \<longrightarrow> f (cmem c) a = cmem c a"
  shows "\<exists>c'. cons_write buf (k, c\<lparr>cmem := f (cmem c)\<rparr>) = Some ((), k, c') \<and> prints m buf c xs c'"
proof -
  have "c\<lparr>cmem := f (cmem c)\<rparr> = with_mem (f (cmem c)) c"
  proof -
    have "merge (f (cmem c)) (cmem c) = f (cmem c)"
    proof
      fix a
      show "merge (f (cmem c)) (cmem c) a = f (cmem c) a"
      proof (cases "a < buf \<or> buf + 12 \<le> a")
        case True
        with assms(6) show ?thesis by (auto simp: merge_at)
      next
        case False
        then have "buf + (a - buf) = a" "a - buf < 41" by linarith+
        with assms(3) have "off_screen a" unfolding safe_buf_def MAXDIGITS_def by (metis numeral_plus_numeral add_numeral_left semiring_norm(2,4,5,6,7,8,9,10))
        then show ?thesis by (simp add: merge_at)
      qed
    qed
    then show ?thesis by (simp add: with_mem_def)
  qed
  moreover have "\<forall>a. apart buf a \<longrightarrow> f (cmem c) a = cmem c a" using assms(6) by (auto simp: apart_def MAXDIGITS_def)
  moreover have "\<forall>i \<le> length xs. off_screen (buf + i)" using assms(3,5) by (auto simp: safe_buf_def MAXDIGITS_def)
  ultimately show ?thesis using prints_string [OF assms(1,2) _ assms(4)] by simp
qed

lemma dec_int_length: "length (dec_int (sint v)) \<le> 11" for v :: u32
proof (cases "sint v < 0")
  case True
  then show ?thesis using dec_length_u32 [of "- v"] unat_minus_sint [OF True] by (simp add: dec_int_def)
next
  case False
  then show ?thesis using dec_length_u32 [of v] unat_sint_nonneg [of v] by (simp add: dec_int_def)
qed

lemma printf_item_ok:
  assumes p: "printing m buf c" and i: "\<not> int_flag k" and b: "safe_buf buf"
    and a: "list_all2 (arg_word buf m) as ws" and t: "item_text d as = Some (t, as')"
  shows "\<exists>ws' c'. printf_item buf d ws (k, c) = Some (ws', k, c') \<and> list_all2 (arg_word buf m) as' ws' \<and> prints m buf c t c'"
proof -
  have num: ?thesis if num: "as = Num v # as'" "t = xs" and f: "cstring (f (cmem c)) buf xs" "length xs \<le> 12"
      "\<forall>a. a < buf \<or> buf + 12 \<le> a \<longrightarrow> f (cmem c) a = cmem c a"
    and run: "\<And>ws. printf_item buf d (v # ws) (k, c)
      = do { (_, s) \<leftarrow> cons_write buf (k, c\<lparr>cmem := f (cmem c)\<rparr>); Some (ws, s) }" for v xs f
  proof -
    obtain ws' where ws: "ws = v # ws'" "list_all2 (arg_word buf m) as' ws'" using a num(1) by (auto simp: list_all2_Cons1)
    obtain c' where "cons_write buf (k, c\<lparr>cmem := f (cmem c)\<rparr>) = Some ((), k, c')" "prints m buf c xs c'"
      using prints_buffer [where f = f, OF p i b f] by blast
    then show ?thesis using ws num(2) run [of ws'] by simp
  qed
  have chr: "\<exists>c'. cons_putchar ch (k, c) = Some ((), k, c') \<and> prints m buf c [word_of_int ch] c'"
    if "-128 \<le> ch" "ch < 256" for ch
    by (rule prints_char [OF p i putchar_byte [OF that]])
  consider (d) "d = 0x64" | (u) "d = 0x75" | (x) "d = 0x78 \<or> d = 0x70" | (c) "d = 0x63" | (s) "d = 0x73"
    | (plain) "d \<notin> {0x64, 0x75, 0x78, 0x70, 0x63, 0x73}" by blast
  then show ?thesis
  proof cases
    case d
    then obtain v where v: "as = Num v # as'" "t = dec_int (sint v)" using t by (cases "(d, as)" rule: item_text.cases) auto
    show ?thesis
      by (rule num [of v "dec_int (sint v)" "cons_ltoa buf v"]) (use v d ltoa_ok [where buf = buf and v = v] dec_int_length [of v] in \<open>simp_all add: printf_item_def va_arg_def on_mem_def\<close>)
  next
    case u
    then obtain v where v: "as = Num v # as'" "t = dec (unat v)" using t by (cases "(d, as)" rule: item_text.cases) auto
    show ?thesis
      by (rule num [of v "dec (unat v)" "cons_ultoa buf v"]) (use v u ultoa_ok [where buf = buf and v = v] dec_length_u32 [of v] in \<open>simp_all add: printf_item_def va_arg_def on_mem_def\<close>)
  next
    case x
    then obtain v where v: "as = Num v # as'" "t = hexes 8 v" using t by (cases "(d, as)" rule: item_text.cases) auto
    show ?thesis
      by (rule num [of v "hexes 8 v" "cons_ltox buf v"]) (use v x ltox_loop_ok [of buf 8 v "cmem c"] in \<open>auto simp: printf_item_def va_arg_def on_mem_def cons_ltox_def\<close>)
  next
    case c
    then obtain v where v: "as = Num v # as'" "t = [ucast v]" using t by (cases "(d, as)" rule: item_text.cases) auto
    then obtain ws' where ws: "ws = v # ws'" "list_all2 (arg_word buf m) as' ws'" using a by (auto simp: list_all2_Cons1)
    have e: "v AND 0xFF = take_bit 8 v" by (simp add: take_bit_eq_mask mask_eq_exp_minus_1)
    have s: "sint (v AND 0xFF) = uint v mod 256"
    proof -
      have u: "uint (v AND 0xFF) = uint v mod 256" unfolding e unsigned_take_bit_eq by (simp add: take_bit_eq_mod)
      have "0 \<le> uint v mod 256" "uint v mod 256 < 256" by simp_all
      then have "signed_take_bit 31 (uint v mod 256) = uint v mod 256" by (intro signed_take_bit_int_eq_self) simp_all
      then show ?thesis by (simp add: sint_uint u)
    qed
    have w: "(word_of_int (uint v mod 256) :: u8) = ucast v"
      by (simp add: unsigned_ucast_eq word_eq_iff_unsigned [where 'a = int] unsigned_of_int take_bit_eq_mod)
    obtain c' where "cons_putchar (sint (v AND 0xFF)) (k, c) = Some ((), k, c')" "prints m buf c [ucast v] c'"
      using chr [of "uint v mod 256"] pos_mod_sign [of 256 "uint v"] pos_mod_bound [of 256 "uint v"] unfolding s w by fastforce
    then show ?thesis using ws v(2) c by (simp add: printf_item_def va_arg_def)
  next
    case s
    then obtain v where v: "as = Str v # as'" "t = v" using t by (cases "(d, as)" rule: item_text.cases) auto
    then obtain w ws' where ws: "ws = w # ws'" "list_all2 (arg_word buf m) as' ws'" "safe_str buf m (unat w) v" using a by (auto simp: list_all2_Cons1)
    have o: "\<forall>i \<le> length v. apart buf (unat w + i)" and cs: "cstring m (unat w) v" using ws(3) by (simp_all add: safe_str_def)
    have "cstring (cmem c) (unat w) v" using cs o printing_mem [OF p] by (auto simp: cstring_def bytes_at_def less_Suc_eq_le)
    moreover have "\<forall>i \<le> length v. off_screen (unat w + i)" using o by (simp add: apart_def)
    ultimately obtain c' where "cons_write (unat w) (k, with_mem (cmem c) c) = Some ((), k, c')" "prints m buf c v c'"
      using prints_string [OF p i, of "cmem c" "unat w" v] by blast
    then show ?thesis using ws v(2) s by (simp add: printf_item_def va_arg_def)
  next
    case plain
    then have v: "as' = as" "t = [d]" using t by (cases "(d, as)" rule: item_text.cases; auto)+
    obtain c' where "cons_putchar (sint d) (k, c) = Some ((), k, c')" "prints m buf c [d] c'"
      using prints_char [OF p i refl, of d] by blast
    then show ?thesis using a v plain by (simp add: printf_item_def)
  qed
qed

lemma put_char_text: "prints m buf c [x] c' \<Longrightarrow> prints m buf c' t c'' \<Longrightarrow> printing m buf c \<Longrightarrow> prints m buf c (x # t) c''"
  using prints_trans [of m buf c "[x]" c' t c''] by simp

lemma safe_str_Cons: "safe_str buf m p (x # xs) \<longleftrightarrow> m p = x \<and> x \<noteq> 0 \<and> apart buf p \<and> safe_str buf m (p + 1) xs"
proof -
  have "(\<forall>i \<le> Suc n. apart buf (p + i)) \<longleftrightarrow> apart buf p \<and> (\<forall>i \<le> n. apart buf (p + 1 + i))" for n
    by (metis (no_types) Suc_le_mono add.right_neutral add_Suc_right not0_implies_Suc plus_1_eq_Suc add.assoc zero_le)
  then show ?thesis by (auto simp: safe_str_def)
qed

lemma safe_str_Nil: "safe_str buf m p [] \<longleftrightarrow> m p = 0 \<and> apart buf p"
  by (simp add: safe_str_def)

lemma printf_loop_ok:
  assumes "printing m buf c" and "\<not> int_flag k" and "safe_buf buf"
    and "list_all2 (arg_word buf m) as ws" and "safe_str buf m p fmt" and "format_text fmt as = Some t"
  shows "\<exists>c'. printf_loop buf p ws (k, c) = Some (k, c') \<and> prints m buf c t c'"
  using assms
proof (induction fmt as arbitrary: c p ws t rule: format_text.induct)
  case (1 as)
  then have "cmem c p = 0" using printing_mem [OF 1(1)] by (simp add: safe_str_Nil)
  moreover have "t = []" using 1 by simp
  ultimately show ?case using prints_Nil [OF 1(1)] by (subst printf_loop.simps) (simp add: Let_def)
next
  case (2 x xs as)
  note p = 2(3)
  have at: "cmem c p = x" "x \<noteq> 0" "safe_str buf m (p + 1) xs" using 2(7) printing_mem [OF p] by (auto simp: safe_str_Cons)
  show ?case
  proof (cases "x = 0x25")
    case False
    then obtain t' where t': "format_text xs as = Some t'" "t = x # t'" using 2(8) by auto
    obtain c1 where c1: "cons_putchar (sint x) (k, c) = Some ((), k, c1)" "prints m buf c [x] c1"
      using prints_char [OF p 2(4) refl, of x] by blast
    have "printing m buf c1" using c1(2) by (simp add: prints_def)
    from 2(1) [OF False this 2(4,5,6) at(3) t'(1)]
    obtain c' where c': "printf_loop buf (p + 1) ws (k, c1) = Some (k, c')" "prints m buf c1 t' c'" by blast
    have "prints m buf c t c'" unfolding t'(2) by (rule put_char_text [OF c1(2) c'(2) p])
    then show ?thesis using False at c1(1) c'(1) by (subst printf_loop.simps) (simp add: Let_def)
  next
    case True
    show ?thesis
    proof (cases "skip_l xs")
      case Nil
      then have "xs = [] \<or> xs = [0x6C]" by (cases xs) (auto split: if_splits)
      then have "cmem c (p + 1) = 0 \<or> cmem c (p + 1) = 0x6C \<and> cmem c (p + 2) = 0"
        using at(3) printing_mem [OF p] by (auto simp: safe_str_Cons safe_str_Nil)
      moreover have "t = []" using 2(8) True Nil by simp
      ultimately show ?thesis using prints_Nil [OF p] at True by (subst printf_loop.simps) (auto simp: Let_def)
    next
      case (Cons d ys)
      obtain t1 as1 t2 where t: "item_text d as = Some (t1, as1)" "format_text ys as1 = Some t2" "t = t1 @ t2"
        using 2(8) True Cons by (auto simp: bind_eq_Some_conv)
      obtain ws1 c1 where c1: "printf_item buf d ws (k, c) = Some (ws1, k, c1)" "list_all2 (arg_word buf m) as1 ws1" "prints m buf c t1 c1"
        using printf_item_ok [OF p 2(4,5,6) t(1)] by blast
      have p1: "printing m buf c1" using c1(3) by (simp add: prints_def)
      have "xs = d # ys \<and> d \<noteq> 0x6C \<or> xs = 0x6C # d # ys" using Cons by (cases xs) (auto split: if_splits)
      then have "\<exists>q. q = (if cmem c (p + 1) = 0x6C then p + 2 else p + 1) \<and> cmem c (p + 1) \<noteq> 0
          \<and> \<not> (cmem c (p + 1) = 0x6C \<and> cmem c (p + 2) = 0) \<and> cmem c q = d \<and> safe_str buf m (q + 1) ys"
        using at(3) printing_mem [OF p] by (auto simp: safe_str_Cons)
      then obtain q where q: "q = (if cmem c (p + 1) = 0x6C then p + 2 else p + 1)" "cmem c (p + 1) \<noteq> 0"
        "\<not> (cmem c (p + 1) = 0x6C \<and> cmem c (p + 2) = 0)" "cmem c q = d" "safe_str buf m (q + 1) ys" by blast
      from 2(2) [OF _ Cons t(1) refl p1 2(4,5) c1(2) q(5) t(2)] True
      obtain c' where c': "printf_loop buf (q + 1) ws1 (k, c1) = Some (k, c')" "prints m buf c1 t2 c'" by auto
      have "prints m buf c t c'" unfolding t(3) by (rule prints_trans [OF p c1(3) c'(2)])
      moreover have "printf_loop buf p ws (k, c) = Some (k, c')"
        using True at q c1(1) c'(1) by (subst printf_loop.simps) (auto simp: Let_def split: if_splits)
      ultimately show ?thesis by blast
    qed
  qed
qed

text \<open>With interrupts on or off: they are off during the operation and back as they were at the end.\<close>

lemma cons_atomic_run:
  assumes "s_console c" and "op c = Some (x, c')"
  shows "cons_atomic op (k, c) = Some (x, k, c')"
proof -
  have "k\<lparr>int_flag := int_flag k\<rparr> = k" by (cases k) simp
  with assms show ?thesis by (simp add: cons_atomic_def halt_simps)
qed

section \<open>The cursor\<close>

definition cursor_shown :: "console \<Rightarrow> bool" where
  "cursor_shown c \<longleftrightarrow> uint (crt_regs c VGA_CRT_CURSOR_LOC_HIGH_REG) * 256 + uint (crt_regs c VGA_CRT_CURSOR_LOC_LOW_REG)
     = c_y c * VGA_NUMCOLS + c_x c"

lemma low_byte: "uint (ucast (x AND 0xFF) :: u8) = uint x mod 256" for x :: u32
proof -
  have e: "x AND 0xFF = take_bit 8 x" by (simp add: take_bit_eq_mask mask_eq_exp_minus_1)
  show ?thesis by (simp only: e unsigned_ucast_eq unsigned_take_bit_eq) (simp add: take_bit_eq_mod)
qed

lemma updatecurs_shown:
  assumes "cons_ok c"
  shows "cursor_shown (x86cons_updatecurs c)" and "crt_index (x86cons_updatecurs c) = crt_index c"
proof -
  define n where "n = c_y c * VGA_NUMCOLS + c_x c"
  have n: "0 \<le> n" "n < 2000" using assms by (auto simp: n_def cons_ok_def cons_defs)
  define w where "w = (word_of_int n :: u32)"
  have u: "uint w = n" unfolding w_def uint_word_of_int using n by (simp add: take_bit_int_eq_self)
  have "uint (ucast (drop_bit 8 w AND 0xFF) :: u8) = n div 256"
  proof -
    have "uint (drop_bit 8 w) = n div 256" by (simp only: unsigned_drop_bit_eq u) (use n in \<open>simp add: drop_bit_eq_div take_bit_int_eq_self\<close>)
    then show ?thesis using n by (simp only: low_byte) simp
  qed
  moreover have "uint (ucast (w AND 0xFF) :: u8) = n mod 256" unfolding low_byte u ..
  moreover have "n div 256 * 256 + n mod 256 = n" by simp
  ultimately show "cursor_shown (x86cons_updatecurs c)"
    by (simp add: cursor_shown_def x86cons_updatecurs_def cons_outb_def VGA_CRT_ADDR_REG_def VGA_CRT_DATA_REG_def
        VGA_CRT_CURSOR_LOC_HIGH_REG_def VGA_CRT_CURSOR_LOC_LOW_REG_def Let_def flip: n_def w_def)
  show "crt_index (x86cons_updatecurs c) = crt_index c"
    by (simp add: x86cons_updatecurs_def cons_outb_def VGA_CRT_ADDR_REG_def VGA_CRT_DATA_REG_def Let_def)
qed

lemma outb_other [simp]:
  "crt_index (cons_outb DEBUG_PORT v c) = crt_index c"
  by (simp add: cons_outb_def VGA_CRT_ADDR_REG_def VGA_CRT_DATA_REG_def DEBUG_PORT_def)

lemma clear_area_index: "x86cons_clear_area x y N c = Some c' \<Longrightarrow> crt_index c' = crt_index c"
  by (auto simp: x86cons_clear_area_def Let_def kassert_def split: if_splits)

lemma newline_index: "x86cons_newline c = Some c' \<Longrightarrow> crt_index c' = crt_index c"
  by (auto simp: x86cons_newline_def x86cons_scroll_def Let_def bind_eq_Some_conv dest!: clear_area_index split: if_splits)

lemma putgraphic_index: "x86cons_putgraphic ch c = Some c' \<Longrightarrow> crt_index c' = crt_index c"
  by (auto simp: x86cons_putgraphic_def Let_def dest!: newline_index split: if_splits)

lemma put_spaces_index: "put_spaces n c = Some c' \<Longrightarrow> crt_index c' = crt_index c"
  by (induction n arbitrary: c) (auto simp: bind_eq_Some_conv dest!: putgraphic_index)

lemma putchar_index:
  assumes "cons_ok c" and "x86cons_putchar ch c = Some c'"
  shows "crt_index c' = crt_index c" and "cursor_shown c'"
proof -
  obtain c1 where c1: "(if ch = 9 then put_spaces (nat (8 - c_x c mod CONS_TABSIZE)) c
      else if ch = 10 then do { c \<leftarrow> x86cons_cleartoeol c; x86cons_newline c } else x86cons_putgraphic ch c) = Some c1"
    "c' = x86cons_updatecurs c1"
    using assms(2) by (auto simp: x86cons_putchar_def bind_eq_Some_conv simp del: put_spaces.simps)
  have "crt_index c1 = crt_index c"
    using c1(1) by (auto simp: x86cons_cleartoeol_def Let_def bind_eq_Some_conv
        dest!: newline_index clear_area_index putgraphic_index put_spaces_index split: if_splits)
  moreover obtain c2 where "x86cons_putchar ch c = Some c2" "cons_ok c2" using putchar_local [OF assms(1)] by (rule local_opD)
  then have "cons_ok c'" using assms(2) by simp
  then have "cons_ok c1" by (simp add: c1(2))
  ultimately show "crt_index c' = crt_index c" "cursor_shown c'" using updatecurs_shown c1(2) by simp_all
qed

text \<open>A whole string.\<close>

lemma put_all_index: "cons_ok c \<Longrightarrow> put_all xs c = Some c' \<Longrightarrow> crt_index c' = crt_index c \<and> (xs \<noteq> [] \<longrightarrow> cursor_shown c')"
proof (induction xs arbitrary: c)
  case (Cons x xs)
  obtain c1 where c1: "x86cons_putchar (sint x) c = Some c1" "put_all xs c1 = Some c'" using Cons.prems(2) by (auto simp: bind_eq_Some_conv)
  have "cons_ok c1" using putchar_local [OF Cons.prems(1), of "sint x"] c1(1) by (auto elim: local_opD)
  with Cons.IH c1(2) putchar_index [OF Cons.prems(1) c1(1)] show ?case by (cases "xs = []") auto
qed simp

section \<open>Scrolling\<close>

lemma move_rows_at:
  "1 \<le> j \<Longrightarrow> move_rows_up n j m a
     = (if nat (ROW_ADDR (j - 1)) \<le> a \<and> a < nat (ROW_ADDR (j - 1)) + 160 * n then m (a + 160) else m a)"
proof (induction n arbitrary: j m)
  case (Suc n)
  have a: "nat (ROW_ADDR j) = nat (ROW_ADDR (j - 1)) + 160" using Suc.prems by (simp add: cons_defs nat_add_distrib)
  have c: "memcpy (nat (ROW_ADDR (j - 1))) (nat (ROW_ADDR j)) (nat VGA_BYTES_PER_ROW) m b
      = (if nat (ROW_ADDR (j - 1)) \<le> b \<and> b < nat (ROW_ADDR (j - 1)) + 160 then m (b + 160) else m b)" for b
    unfolding a by (subst memcpy_at) (auto simp: VGA_BYTES_PER_ROW_def VGA_NUMCOLS_def add.commute)
  note c [unfolded a]
  then show ?case using Suc.IH [of "j + 1"] Suc.prems a by auto
qed auto

text \<open>After scrolling every row but the last shows what the next row showed, except for the 80 positions
  from 24 on, which are blank; the last row is unchanged.\<close>

lemma scroll_result:
  assumes "cons_ok c"
  shows "\<exists>c'. x86cons_scroll c = Some c' \<and>
    (\<forall>a. cmem c' a = (if VGA_VIDMEM + 48 \<le> int a \<and> int a < VGA_VIDMEM + 208 then if even a then 0x20 else c_attr c
       else if VGA_VIDMEM \<le> int a \<and> int a < ROW_ADDR 24 then cmem c (a + 160) else cmem c a))"
proof -
  have b: "(0 :: int) \<le> 24" "(0 :: int) \<le> 0" "(0 :: int) \<le> 80" "(0 :: int) * 80 + 24 + 80 \<le> 2000" by simp_all
  note s = clear_area_ok(1) [OF b]
  have n: "nat (80 :: int) = 80" by simp
  have ev: "even (a - 753712) = even a" if "753712 \<le> a" for a :: nat
    using that by simp
  have "clear_area_loop at 753712 (753712 + 2 * 80) (move_rows_up 24 1 m) a
      = (if 753712 \<le> a \<and> a < 753872 then if even a then 0x20 else at
         else if 753664 \<le> a \<and> a < 757504 then m (a + 160) else m a)" for at m a
    using ev [of a] by (subst clear_area_loop_at) (simp add: move_rows_at cons_defs)
  then show ?thesis
    by (simp add: x86cons_scroll_def VGA_NUMCOLS_def VGA_NUMROWS_def s n cons_defs)
qed

end
