(* ===== verification/Keyboard.thy ===== *)
theory Keyboard imports X86_Interrupts Thread_Life begin

text \<open>
  The keyboard: the interrupt handler that turns scan codes into key codes
  (\<open>src/x86/kernel/x86_keyb.c\<close>), the initialisation of the controller (\<open>src/x86/kernel/x86_ps2.c\<close>)
  and the functions that read keys (\<open>src/kernel/keyboard.c\<close>).  The bytes that the ports deliver are
  arguments; \<open>kb_printed\<close> are the calls of \<open>cons_printf\<close> with their arguments.  The keyboard's wait queue
  is the one that \<open>workqueue.c\<close> defines, \<open>WorkWaitQ\<close>.
\<close>

section \<open>Key codes\<close>

definition KEYB_IRQ :: int where "KEYB_IRQ = 1"
definition KB_KEY_RELEASE :: u8 where "KB_KEY_RELEASE = 0x80"
definition KEY_ESCAPE :: u8 where "KEY_ESCAPE = 0xE0"

definition KEY_KEYPAD_FLAG :: u16 where "KEY_KEYPAD_FLAG = 0x0200"
definition KEY_SPECIAL_FLAG :: u16 where "KEY_SPECIAL_FLAG = 0x0100"
definition KEY_SHIFT_FLAG :: u16 where "KEY_SHIFT_FLAG = 0x1000"
definition KEY_ALT_FLAG :: u16 where "KEY_ALT_FLAG = 0x2000"
definition KEY_CTRL_FLAG :: u16 where "KEY_CTRL_FLAG = 0x4000"
definition KEY_RELEASE_FLAG :: u16 where "KEY_RELEASE_FLAG = 0x8000"

definition SPECIAL :: "u16 \<Rightarrow> u16" where "SPECIAL num = KEY_SPECIAL_FLAG OR num"
definition KEYPAD_START :: u16 where "KEYPAD_START = 128"
definition KEYPAD :: "u16 \<Rightarrow> u16" where "KEYPAD num = KEY_KEYPAD_FLAG OR KEY_SPECIAL_FLAG OR (num + KEYPAD_START)"

definition KEY_UNKNOWN :: u16 where "KEY_UNKNOWN = SPECIAL 0"
definition KEY_F :: "u16 \<Rightarrow> u16" where "KEY_F n = SPECIAL n"
definition KEY_LCTRL :: u16 where "KEY_LCTRL = SPECIAL 13"
definition KEY_RCTRL :: u16 where "KEY_RCTRL = SPECIAL 14"
definition KEY_LSHIFT :: u16 where "KEY_LSHIFT = SPECIAL 15"
definition KEY_RSHIFT :: u16 where "KEY_RSHIFT = SPECIAL 16"
definition KEY_LALT :: u16 where "KEY_LALT = SPECIAL 17"
definition KEY_RALT :: u16 where "KEY_RALT = SPECIAL 18"
definition KEY_PRINTSCRN :: u16 where "KEY_PRINTSCRN = SPECIAL 19"
definition KEY_CAPSLOCK :: u16 where "KEY_CAPSLOCK = SPECIAL 20"
definition KEY_NUMLOCK :: u16 where "KEY_NUMLOCK = SPECIAL 21"
definition KEY_SCRLOCK :: u16 where "KEY_SCRLOCK = SPECIAL 22"
definition KEY_SYSREQ :: u16 where "KEY_SYSREQ = SPECIAL 23"
definition ASCII_ESC :: u16 where "ASCII_ESC = 0x1B"
definition ASCII_BS :: u16 where "ASCII_BS = 0x08"

definition LEFT_SHIFT :: u32 where "LEFT_SHIFT = 0x01"
definition RIGHT_SHIFT :: u32 where "RIGHT_SHIFT = 0x02"
definition LEFT_CTRL :: u32 where "LEFT_CTRL = 0x04"
definition RIGHT_CTRL :: u32 where "RIGHT_CTRL = 0x08"
definition LEFT_ALT :: u32 where "LEFT_ALT = 0x10"
definition RIGHT_ALT :: u32 where "RIGHT_ALT = 0x20"
definition SHIFT_MASK :: u32 where "SHIFT_MASK = LEFT_SHIFT OR RIGHT_SHIFT"
definition CTRL_MASK :: u32 where "CTRL_MASK = LEFT_CTRL OR RIGHT_CTRL"
definition ALT_MASK :: u32 where "ALT_MASK = LEFT_ALT OR RIGHT_ALT"

text \<open>A character of the tables.\<close>

definition key_char :: "char \<Rightarrow> u16" where "key_char x = of_nat (of_char x)"

text \<open>The rows of both tables that do not depend on the shift key: from \<open>KEY_PRINTSCRN\<close> on.\<close>

definition scan_table_common :: "u16 list" where
  "scan_table_common =
    [KEY_PRINTSCRN,
     KEY_LALT, key_char CHR '' '', KEY_CAPSLOCK, KEY_F 1,
     KEY_F 2, KEY_F 3, KEY_F 4, KEY_F 5,
     KEY_F 6, KEY_F 7, KEY_F 8, KEY_F 9,
     KEY_F 10, KEY_NUMLOCK, KEY_SCRLOCK, KEYPAD 0,
     KEYPAD 1, KEYPAD 2, KEYPAD 3, KEYPAD 4,
     KEYPAD 5, KEYPAD 6, KEYPAD 7, KEYPAD 8,
     KEYPAD 9, KEYPAD 10, KEYPAD 11, KEYPAD 12,
     KEY_SYSREQ, KEY_UNKNOWN, KEY_UNKNOWN, KEY_UNKNOWN,
     KEY_UNKNOWN, KEY_UNKNOWN, KEY_UNKNOWN]"

definition s_scan_table_no_shift :: "u16 list" where
  "s_scan_table_no_shift =
    [KEY_UNKNOWN, ASCII_ESC] @ map key_char ''1234567890-='' @ [ASCII_BS, 9] @ map key_char ''qwertyuiop[]''
    @ [13, KEY_LCTRL] @ map key_char ''asdfghjkl;'' @ [0x27, 0x60, KEY_LSHIFT, 0x5C] @ map key_char ''zxcvbnm,./'' @ [KEY_RSHIFT]
    @ scan_table_common"

definition s_scan_table_with_shift :: "u16 list" where
  "s_scan_table_with_shift =
    [KEY_UNKNOWN, ASCII_ESC] @ map key_char ''!@#$%^&*()_+'' @ [ASCII_BS, 9] @ map key_char ''QWERTYUIOP{}''
    @ [13, KEY_LCTRL] @ map key_char ''ASDFGHJKL:'' @ [0x22, 0x7E, KEY_LSHIFT, 0x7C] @ map key_char ''ZXCVBNM<>?'' @ [KEY_RSHIFT]
    @ scan_table_common"

definition SCAN_TABLE_SIZE :: nat where "SCAN_TABLE_SIZE = length s_scan_table_no_shift"

section \<open>The interrupt handler\<close>

definition PS2_COMMAND :: u16 where "PS2_COMMAND = 0x64"
definition PS2_OUTPUT_FULL :: u8 where "PS2_OUTPUT_FULL = 0x01"

record keyb =
  s_shiftstate :: u32
  kb_printed :: "(string \<times> u32 list) list"

definition cons_print :: "string \<Rightarrow> u32 list \<Rightarrow> keyb \<Rightarrow> keyb" where
  "cons_print fmt args b = b\<lparr>kb_printed := kb_printed b @ [(fmt, args)]\<rparr>"

definition ioport_delay :: "irq_state \<Rightarrow> irq_state" where
  "ioport_delay i = (let v = 0 in ioport_outb 0x80 v i)"

text \<open>The \<open>switch\<close>; \<open>None\<close> is \<open>noflagchange\<close>.\<close>

definition modifier_flag :: "u16 \<Rightarrow> u32 option" where
  "modifier_flag keycode =
     (if keycode = KEY_LSHIFT then Some LEFT_SHIFT
      else if keycode = KEY_RSHIFT then Some RIGHT_SHIFT
      else if keycode = KEY_LCTRL then Some LEFT_CTRL
      else if keycode = KEY_RCTRL then Some RIGHT_CTRL
      else if keycode = KEY_LALT then Some LEFT_ALT
      else if keycode = KEY_RALT then Some RIGHT_ALT
      else None)"

text \<open>The code with the flags.\<close>

definition format_keycode :: "bool \<Rightarrow> bool \<Rightarrow> u32 \<Rightarrow> u16 \<Rightarrow> u16" where
  "format_keycode shift release shiftstate keycode = (
     let keycode = (if shift then keycode OR KEY_SHIFT_FLAG else keycode);
         keycode = (if shiftstate AND CTRL_MASK \<noteq> 0 then keycode OR KEY_CTRL_FLAG else keycode);
         keycode = (if shiftstate AND ALT_MASK \<noteq> 0 then keycode OR KEY_ALT_FLAG else keycode);
         keycode = (if release then keycode OR KEY_RELEASE_FLAG else keycode)
     in keycode)"

definition key_event :: "bool \<Rightarrow> u8 \<Rightarrow> kernel \<times> keyb \<Rightarrow> (kernel \<times> keyb) option" where
  "key_event release scan_code = (\<lambda>(k, b).
     let shift = (s_shiftstate b AND SHIFT_MASK \<noteq> 0);
         keycode = (if shift then s_scan_table_with_shift else s_scan_table_no_shift) ! unat scan_code
     in case modifier_flag keycode of
          Some flag \<Rightarrow>
            Some (k, b\<lparr>s_shiftstate := (if release then s_shiftstate b AND NOT flag else s_shiftstate b OR flag)\<rparr>)
        | None \<Rightarrow> do {
            let keycode = format_keycode shift release (s_shiftstate b) keycode;
            let k = k\<lparr>keys := enqueue keycode (keys k)\<rparr>;
            k \<leftarrow> thread_wakeup WorkWaitQ k;
            Some (k\<lparr>g_need_reschedule := True\<rparr>, b)
          })"

definition keyboard_byte :: "u8 \<Rightarrow> kernel \<times> keyb \<Rightarrow> (kernel \<times> keyb) option" where
  "keyboard_byte scan_code = (\<lambda>(k, b).
     if scan_code = KEY_ESCAPE then Some (k, b)
     else
       let release = (scan_code AND KB_KEY_RELEASE \<noteq> 0);
           scan_code = (if release then scan_code AND NOT KB_KEY_RELEASE else scan_code)
       in if unat scan_code \<ge> SCAN_TABLE_SIZE then Some (k, cons_print ''Unknown scan code: %x\<newline>'' [ucast scan_code] b)
          else key_event release scan_code (k, b))"

text \<open>\<open>status\<close> and \<open>data\<close>: what the two reads of the ports return.\<close>

definition keyboard_int_handler ::
  "thread_context \<Rightarrow> u8 \<Rightarrow> u8 \<Rightarrow> kernel \<times> irq_state \<times> keyb \<Rightarrow> (kernel \<times> irq_state \<times> keyb) option" where
  "keyboard_int_handler context status data = (\<lambda>(k, i, b). do {
     let i = irq_begin context i;
     let i = ioport_delay i;
     (k, i, b) \<leftarrow> (if status AND PS2_OUTPUT_FULL \<noteq> 0
                  then do { (k, b) \<leftarrow> keyboard_byte data (k, b); Some (k, ioport_delay i, b) }
                  else Some (k, i, b));
     i \<leftarrow> irq_end context i;
     Some (k, i, b)
   })"

section \<open>Initialisation\<close>

definition PS2_DISABLE_FIRST_PORT :: u8 where "PS2_DISABLE_FIRST_PORT = 0xAD"
definition PS2_DISABLE_SECOND_PORT :: u8 where "PS2_DISABLE_SECOND_PORT = 0xA7"
definition PS2_ENABLE_FIRST_PORT :: u8 where "PS2_ENABLE_FIRST_PORT = 0xAE"
definition PS2_ENABLE_SECOND_PORT :: u8 where "PS2_ENABLE_SECOND_PORT = 0xA8"

text \<open>\<open>status n\<close> is what reading number \<open>n\<close> of the status port returns.  The result is the number of
  the next reading; \<open>None\<close> is a loop that does not end.\<close>

partial_function (option) ps2_flush :: "(nat \<Rightarrow> u8) \<Rightarrow> nat \<Rightarrow> nat option" where
  "ps2_flush status n = (if status n AND PS2_OUTPUT_FULL \<noteq> 0 then ps2_flush status (n + 1) else Some (n + 1))"

definition x86_ps2_init :: "(nat \<Rightarrow> u8) \<Rightarrow> irq_state \<Rightarrow> irq_state option" where
  "x86_ps2_init status i = do {
     let i = ioport_outb PS2_COMMAND PS2_DISABLE_FIRST_PORT i;
     let i = ioport_outb PS2_COMMAND PS2_DISABLE_SECOND_PORT i;
     _ \<leftarrow> ps2_flush status 0;
     let i = ioport_outb PS2_COMMAND PS2_ENABLE_FIRST_PORT i;
     Some (ioport_outb PS2_COMMAND PS2_ENABLE_SECOND_PORT i)
   }"

text \<open>\<open>handler\<close>: the address of \<open>keyboard_int_handler\<close>.\<close>

definition keyboard_init ::
  "nat \<Rightarrow> (nat \<Rightarrow> u8) \<Rightarrow> kernel \<times> int_state \<times> irq_state \<times> keyb \<Rightarrow> (kernel \<times> int_state \<times> irq_state \<times> keyb) option" where
  "keyboard_init handler status = (\<lambda>(k, t, i, b). do {
     k \<leftarrow> (if int_enabled k then int_disable k else Some k);
     let b = cons_print ''Initialize keyboard ............'' [] b;
     i \<leftarrow> x86_ps2_init status i;
     let b = b\<lparr>s_shiftstate := 0\<rparr>;
     let k = k\<lparr>keys := (keys k)\<lparr>s_queue_head := 0, s_queue_tail := 0\<rparr>\<rparr>;
     t \<leftarrow> irq_install_handler KEYB_IRQ handler t;
     (k, i) \<leftarrow> irq_enable KEYB_IRQ (k, i);
     k \<leftarrow> int_enable k;
     let k = k\<lparr>g_preemption := True\<rparr>;
     Some (k, t, i, cons_print ''.... [OK]\<newline>'' [] b)
   })"

section \<open>Reading keys\<close>

text \<open>The key code, or \<open>None\<close> when there is none and \<open>false\<close> is returned.\<close>

definition read_key :: "kernel \<Rightarrow> (u16 option \<times> kernel) option" where
  "read_key s = do {
     (iflag, s) \<leftarrow> int_begin_atomic s;
     (r, s) \<leftarrow> (if \<not> is_queue_empty (keys s) then do { (c, q) \<leftarrow> dequeue (keys s); Some (Some c, s\<lparr>keys := q\<rparr>) }
              else Some (None, s));
     s \<leftarrow> int_end_atomic iflag s;
     Some (r, s)
   }"

text \<open>One iteration of the loop: a key code, or the wait after which the loop goes on.\<close>

definition wait_for_key_loop :: "kernel \<Rightarrow> u16 may_wait" where
  "wait_for_key_loop s =
     (if \<not> is_queue_empty (keys s) then do { (c, q) \<leftarrow> dequeue (keys s); Some (Inr (c, s\<lparr>keys := q\<rparr>)) }
      else do { s \<leftarrow> thread_wait WorkWaitQ s; Some (Inl s) })"

definition wait_for_key_rest :: "bool \<Rightarrow> kernel \<Rightarrow> u16 may_wait" where
  "wait_for_key_rest iflag s =
     then_do (wait_for_key_loop s) (\<lambda>c s. do { s \<leftarrow> int_end_atomic iflag s; Some (Inr (c, s)) })"

definition wait_for_key :: "kernel \<Rightarrow> u16 may_wait" where
  "wait_for_key s = do { (iflag, s) \<leftarrow> int_begin_atomic s; wait_for_key_rest iflag s }"

section \<open>An ideal keyboard\<close>

text \<open>The modifier keys that are held down, and the code of another key that is pressed or released.\<close>

datatype modifier = LShift | RShift | LCtrl | LAlt

definition shift_word :: "modifier set \<Rightarrow> u32" where
  "shift_word H = (if LShift \<in> H then 1 else 0) OR (if RShift \<in> H then 2 else 0)
     OR (if LCtrl \<in> H then 4 else 0) OR (if LAlt \<in> H then 16 else 0)"

fun modifier_bit :: "modifier \<Rightarrow> u32" where
  "modifier_bit LShift = 1" | "modifier_bit RShift = 2" | "modifier_bit LCtrl = 4" | "modifier_bit LAlt = 16"

definition modifier_at :: "nat \<Rightarrow> modifier option" where
  "modifier_at n = (if n = 0x2A then Some LShift else if n = 0x36 then Some RShift
     else if n = 0x1D then Some LCtrl else if n = 0x38 then Some LAlt else None)"

definition shifted :: "modifier set \<Rightarrow> bool" where
  "shifted H \<longleftrightarrow> LShift \<in> H \<or> RShift \<in> H"

definition table_entry :: "modifier set \<Rightarrow> nat \<Rightarrow> u16" where
  "table_entry H n = (if shifted H then s_scan_table_with_shift else s_scan_table_no_shift) ! n"

definition key_code :: "modifier set \<Rightarrow> bool \<Rightarrow> nat \<Rightarrow> u16" where
  "key_code H release n = table_entry H n OR (if shifted H then 0x1000 else 0) OR (if LCtrl \<in> H then 0x4000 else 0)
     OR (if LAlt \<in> H then 0x2000 else 0) OR (if release then 0x8000 else 0)"

definition ideal_key :: "u8 \<Rightarrow> modifier set \<Rightarrow> modifier set \<times> u16 list" where
  "ideal_key d H =
     (let release = bit d 7; n = unat (d AND 0x7F) in
      if d = 0xE0 \<or> n \<ge> 91 then (H, [])
      else case modifier_at n of
        Some m \<Rightarrow> (if release then H - {m} else insert m H, [])
      | None \<Rightarrow> (H, [key_code H release n]))"

fun ideal_keys :: "u8 list \<Rightarrow> modifier set \<Rightarrow> modifier set \<times> u16 list" where
  "ideal_keys [] H = (H, [])"
| "ideal_keys (d # ds) H = (let (H, cs) = ideal_key d H; (H, cs') = ideal_keys ds H in (H, cs @ cs'))"

lemma table_sizes: "length s_scan_table_no_shift = 91" "length s_scan_table_with_shift = 91"
  by code_simp+

lemmas shift_consts = LEFT_SHIFT_def RIGHT_SHIFT_def LEFT_CTRL_def RIGHT_CTRL_def LEFT_ALT_def RIGHT_ALT_def
  SHIFT_MASK_def CTRL_MASK_def ALT_MASK_def

lemma shift_word_tests:
  "shift_word H AND SHIFT_MASK \<noteq> 0 \<longleftrightarrow> shifted H" "shift_word H AND CTRL_MASK \<noteq> 0 \<longleftrightarrow> LCtrl \<in> H"
  "shift_word H AND ALT_MASK \<noteq> 0 \<longleftrightarrow> LAlt \<in> H"
  by (auto simp: shift_word_def shift_consts shifted_def)

lemma shift_word_upd:
  "shift_word (insert m H) = shift_word H OR modifier_bit m" "shift_word (H - {m}) = shift_word H AND NOT (modifier_bit m)"
  by (cases m; simp add: shift_word_def)+

lemma modifier_table:
  "list_all (\<lambda>n. modifier_flag (s_scan_table_no_shift ! n) = map_option modifier_bit (modifier_at n)
     \<and> modifier_flag (s_scan_table_with_shift ! n) = map_option modifier_bit (modifier_at n)) [0..<91]"
  by code_simp

lemma modifier_flag_at:
  assumes "n < 91"
  shows "modifier_flag (table_entry H n) = map_option modifier_bit (modifier_at n)"
proof -
  have "n \<in> set [0..<91]" using assms unfolding set_upt by simp
  then show ?thesis using modifier_table by (auto simp only: list_all_iff table_entry_def split: if_splits)
qed

text \<open>The tables use the low ten bits only, so that key and flags can be told apart.\<close>

lemma entry_bits_table:
  "list_all (\<lambda>w. w AND 0x3FF = w \<and> w AND 0x1000 = 0 \<and> w AND 0x2000 = 0 \<and> w AND 0x4000 = 0 \<and> w AND 0x8000 = 0)
     (s_scan_table_no_shift @ s_scan_table_with_shift)"
  by code_simp

lemma entry_bits:
  assumes "n < 91"
  shows "table_entry H n AND 0x3FF = table_entry H n" "table_entry H n AND 0x1000 = 0" "table_entry H n AND 0x2000 = 0"
    "table_entry H n AND 0x4000 = 0" "table_entry H n AND 0x8000 = 0"
proof -
  have "table_entry H n \<in> set (s_scan_table_no_shift @ s_scan_table_with_shift)"
    using assms by (simp add: table_entry_def table_sizes)
  with entry_bits_table show "table_entry H n AND 0x3FF = table_entry H n" "table_entry H n AND 0x1000 = 0" "table_entry H n AND 0x2000 = 0"
    "table_entry H n AND 0x4000 = 0" "table_entry H n AND 0x8000 = 0" unfolding list_all_iff by blast+
qed

lemma key_code_fields:
  assumes "n < 91"
  shows "key_code H release n AND 0x3FF = table_entry H n" "key_code H release n AND KEY_SHIFT_FLAG \<noteq> 0 \<longleftrightarrow> shifted H"
    "key_code H release n AND KEY_CTRL_FLAG \<noteq> 0 \<longleftrightarrow> LCtrl \<in> H" "key_code H release n AND KEY_ALT_FLAG \<noteq> 0 \<longleftrightarrow> LAlt \<in> H"
    "key_code H release n AND KEY_RELEASE_FLAG \<noteq> 0 \<longleftrightarrow> release"
  by (simp_all add: key_code_def bit.conj_disj_distrib2 entry_bits [OF assms] KEY_SHIFT_FLAG_def KEY_CTRL_FLAG_def
      KEY_ALT_FLAG_def KEY_RELEASE_FLAG_def)

section \<open>The handler implements the ideal keyboard\<close>

lemma upt_8: "[0..<8] = [0, 1, 2, 3, 4, 5, 6, 7]"
  by code_simp

lemma word_eq_8: "(v :: u8) = w \<longleftrightarrow> list_all (\<lambda>n. bit v n = bit w n) [0, 1, 2, 3, 4, 5, 6, 7]"
  unfolding upt_8 [symmetric] by (auto simp: list_all_iff intro: bit_word_eqI)

lemma release_bit: "(d AND KB_KEY_RELEASE \<noteq> 0) = bit d 7" for d :: u8
proof -
  have "d AND KB_KEY_RELEASE = (if bit d 7 then 0x80 else 0)"
    unfolding word_eq_8 list.pred_inject by (simp add: KB_KEY_RELEASE_def bit_simps)
  then show ?thesis by simp
qed

lemma without_release: "(if bit d 7 then d AND NOT KB_KEY_RELEASE else d) = d AND 0x7F" for d :: u8
  unfolding word_eq_8 list.pred_inject by (simp add: KB_KEY_RELEASE_def bit_simps)

text \<open>One byte.\<close>

lemma format_key_code:
  "format_keycode (shifted H) release (shift_word H) (table_entry H n) = key_code H release n"
  by (simp add: format_keycode_def shift_word_tests key_code_def KEY_SHIFT_FLAG_def KEY_CTRL_FLAG_def KEY_ALT_FLAG_def
      KEY_RELEASE_FLAG_def or.assoc)

lemma ring_enqueue: "ring_rep r xs \<Longrightarrow> ring_rep (enqueue x r) (take 255 (xs @ [x]))"
proof (cases "length xs < 255")
  case True
  assume "ring_rep r xs"
  from enqueue_rep [OF this True] True show ?thesis by simp
next
  case False
  assume r: "ring_rep r xs"
  then have "length xs = 255" using False by (simp add: ring_rep_def)
  with enqueue_full [OF r this] r show ?thesis by simp
qed

lemma keyboard_byte_ok:
  assumes inv: "sched_inv A k" and off: "\<not> int_flag k" and ring: "ring_rep (keys k) xs"
    and b: "s_shiftstate b = shift_word H" and ideal: "ideal_key d H = (H', cs)"
  shows "\<exists>k' b'. keyboard_byte d (k, b) = Some (k', b') \<and> s_shiftstate b' = shift_word H'
    \<and> ring_rep (keys k') (take 255 (xs @ cs)) \<and> int_flag k' = int_flag k \<and> g_current k' = g_current k
    \<and> sched_inv (if cs = [] then A else wake_all (g_scheduler k) (prio k) WorkWaitQ A) k'
    \<and> (if cs = [] then k' = k else g_need_reschedule k')"
proof -
  let ?n = "unat (d AND 0x7F)"
  have xs: "take 255 xs = xs" using ring by (simp add: ring_rep_def)
  consider (esc) "d = 0xE0" | (unknown) "d \<noteq> 0xE0" "?n \<ge> 91" | (modifier) m where "d \<noteq> 0xE0" "?n < 91" "modifier_at ?n = Some m"
    | (key) "d \<noteq> 0xE0" "?n < 91" "modifier_at ?n = None" by fastforce
  then show ?thesis
  proof cases
    case esc
    then show ?thesis using assms xs by (simp add: keyboard_byte_def KEY_ESCAPE_def ideal_key_def)
  next
    case unknown
    then show ?thesis using assms xs
      by (simp add: keyboard_byte_def KEY_ESCAPE_def ideal_key_def Let_def release_bit without_release SCAN_TABLE_SIZE_def table_sizes cons_print_def)
  next
    case modifier
    have e: "keyboard_byte d (k, b) = key_event (bit d 7) (d AND 0x7F) (k, b)"
      using modifier by (simp add: keyboard_byte_def KEY_ESCAPE_def Let_def release_bit without_release SCAN_TABLE_SIZE_def table_sizes)
    have t: "(if s_shiftstate b AND SHIFT_MASK \<noteq> 0 then s_scan_table_with_shift else s_scan_table_no_shift) ! ?n = table_entry H ?n"
      by (simp add: b shift_word_tests table_entry_def)
    have "H' = (if bit d 7 then H - {m} else insert m H)" "cs = []"
      using ideal modifier by (simp_all add: ideal_key_def Let_def)
    then show ?thesis using assms(1-4) xs modifier
      unfolding e key_event_def prod.case Let_def t modifier_flag_at [OF modifier(2)] by (simp add: shift_word_upd)
  next
    case key
    have e: "keyboard_byte d (k, b) = key_event (bit d 7) (d AND 0x7F) (k, b)"
      using key by (simp add: keyboard_byte_def KEY_ESCAPE_def Let_def release_bit without_release SCAN_TABLE_SIZE_def table_sizes)
    let ?c = "key_code H (bit d 7) ?n"
    have h: "H' = H" "cs = [?c]" using ideal key by (auto simp: ideal_key_def Let_def)
    let ?k = "k\<lparr>keys := enqueue ?c (keys k)\<rparr>"
    have "sched_inv A ?k" using inv by (simp add: sched_inv_def queues_inv_def no_thread_lost_def queued_ok_def)
    from wakeup_ok [OF this _ wait_queue_simps(5)] off obtain k' where
      k': "thread_wakeup WorkWaitQ ?k = Some k'" "undisturbed ?k k'" "sched_inv (wake_all (g_scheduler k) (prio ?k) WorkWaitQ A) k'" by auto
    have "keyboard_byte d (k, b) = Some (k'\<lparr>g_need_reschedule := True\<rparr>, b)"
      using k'(1) unfolding e key_event_def prod.case Let_def b shift_word_tests(1) table_entry_def [symmetric]
      modifier_flag_at [OF key(2)] format_key_code by (simp add: key(3))
    moreover have "prio ?k = prio k" by (rule ext) (simp add: prio_def prio_of_def process_of_def)
    moreover have "keys k' = keys ?k" using undisturbedD(3) [OF k'(2)] by (rule rest_sel)
    ultimately show ?thesis using k' undisturbedD(1,2) [OF k'(2)] ring_enqueue [OF ring] b unfolding h by simp
  qed
qed

text \<open>An interrupt with a byte in the buffer, and a row of them.\<close>

definition keyboard_context :: "thread_context \<Rightarrow> bool" where
  "keyboard_context c \<longleftrightarrow> tc_int_num c = FIRST_IRQ + KEYB_IRQ"

lemma handler_ok:
  assumes inv: "sched_inv A k" and off: "\<not> int_flag k" and ring: "ring_rep (keys k) xs"
    and b: "s_shiftstate b = shift_word H" and ideal: "ideal_key d H = (H', cs)"
    and c: "keyboard_context c" "st AND PS2_OUTPUT_FULL \<noteq> 0"
  shows "\<exists>k' i' b' A'. keyboard_int_handler c st d (k, i, b) = Some (k', i', b') \<and> s_shiftstate b' = shift_word H'
    \<and> ring_rep (keys k') (take 255 (xs @ cs)) \<and> \<not> int_flag k' \<and> g_current k' = g_current k \<and> sched_inv A' k'
    \<and> A' = (if cs = [] then A else wake_all (g_scheduler k) (prio k) WorkWaitQ A)
    \<and> (if cs = [] then k' = k else g_need_reschedule k')
    \<and> port_out i' = port_out i @ [(0x80, 0), (0x80, 0), (0x20, 0x61)]"
proof -
  obtain k' b' where k': "keyboard_byte d (k, b) = Some (k', b')" "s_shiftstate b' = shift_word H'"
    "ring_rep (keys k') (take 255 (xs @ cs))" "int_flag k' = int_flag k" "g_current k' = g_current k"
    "sched_inv (if cs = [] then A else wake_all (g_scheduler k) (prio k) WorkWaitQ A) k'"
    "if cs = [] then k' = k else g_need_reschedule k'"
    using keyboard_byte_ok [OF inv off ring b ideal] by blast
  have e: "irq_end c i = Some (i\<lparr>port_out := port_out i @ [(0x20, 0x61)]\<rparr>)" for i
    using c(1) by (subst irq_end_ok [where n = 1]) (simp_all add: keyboard_context_def FIRST_IRQ_def KEYB_IRQ_def)
  let ?i = "i\<lparr>port_out := port_out i @ [(0x80, 0), (0x80, 0), (0x20, 0x61)]\<rparr>"
  have "keyboard_int_handler c st d (k, i, b) = Some (k', ?i, b')"
    using c(2) k'(1) by (simp add: keyboard_int_handler_def irq_begin_def ioport_delay_def ioport_outb_def e Let_def)
  with k' off show ?thesis
    by (intro exI [of _ k'] exI [of _ ?i] exI [of _ b'] exI [of _ "if cs = [] then A else wake_all (g_scheduler k) (prio k) WorkWaitQ A"]) simp
qed

fun keyboard_interrupts :: "thread_context \<Rightarrow> u8 \<Rightarrow> u8 list \<Rightarrow> kernel \<times> irq_state \<times> keyb \<Rightarrow> (kernel \<times> irq_state \<times> keyb) option" where
  "keyboard_interrupts c st [] s = Some s"
| "keyboard_interrupts c st (d # ds) s = do { s \<leftarrow> keyboard_int_handler c st d s; keyboard_interrupts c st ds s }"

lemma take_append_take: "take n (take n xs @ ys) = take n (xs @ ys)"
  by (simp add: min_def)

lemma interrupts_ok:
  assumes "sched_inv A k" and "\<not> int_flag k" and "ring_rep (keys k) xs" and "s_shiftstate b = shift_word H"
    and c: "keyboard_context c" "st AND PS2_OUTPUT_FULL \<noteq> 0"
  shows "\<exists>k' i' b' A'. keyboard_interrupts c st ds (k, i, b) = Some (k', i', b') \<and> sched_inv A' k' \<and> \<not> int_flag k'
    \<and> g_current k' = g_current k \<and> s_shiftstate b' = shift_word (fst (ideal_keys ds H))
    \<and> ring_rep (keys k') (take 255 (xs @ snd (ideal_keys ds H)))"
  using assms(1-4)
proof (induction ds arbitrary: k i b A xs H)
  case Nil
  then have "take 255 xs = xs" by (simp add: ring_rep_def)
  with Nil show ?case by auto
next
  case (Cons d ds)
  obtain H1 cs where ideal: "ideal_key d H = (H1, cs)" by fastforce
  obtain k1 i1 b1 A1 where s1: "keyboard_int_handler c st d (k, i, b) = Some (k1, i1, b1)" "s_shiftstate b1 = shift_word H1"
    "ring_rep (keys k1) (take 255 (xs @ cs))" "\<not> int_flag k1" "g_current k1 = g_current k" "sched_inv A1 k1"
    using handler_ok [where i = i, OF Cons.prems ideal c] by metis
  from Cons.IH [where i = i1, OF s1(6,4,3,2)] obtain k' i' b' A' where s': "keyboard_interrupts c st ds (k1, i1, b1) = Some (k', i', b')" "sched_inv A' k'"
    "\<not> int_flag k'" "g_current k' = g_current k1" "s_shiftstate b' = shift_word (fst (ideal_keys ds H1))"
    "ring_rep (keys k') (take 255 (take 255 (xs @ cs) @ snd (ideal_keys ds H1)))" by blast
  have "ideal_keys (d # ds) H = (fst (ideal_keys ds H1), cs @ snd (ideal_keys ds H1))"
    by (simp add: ideal Let_def split_beta)
  then have "s_shiftstate b' = shift_word (fst (ideal_keys (d # ds) H))"
    "ring_rep (keys k') (take 255 (xs @ snd (ideal_keys (d # ds) H)))"
    using s'(5,6) by (simp_all only: take_append_take append_assoc fst_conv snd_conv)
  moreover have "keyboard_interrupts c st (d # ds) (k, i, b) = Some (k', i', b')" using s1(1) s'(1) by simp
  ultimately show ?case using s1(5) s'(2,3,4) by metis
qed

section \<open>Reading\<close>

lemma flag_keys: "keys (s\<lparr>int_flag := b\<rparr>) = keys s"
  by simp

lemma atomic_keys: "int_end_atomic (int_flag s) (s\<lparr>int_flag := False, keys := q\<rparr>) = Some (s\<lparr>keys := q\<rparr>)"
  by (cases s) simp

lemma wait_for_key_ready:
  assumes "ring_rep (keys s) (x # xs)"
  shows "\<exists>q. wait_for_key s = Some (Inr (x, s\<lparr>keys := q\<rparr>)) \<and> ring_rep q xs"
proof -
  obtain q where q: "dequeue (keys s) = Some (x, q)" "ring_rep q xs" using dequeue_rep [OF assms] by blast
  have "\<not> is_queue_empty (keys s)" using ring_empty_iff [OF assms] by simp
  then have "wait_for_key_loop (s\<lparr>int_flag := False\<rparr>) = Some (Inr (x, s\<lparr>int_flag := False, keys := q\<rparr>))"
    by (simp add: wait_for_key_loop_def q(1))
  then have "wait_for_key s = Some (Inr (x, s\<lparr>keys := q\<rparr>))"
    unfolding wait_for_key_def wait_for_key_rest_def int_begin_atomic_eq by (simp only: Option.bind.simps prod.case then_do_simps atomic_keys)
  with q(2) show ?thesis by blast
qed

lemma read_key_any:
  assumes "ring_rep (keys s) xs"
  shows "\<exists>q. read_key s = Some (case xs of [] \<Rightarrow> None | x # _ \<Rightarrow> Some x, s\<lparr>keys := q\<rparr>) \<and> ring_rep q (tl xs)"
proof (cases xs)
  case Nil
  have "int_end_atomic (int_flag s) (s\<lparr>int_flag := False\<rparr>) = Some (s\<lparr>keys := keys s\<rparr>)" by (cases s) simp
  moreover have "is_queue_empty (keys s)" using Nil ring_empty_iff [OF assms] by simp
  ultimately have "read_key s = Some (None, s\<lparr>keys := keys s\<rparr>)"
    unfolding read_key_def int_begin_atomic_eq by (simp only: flag_keys Option.bind.simps prod.case simp_thms if_False)
  then show ?thesis using assms Nil by (intro exI [of _ "keys s"]) simp
next
  case (Cons x ys)
  obtain q where q: "dequeue (keys s) = Some (x, q)" "ring_rep q ys" using dequeue_rep assms Cons by blast
  have "\<not> is_queue_empty (keys s)" using Cons ring_empty_iff [OF assms] by simp
  then have "read_key s = Some (Some x, s\<lparr>keys := q\<rparr>)"
    unfolding read_key_def int_begin_atomic_eq
    by (simp only: flag_keys Option.bind.simps prod.case kernel.simps simp_thms if_True q(1) atomic_keys)
  with q(2) Cons show ?thesis by auto
qed

text \<open>With an empty buffer the reader waits in the worker's queue.\<close>

lemma wait_for_key_waits:
  assumes inv: "sched_inv A s" and off: "\<not> int_flag s" and "ring_rep (keys s) []" and run: "A RunQ = n # rs"
  shows "\<exists>s'. wait_for_key_rest iflag s = Some (Inl s') \<and> g_current s' = n
    \<and> sched_inv (A(WorkWaitQ := A WorkWaitQ @ [g_current s], RunQ := rs)) s' \<and> rest s' = rest s"
proof -
  have "is_queue_empty (keys s)" using ring_empty_iff [OF assms(3)] by simp
  then show ?thesis using wait_ok [where q = WorkWaitQ, OF inv off _ run]
    by (auto simp: wait_for_key_rest_def wait_for_key_loop_def)
qed

section \<open>Initialisation\<close>

interpretation ps2: poll_loop "\<lambda>n. status n AND PS2_OUTPUT_FULL \<noteq> 0" "ps2_flush status" for status
  by standard (rule ps2_flush.simps)

lemma ps2_flush_result:
  assumes "ps2_flush status n = Some j"
  shows "n < j \<and> status (j - 1) AND PS2_OUTPUT_FULL = 0"
proof (rule ps2_flush.raw_induct [OF _ assms])
  fix f :: "(nat \<Rightarrow> u8) \<Rightarrow> nat \<Rightarrow> nat option" and status n j
  assume IH: "\<And>status n j. f status n = Some j \<Longrightarrow> n < j \<and> status (j - 1) AND PS2_OUTPUT_FULL = 0"
    and r: "(if status n AND PS2_OUTPUT_FULL \<noteq> 0 then f status (n + 1) else Some (n + 1)) = Some j"
  show "n < j \<and> status (j - 1) AND PS2_OUTPUT_FULL = 0"
  proof (cases "status n AND PS2_OUTPUT_FULL = 0")
    case True
    with r show ?thesis by auto
  next
    case False
    then have "f status (n + 1) = Some j" using r by simp
    from IH [OF this] show ?thesis by simp
  qed
qed

text \<open>The initialisation ends exactly when the controller reports an empty buffer at some time.\<close>

lemma ps2_init_ends: "(\<exists>i'. x86_ps2_init status i = Some i') \<longleftrightarrow> (\<exists>m. status m AND PS2_OUTPUT_FULL = 0)"
proof
  assume "\<exists>i'. x86_ps2_init status i = Some i'"
  then obtain j where "ps2_flush status 0 = Some j" by (cases "ps2_flush status 0") (auto simp: x86_ps2_init_def)
  with ps2_flush_result show "\<exists>m. status m AND PS2_OUTPUT_FULL = 0" by blast
next
  assume "\<exists>m. status m AND PS2_OUTPUT_FULL = 0"
  then obtain m where "status m AND PS2_OUTPUT_FULL = 0" by blast
  with ps2.ends [of status m 0] obtain j where "ps2_flush status 0 = Some (j + 1)" by auto
  then show "\<exists>i'. x86_ps2_init status i = Some i'" by (auto simp: x86_ps2_init_def)
qed

lemma keyboard_init_ok:
  assumes "status m AND PS2_OUTPUT_FULL = 0" and "irq_inv i" and "length (s_queue (keys k)) = QUEUE_SIZE"
    and "length (g_int_handler_table t) = INT_NUM_INTERRUPTS"
  shows "\<exists>k' t' i' b'. keyboard_init handler status (k, t, i, b) = Some (k', t', i', b')
    \<and> k' = k\<lparr>int_flag := True, g_preemption := True, keys := (keys k)\<lparr>s_queue_head := 0, s_queue_tail := 0\<rparr>\<rparr>
    \<and> ring_rep (keys k') [] \<and> s_shiftstate b' = shift_word {} \<and> irq_inv i' \<and> \<not> line_masked i' 1
    \<and> s_irqmask i' = s_irqmask i AND NOT (push_bit 1 1) \<and> g_int_handler_table t' = (g_int_handler_table t)[33 := handler]"
proof -
  obtain i1 where i1: "x86_ps2_init status i = Some i1" "irq_inv i1" "s_irqmask i1 = s_irqmask i"
  proof -
    obtain i1 where "x86_ps2_init status i = Some i1" using ps2_init_ends assms(1) by blast
    moreover from this have "irq_inv i1" "s_irqmask i1 = s_irqmask i"
      using assms(2) by (auto simp: x86_ps2_init_def irq_inv_def bind_eq_Some_conv PS2_COMMAND_def)
    ultimately show thesis by (rule that)
  qed
  let ?k = "k\<lparr>int_flag := False, keys := (keys k)\<lparr>s_queue_head := 0, s_queue_tail := 0\<rparr>\<rparr>"
  have v: "VALID_IRQ KEYB_IRQ" by (simp add: VALID_IRQ_def KEYB_IRQ_def NUM_IRQS_def)
  obtain i2 where i2: "irq_enable KEYB_IRQ (?k, i1) = Some (?k, i2)" "irq_inv i2"
    "s_irqmask i2 = s_irqmask i1 AND NOT (push_bit (nat KEYB_IRQ) 1)"
    using modify_mask_ok [OF i1(2) v] unfolding irq_enable_def by blast
  have "\<not> bit (s_irqmask i2) 1" unfolding i2(3) by (simp add: KEYB_IRQ_def bit_simps)
  then have m: "\<not> line_masked i2 1" using line_masked_iff [OF i2(2), of 1] by simp
  let ?t = "t\<lparr>g_int_handler_table := (g_int_handler_table t)[33 := handler]\<rparr>"
  have t: "irq_install_handler KEYB_IRQ handler t = Some ?t"
    by (simp add: irq_install_handler_def int_install_handler_def VALID_IRQ_def KEYB_IRQ_def NUM_IRQS_def FIRST_IRQ_def INT_NUM_INTERRUPTS_def halt_simps)
  have off: "(if int_enabled k then int_disable k else Some k) = Some (k\<lparr>int_flag := False\<rparr>)"
    by (cases k) (simp add: int_enabled_def int_disable_def halt_simps)
  have "ring_rep (keys ?k) []" using assms(3) by (simp add: ring_rep_def)
  moreover have "s_irqmask i2 = s_irqmask i AND NOT (push_bit 1 1)" using i1(3) i2(3) by (simp add: KEYB_IRQ_def)
  ultimately show ?thesis using i1(1) i2(1,2) m t
    unfolding keyboard_init_def prod.case off
    by (simp add: int_enable_def int_enabled_def halt_simps cons_print_def shift_word_def INT_NUM_INTERRUPTS_def)
qed

end
