(* ===== verification/Timer_Device.thy ===== *)
theory Timer_Device imports X86_Interrupts Kernel_Sched begin

text \<open>
  The timer device (\<open>src/x86/kernel/x86_timer.c\<close>) with its interrupt line, and waiting for a number of
  ticks (\<open>busy_wait\<close>, \<open>src/60-330/kernel/timer.c\<close>).  \<open>g_numticks\<close> changes while the loop reads it:
  \<open>reading n\<close> is the value of read number \<open>n\<close>.
\<close>

section \<open>The interrupt line\<close>

definition TIMER_IRQ :: int where "TIMER_IRQ = 0"

definition timer_int_handler :: "thread_context \<Rightarrow> kernel \<times> irq_state \<Rightarrow> (kernel \<times> irq_state) option" where
  "timer_int_handler context = (\<lambda>(k, i). do {
     let i = irq_begin context i;
     k \<leftarrow> timer_process_tick k;
     i \<leftarrow> irq_end context i;
     Some (k, i)
   })"

text \<open>\<open>timer_init\<close> with the table of handlers and the controllers; \<open>handler\<close> is the address of the
  function above.\<close>

definition timer_init_device ::
  "nat \<Rightarrow> kernel \<times> int_state \<times> irq_state \<Rightarrow> (kernel \<times> int_state \<times> irq_state) option" where
  "timer_init_device handler = (\<lambda>(k, t, i). do {
     t \<leftarrow> irq_install_handler TIMER_IRQ handler t;
     (k, i) \<leftarrow> irq_enable TIMER_IRQ (k, i);
     k \<leftarrow> int_enable k;
     Some (k\<lparr>g_preemption := True\<rparr>, t, i)
   })"

lemma timer_handler_ok:
  assumes "sched_inv A k" and "tc_int_num c = FIRST_IRQ + TIMER_IRQ"
  shows "\<exists>k' i'. timer_int_handler c (k, i) = Some (k', i') \<and> sched_inv A k' \<and> g_numticks k' = g_numticks k + 1
    \<and> port_out i' = port_out i @ [(0x20, 0x60)]"
proof -
  obtain k' where k': "timer_process_tick k = Some k'" "sched_inv A k'" "g_numticks k' = g_numticks k + 1"
    using tick_ok [OF assms(1)] by blast
  have "irq_end c i = Some (i\<lparr>port_out := port_out i @ [(0x20, 0x60)]\<rparr>)"
    using assms(2) by (subst irq_end_ok [where n = 0]) (simp_all add: FIRST_IRQ_def TIMER_IRQ_def)
  with k' show ?thesis by (simp add: timer_int_handler_def irq_begin_def)
qed

lemma timer_init_device_ok:
  assumes "irq_inv i" and "length (g_int_handler_table t) = INT_NUM_INTERRUPTS" and "\<not> int_flag k"
  shows "\<exists>t' i'. timer_init_device handler (k, t, i) = Some (k\<lparr>int_flag := True, g_preemption := True\<rparr>, t', i')
    \<and> irq_inv i' \<and> \<not> line_masked i' 0 \<and> s_irqmask i' = s_irqmask i AND NOT (push_bit 0 1)
    \<and> g_int_handler_table t' = (g_int_handler_table t)[32 := handler]"
proof -
  have v: "VALID_IRQ TIMER_IRQ" by (simp add: VALID_IRQ_def TIMER_IRQ_def NUM_IRQS_def)
  obtain i2 where i2: "irq_enable TIMER_IRQ (k, i) = Some (k, i2)" "irq_inv i2"
    "s_irqmask i2 = s_irqmask i AND NOT (push_bit (nat TIMER_IRQ) 1)"
    using modify_mask_ok [OF assms(1) v] unfolding irq_enable_def by blast
  have "\<not> bit (s_irqmask i2) 0" unfolding i2(3) by (simp add: TIMER_IRQ_def bit_simps)
  then have "\<not> line_masked i2 0" using line_masked_iff [OF i2(2), of 0] by simp
  moreover have "irq_install_handler TIMER_IRQ handler t = Some (t\<lparr>g_int_handler_table := (g_int_handler_table t)[32 := handler]\<rparr>)"
    by (simp add: irq_install_handler_def int_install_handler_def VALID_IRQ_def TIMER_IRQ_def NUM_IRQS_def FIRST_IRQ_def
        INT_NUM_INTERRUPTS_def halt_simps)
  moreover have "s_irqmask i2 = s_irqmask i AND NOT (push_bit 0 1)" using i2(3) by (simp add: TIMER_IRQ_def)
  ultimately show ?thesis using i2(1,2) assms(3)
    by (simp add: timer_init_device_def int_enable_def int_enabled_def halt_simps INT_NUM_INTERRUPTS_def)
qed

section \<open>Waiting\<close>

text \<open>The result is the number of reads; \<open>None\<close> is a loop that does not end.\<close>

partial_function (option) busy_wait_loop :: "(nat \<Rightarrow> u32) \<Rightarrow> u32 \<Rightarrow> nat \<Rightarrow> nat option" where
  "busy_wait_loop reading limit n = (if reading n < limit then busy_wait_loop reading limit (n + 1) else Some (n + 1))"

definition busy_wait :: "(nat \<Rightarrow> u32) \<Rightarrow> u32 \<Rightarrow> nat option" where
  "busy_wait reading ticks = (let last = reading 0 in busy_wait_loop reading (last + ticks) 1)"

text \<open>A running timer: \<open>d n\<close> ticks have passed at read number \<open>n\<close>; no tick falls between two reads
  twice, and the ticks do not stop.\<close>

definition ticking :: "(nat \<Rightarrow> u32) \<Rightarrow> (nat \<Rightarrow> nat) \<Rightarrow> bool" where
  "ticking reading d \<longleftrightarrow> d 0 = 0 \<and> (\<forall>n. reading n = reading 0 + of_nat (d n)) \<and> (\<forall>n. d n \<le> d (Suc n) \<and> d (Suc n) \<le> Suc (d n))
     \<and> (\<forall>m. \<exists>n. m \<le> d n)"

interpretation clock: poll_loop "\<lambda>n. reading n < limit" "busy_wait_loop reading limit" for reading limit
  by standard (rule busy_wait_loop.simps)

lemma reading_less:
  fixes last ticks :: u32
  assumes "reading n = last + of_nat k" and "unat last + unat ticks < 2 ^ 32" and "k \<le> unat ticks"
  shows "reading n < last + ticks \<longleftrightarrow> k < unat ticks"
proof -
  have k: "unat (of_nat k :: u32) = k" using assms(2,3) by (simp add: unat_of_nat take_bit_nat_eq_self)
  have "unat (last + ticks) = unat last + unat ticks" using assms(2) by (simp add: unat_word_ariths)
  moreover have "unat (reading n) = unat last + k" using assms k by (simp add: unat_word_ariths)
  ultimately show ?thesis by (simp add: word_less_nat_alt)
qed

lemma busy_wait_once: "\<not> reading 1 < reading 0 + ticks \<Longrightarrow> busy_wait reading ticks = Some 2"
  unfolding busy_wait_def Let_def by (subst busy_wait_loop.simps) simp

text \<open>
  While the clock stays below the limit for the first \<open>ticks - 1\<close> ticks and has reached it after \<open>ticks\<close>,
  the loop ends at the first reading with \<open>ticks\<close> ticks.
\<close>

lemma busy_wait_until:
  assumes t: "ticking reading d" and "0 < ticks"
    and r: "\<And>n. 0 < n \<Longrightarrow> d n \<le> unat ticks \<Longrightarrow> reading n < reading 0 + ticks \<longleftrightarrow> d n < unat ticks"
  shows "\<exists>n. busy_wait reading ticks = Some (n + 1) \<and> d n = unat ticks \<and> (\<forall>j < n. d j < unat ticks)"
proof -
  have t1: "d 0 = 0" "\<And>n. d (Suc n) \<le> Suc (d n)" "\<exists>n. unat ticks \<le> d n"
    using t unfolding ticking_def by blast+
  obtain n where n: "unat ticks \<le> d n" "\<forall>j < n. \<not> unat ticks \<le> d j"
    using t1(3) exists_least_iff [of "\<lambda>n. unat ticks \<le> d n"] by blast
  have pos: "0 < unat ticks" using assms(2) by (simp add: word_less_nat_alt)
  with n(1) t1(1) obtain n' where n': "n = Suc n'" by (cases n) auto
  have "d n \<le> Suc (d n')" unfolding n' by (rule t1(2))
  moreover have "d n' < unat ticks" using n(2) n' by (simp add: not_le)
  ultimately have d: "d n = unat ticks" using n(1) by simp
  have "busy_wait_loop reading (reading 0 + ticks) 1 = Some (1 + n' + 1)"
  proof (rule clock.exact)
    show "\<not> reading (1 + n') < reading 0 + ticks" using r [of n] n' d by simp
    show "\<forall>j < n'. reading (1 + j) < reading 0 + ticks"
    proof (intro allI impI)
      fix j assume "j < n'"
      then have "d (1 + j) < unat ticks" using n(2) n' by (simp add: not_le)
      then show "reading (1 + j) < reading 0 + ticks" using r [of "1 + j"] by simp
    qed
  qed
  then have "busy_wait reading ticks = Some (n + 1)" by (simp add: busy_wait_def n')
  with d n(2) show ?thesis by (auto simp: not_le)
qed

lemma busy_wait_exact:
  assumes t: "ticking reading d" and "0 < ticks" and small: "unat (reading 0) + unat ticks < 2 ^ 32"
  shows "\<exists>n. busy_wait reading ticks = Some (n + 1) \<and> d n = unat ticks \<and> (\<forall>j < n. d j < unat ticks)"
proof (rule busy_wait_until [OF assms(1,2)])
  fix n assume "d n \<le> unat ticks"
  moreover have "reading n = reading 0 + of_nat (d n)" using t unfolding ticking_def by blast
  ultimately show "reading n < reading 0 + ticks \<longleftrightarrow> d n < unat ticks" using small by (intro reading_less)
qed

text \<open>The sum of clock and ticks exceeds 32 bits: the limit is below the clock.\<close>

lemma wrapped_limit:
  fixes a b :: u32
  assumes "unat a + unat b \<ge> 2 ^ 32"
  shows "unat (a + b) = unat a + unat b - 4294967296"
proof -
  have "unat a + unat b - 4294967296 < 4294967296" using unat_less_32 [of a] unat_less_32 [of b] by linarith
  then show ?thesis using assms unfolding unat_word_ariths by (subst le_mod_geq) simp_all
qed

lemma busy_wait_wraps:
  assumes t: "ticking reading d" and wrap: "unat (reading 0) + unat ticks \<ge> 2 ^ 32"
    and no: "\<not> (reading 0 = - 1 \<and> reading 1 = 0)"
  shows "busy_wait reading ticks = Some 2"
proof (rule busy_wait_once)
  have l: "unat (reading 0 + ticks) = unat (reading 0) + unat ticks - 4294967296" by (rule wrapped_limit [OF wrap])
  have le: "unat (reading 0 + ticks) \<le> unat (reading 0)" unfolding l using unat_less_32 [of ticks] by linarith
  have d: "d 0 = 0" "d (Suc 0) \<le> Suc (d 0)" "reading 1 = reading 0 + of_nat (d 1)" using t unfolding ticking_def by blast+
  then have "d 1 = 0 \<or> d 1 = 1" by (simp add: le_Suc_eq)
  with d(3) consider "reading 1 = reading 0" | "reading 1 = reading 0 + 1" by fastforce
  then show "\<not> reading 1 < reading 0 + ticks"
  proof cases
    case 2
    have "1 + reading 0 \<noteq> 0" using no 2 by (auto simp: add_eq_0_iff)
    from unatSuc [OF this] have "unat (reading 1) = Suc (unat (reading 0))" using 2 by (simp add: add.commute)
    then show ?thesis using le by (simp add: word_less_nat_alt)
  qed (use le in \<open>simp add: word_less_nat_alt\<close>)
qed

text \<open>The clock itself wraps between the first two readings: it counts up to the limit again.\<close>

lemma busy_wait_both_wrap:
  assumes t: "ticking reading d" and pos: "0 < ticks" and r0: "reading 0 = - 1" and r1: "reading 1 = 0"
  shows "\<exists>n. busy_wait reading ticks = Some (n + 1) \<and> d n = unat ticks \<and> (\<forall>j < n. d j < unat ticks)"
proof (rule busy_wait_until [OF t pos])
  fix n assume n: "0 < n" "d n \<le> unat ticks"
  have d: "\<And>n. reading n = reading 0 + of_nat (d n)" "d 0 = 0" "\<And>n. d n \<le> d (Suc n)" using t unfolding ticking_def by blast+
  have "d 1 \<noteq> 0"
  proof
    assume "d 1 = 0"
    with d(1) [of 1] r0 r1 show False by simp
  qed
  moreover have "d 1 \<le> d n" by (rule lift_Suc_mono_le [of d, OF d(3)]) (use n(1) in linarith)
  ultimately have p: "0 < d n" by simp
  have lt: "d n < 4294967296" using n(2) unat_less_32 [of ticks] by linarith
  obtain k where k: "d n = Suc k" using p by (cases "d n") auto
  have "reading n = of_nat k" unfolding d(1) [of n] r0 k by simp
  then have "unat (reading n) = d n - 1" using lt k by (simp add: unat_of_nat take_bit_nat_eq_self)
  moreover have "unat (reading 0 + ticks) = unat ticks - 1" unfolding r0 using pos unat_minus_one [of ticks] by (simp add: word_gt_0)
  ultimately show "reading n < reading 0 + ticks \<longleftrightarrow> d n < unat ticks" using p n(2) unfolding word_less_nat_alt by linarith
qed

end
