(* ===== verification/Tictactoe.thy ===== *)
theory Tictactoe imports Kernel_Prelude begin

text \<open>
  The game that two threads play to demonstrate Peterson's algorithm (\<open>src/60-330/tictactoe.c\<close>), and
  the table of numbers behind its moves (\<open>src/60-330/rand.c\<close>).  \<open>me\<close> is the process id of the thread that
  runs; \<open>tbl\<close> is the table \<open>g_rand\<close>; \<open>said\<close> are the calls of \<open>cons_printf\<close>.  Waiting for ticks does
  not touch the game and is left out.
\<close>

datatype tictactoe_state_t = GAME_OPEN | GAME_READY | GAME_PLAYING | GAME_DONE

record tictactoe_t =
  grid :: "nat \<Rightarrow> nat \<Rightarrow> char"
  player_x :: int
  player_o :: int
  game_status :: tictactoe_state_t
  winner :: int

datatype announcement =
  Joining int int | Starting_game int | Waiting int char | Thinking int char nat | Board "char list"
| Won int char | Draw int

record game = tictactoe_t +
  moves :: "(nat \<times> nat) list"
  rand_i :: u32
  said :: "announcement list"

definition say :: "announcement \<Rightarrow> game \<Rightarrow> game" where
  "say a g = g\<lparr>said := said g @ [a]\<rparr>"

text \<open>The static data.\<close>

definition s_tictactoe :: game where
  "s_tictactoe = \<lparr>grid = (\<lambda>_ _. CHR 0x00), player_x = 0, player_o = 0, game_status = GAME_OPEN, winner = 0,
     moves = [(2, 0), (1, 1), (0, 2), (1, 2), (1, 0), (0, 0), (2, 2), (2, 1), (0, 1)], rand_i = 0, said = []\<rparr>"

definition start_tictactoe_game :: "int \<Rightarrow> game \<Rightarrow> game" where
  "start_tictactoe_game me g =
     say (Starting_game me) (g\<lparr>grid := (\<lambda>i j. if i < 3 \<and> j < 3 then CHR '' '' else grid g i j), player_x := me, player_o := 0,
       winner := 0, game_status := GAME_READY\<rparr>)"

definition join_tictactoe_game :: "int \<Rightarrow> game \<Rightarrow> char \<times> game" where
  "join_tictactoe_game me g =
     (if game_status g = GAME_READY
      then (CHR ''O'', say (Joining me (player_x g)) (g\<lparr>player_o := me, game_status := GAME_PLAYING\<rparr>))
      else (CHR ''X'', start_tictactoe_game me g))"

definition NUM_RAND :: nat where "NUM_RAND = 10000"

definition next_rand :: "nat list \<Rightarrow> nat \<Rightarrow> game \<Rightarrow> nat \<times> game" where
  "next_rand tbl limit g = (tbl ! (unat (rand_i g) mod NUM_RAND) mod limit, g\<lparr>rand_i := rand_i g + 1\<rparr>)"

fun shuffle_moves :: "nat list \<Rightarrow> nat \<Rightarrow> game \<Rightarrow> game" where
  "shuffle_moves tbl 0 g = g"
| "shuffle_moves tbl (Suc n) g =
     (let (a, g) = next_rand tbl 9 g;
          (b, g) = next_rand tbl 9 g;
          temp = moves g ! a;
          g = g\<lparr>moves := (moves g)[a := moves g ! b]\<rparr>;
          g = g\<lparr>moves := (moves g)[b := temp]\<rparr>
      in shuffle_moves tbl n g)"

text \<open>The first move of the list whose field is empty.\<close>

fun first_blank :: "(nat \<times> nat) list \<Rightarrow> char \<Rightarrow> (nat \<Rightarrow> nat \<Rightarrow> char) \<Rightarrow> nat \<Rightarrow> nat \<Rightarrow> char" where
  "first_blank [] c gr = gr"
| "first_blank ((x, y) # ms) c gr =
     (if gr x y = CHR '' '' then gr(x := (gr x)(y := c)) else first_blank ms c gr)"

definition symbol :: "int \<Rightarrow> game \<Rightarrow> char" where
  "symbol me g = (if me = player_x g then CHR ''X'' else CHR ''O'')"

definition choose_move :: "nat list \<Rightarrow> int \<Rightarrow> game \<Rightarrow> game" where
  "choose_move tbl me g =
     (if game_status g \<noteq> GAME_PLAYING then g
      else let c = symbol me g; g = shuffle_moves tbl 5 g
           in g\<lparr>grid := first_blank (moves g) c (grid g)\<rparr>)"

definition plan_move :: "int \<Rightarrow> game \<Rightarrow> game" where
  "plan_move me g = (let c = symbol me g in say (Thinking me c 3) (say (Thinking me c 2) (say (Thinking me c 1) g)))"

definition print_board :: "game \<Rightarrow> game" where
  "print_board g =
     (if game_status g \<noteq> GAME_PLAYING then g
      else say (Board [grid g 0 0, grid g 0 1, grid g 0 2, grid g 1 0, grid g 1 1, grid g 1 2, grid g 2 0, grid g 2 1, grid g 2 2]) g)"

definition assign_winner :: "int \<Rightarrow> char \<Rightarrow> game \<Rightarrow> game" where
  "assign_winner me c g =
     (if game_status g \<noteq> GAME_PLAYING then g
      else let g = g\<lparr>game_status := GAME_DONE\<rparr>;
               g = g\<lparr>winner := (if c = CHR ''X'' then player_x g else player_o g)\<rparr>
           in say (Won me c) g)"

definition assign_draw :: "int \<Rightarrow> game \<Rightarrow> game" where
  "assign_draw me g = (if game_status g \<noteq> GAME_PLAYING then g else say (Draw me) (g\<lparr>game_status := GAME_DONE\<rparr>))"

text \<open>Rows and columns from \<open>i\<close> on: the symbol that has won.\<close>

fun rows_and_columns :: "nat \<Rightarrow> (nat \<Rightarrow> nat \<Rightarrow> char) \<Rightarrow> nat \<Rightarrow> char option" where
  "rows_and_columns 0 gr i = None"
| "rows_and_columns (Suc n) gr i =
     (let val = gr i 0 in
      if val \<noteq> CHR '' '' \<and> val = gr i 1 \<and> val = gr i 2 then Some val
      else let val = gr 0 i in
      if val \<noteq> CHR '' '' \<and> val = gr 1 i \<and> val = gr 2 i then Some val
      else rows_and_columns n gr (i + 1))"

definition check_for_winner :: "int \<Rightarrow> game \<Rightarrow> game" where
  "check_for_winner me g =
     (if game_status g \<noteq> GAME_PLAYING then g
      else let gr = grid g; val = gr 0 0 in
      if val \<noteq> CHR '' '' \<and> val = gr 1 1 \<and> val = gr 2 2 then assign_winner me val g
      else let val = gr 2 0 in
      if val \<noteq> CHR '' '' \<and> val = gr 1 1 \<and> val = gr 0 2 then assign_winner me val g
      else case rows_and_columns 3 gr 0 of
        Some val \<Rightarrow> assign_winner me val g
      | None \<Rightarrow>
          let draw = list_all (\<lambda>i. list_all (\<lambda>j. gr i j = CHR '' '') [0..<3]) [0..<3]
          in if draw then assign_draw me g else g)"

definition play_tictactoe :: "nat list \<Rightarrow> int \<Rightarrow> game \<Rightarrow> game" where
  "play_tictactoe tbl me g =
     (if game_status g \<noteq> GAME_PLAYING then g
      else if me \<noteq> player_x g \<and> me \<noteq> player_o g then g
      else let g = plan_move me g;
               g = choose_move tbl me g;
               g = print_board g
           in check_for_winner me g)"

definition wait_for_turn :: "int \<Rightarrow> game \<Rightarrow> game" where
  "wait_for_turn me g = (if game_status g \<noteq> GAME_PLAYING then g else say (Waiting me (symbol me g)) g)"

section \<open>Lines\<close>

text \<open>The eight lines of the board, and a line that one player has filled.\<close>

definition lines :: "((nat \<times> nat) \<times> (nat \<times> nat) \<times> (nat \<times> nat)) list" where
  "lines = [((0, 0), (0, 1), (0, 2)), ((1, 0), (1, 1), (1, 2)), ((2, 0), (2, 1), (2, 2)),
     ((0, 0), (1, 0), (2, 0)), ((0, 1), (1, 1), (2, 1)), ((0, 2), (1, 2), (2, 2)),
     ((0, 0), (1, 1), (2, 2)), ((2, 0), (1, 1), (0, 2))]"

definition filled :: "(nat \<Rightarrow> nat \<Rightarrow> char) \<Rightarrow> char \<Rightarrow> bool" where
  "filled gr c \<longleftrightarrow> c \<noteq> CHR '' '' \<and> list_ex (\<lambda>((i, j), (i', j'), (i'', j'')). gr i j = c \<and> gr i' j' = c \<and> gr i'' j'' = c) lines"

definition board :: "(nat \<times> nat) set" where "board = set (List.product [0..<3] [0..<3])"

definition the_winner :: "(nat \<Rightarrow> nat \<Rightarrow> char) \<Rightarrow> char option" where
  "the_winner gr = (if gr 0 0 \<noteq> CHR '' '' \<and> gr 0 0 = gr 1 1 \<and> gr 0 0 = gr 2 2 then Some (gr 0 0)
     else if gr 2 0 \<noteq> CHR '' '' \<and> gr 2 0 = gr 1 1 \<and> gr 2 0 = gr 0 2 then Some (gr 2 0) else rows_and_columns 3 gr 0)"

lemma rows_three:
  "rows_and_columns 3 gr 0 =
    (if gr 0 0 \<noteq> CHR '' '' \<and> gr 0 0 = gr 0 1 \<and> gr 0 0 = gr 0 2 then Some (gr 0 0)
     else if gr 0 0 \<noteq> CHR '' '' \<and> gr 0 0 = gr 1 0 \<and> gr 0 0 = gr 2 0 then Some (gr 0 0)
     else if gr 1 0 \<noteq> CHR '' '' \<and> gr 1 0 = gr 1 1 \<and> gr 1 0 = gr 1 2 then Some (gr 1 0)
     else if gr 0 1 \<noteq> CHR '' '' \<and> gr 0 1 = gr 1 1 \<and> gr 0 1 = gr 2 1 then Some (gr 0 1)
     else if gr 2 0 \<noteq> CHR '' '' \<and> gr 2 0 = gr 2 1 \<and> gr 2 0 = gr 2 2 then Some (gr 2 0)
     else if gr 0 2 \<noteq> CHR '' '' \<and> gr 0 2 = gr 1 2 \<and> gr 0 2 = gr 2 2 then Some (gr 0 2)
     else None)"
proof -
  have "rows_and_columns 3 gr 0 = rows_and_columns (Suc (Suc (Suc 0))) gr 0" by (simp only: numeral_3_eq_3)
  moreover have "(0 :: nat) + 1 = 1" "(1 :: nat) + 1 = 2" by simp_all
  ultimately show ?thesis by (simp only: rows_and_columns.simps Let_def)
qed

lemma filled_disj:
  "filled gr c \<longleftrightarrow> c \<noteq> CHR '' '' \<and> (gr 0 0 = c \<and> gr 0 1 = c \<and> gr 0 2 = c \<or> gr 1 0 = c \<and> gr 1 1 = c \<and> gr 1 2 = c
     \<or> gr 2 0 = c \<and> gr 2 1 = c \<and> gr 2 2 = c \<or> gr 0 0 = c \<and> gr 1 0 = c \<and> gr 2 0 = c \<or> gr 0 1 = c \<and> gr 1 1 = c \<and> gr 2 1 = c
     \<or> gr 0 2 = c \<and> gr 1 2 = c \<and> gr 2 2 = c \<or> gr 0 0 = c \<and> gr 1 1 = c \<and> gr 2 2 = c \<or> gr 2 0 = c \<and> gr 1 1 = c \<and> gr 0 2 = c)"
  by (simp add: filled_def lines_def)

lemma the_winner_None: "filled gr c \<Longrightarrow> the_winner gr \<noteq> None"
  unfolding filled_disj by (elim conjE disjE) (simp_all add: the_winner_def rows_three)

lemma if_SomeE:
  assumes "(if P then Some x else r) = Some c" and "P \<Longrightarrow> x = c \<Longrightarrow> R" and "r = Some c \<Longrightarrow> R"
  shows R
  using assms by (cases P) auto

lemma the_winner_filled: "the_winner gr = Some c \<Longrightarrow> filled gr c"
  unfolding the_winner_def rows_three by (elim if_SomeE conjE; (hypsubst)?; simp add: filled_disj)

definition all_blank :: "(nat \<Rightarrow> nat \<Rightarrow> char) \<Rightarrow> bool" where
  "all_blank gr \<longleftrightarrow> (\<forall>i < 3. \<forall>j < 3. gr i j = CHR '' '')"

text \<open>The check in terms of the winner.\<close>

lemma winner_case:
  "(if P then f x else if Q then f y else case r of None \<Rightarrow> z | Some v \<Rightarrow> f v)
    = (case if P then Some x else if Q then Some y else r of None \<Rightarrow> z | Some v \<Rightarrow> f v)"
  by simp

lemma check_for_winner_eq:
  "check_for_winner me g =
    (if game_status g \<noteq> GAME_PLAYING then g
     else case the_winner (grid g) of
       Some c \<Rightarrow> say (Won me c) (g\<lparr>game_status := GAME_DONE, winner := (if c = CHR ''X'' then player_x g else player_o g)\<rparr>)
     | None \<Rightarrow> if all_blank (grid g) then say (Draw me) (g\<lparr>game_status := GAME_DONE\<rparr>) else g)"
proof -
  have d: "list_all (\<lambda>i. list_all (\<lambda>j. grid g i j = CHR '' '') [0..<3]) [0..<3] = all_blank (grid g)"
    by (auto simp: list_all_iff all_blank_def)
  have "check_for_winner me g = (if game_status g \<noteq> GAME_PLAYING then g else case the_winner (grid g) of
      Some v \<Rightarrow> assign_winner me v g | None \<Rightarrow> if all_blank (grid g) then assign_draw me g else g)"
    unfolding check_for_winner_def the_winner_def Let_def d winner_case [where f = "\<lambda>v. assign_winner me v g"] ..
  then show ?thesis by (cases "the_winner (grid g)") (simp_all add: assign_winner_def assign_draw_def Let_def)
qed

section \<open>Moves\<close>

text \<open>The moves are the nine fields of the board in some order.\<close>

definition moves_ok :: "game \<Rightarrow> bool" where
  "moves_ok g \<longleftrightarrow> length (moves g) = 9 \<and> set (moves g) = board"

lemma moves_ok_start: "moves_ok s_tictactoe"
  unfolding moves_ok_def by code_simp

lemma moves_ok_upd [simp]:
  "moves_ok (g\<lparr>grid := a\<rparr>) = moves_ok g" "moves_ok (g\<lparr>player_x := x\<rparr>) = moves_ok g" "moves_ok (g\<lparr>player_o := y\<rparr>) = moves_ok g"
  "moves_ok (g\<lparr>game_status := st\<rparr>) = moves_ok g"
  by (simp_all add: moves_ok_def)

definition same_game :: "game \<Rightarrow> game \<Rightarrow> bool" where
  "same_game g g' \<longleftrightarrow> grid g' = grid g \<and> player_x g' = player_x g \<and> player_o g' = player_o g \<and> game_status g' = game_status g
     \<and> winner g' = winner g \<and> said g' = said g"

lemma shuffle_ok: "moves_ok g \<Longrightarrow> moves_ok (shuffle_moves tbl n g) \<and> same_game g (shuffle_moves tbl n g)"
proof (induction n arbitrary: g)
  case 0
  then show ?case by (simp add: same_game_def)
next
  case (Suc n)
  obtain a g1 where a: "next_rand tbl 9 g = (a, g1)" by fastforce
  obtain b g2 where b: "next_rand tbl 9 g1 = (b, g2)" by fastforce
  have ab: "a < 9" "b < 9" "moves g2 = moves g" "same_game g g2"
    using a b by (auto simp: next_rand_def same_game_def)
  let ?g = "g2\<lparr>moves := (moves g2)[a := moves g2 ! b, b := moves g2 ! a]\<rparr>"
  have "moves_ok ?g" using Suc.prems ab by (simp add: moves_ok_def)
  from Suc.IH [OF this] ab(4) show ?case by (simp add: a b Let_def same_game_def)
qed

lemma first_blank_ok:
  "(\<exists>(x, y) \<in> set ms. gr x y = CHR '' '' \<and> first_blank ms c gr = gr(x := (gr x)(y := c)))
   \<or> (\<forall>(x, y) \<in> set ms. gr x y \<noteq> CHR '' '') \<and> first_blank ms c gr = gr"
proof (induction ms)
  case (Cons m ms)
  obtain x y where m: "m = (x, y)" by fastforce
  show ?case
  proof (cases "gr x y = CHR '' ''")
    case True
    then have "first_blank (m # ms) c gr = gr(x := (gr x)(y := c))" by (simp only: m first_blank.simps simp_thms if_True)
    with True m show ?thesis by (intro disjI1 bexI [of _ m]) (simp_all add: fun_upd_def)
  next
    case False
    then have "first_blank (m # ms) c gr = first_blank ms c gr" by (simp add: m)
    with False Cons m show ?thesis by auto
  qed
qed simp

lemma choose_move_ok:
  assumes "moves_ok g" and "game_status g = GAME_PLAYING"
  shows "moves_ok (choose_move tbl me g) \<and> same_game g (choose_move tbl me g\<lparr>grid := grid g\<rparr>)
    \<and> ((\<exists>(x, y) \<in> board. grid g x y = CHR '' '' \<and> grid (choose_move tbl me g) = (grid g)(x := (grid g x)(y := symbol me g)))
       \<or> (\<forall>(x, y) \<in> board. grid g x y \<noteq> CHR '' '') \<and> grid (choose_move tbl me g) = grid g)"
proof -
  let ?g = "shuffle_moves tbl 5 g"
  have s: "moves_ok ?g" "same_game g ?g" using shuffle_ok [OF assms(1)] by simp_all
  have "choose_move tbl me g = ?g\<lparr>grid := first_blank (moves ?g) (symbol me g) (grid g)\<rparr>"
    using assms(2) s(2) by (simp add: choose_move_def same_game_def Let_def)
  then show ?thesis using s first_blank_ok [of "moves ?g" "grid g" "symbol me g"] by (auto simp: moves_ok_def same_game_def)
qed

section \<open>A full board\<close>

definition full :: "game \<Rightarrow> bool" where
  "full g \<longleftrightarrow> (\<forall>(x, y) \<in> board. grid g x y \<noteq> CHR '' '')"

text \<open>Turns of the two players.\<close>

fun turns :: "nat list \<Rightarrow> int list \<Rightarrow> game \<Rightarrow> game" where
  "turns tbl [] g = g"
| "turns tbl (me # ms) g = turns tbl ms (wait_for_turn me (play_tictactoe tbl me g))"

definition stuck :: "game \<Rightarrow> bool" where
  "stuck g \<longleftrightarrow> moves_ok g \<and> full g \<and> the_winner (grid g) = None \<and> game_status g = GAME_PLAYING"

lemma say_sel [simp]:
  "grid (say a g) = grid g" "game_status (say a g) = game_status g" "moves (say a g) = moves g"
  "player_x (say a g) = player_x g" "player_o (say a g) = player_o g" "winner (say a g) = winner g"
  by (simp_all add: say_def)

lemma stuck_turn:
  assumes "stuck g"
  shows "stuck (wait_for_turn me (play_tictactoe tbl me g)) \<and> grid (wait_for_turn me (play_tictactoe tbl me g)) = grid g"
proof -
  have st: "moves_ok g" "full g" "the_winner (grid g) = None" "game_status g = GAME_PLAYING" using assms by (simp_all add: stuck_def)
  let ?p = "plan_move me g"
  have p: "moves_ok ?p" "game_status ?p = GAME_PLAYING" "grid ?p = grid g" using st by (simp_all add: plan_move_def moves_ok_def Let_def)
  let ?c = "choose_move tbl me ?p"
  have c: "moves_ok ?c" "game_status ?c = GAME_PLAYING" "grid ?c = grid g"
    using choose_move_ok [OF p(1,2), of tbl me] p(2,3) st(2) by (auto simp: same_game_def full_def)
  have nb: "\<not> all_blank (grid g)" using st(2) by (force simp: all_blank_def full_def board_def)
  have "check_for_winner me (print_board ?c) = print_board ?c"
    using c st(3) nb by (simp add: check_for_winner_eq print_board_def)
  then have "play_tictactoe tbl me g = (if me \<noteq> player_x g \<and> me \<noteq> player_o g then g else print_board ?c)"
    using st(4) unfolding play_tictactoe_def Let_def by (cases "me \<noteq> player_x g \<and> me \<noteq> player_o g") (simp_all only: simp_thms if_True if_False)
  then show ?thesis using c st by (simp add: stuck_def wait_for_turn_def print_board_def moves_ok_def full_def)
qed

lemma stuck_forever: "stuck g \<Longrightarrow> stuck (turns tbl ms g) \<and> grid (turns tbl ms g) = grid g"
proof (induction ms arbitrary: g)
  case (Cons me ms)
  from stuck_turn [OF Cons.prems, of me tbl] Cons.IH show ?case by fastforce
qed simp

end
