(* ===== verification/Menu.thy ===== *)
theory Menu imports Keyboard Thread_End Wait_Lift begin

text \<open>
  The menus (\<open>src/60-330/menu.c\<close>), the lists of jobs and the run of a simulation
  (\<open>src/60-330/simulation.c\<close>), and the part of \<open>src/60-330/stat.c\<close> that asks and prints.  A menu works on
  the key codes that \<open>wait_for_key\<close> returns to it one after the other, \<open>typed\<close>; \<open>None\<close> means that it still
  waits for a key.  \<open>shown\<close> are the calls of \<open>cons_write\<close> and \<open>cons_printf\<close>.
\<close>

section \<open>Lists of jobs\<close>

text \<open>The functions whose addresses the lists hold.\<close>

record job_addresses =
  fn1_at :: nat
  fn2_at :: nat
  fn3_at :: nat
  interrupt_toggler_at :: nat
  peterson_player_at :: nat
  mutex_poet_at :: nat

definition a_job :: "nat \<Rightarrow> int \<Rightarrow> int \<Rightarrow> job" where
  "a_job f burst pr = \<lparr>fn_ptr = f, cpu_burst = burst, jpriority = pr\<rparr>"

definition NUM_SCHEDULER_SIM :: nat where "NUM_SCHEDULER_SIM = 4"
definition NUM_SYNCH_SIM :: nat where "NUM_SYNCH_SIM = 3"
definition SCHEDULER_SIM_LENGTH :: nat where "SCHEDULER_SIM_LENGTH = 6"

definition g_scheduler_sim :: "job_addresses \<Rightarrow> job list list" where
  "g_scheduler_sim a =
    [[a_job (fn1_at a) 10 4, a_job (fn1_at a) 10 3, a_job (fn1_at a) 10 2, a_job (fn1_at a) 10 1, a_job (fn1_at a) 10 5, a_job (fn1_at a) 10 6],
     [a_job (fn3_at a) 30 2, a_job (fn3_at a) 30 3, a_job (fn3_at a) 30 5, a_job (fn3_at a) 30 1, a_job (fn3_at a) 30 6, a_job (fn3_at a) 30 4],
     [a_job (fn2_at a) 20 1, a_job (fn1_at a) 10 6, a_job (fn3_at a) 30 2, a_job (fn1_at a) 10 5, a_job (fn3_at a) 30 4, a_job (fn2_at a) 20 3],
     [a_job (fn1_at a) 10 6, a_job (fn2_at a) 20 5, a_job (fn3_at a) 30 4, a_job (fn1_at a) 10 3, a_job (fn2_at a) 20 2, a_job (fn3_at a) 30 1]]"

definition g_preemption_toggle_sim :: "job_addresses \<Rightarrow> job list" where
  "g_preemption_toggle_sim a = [a_job (fn1_at a) 10 1, a_job (interrupt_toggler_at a) 10 1, a_job (fn1_at a) 10 1]"

definition g_peterson_sim :: "job_addresses \<Rightarrow> job list" where
  "g_peterson_sim a = [a_job (peterson_player_at a) 10 1, a_job (peterson_player_at a) 10 1]"

definition g_mutex_sim :: "job_addresses \<Rightarrow> job list" where
  "g_mutex_sim a = [a_job (mutex_poet_at a) 10 1, a_job (mutex_poet_at a) 10 1, a_job (mutex_poet_at a) 10 1,
     a_job (mutex_poet_at a) 10 1, a_job (mutex_poet_at a) 10 1]"

definition g_synch_sim :: "job_addresses \<Rightarrow> job list list" where
  "g_synch_sim a = [g_preemption_toggle_sim a, g_peterson_sim a, g_mutex_sim a]"

definition g_synch_sim_length :: "nat list" where "g_synch_sim_length = [3, 2, 5]"

section \<open>Prompts\<close>

record menu_io =
  typed :: "u16 list"
  shown :: "(string \<times> int list) list"

definition show_text :: "string \<Rightarrow> int list \<Rightarrow> menu_io \<Rightarrow> menu_io" where
  "show_text fmt args m = m\<lparr>shown := shown m @ [(fmt, args)]\<rparr>"

text \<open>The loops that wait for a valid key code.\<close>

fun valid_key :: "(u16 \<Rightarrow> bool) \<Rightarrow> u16 list \<Rightarrow> (u16 \<times> u16 list) option" where
  "valid_key ok [] = None"
| "valid_key ok (c # cs) = (if ok c then Some (c, cs) else valid_key ok cs)"

text \<open>A prompt, the wait for one of the digits from 1 to \<open>n\<close>, and its echo.\<close>

definition ask_digit :: "string \<Rightarrow> int list \<Rightarrow> u16 \<Rightarrow> menu_io \<Rightarrow> (u16 \<times> menu_io) option" where
  "ask_digit prompt args n m = do {
     let m = show_text prompt args m;
     (keycode, rst) \<leftarrow> valid_key (\<lambda>c. 0x31 \<le> c \<and> c \<le> 0x30 + n) (typed m);
     Some (keycode, show_text ''%c\<newline>'' [uint keycode] (m\<lparr>typed := rst\<rparr>))
   }"

definition scheduler_prompt :: string where
  "scheduler_prompt = ''Enter a number to select a scheduler:\<newline>'' @ ''   1) FCFS\<newline>'' @ ''   2) SJF\<newline>''
       @ ''   3) Priority\<newline>'' @ ''   4) RR\<newline>'' @ ''Your selection: ''"
definition quantum_prompt :: string where
  "quantum_prompt = ''Enter a number to select a time quantum:\<newline>'' @ ''   1) %d\<newline>'' @ ''   2) %d\<newline>''
       @ ''   3) %d\<newline>'' @ ''Your selection: ''"
definition scheduler_simulation_prompt :: string where
  "scheduler_simulation_prompt = ''Enter a number to select a list of jobs:\<newline>'' @ ''   1) All short\<newline>'' @ ''   2) All long\<newline>''
       @ ''   3) Mixed short and long\<newline>'' @ ''   4) Randomized\<newline>'' @ ''Your selection: ''"
definition synch_simulation_prompt :: string where
  "synch_simulation_prompt = ''Enter a number to select a synchronization simulation:\<newline>'' @ ''   1) Pre-emption toggle\<newline>''
       @ ''   2) Peterson's Solution\<newline>'' @ ''   3) Mutex\<newline>'' @ ''Your selection: ''"
definition main_prompt :: string where
  "main_prompt = ''Enter a number to select a simulation:\<newline>'' @ ''   1) Synchronization\<newline>'' @ ''   2) Scheduling\<newline>''
       @ ''Your selection: ''"

definition RR_QUANTUM1 :: int where "RR_QUANTUM1 = 8"
definition RR_QUANTUM2 :: int where "RR_QUANTUM2 = 32"
definition RR_QUANTUM3 :: int where "RR_QUANTUM3 = 128"

definition get_scheduler :: "menu_io \<Rightarrow> (scheduler \<times> menu_io) option" where
  "get_scheduler m = do {
     (keycode, m) \<leftarrow> ask_digit scheduler_prompt [] 4 m;
     Some (if keycode = 0x31 then FCFS else if keycode = 0x32 then SJF else if keycode = 0x33 then PRIORITY
           else if keycode = 0x34 then RR else FCFS, m)
   }"

definition get_quantum :: "menu_io \<Rightarrow> (int \<times> menu_io) option" where
  "get_quantum m = do {
     (keycode, m) \<leftarrow> ask_digit quantum_prompt [RR_QUANTUM1, RR_QUANTUM2, RR_QUANTUM3] 3 m;
     Some (if keycode = 0x31 then RR_QUANTUM1 else if keycode = 0x32 then RR_QUANTUM2 else if keycode = 0x33 then RR_QUANTUM3
           else RR_QUANTUM1, m)
   }"

definition get_scheduler_simulation :: "job_addresses \<Rightarrow> menu_io \<Rightarrow> ((job list \<times> nat) \<times> menu_io) option" where
  "get_scheduler_simulation a m = do {
     (keycode, m) \<leftarrow> ask_digit scheduler_simulation_prompt [] 4 m;
     Some ((g_scheduler_sim a ! unat (keycode - 0x31), SCHEDULER_SIM_LENGTH), m)
   }"

definition get_synch_simulation :: "job_addresses \<Rightarrow> kernel \<times> menu_io \<Rightarrow> ((job list \<times> nat) \<times> kernel \<times> menu_io) option" where
  "get_synch_simulation a = (\<lambda>(k, m). do {
     (keycode, m) \<leftarrow> ask_digit synch_simulation_prompt [] 3 m;
     let k = k\<lparr>g_scheduler := RR, g_quantum := 24\<rparr>;
     Some ((g_synch_sim a ! unat (keycode - 0x31), g_synch_sim_length ! unat (keycode - 0x31)), k, m)
   })"

text \<open>The main menu up to the call of \<open>run_simulation\<close>.\<close>

definition main_menu :: "job_addresses \<Rightarrow> kernel \<times> menu_io \<Rightarrow> ((job list \<times> nat) \<times> kernel \<times> menu_io) option" where
  "main_menu a = (\<lambda>(k, m). do {
     (keycode, m) \<leftarrow> ask_digit main_prompt [] 2 m;
     if keycode = 0x31 then get_synch_simulation a (k, m)
     else do {
       (sc, m) \<leftarrow> get_scheduler m;
       let k = k\<lparr>g_scheduler := sc\<rparr>;
       (k, m) \<leftarrow> (if sc = RR then do { (qn, m) \<leftarrow> get_quantum m; Some (k\<lparr>g_quantum := qn\<rparr>, m) } else Some (k, m));
       (sim, m) \<leftarrow> get_scheduler_simulation a m;
       Some (sim, k, m)
     }
   })"

section \<open>Running a simulation\<close>

text \<open>\<open>run_simulation\<close> up to the wait for the children, and what follows it.\<close>

definition run_simulation ::
  "job list \<Rightarrow> nat \<Rightarrow> kernel \<times> irq_state \<times> menu_io \<Rightarrow> (irq_state \<times> menu_io, nat list) waits" where
  "run_simulation simulation len = (\<lambda>(k, i, m). do {
     (k, i) \<leftarrow> irq_disable KEYB_IRQ (k, i);
     with_kernel (long_term_scheduler (take len simulation) THREAD_ATTACHED) (k\<lparr>g_simulation_active := True\<rparr>, i, m)
   })"

definition ask_for_stats :: "menu_io \<Rightarrow> (bool \<times> menu_io) option" where
  "ask_for_stats m = do {
     let m = show_text ''View runtime statistics? (y/n): '' [] m;
     (keycode, rst) \<leftarrow> valid_key (\<lambda>c. c = 0x79 \<or> c = 0x6E) (typed m);
     Some (keycode = 0x79, show_text ''%c\<newline>'' [uint keycode] (m\<lparr>typed := rst\<rparr>))
   }"

fun print_stat_rows :: "simulation_stat list \<Rightarrow> menu_io \<Rightarrow> menu_io" where
  "print_stat_rows [] m = m"
| "print_stat_rows (st # sts) m = print_stat_rows sts (show_text (''%d'' @ [CHR 0x09] @ ''%lu'' @ [CHR 0x09, CHR 0x09] @ ''%lu''
     @ [CHR 0x09, CHR 0x09] @ ''%lu\<newline>'') [st_pid st, uint (st_wait st), uint (st_response st), uint (st_turnaround st)] m)"

definition print_simulation_stat_table :: "simulation_stat list \<Rightarrow> simulation_stat \<Rightarrow> menu_io \<Rightarrow> menu_io" where
  "print_simulation_stat_table statlist average m = (
     let m = show_text (''PID'' @ [CHR 0x09] @ ''Wait Time'' @ [CHR 0x09] @ ''Response'' @ [CHR 0x09] @ ''Turnaround\<newline>'') [] m;
         m = print_stat_rows statlist m
     in show_text (''Ave:'' @ [CHR 0x09] @ ''%lu'' @ [CHR 0x09, CHR 0x09] @ ''%lu'' @ [CHR 0x09, CHR 0x09] @ ''%lu\<newline>'')
          [uint (st_wait average), uint (st_response average), uint (st_turnaround average)] m)"

definition run_simulation_end ::
  "simulation_stat list \<Rightarrow> kernel \<times> irq_state \<times> menu_io \<Rightarrow> (kernel \<times> irq_state \<times> menu_io) option" where
  "run_simulation_end stats = (\<lambda>(k, i, m). do {
     let k = k\<lparr>g_simulation_active := False\<rparr>;
     average \<leftarrow> calculate_simulation_stat_average stats;
     (k, i) \<leftarrow> irq_enable KEYB_IRQ (k, i);
     (yes, m) \<leftarrow> ask_for_stats m;
     Some (k, i, if yes then print_simulation_stat_table stats average m else m)
   })"

text \<open>The first thing that every job does.\<close>

definition first_response :: "string \<Rightarrow> kernel \<Rightarrow> kernel option" where
  "first_response fn_name s = do {
     (iflag, s) \<leftarrow> int_begin_atomic s;
     p \<leftarrow> process_of (g_current s) s;
     let s = s\<lparr>klog := klog s @ [Starting (pid p) (priority p) fn_name]\<rparr>;
     let s = upd_process (g_current s) (\<lambda>p. p\<lparr>time := (time p)\<lparr>first_resp := g_numticks s\<rparr>\<rparr>) s;
     int_end_atomic iflag s
   }"

section \<open>What the menus choose\<close>

lemma valid_key_iff:
  "valid_key ok cs = Some (c, rst) \<longleftrightarrow> (\<exists>skipped. cs = skipped @ c # rst \<and> ok c \<and> (\<forall>x \<in> set skipped. \<not> ok x))"
proof (induction cs)
  case (Cons x xs)
  show ?case
  proof (cases "ok x")
    case True
    then show ?thesis by (auto simp: Cons_eq_append_conv)
  next
    case False
    then show ?thesis using Cons by (auto simp: Cons_eq_append_conv)
  qed
qed simp

lemma valid_key_None: "valid_key ok cs = None \<longleftrightarrow> (\<forall>x \<in> set cs. \<not> ok x)"
  by (induction cs) auto

lemma digit_cases: "0x31 \<le> c \<Longrightarrow> c \<le> 0x34 \<Longrightarrow> c \<in> {0x31, 0x32, 0x33, 0x34}" for c :: u16
proof -
  assume "0x31 \<le> c" "c \<le> 0x34"
  then have "49 \<le> unat c" "unat c \<le> 52" by (simp_all add: word_le_nat_alt)
  then have "unat c = 49 \<or> unat c = 50 \<or> unat c = 51 \<or> unat c = 52" by linarith
  then show ?thesis by (auto simp: word_unat_eq_iff)
qed

text \<open>The lengths that go with the lists of jobs are their lengths.\<close>

lemma simulations_lengths:
  "length (g_scheduler_sim a) = NUM_SCHEDULER_SIM \<and> (\<forall>l \<in> set (g_scheduler_sim a). length l = SCHEDULER_SIM_LENGTH)"
  "length (g_synch_sim a) = NUM_SYNCH_SIM \<and> map length (g_synch_sim a) = g_synch_sim_length"
  by (simp_all add: g_scheduler_sim_def g_synch_sim_def g_synch_sim_length_def NUM_SCHEDULER_SIM_def NUM_SYNCH_SIM_def SCHEDULER_SIM_LENGTH_def
      g_preemption_toggle_sim_def g_peterson_sim_def g_mutex_sim_def)

lemma ask_digit_Some:
  assumes "ask_digit p as n m = Some (c, m')" and "n \<le> 4"
  shows "c \<in> {0x31, 0x32, 0x33, 0x34}" "c \<le> 0x30 + n"
proof -
  obtain rst where "valid_key (\<lambda>c. 0x31 \<le> c \<and> c \<le> 0x30 + n) (typed (show_text p as m)) = Some (c, rst)"
    using assms(1) by (auto simp: ask_digit_def bind_eq_Some_conv Let_def)
  then have c: "0x31 \<le> c" "c \<le> 0x30 + n" by (auto simp: valid_key_iff)
  have "n = 0 \<or> n = 1 \<or> n = 2 \<or> n = 3 \<or> n = 4"
  proof -
    have "unat n \<le> 4" using assms(2) by (simp add: word_le_nat_alt)
    then have "unat n = 0 \<or> unat n = 1 \<or> unat n = 2 \<or> unat n = 3 \<or> unat n = 4" by linarith
    then show ?thesis by (auto simp: word_unat_eq_iff)
  qed
  then have "0x30 + n \<le> 0x34" by auto
  with c show "c \<in> {0x31, 0x32, 0x33, 0x34}" "c \<le> 0x30 + n" using digit_cases [of c] order_trans by blast+
qed

text \<open>Whatever is typed, the main menu returns one of the seven lists with its length, and a scheduler
  under which the quantum is one of the four when it is round robin.\<close>

lemma main_menu_choice:
  assumes "main_menu a (k, m) = Some ((jobs, len), k', m')"
  shows "jobs \<in> set (g_scheduler_sim a) \<union> set (g_synch_sim a)" and "length jobs = len"
    and "g_scheduler k' = RR \<longrightarrow> g_quantum k' \<in> {24, RR_QUANTUM1, RR_QUANTUM2, RR_QUANTUM3}"
    and "\<exists>sc qn. k' = k\<lparr>g_scheduler := sc, g_quantum := qn\<rparr>"
proof -
  obtain c m1 where c: "ask_digit main_prompt [] 2 m = Some (c, m1)"
    and r: "if c = 0x31 then get_synch_simulation a (k, m1) = Some ((jobs, len), k', m') else
      (do {
       (sc, m) \<leftarrow> get_scheduler m1;
       let k = k\<lparr>g_scheduler := sc\<rparr>;
       (k, m) \<leftarrow> (if sc = RR then do { (qn, m) \<leftarrow> get_quantum m; Some (k\<lparr>g_quantum := qn\<rparr>, m) } else Some (k, m));
       (sim, m) \<leftarrow> get_scheduler_simulation a m;
       Some (sim, k, m)
     }) = Some ((jobs, len), k', m')"
    using assms by (auto simp: main_menu_def bind_eq_Some_conv split: if_splits)
  have "jobs \<in> set (g_scheduler_sim a) \<union> set (g_synch_sim a) \<and> length jobs = len
    \<and> (g_scheduler k' = RR \<longrightarrow> g_quantum k' \<in> {24, RR_QUANTUM1, RR_QUANTUM2, RR_QUANTUM3})
    \<and> (\<exists>sc qn. k' = k\<lparr>g_scheduler := sc, g_quantum := qn\<rparr>)"
  proof (cases "c = 0x31")
    case True
    then obtain d m2 where a: "ask_digit synch_simulation_prompt [] 3 m1 = Some (d, m2)" "jobs = g_synch_sim a ! unat (d - 0x31)"
      "len = g_synch_sim_length ! unat (d - 0x31)" "k' = k\<lparr>g_scheduler := RR, g_quantum := 24\<rparr>"
      using r by (auto simp: get_synch_simulation_def bind_eq_Some_conv Let_def)
    have d: "d \<in> {0x31, 0x32, 0x33, 0x34}" "d \<le> 0x33" using ask_digit_Some [OF a(1)] by simp_all
    then have "d \<in> {0x31, 0x32, 0x33}" by auto
    then have "jobs \<in> set (g_synch_sim a) \<and> length jobs = len"
      using a(2,3) by (auto simp: g_synch_sim_def g_synch_sim_length_def g_preemption_toggle_sim_def g_peterson_sim_def g_mutex_sim_def)
    with a(4) show ?thesis by auto
  next
    case False
    then obtain sc m2 k3 m3 where s: "get_scheduler m1 = Some (sc, m2)"
      "(if sc = RR then do { (qn, m) \<leftarrow> get_quantum m2; Some (k\<lparr>g_scheduler := sc\<rparr>\<lparr>g_quantum := qn\<rparr>, m) }
        else Some (k\<lparr>g_scheduler := sc\<rparr>, m2)) = Some (k3, m3)"
      "get_scheduler_simulation a m3 = Some ((jobs, len), m')" "k' = k3"
      using r by (auto simp: bind_eq_Some_conv Let_def)
    obtain d m4 where a: "ask_digit scheduler_simulation_prompt [] 4 m3 = Some (d, m4)"
      and d: "jobs = g_scheduler_sim a ! unat (d - 0x31)" "len = SCHEDULER_SIM_LENGTH"
      using s(3) by (auto simp: get_scheduler_simulation_def bind_eq_Some_conv)
    have "d \<in> {0x31, 0x32, 0x33, 0x34}" using ask_digit_Some(1) [OF a] by simp
    have "jobs \<in> set (g_scheduler_sim a) \<and> length jobs = len"
      using d \<open>d \<in> _\<close> by (auto simp: g_scheduler_sim_def SCHEDULER_SIM_LENGTH_def)
    moreover have "(sc = RR \<longrightarrow> g_quantum k3 \<in> {RR_QUANTUM1, RR_QUANTUM2, RR_QUANTUM3}) \<and> g_scheduler k3 = sc
      \<and> (\<exists>qn. k3 = k\<lparr>g_scheduler := sc, g_quantum := qn\<rparr>)"
    proof (cases "sc = RR")
      case True
      then obtain qn where "get_quantum m2 = Some (qn, m3)" "k3 = k\<lparr>g_scheduler := sc, g_quantum := qn\<rparr>"
        using s(2) by (auto simp: bind_eq_Some_conv)
      moreover from this(1) have "qn \<in> {RR_QUANTUM1, RR_QUANTUM2, RR_QUANTUM3}"
        by (auto simp: get_quantum_def bind_eq_Some_conv split: if_splits)
      ultimately show ?thesis using True by auto
    next
      case False
      then have k3: "k3 = k\<lparr>g_scheduler := sc\<rparr>" using s(2) by auto
      then have "\<exists>qn. k3 = k\<lparr>g_scheduler := sc, g_quantum := qn\<rparr>" by (intro exI [of _ "g_quantum k"]) simp
      moreover have "g_scheduler k3 = sc" by (simp add: k3)
      ultimately show ?thesis using False by blast
    qed
    ultimately show ?thesis using s(4) by blast
  qed
  then show "jobs \<in> set (g_scheduler_sim a) \<union> set (g_synch_sim a)" and "length jobs = len"
    and "g_scheduler k' = RR \<longrightarrow> g_quantum k' \<in> {24, RR_QUANTUM1, RR_QUANTUM2, RR_QUANTUM3}"
    and "\<exists>sc qn. k' = k\<lparr>g_scheduler := sc, g_quantum := qn\<rparr>" by blast+
qed

end
