(* ===== verification/Ata.thy ===== *)
theory Ata imports X86_Interrupts begin

text \<open>
  The ATA driver (\<open>src/x86/kernel/x86_ata.c\<close>): it resets the controller, runs the diagnostics and
  identifies the first drive.  Every read of the status register consumes one value of the stream
  \<open>status\<close>, and \<open>info\<close> are the 256 words of the identification.  The result of an operation holds the number
  of status reads so far; \<open>None\<close> is a loop that does not end.
\<close>

definition ATA_DATA_REG :: u16 where "ATA_DATA_REG = 0x1F0"
definition ATA_DRIVE_HEAD_REG :: u16 where "ATA_DRIVE_HEAD_REG = 0x1F6"
definition ATA_CMD_REG :: u16 where "ATA_CMD_REG = 0x1F7"
definition ATA_DEV_CTRL_REG :: u16 where "ATA_DEV_CTRL_REG = 0x3F6"
definition ATA_DCR_NOINTERRUPT :: u8 where "ATA_DCR_NOINTERRUPT = push_bit 1 1"
definition ATA_DCR_RESET :: u8 where "ATA_DCR_RESET = push_bit 2 1"
definition ATA_STATUS_DRIVE_BUSY :: u8 where "ATA_STATUS_DRIVE_BUSY = push_bit 7 1"
definition ATA_STATUS_DRIVE_DATA_REQUEST :: u8 where "ATA_STATUS_DRIVE_DATA_REQUEST = push_bit 3 1"
definition ATA_INDENT_NUM_CYLINDERS :: nat where "ATA_INDENT_NUM_CYLINDERS = 0x01"
definition ATA_INDENT_NUM_HEADS :: nat where "ATA_INDENT_NUM_HEADS = 0x03"
definition ATA_INDENT_NUM_SECTORS_TRACK :: nat where "ATA_INDENT_NUM_SECTORS_TRACK = 0x06"
definition ATA_CMD_IDENTIFY_DRIVE :: u8 where "ATA_CMD_IDENTIFY_DRIVE = 0xEC"
definition ATA_CMD_DIAGNOSTIC :: u8 where "ATA_CMD_DIAGNOSTIC = 0x90"

text \<open>The ports, the number of status reads and what is printed.\<close>

record ata = irq_state +
  reads :: nat
  ata_printed :: "(string \<times> int list) list"

definition ata_outb :: "u16 \<Rightarrow> u8 \<Rightarrow> ata \<Rightarrow> ata" where
  "ata_outb port v s = s\<lparr>port_out := port_out s @ [(port, v)]\<rparr>"

definition ata_print :: "string \<Rightarrow> int list \<Rightarrow> ata \<Rightarrow> ata" where
  "ata_print fmt args s = s\<lparr>ata_printed := ata_printed s @ [(fmt, args)]\<rparr>"

partial_function (option) wait_not_busy :: "(nat \<Rightarrow> u8) \<Rightarrow> nat \<Rightarrow> nat option" where
  "wait_not_busy status n = (if status n AND ATA_STATUS_DRIVE_BUSY \<noteq> 0 then wait_not_busy status (n + 1) else Some (n + 1))"

definition ata_wait :: "(nat \<Rightarrow> u8) \<Rightarrow> ata \<Rightarrow> ata option" where
  "ata_wait status s = do { n \<leftarrow> wait_not_busy status (reads s); Some (s\<lparr>reads := n\<rparr>) }"

definition ata_read_drive_config :: "(nat \<Rightarrow> u8) \<Rightarrow> u16 list \<Rightarrow> int \<Rightarrow> ata \<Rightarrow> (int \<times> ata) option" where
  "ata_read_drive_config status info drive s = do {
     let s = ata_outb ATA_DRIVE_HEAD_REG (word_of_int (0xA0 + drive * 16)) s;
     let s = ata_outb ATA_CMD_REG ATA_CMD_IDENTIFY_DRIVE s;
     s \<leftarrow> ata_wait status s;
     let st = status (reads s);
     let s = s\<lparr>reads := reads s + 1\<rparr>;
     if st AND ATA_STATUS_DRIVE_DATA_REQUEST \<noteq> 0 then
       (let num_cylinders = info ! ATA_INDENT_NUM_CYLINDERS;
            num_heads = info ! ATA_INDENT_NUM_HEADS;
            num_sectors = info ! ATA_INDENT_NUM_SECTORS_TRACK;
            s = ata_print ''  Found ATA drive %d'' [drive] s;
            s = ata_print '': cyl=%d, heads=%d, sectors=%d\<newline>'' [uint num_cylinders, uint num_heads, uint num_sectors] s
        in Some (0, s))
     else Some (-1, s)
   }"

definition ata_init :: "(nat \<Rightarrow> u8) \<Rightarrow> u16 list \<Rightarrow> ata \<Rightarrow> ata option" where
  "ata_init status info s = do {
     let s = ata_outb ATA_DEV_CTRL_REG (ATA_DCR_NOINTERRUPT OR ATA_DCR_RESET) s;
     let s = s\<lparr>reads := reads s + 5\<rparr>;
     let s = ata_outb ATA_DEV_CTRL_REG ATA_DCR_NOINTERRUPT s;
     s \<leftarrow> ata_wait status s;
     let s = ata_outb ATA_CMD_REG ATA_CMD_DIAGNOSTIC s;
     s \<leftarrow> ata_wait status s;
     (rc, s) \<leftarrow> ata_read_drive_config status info 0 s;
     Some (if rc \<noteq> 0 then ata_print ''Ata_init: No drive found\<newline>'' [] s else s)
   }"

section \<open>The initialisation ends\<close>

definition ready :: "(nat \<Rightarrow> u8) \<Rightarrow> nat \<Rightarrow> bool" where
  "ready status n \<longleftrightarrow> status n AND ATA_STATUS_DRIVE_BUSY = 0"

interpretation disk: poll_loop "\<lambda>n. status n AND ATA_STATUS_DRIVE_BUSY \<noteq> 0" "wait_not_busy status" for status
  by standard (rule wait_not_busy.simps)

lemma ata_wait_ends:
  assumes "\<forall>n. \<exists>m \<ge> n. ready status m"
  shows "\<exists>n > reads s. ata_wait status s = Some (s\<lparr>reads := n\<rparr>) \<and> ready status (n - 1)"
proof -
  obtain m where "reads s \<le> m" "ready status m" using assms by blast
  with disk.ends [of status m "reads s"] obtain j where "reads s \<le> j" "ready status j" "wait_not_busy status (reads s) = Some (j + 1)"
    by (auto simp: ready_def)
  then show ?thesis by (intro exI [of _ "j + 1"]) (simp add: ata_wait_def)
qed

text \<open>A controller that is ready again and again: the driver gets through, and reports either the drive or
  that there is none.\<close>

lemma ata_init_ends:
  assumes "\<forall>n. \<exists>m \<ge> n. ready status m"
  shows "\<exists>s'. ata_init status info s = Some s' \<and>
    (ata_printed s' = ata_printed s @ [(''Ata_init: No drive found\<newline>'', [])]
     \<or> ata_printed s' = ata_printed s @ [(''  Found ATA drive %d'', [0]),
         ('': cyl=%d, heads=%d, sectors=%d\<newline>'', [uint (info ! 1), uint (info ! 3), uint (info ! 6)])])"
proof -
  note w = ata_wait_ends [OF assms]
  let ?s1 = "ata_outb ATA_DEV_CTRL_REG ATA_DCR_NOINTERRUPT ((ata_outb ATA_DEV_CTRL_REG (ATA_DCR_NOINTERRUPT OR ATA_DCR_RESET) s)\<lparr>reads := reads s + 5\<rparr>)"
  obtain n1 where n1: "ata_wait status ?s1 = Some (?s1\<lparr>reads := n1\<rparr>)" using w [of ?s1] by blast
  let ?s2 = "ata_outb ATA_CMD_REG ATA_CMD_DIAGNOSTIC (?s1\<lparr>reads := n1\<rparr>)"
  obtain n2 where n2: "ata_wait status ?s2 = Some (?s2\<lparr>reads := n2\<rparr>)" using w [of ?s2] by blast
  let ?s3 = "ata_outb ATA_CMD_REG ATA_CMD_IDENTIFY_DRIVE (ata_outb ATA_DRIVE_HEAD_REG (word_of_int (0xA0 + 0 * 16)) (?s2\<lparr>reads := n2\<rparr>))"
  obtain n3 where n3: "ata_wait status ?s3 = Some (?s3\<lparr>reads := n3\<rparr>)" using w [of ?s3] by blast
  have e: "reads (ata_outb p v s) = reads s" "ata_printed (ata_outb p v s) = ata_printed s" for p v s by (simp_all add: ata_outb_def)
  have i: "ata_init status info s = do { (rc, s) \<leftarrow> ata_read_drive_config status info 0 (?s2\<lparr>reads := n2\<rparr>);
      Some (if rc \<noteq> 0 then ata_print ''Ata_init: No drive found\<newline>'' [] s else s) }"
    using n1 n2 by (simp add: ata_init_def e Let_def)
  show ?thesis
  proof (cases "status n3 AND ATA_STATUS_DRIVE_DATA_REQUEST \<noteq> 0")
    case True
    then have "\<exists>s'. ata_read_drive_config status info 0 (?s2\<lparr>reads := n2\<rparr>) = Some (0, s') \<and> ata_printed s' = ata_printed s @
        [(''  Found ATA drive %d'', [0]), ('': cyl=%d, heads=%d, sectors=%d\<newline>'', [uint (info ! 1), uint (info ! 3), uint (info ! 6)])]"
      using n3 by (simp add: ata_read_drive_config_def Let_def e ata_print_def ATA_INDENT_NUM_CYLINDERS_def ATA_INDENT_NUM_HEADS_def
          ATA_INDENT_NUM_SECTORS_TRACK_def)
    then show ?thesis unfolding i by auto
  next
    case False
    then have "\<exists>s'. ata_read_drive_config status info 0 (?s2\<lparr>reads := n2\<rparr>) = Some (-1, s') \<and> ata_printed s' = ata_printed s"
      using n3 by (simp add: ata_read_drive_config_def Let_def e)
    then show ?thesis unfolding i by (auto simp: ata_print_def)
  qed
qed

end
