(* ===== verification/Players.thy ===== *)
theory Players imports Peterson Tictactoe begin

text \<open>
  The players of the demonstration of Peterson's algorithm (\<open>peterson_player\<close>, \<open>src/60-330/job.c\<close>): two threads
  that join the game of \<open>Tictactoe\<close> and then play with \<open>Peterson\<close> as their lock.  They are interleaved between
  any two accesses to the variables of the lock and any two tests of the state of the game; one call of
  \<open>play_tictactoe\<close> or of \<open>wait_for_turn\<close> is one step.  \<open>join_tictactoe_game\<close> tests the state of the game before it switches the interrupts
  off: the test and what follows are two steps.  A thread is named by a value of \<open>peterson_index_t\<close> and \<open>ids\<close>
  gives its process id; the index that it passes to \<open>peterson\<close> is that of its symbol.  The calls of \<open>first_response\<close>
  before and of \<open>thread_exit\<close> after it do not touch the game.
\<close>

section \<open>The program\<close>

datatype player_pc = Test_ready | Enter bool | Loop char | In_turn char peterson_pc | Exited

text \<open>\<open>join_tictactoe_game\<close> after the test.\<close>

definition join_rest :: "bool \<Rightarrow> int \<Rightarrow> game \<Rightarrow> char \<times> game" where
  "join_rest ready me g =
     (if ready
      then (CHR ''O'', say (Joining me (player_x g)) (g\<lparr>player_o := me, game_status := GAME_PLAYING\<rparr>))
      else (CHR ''X'', start_tictactoe_game me g))"

lemma join_split: "join_tictactoe_game me g = join_rest (game_status g = GAME_READY) me g"
  by (simp add: join_tictactoe_game_def join_rest_def)

definition index_of :: "char \<Rightarrow> peterson_index_t" where
  "index_of c = (if c = CHR ''X'' then P_I else P_J)"

definition peterson_player :: "nat list \<Rightarrow> int \<Rightarrow> player_pc \<Rightarrow> peterson_t \<times> game \<Rightarrow> player_pc \<times> peterson_t \<times> game" where
  "peterson_player tbl me pc = (\<lambda>(p, g). case pc of
     Test_ready \<Rightarrow> (Enter (game_status g = GAME_READY), p, g)
   | Enter ready \<Rightarrow> let (c, g) = join_rest ready me g in (Loop c, p, g)
   | Loop c \<Rightarrow> (if game_status g \<noteq> GAME_DONE then In_turn c Set_flag else Exited, p, g)
   | In_turn c q \<Rightarrow>
       let (q, p, g) = peterson (play_tictactoe tbl me) (wait_for_turn me) (index_of c) q (p, g)
       in (if q = Returned then Loop c else In_turn c q, p, g)
   | Exited \<Rightarrow> (Exited, p, g))"

type_synonym match = "(peterson_index_t \<Rightarrow> player_pc) \<times> peterson_t \<times> game"

definition match_step :: "nat list \<Rightarrow> (peterson_index_t \<Rightarrow> int) \<Rightarrow> peterson_index_t \<times> unit \<Rightarrow> match \<Rightarrow> match" where
  "match_step tbl ids = (\<lambda>(t, _) (pc, s). let (c, s) = peterson_player tbl (ids t) (pc t) s in (pc(t := c), s))"

fun match_run :: "nat list \<Rightarrow> (peterson_index_t \<Rightarrow> int) \<Rightarrow> (nat \<Rightarrow> peterson_index_t \<times> unit) \<Rightarrow> nat \<Rightarrow> match \<Rightarrow> match" where
  "match_run tbl ids sched 0 s = s"
| "match_run tbl ids sched (Suc n) s = match_step tbl ids (sched n) (match_run tbl ids sched n s)"

section \<open>What a turn does to the game\<close>

lemma play_not_playing: "game_status g \<noteq> GAME_PLAYING \<Longrightarrow> play_tictactoe tbl me g = g"
  by (simp add: play_tictactoe_def)

lemma wait_for_turn_sel [simp]:
  "game_status (wait_for_turn me g) = game_status g" "player_x (wait_for_turn me g) = player_x g"
  "player_o (wait_for_turn me g) = player_o g" "winner (wait_for_turn me g) = winner g" "grid (wait_for_turn me g) = grid g"
  by (simp_all add: wait_for_turn_def)

lemma shuffle_players:
  "player_x (shuffle_moves tbl n g) = player_x g \<and> player_o (shuffle_moves tbl n g) = player_o g
    \<and> game_status (shuffle_moves tbl n g) = game_status g"
  by (induction n arbitrary: g) (simp_all add: next_rand_def Let_def)

lemma choose_move_players [simp]:
  "player_x (choose_move tbl me g) = player_x g" "player_o (choose_move tbl me g) = player_o g"
  "game_status (choose_move tbl me g) = game_status g"
  using shuffle_players [of tbl 5 g] by (simp_all add: choose_move_def Let_def)

lemma play_players:
  "player_x (play_tictactoe tbl me g) = player_x g" "player_o (play_tictactoe tbl me g) = player_o g"
  "game_status g = GAME_PLAYING \<Longrightarrow> game_status (play_tictactoe tbl me g) \<in> {GAME_PLAYING, GAME_DONE}"
  by (auto simp: play_tictactoe_def Let_def check_for_winner_eq print_board_def plan_move_def all_blank_def split: option.split)

section \<open>A match with one player of each kind\<close>

text \<open>The part of a thread that runs \<open>peterson\<close>, and the match as the two threads of \<open>Peterson\<close>, of which \<open>x\<close> is
  the one with the index \<open>P_I\<close>.\<close>

definition peterson_part :: "player_pc \<Rightarrow> peterson_pc" where
  "peterson_part c = (case c of In_turn _ q \<Rightarrow> q | _ \<Rightarrow> Returned)"

definition player_named :: "peterson_index_t \<Rightarrow> peterson_index_t \<Rightarrow> peterson_index_t" where
  "player_named x i = (if i = P_I then x else other x)"

definition as_players :: "peterson_index_t \<Rightarrow> match \<Rightarrow> game players" where
  "as_players x = (\<lambda>(pc, p, g). (\<lambda>i. peterson_part (pc (player_named x i)), p, g))"

text \<open>A thread that plays with symbol \<open>c\<close>.\<close>

definition plays :: "char \<Rightarrow> tictactoe_state_t \<Rightarrow> player_pc \<Rightarrow> bool" where
  "plays c st k \<longleftrightarrow> k = Loop c \<or> (\<exists>q. k = In_turn c q \<and> q \<noteq> Returned) \<or> k = Exited \<and> st = GAME_DONE"

text \<open>Player \<open>x\<close> has started a game and the other one has not joined it yet, or both play.\<close>

definition started :: "(peterson_index_t \<Rightarrow> int) \<Rightarrow> peterson_index_t \<Rightarrow> match \<Rightarrow> bool" where
  "started ids x = (\<lambda>(pc, p, g). game_status g = GAME_READY \<and> player_x g = ids x \<and> plays CHR ''X'' GAME_READY (pc x)
     \<and> pc (other x) \<in> {Test_ready, Enter True})"

definition joined :: "(peterson_index_t \<Rightarrow> int) \<Rightarrow> peterson_index_t \<Rightarrow> match \<Rightarrow> bool" where
  "joined ids x = (\<lambda>(pc, p, g). game_status g \<in> {GAME_PLAYING, GAME_DONE} \<and> player_x g = ids x \<and> player_o g = ids (other x)
     \<and> plays CHR ''X'' (game_status g) (pc x) \<and> plays CHR ''O'' (game_status g) (pc (other x)))"

definition match_ok :: "(peterson_index_t \<Rightarrow> int) \<Rightarrow> peterson_index_t \<Rightarrow> match \<Rightarrow> bool" where
  "match_ok ids x s \<longleftrightarrow> (started ids x s \<or> joined ids x s) \<and> players_inv (as_players x s)"

lemma player_named_simps [simp]:
  "player_named x P_I = x" "player_named x P_J = other x" "player_named x i = x \<longleftrightarrow> i = P_I" "player_named x i = other x \<longleftrightarrow> i = P_J"
  "player_named x (other P_I) = other x"  "player_named x (other P_J) = x"
  by (cases i; simp add: player_named_def other_def; cases x; simp)+

lemma peterson_part_simps [simp]:
  "peterson_part (In_turn c q) = q" "peterson_part (Loop c) = Returned" "peterson_part (Enter b) = Returned"
  "peterson_part Test_ready = Returned" "peterson_part Exited = Returned"
  by (simp_all add: peterson_part_def)

text \<open>Every step of a player is the step of the thread of \<open>Peterson\<close> with the index of its symbol; that thread calls
  \<open>peterson\<close> again while the game is not over.\<close>

definition index_in :: "peterson_index_t \<Rightarrow> peterson_index_t \<Rightarrow> peterson_index_t" where
  "index_in x t = (if t = x then P_I else P_J)"

lemma player_named_index [simp]: "player_named x i = t \<longleftrightarrow> i = index_in x t" "player_named x (index_in x t) = t"
  by (cases i; cases x; cases t; simp add: player_named_def index_in_def other_def)+

lemma index_in_simps [simp]: "index_in x x = P_I" "index_in x (other x) = P_J" "index_of CHR ''X'' = P_I" "index_of CHR ''O'' = P_J"
  by (simp_all add: index_in_def index_of_def)

lemma plays_step:
  assumes "plays c (game_status g) (pc t)" and "index_of c = index_in x t"
  shows "as_players x (match_step tbl ids (t, u) (pc, p, g))
    = player_step (play_tictactoe tbl (ids t)) (wait_for_turn (ids t)) (index_in x t, game_status g \<noteq> GAME_DONE) (as_players x (pc, p, g))"
proof -
  have upd: "(\<lambda>i. peterson_part (if i = index_in x t then k else pc (player_named x i))) = (\<lambda>i. peterson_part (pc (player_named x i)))(index_in x t := peterson_part k)" for k
    by (auto simp: fun_eq_iff)
  show ?thesis
    using assms(1) unfolding plays_def
  proof (elim disjE exE conjE)
    fix q assume q: "pc t = In_turn c q" "q \<noteq> Returned"
    obtain q' p' g' where e: "peterson (play_tictactoe tbl (ids t)) (wait_for_turn (ids t)) (index_in x t) q (p, g) = (q', p', g')"
      by (metis prod.exhaust)
    show ?thesis using q e assms(2)
      by (cases "q' = Returned") (simp_all add: match_step_def peterson_player_def as_players_def player_step_def upd)
  qed (simp_all add: match_step_def peterson_player_def as_players_def player_step_def upd fun_upd_idem)
qed

section \<open>The invariant\<close>

lemma players_inv_game: "players_inv (pc, p, w) = players_inv (pc, p, w')"
  by (simp add: players_inv_def)

text \<open>The effect of \<open>peterson\<close> on the game, for any two sections.\<close>

lemma peterson_game:
  "peterson cs rs i q (p, g) = (q', p', g') \<Longrightarrow> g' = g \<or> g' = cs g \<or> g' = rs g"
  by (cases q) (auto simp: peterson_def Let_def split: if_splits)

lemma plays_next:
  assumes "plays c (game_status g) k" and "peterson_player tbl me k (p, g) = (k', p', g')"
  shows "plays c (game_status g') k'" and "game_status g' = game_status g \<or> game_status g = GAME_PLAYING \<and> game_status g' = GAME_DONE"
    and "player_x g' = player_x g" "player_o g' = player_o g" and "game_status g \<noteq> GAME_PLAYING \<longrightarrow> g' = g"
proof -
  have g: "g' = g \<or> g' = play_tictactoe tbl me g \<or> g' = wait_for_turn me g"
    using assms by (auto simp: plays_def peterson_player_def split: prod.splits if_splits dest: peterson_game)
  have n: "game_status g \<noteq> GAME_PLAYING \<longrightarrow> wait_for_turn me g = g" by (simp add: wait_for_turn_def)
  show st: "game_status g' = game_status g \<or> game_status g = GAME_PLAYING \<and> game_status g' = GAME_DONE"
    using g play_players(3) [of g tbl me] play_not_playing [of g tbl me] by (cases "game_status g = GAME_PLAYING") auto
  show "plays c (game_status g') k'"
    using assms st by (auto simp: plays_def peterson_player_def split: prod.splits if_splits)
  show "player_x g' = player_x g" "player_o g' = player_o g" using g play_players(1,2) by auto
  show "game_status g \<noteq> GAME_PLAYING \<longrightarrow> g' = g" using g n play_not_playing by auto
qed

lemma plays_mono: "plays c st k \<Longrightarrow> st' = st \<or> st' = GAME_DONE \<Longrightarrow> plays c st' k"
  by (auto simp: plays_def)

lemma match_step_eq:
  "match_step tbl ids (t, u) (pc, p, g) = (let (k, p, g) = peterson_player tbl (ids t) (pc t) (p, g) in (pc(t := k), p, g))"
  by (simp add: match_step_def split_beta)

lemma joined_step:
  assumes "joined ids x (pc, p, g)"
  shows "joined ids x (match_step tbl ids (t, u) (pc, p, g))"
proof -
  obtain k p' g' where e: "peterson_player tbl (ids t) (pc t) (p, g) = (k, p', g')" by (metis prod.exhaust)
  have j: "game_status g \<in> {GAME_PLAYING, GAME_DONE}" "plays CHR ''X'' (game_status g) (pc x)"
    "plays CHR ''O'' (game_status g) (pc (other x))" "player_x g = ids x" "player_o g = ids (other x)"
    using assms by (auto simp: joined_def)
  have m: "match_step tbl ids (t, u) (pc, p, g) = (pc(t := k), p', g')" by (simp add: match_step_eq e)
  consider "t = x" | "t = other x" using other_cases by blast
  then show ?thesis
  proof cases
    case 1
    note n = plays_next [OF j(2) e [unfolded 1]]
    have "game_status g' = game_status g \<or> game_status g' = GAME_DONE" "game_status g' \<in> {GAME_PLAYING, GAME_DONE}"
      using n(2) j(1) by auto
    then show ?thesis using j(4,5) n(1-4) plays_mono [OF j(3), of "game_status g'"]
      unfolding m by (simp add: joined_def 1)
  next
    case 2
    note n = plays_next [OF j(3) e [unfolded 2]]
    have "game_status g' = game_status g \<or> game_status g' = GAME_DONE" "game_status g' \<in> {GAME_PLAYING, GAME_DONE}"
      using n(2) j(1) by auto
    then show ?thesis using j(4,5) n(1-4) plays_mono [OF j(2), of "game_status g'"]
      unfolding m by (simp add: joined_def 2)
  qed
qed

lemma match_ok_step:
  assumes "match_ok ids x s"
  shows "match_ok ids x (match_step tbl ids (t, u) s)"
proof -
  obtain pc p g where s: "s = (pc, p, g)" by (metis prod.exhaust)
  have inv: "players_inv (as_players x (pc, p, g))" using assms by (simp add: match_ok_def s)
  have keep: "players_inv (as_players x (match_step tbl ids (t, u) (pc, p, g)))"
    if "plays c (game_status g) (pc t)" "index_of c = index_in x t" for c
    unfolding plays_step [where pc = pc and t = t and g = g, OF that] by (rule players_inv_step [OF inv])
  from assms consider "joined ids x (pc, p, g)" | "started ids x (pc, p, g)" "t = x" | "started ids x (pc, p, g)" "t = other x"
    unfolding match_ok_def s using other_cases by blast
  then show ?thesis
  proof cases
    case 1
    have "\<exists>c. plays c (game_status g) (pc t) \<and> index_of c = index_in x t"
      using 1 other_cases [of t x] by (auto simp: joined_def intro: exI [of _ "CHR ''X''"] exI [of _ "CHR ''O''"])
    then show ?thesis using joined_step [OF 1] keep by (auto simp: match_ok_def s)
  next
    case 2
    then have st: "game_status g = GAME_READY" "plays CHR ''X'' (game_status g) (pc x)" by (simp_all add: started_def)
    obtain k p' g' where e: "peterson_player tbl (ids x) (pc x) (p, g) = (k, p', g')" by (metis prod.exhaust)
    from plays_next [OF st(2) e] st(1) have "g' = g" "plays CHR ''X'' GAME_READY k" by auto
    then have "started ids x (match_step tbl ids (t, u) (pc, p, g))" using 2 e by (auto simp: match_step_eq started_def)
    then show ?thesis using keep [of "CHR ''X''"] st(2) 2(2) by (simp add: match_ok_def s)
  next
    case 3
    then have st: "game_status g = GAME_READY" "player_x g = ids x" "plays CHR ''X'' GAME_READY (pc x)"
      "pc t = Test_ready \<or> pc t = Enter True" by (auto simp: started_def)
    have "plays CHR ''X'' GAME_PLAYING (pc x)" using st(3) by (auto simp: plays_def)
    then have "started ids x (match_step tbl ids (t, u) (pc, p, g)) \<or> joined ids x (match_step tbl ids (t, u) (pc, p, g))"
      using st 3(2) by (auto simp: match_step_eq peterson_player_def join_rest_def started_def joined_def say_def plays_def)
    moreover obtain g' where "as_players x (match_step tbl ids (t, u) (pc, p, g)) = (fst (as_players x (pc, p, g)), p, g')"
      using st(4) 3(2) by (auto simp: match_step_eq peterson_player_def join_rest_def as_players_def fun_eq_iff)
    moreover have "players_inv (fst (as_players x (pc, p, g)), p, g')"
      using inv players_inv_game [of _ p g g'] by (simp add: as_players_def)
    ultimately show ?thesis by (simp add: match_ok_def s)
  qed
qed

lemma match_ok_run: "match_ok ids x s \<Longrightarrow> match_ok ids x (match_run tbl ids sched n s)"
proof (induction n)
  case (Suc n)
  obtain t u where "sched n = (t, u)" by (cases "sched n")
  with Suc match_ok_step show ?case by (simp only: match_run.simps)
qed simp

section \<open>The start\<close>

definition match_start :: "game \<Rightarrow> match" where
  "match_start g = (\<lambda>_. Test_ready, \<lparr>flag = \<lambda>_. False, turn = P_I\<rparr>, g)"

lemma match_ok_start:
  assumes "game_status g \<noteq> GAME_READY"
  shows "match_ok ids x (match_step tbl ids (x, ()) (match_step tbl ids (x, ()) (match_start g)))"
  using assms by (auto simp: match_start_def match_step_eq peterson_player_def join_rest_def start_tictactoe_game_def say_def match_ok_def
      started_def plays_def as_players_def players_inv_def holds_flag_def inside_def peterson_part_def split: player_pc.split)

lemma match_ok_after:
  assumes "game_status g \<noteq> GAME_READY" and "fst (sched 0) = x" and "fst (sched 1) = x" and "2 \<le> n"
  shows "match_ok ids x (match_run tbl ids sched n (match_start g))"
  using assms(4)
proof (induction n rule: dec_induct)
  case base
  have "sched 0 = (x, ())" "sched 1 = (x, ())" using assms(2,3) by (simp_all add: prod_eq_iff)
  then show ?case using match_ok_start [OF assms(1), of ids x tbl] by (simp add: numeral_2_eq_2)
next
  case (step n)
  obtain t u where "sched n = (t, u)" by (cases "sched n")
  with step match_ok_step show ?case by (simp only: match_run.simps)
qed

text \<open>What holds in such a match.\<close>

lemma match_ok_facts:
  assumes "match_ok ids x (pc, p, g)"
  shows "player_x g = ids x" "game_status g = GAME_READY \<or> player_o g = ids (other x)"
    "pc x = In_turn c q \<Longrightarrow> c = CHR ''X''" "pc (other x) = In_turn c q \<Longrightarrow> c = CHR ''O''"
    "\<not> (pc x = In_turn CHR ''X'' Critical \<and> pc (other x) = In_turn CHR ''O'' Critical)"
proof -
  have "plays CHR ''X'' (game_status g) (pc x)"
    "plays CHR ''O'' (game_status g) (pc (other x)) \<or> pc (other x) \<in> {Test_ready, Enter True}"
    "player_x g = ids x" "game_status g = GAME_READY \<or> player_o g = ids (other x)"
    using assms by (auto simp: match_ok_def started_def joined_def)
  then show "player_x g = ids x" "game_status g = GAME_READY \<or> player_o g = ids (other x)"
    "pc x = In_turn c q \<Longrightarrow> c = CHR ''X''" "pc (other x) = In_turn c q \<Longrightarrow> c = CHR ''O''"
    by (auto simp: plays_def)
  have "\<not> (inside (peterson_part (pc x)) \<and> inside (peterson_part (pc (other x))))"
    using assms unfolding match_ok_def as_players_def players_inv_def prod.case
    by (metis player_named_simps(1,2) other_def)
  then show "\<not> (pc x = In_turn CHR ''X'' Critical \<and> pc (other x) = In_turn CHR ''O'' Critical)"
    by (auto simp: inside_def)
qed

text \<open>Both threads have found that no game is open.\<close>

definition unmatched :: "match \<Rightarrow> bool" where
  "unmatched = (\<lambda>(pc, p, g). (\<forall>t. pc t = Enter False \<or> plays CHR ''X'' GAME_READY (pc t))
     \<and> (game_status g = GAME_READY \<or> (\<forall>t. pc t = Enter False)))"

lemma unmatched_step: "unmatched s \<Longrightarrow> unmatched (match_step tbl ids a s)"
proof -
  assume u: "unmatched s"
  obtain t pc p g where s: "s = (pc, p, g)" "a = (t, ())" by (metis prod.exhaust unit.exhaust)
  obtain k p' g' where e: "peterson_player tbl (ids t) (pc t) (p, g) = (k, p', g')" by (metis prod.exhaust)
  have m: "match_step tbl ids a s = (pc(t := k), p', g')" by (simp add: s match_step_eq e)
  show "unmatched (match_step tbl ids a s)"
  proof (cases "pc t = Enter False")
    case True
    then have "k = Loop CHR ''X''" "game_status g' = GAME_READY"
      using e by (auto simp: peterson_player_def join_rest_def start_tictactoe_game_def say_def)
    then show ?thesis using u unfolding m by (auto simp: unmatched_def s plays_def)
  next
    case False
    then have pl: "plays CHR ''X'' (game_status g) (pc t)" "game_status g = GAME_READY" using u by (auto simp: unmatched_def s)
    from plays_next [OF pl(1) e] pl(2) have "g' = g" "plays CHR ''X'' GAME_READY k" by auto
    then show ?thesis using u pl(2) unfolding m by (auto simp: unmatched_def s)
  qed
qed

lemma unmatched_run: "n \<le> m \<Longrightarrow> unmatched (match_run tbl ids sched n s) \<Longrightarrow> unmatched (match_run tbl ids sched m s)"
  by (induction m rule: dec_induct) (simp_all add: unmatched_step)

lemma unmatched_start:
  assumes "game_status g \<noteq> GAME_READY" and "fst (sched 0) = x" and "fst (sched 1) = other x"
  shows "unmatched (match_run tbl ids sched 2 (match_start g))"
proof -
  have "sched 0 = (x, ())" "sched 1 = (other x, ())" using assms(2,3) by (simp_all add: prod_eq_iff)
  moreover have "t = x \<or> t = other x" for t using other_cases by blast
  ultimately show ?thesis using assms(1)
    by (auto simp: numeral_2_eq_2 match_start_def match_step_eq peterson_player_def unmatched_def) 
qed

section \<open>When the game is over, both threads end\<close>

fun left :: "player_pc \<Rightarrow> nat" where
  "left Exited = 0"
| "left (Loop c) = 1"
| "left (In_turn c q) = (case q of Returned \<Rightarrow> 0 | Remainder \<Rightarrow> 2 | Clear_flag \<Rightarrow> 3 | Critical \<Rightarrow> 4 | Test_turn \<Rightarrow> 5 | Test_flag \<Rightarrow> 5
     | Set_turn \<Rightarrow> 6 | Set_flag \<Rightarrow> 7)"
| "left (Enter b) = 8"
| "left Test_ready = 9"

definition at_test :: "player_pc \<Rightarrow> bool" where
  "at_test k \<longleftrightarrow> peterson_part k \<in> {Test_flag, Test_turn}"

definition blocked :: "peterson_index_t \<Rightarrow> peterson_t \<Rightarrow> player_pc \<Rightarrow> bool" where
  "blocked i p k \<longleftrightarrow> at_test k \<and> turn p = other i \<and> flag p (other i)"

text \<open>The steps of the loop that are still needed when nobody interferes.\<close>

definition tests_left :: "peterson_index_t \<Rightarrow> peterson_t \<Rightarrow> player_pc \<Rightarrow> nat" where
  "tests_left i p k =
     (if \<not> at_test k then 0
      else if turn p = i then (if peterson_part k = Test_flag then 1 else 0)
      else if flag p (other i) then 2
      else (if peterson_part k = Test_turn then 1 else 0))"

lemma tests_left_le: "tests_left i p k \<le> 2"
  by (simp add: tests_left_def)

lemma over_step:
  assumes "plays c GAME_DONE k" and "game_status g = GAME_DONE" and "k \<noteq> Exited"
    and e: "peterson_player tbl me k (p, g) = (k', p', g')"
  shows "left k' < left k \<or> p' = p \<and> left k' = left k \<and>
    (if blocked (index_of c) p k then tests_left (index_of c) p k' = tests_left (index_of c) p k \<and> blocked (index_of c) p k'
     else tests_left (index_of c) p k' < tests_left (index_of c) p k)"
  using assms(1) unfolding plays_def
proof (elim disjE exE conjE)
  fix q assume q: "k = In_turn c q" "q \<noteq> Returned"
  then show ?thesis using e not_other [of "turn p" "index_of c"]
    by (cases q) (auto simp: peterson_player_def peterson_def Let_def at_test_def blocked_def tests_left_def split: if_splits)
next
  assume "k = Loop c"
  then show ?thesis using e assms(2) by (auto simp: peterson_player_def)
qed (use assms(3) in simp)

text \<open>The match is over and a thread has not ended yet.\<close>

definition ending :: "(peterson_index_t \<Rightarrow> int) \<Rightarrow> peterson_index_t \<Rightarrow> match \<Rightarrow> bool" where
  "ending ids x s \<longleftrightarrow> match_ok ids x s \<and> game_status (snd (snd s)) = GAME_DONE \<and> (\<exists>t. fst s t \<noteq> Exited)"

definition both_ended :: "match \<Rightarrow> bool" where
  "both_ended s \<longleftrightarrow> (\<forall>t. fst s t = Exited)"

definition end_helper :: "peterson_index_t \<Rightarrow> match \<Rightarrow> peterson_index_t" where
  "end_helper x = (\<lambda>(pc, p, g). if pc x = Exited \<or> blocked P_I p (pc x) then other x else x)"

definition end_measure :: "peterson_index_t \<Rightarrow> match \<Rightarrow> nat" where
  "end_measure x = (\<lambda>(pc, p, g). 5 * (left (pc x) + left (pc (other x))) + tests_left P_I p (pc x) + tests_left P_J p (pc (other x)))"

lemma ending_D:
  assumes "ending ids x (pc, p, g)"
  shows "game_status g = GAME_DONE" "plays CHR ''X'' GAME_DONE (pc x)" "plays CHR ''O'' GAME_DONE (pc (other x))"
    "flag p P_I = holds_flag (peterson_part (pc x))" "flag p P_J = holds_flag (peterson_part (pc (other x)))"
    "pc x \<noteq> Exited \<or> pc (other x) \<noteq> Exited"
proof -
  have g: "game_status g = GAME_DONE" and m: "match_ok ids x (pc, p, g)" and ex: "\<exists>t. pc t \<noteq> Exited"
    using assms by (simp_all add: ending_def)
  show "game_status g = GAME_DONE" by (fact g)
  show "plays CHR ''X'' GAME_DONE (pc x)" "plays CHR ''O'' GAME_DONE (pc (other x))"
    using m g by (auto simp: match_ok_def started_def joined_def)
  have "\<forall>i. flag p i = holds_flag (peterson_part (pc (player_named x i)))"
    using m by (simp add: match_ok_def as_players_def players_inv_def)
  from this [THEN spec [of _ P_I]] this [THEN spec [of _ P_J]]
  show "flag p P_I = holds_flag (peterson_part (pc x))" "flag p P_J = holds_flag (peterson_part (pc (other x)))" by simp_all
  show "pc x \<noteq> Exited \<or> pc (other x) \<noteq> Exited" using ex other_cases by metis
qed

text \<open>A step of thread \<open>t\<close>, and what it does to the measure.\<close>

lemma ending_step:
  assumes s: "ending ids x (pc, p, g)" and e: "peterson_player tbl (ids t) (pc t) (p, g) = (k, p', g')"
  shows "game_status g' = GAME_DONE"
    and "pc t = Exited \<Longrightarrow> k = Exited \<and> p' = p"
    and "t = x \<Longrightarrow> pc x \<noteq> Exited \<Longrightarrow> left k < left (pc x) \<or> p' = p \<and> left k = left (pc x) \<and>
        (if blocked P_I p (pc x) then tests_left P_I p k = tests_left P_I p (pc x) \<and> blocked P_I p k
         else tests_left P_I p k < tests_left P_I p (pc x))"
    and "t = other x \<Longrightarrow> pc t \<noteq> Exited \<Longrightarrow> left k < left (pc t) \<or> p' = p \<and> left k = left (pc t) \<and>
        (if blocked P_J p (pc t) then tests_left P_J p k = tests_left P_J p (pc t) \<and> blocked P_J p k
         else tests_left P_J p k < tests_left P_J p (pc t))"
proof -
  note d = ending_D [OF s]
  { assume t: "t = x" and n: "pc x \<noteq> Exited"
    show "left k < left (pc x) \<or> p' = p \<and> left k = left (pc x) \<and>
        (if blocked P_I p (pc x) then tests_left P_I p k = tests_left P_I p (pc x) \<and> blocked P_I p k
         else tests_left P_I p k < tests_left P_I p (pc x))"
      by (rule over_step [OF d(2,1) n e [unfolded t], unfolded index_in_simps]) }
  { assume t: "t = other x" and n: "pc t \<noteq> Exited"
    show "left k < left (pc t) \<or> p' = p \<and> left k = left (pc t) \<and>
        (if blocked P_J p (pc t) then tests_left P_J p k = tests_left P_J p (pc t) \<and> blocked P_J p k
         else tests_left P_J p k < tests_left P_J p (pc t))"
      unfolding t by (rule over_step [OF d(3,1) n [unfolded t] e [unfolded t], unfolded index_in_simps]) }
  show "pc t = Exited \<Longrightarrow> k = Exited \<and> p' = p" using e by (simp add: peterson_player_def)
  have "\<exists>c. plays c (game_status g) (pc t)" using d(1-3) other_cases [of t x] by auto
  then show "game_status g' = GAME_DONE" using plays_next(2) [OF _ e] d(1) by auto
qed

lemma end_measure_eq: "end_measure x (pc, p, g) = 5 * left (pc x) + 5 * left (pc (other x)) + tests_left P_I p (pc x) + tests_left P_J p (pc (other x))"
  by (simp add: end_measure_def)

interpretation over: fair_progress "match_step tbl ids" "ending ids x" both_ended "end_helper x" "end_measure x" for tbl ids x
proof unfold_locales
  fix s :: match and a :: "peterson_index_t \<times> unit"
  obtain t pc p g where s: "s = (pc, p, g)" "a = (t, ())" by (metis prod.exhaust unit.exhaust)
  assume w: "ending ids x s"
  obtain k p' g' where e: "peterson_player tbl (ids t) (pc t) (p, g) = (k, p', g')" by (metis prod.exhaust)
  have m: "match_step tbl ids (t, ()) (pc, p, g) = (pc(t := k), p', g')" by (simp add: match_step_eq e)
  note st = ending_step [OF w [unfolded s] e] and d = ending_D [OF w [unfolded s]]
  have "match_ok ids x (match_step tbl ids a s)" using w match_ok_step [of ids x s tbl t "()"] by (simp add: ending_def s)
  then show "both_ended (match_step tbl ids a s) \<or> ending ids x (match_step tbl ids a s)"
    using st(1) unfolding s m by (auto simp: ending_def both_ended_def)
  have le: "tests_left P_I p' (pc x) \<le> 2" "tests_left P_J p' (pc (other x)) \<le> 2" "tests_left P_I p' k \<le> 2" "tests_left P_J p' k \<le> 2"
    by (rule tests_left_le)+
  have x: "end_measure x (match_step tbl ids a s) < end_measure x s \<or> end_measure x (match_step tbl ids a s) = end_measure x s
      \<and> end_helper x (match_step tbl ids a s) = end_helper x s \<and> (pc x = Exited \<or> blocked P_I p (pc x))" if "t = x"
  proof (cases "pc x = Exited")
    case True
    then show ?thesis using st(2) that unfolding s m by (simp add: end_measure_eq end_helper_def)
  next
    case False
    then show ?thesis using st(3) [OF that False] that le unfolding s m
      by (cases "blocked P_I p (pc x)") (auto simp: end_measure_eq end_helper_def blocked_def at_test_def)
  qed
  have o: "end_measure x (match_step tbl ids a s) < end_measure x s \<or> end_measure x (match_step tbl ids a s) = end_measure x s
      \<and> end_helper x (match_step tbl ids a s) = end_helper x s \<and> (pc t = Exited \<or> blocked P_J p (pc t))" if "t = other x"
  proof (cases "pc t = Exited")
    case True
    then show ?thesis using st(2) that unfolding s m by (simp add: end_measure_eq end_helper_def)
  next
    case False
    then show ?thesis using st(4) [OF that False] that le unfolding s m
      by (cases "blocked P_J p (pc t)") (auto simp: end_measure_eq end_helper_def)
  qed
  { assume "fst a = end_helper x s"
    then show "both_ended (match_step tbl ids a s) \<or> end_measure x (match_step tbl ids a s) < end_measure x s"
    proof (cases "pc x = Exited \<or> blocked P_I p (pc x)")
      case True
      have ix: "other P_I = P_J" "other P_J = P_I" by (simp_all add: other_def)
      from True have "pc (other x) \<noteq> Exited \<and> \<not> blocked P_J p (pc (other x))"
      proof
        assume "pc x = Exited"
        then show ?thesis using d(4,6) by (simp add: blocked_def ix holds_flag_def)
      next
        assume b: "blocked P_I p (pc x)"
        then have "holds_flag (peterson_part (pc (other x)))" using d(5) by (simp add: blocked_def ix)
        then show ?thesis using b by (auto simp: blocked_def ix holds_flag_def)
      qed
      moreover have "t = other x" using \<open>fst a = end_helper x s\<close> True by (simp add: s end_helper_def)
      ultimately show ?thesis using o by blast
    next
      case False
      then have "t = x" using \<open>fst a = end_helper x s\<close> by (simp add: s end_helper_def)
      then show ?thesis using x False by blast
    qed }
  { assume "fst a \<noteq> end_helper x s"
    then show "both_ended (match_step tbl ids a s) \<or> end_measure x (match_step tbl ids a s) < end_measure x s
      \<or> (end_measure x (match_step tbl ids a s) = end_measure x s \<and> end_helper x (match_step tbl ids a s) = end_helper x s)"
    proof (cases "t = x")
      case True
      then show ?thesis using x by blast
    next
      case False
      then show ?thesis using o other_cases [of t x] by blast
    qed }
qed

lemma match_ends:
  assumes fair: "\<And>t k. \<exists>m \<ge> k. fst (sched m) = t"
    and "match_ok ids x (match_run tbl ids sched n s)" and "game_status (snd (snd (match_run tbl ids sched n s))) = GAME_DONE"
  shows "\<exists>m \<ge> n. \<forall>t. fst (match_run tbl ids sched m s) t = Exited"
proof (cases "\<forall>t. fst (match_run tbl ids sched n s) t = Exited")
  case False
  then have "ending ids x (match_run tbl ids sched n s)" using assms(2,3) by (auto simp: ending_def)
  then show ?thesis
    using over.reaches_goal [where run = "\<lambda>k. match_run tbl ids sched k s" and sched = sched, OF _ fair]
    by (auto simp: both_ended_def)
qed blast

section \<open>A match that is played\<close>

text \<open>A turn of a player while the other one does not run.\<close>

lemma turn_alone:
  assumes "match_run tbl ids sched n s = (pc, p, g)" and "pc x = Loop c" and "game_status g \<noteq> GAME_DONE"
    and "\<not> flag p (index_of c)" and "\<not> flag p (other (index_of c))" and "\<forall>k < 7. fst (sched (n + k)) = x"
  shows "match_run tbl ids sched (n + 7) s = (pc, p\<lparr>turn := other (index_of c)\<rparr>, wait_for_turn (ids x) (play_tictactoe tbl (ids x) g))"
proof -
  have s: "sched (n + k) = (x, ())" if "k < 7" for k using assms(6) that by (simp add: prod_eq_iff)
  have sc: "sched n = (x, ())" "sched (Suc n) = (x, ())" "sched (Suc (Suc n)) = (x, ())" "sched (Suc (Suc (Suc n))) = (x, ())"
    "sched (Suc (Suc (Suc (Suc n)))) = (x, ())" "sched (Suc (Suc (Suc (Suc (Suc n))))) = (x, ())"
    "sched (Suc (Suc (Suc (Suc (Suc (Suc n)))))) = (x, ())"
    using s [of 0] s [of 1] s [of 2] s [of 3] s [of 4] s [of 5] s [of 6] by (simp_all add: eval_nat_numeral)
  have f: "(flag p)(index_of c := True, index_of c := False) = flag p" using assms(4) by (auto simp: fun_eq_iff)
  show ?thesis
    using assms(2-5) f
    by (simp add: eval_nat_numeral match_run.simps sc assms(1) match_step_eq peterson_player_def peterson_def Let_def fun_upd_idem)
qed

text \<open>A table of zeros does not shuffle the moves.\<close>

lemma shuffle_zeros:
  "moves g \<noteq> [] \<Longrightarrow> shuffle_moves (replicate NUM_RAND 0) n g = g\<lparr>rand_i := rand_i g + of_nat (2 * n)\<rparr>"
proof (induction n arbitrary: g)
  case (Suc n)
  have "unat i mod NUM_RAND < NUM_RAND" for i :: u32 by (simp add: NUM_RAND_def)
  then have "next_rand (replicate NUM_RAND 0) 9 g = (0, g\<lparr>rand_i := rand_i g + 1\<rparr>)" for g by (simp add: next_rand_def)
  then show ?case using Suc by (simp add: Let_def ac_simps)
qed simp


lemma move_of_x:
  assumes "game_status g = GAME_PLAYING" and "player_x g = me" and "moves g \<noteq> []"
  obtains g1 where "wait_for_turn me (play_tictactoe (replicate NUM_RAND 0) me g) = wait_for_turn me (check_for_winner me g1)"
    "grid g1 = first_blank (moves g) CHR ''X'' (grid g)" "player_x g1 = me" "moves g1 = moves g" "game_status g1 = GAME_PLAYING"
  using assms
  by (intro that [of "print_board (choose_move (replicate NUM_RAND 0) me (plan_move me g))"])
    (simp_all add: play_tictactoe_def print_board_def choose_move_def plan_move_def shuffle_zeros symbol_def say_def Let_def)

lemma moves_kept: "moves (wait_for_turn me (check_for_winner me g)) = moves g" "grid (check_for_winner me g) = grid g"
  "player_x (check_for_winner me g) = player_x g"
  by (auto simp: wait_for_turn_def check_for_winner_def assign_winner_def assign_draw_def say_def Let_def split: option.split)

text \<open>Player \<open>x\<close> alone wins in three moves.\<close>

definition first_move :: "game \<Rightarrow> bool" where
  "first_move g \<longleftrightarrow> game_status g = GAME_PLAYING \<and> grid g = grid (start_tictactoe_game 0 s_tictactoe) \<and> moves g = moves s_tictactoe"

lemma wins_alone:
  fixes me :: int
  defines "f \<equiv> \<lambda>g. wait_for_turn me (play_tictactoe (replicate NUM_RAND 0) me g)"
  assumes "first_move g" and "player_x g = me"
  shows "game_status (f g) = GAME_PLAYING" "game_status (f (f g)) = GAME_PLAYING" "game_status (f (f (f g))) = GAME_DONE"
proof -
  let ?b = "grid (start_tictactoe_game 0 s_tictactoe)" and ?m = "moves s_tictactoe"
  have b: "?b i j = CHR '' ''" if "i < 3" "j < 3" for i j using that by (simp add: start_tictactoe_game_def say_def)
  have b': "?b 0 0 = CHR '' ''" "?b 0 (Suc 0) = CHR '' ''" "?b 0 2 = CHR '' ''" "?b (Suc 0) 0 = CHR '' ''" "?b (Suc 0) (Suc 0) = CHR '' ''" "?b (Suc 0) 2 = CHR '' ''"
    "?b 2 0 = CHR '' ''" "?b 2 (Suc 0) = CHR '' ''" "?b 2 2 = CHR '' ''" "?b 0 (Suc (Suc 0)) = CHR '' ''" "?b (Suc 0) (Suc (Suc 0)) = CHR '' ''"
    "?b 2 (Suc (Suc 0)) = CHR '' ''" "?b (Suc (Suc 0)) 0 = CHR '' ''" "?b (Suc (Suc 0)) (Suc 0) = CHR '' ''" "?b (Suc (Suc 0)) 2 = CHR '' ''"
    "?b (Suc (Suc 0)) (Suc (Suc 0)) = CHR '' ''" by (rule b; simp)+
  have m: "?m = [(2, 0), (1, 1), (0, 2), (1, 2), (1, 0), (0, 0), (2, 2), (2, 1), (0, 1)]" by (simp add: s_tictactoe_def)
  note c = check_for_winner_def assign_winner_def assign_draw_def Let_def
  have g: "game_status g = GAME_PLAYING" "player_x g = me" "moves g \<noteq> []" "grid g = ?b" "moves g = ?m"
    using assms(2,3) m by (simp_all add: first_move_def)
  obtain g1 where g1: "f g = wait_for_turn me (check_for_winner me g1)" "grid g1 = first_blank (moves g) CHR ''X'' (grid g)" "player_x g1 = me"
    "moves g1 = moves g" "game_status g1 = GAME_PLAYING" unfolding f_def by (rule move_of_x [OF g(1-3)])
  let ?b1 = "?b(2 := (?b 2)(0 := CHR ''X''))"
  have n1: "grid g1 = ?b1" using g1(2) g(4,5) m b' by simp
  then have s1: "game_status (f g) = GAME_PLAYING" using g1(1,5) b' by (simp add: c numeral_3_eq_3)
  show "game_status (f g) = GAME_PLAYING" by (fact s1)
  have h1: "player_x (f g) = me" "moves (f g) = ?m" "grid (f g) = ?b1" "moves (f g) \<noteq> []" using g1 n1 g(5) m by (simp_all add: moves_kept)
  obtain g2 where g2: "f (f g) = wait_for_turn me (check_for_winner me g2)" "grid g2 = first_blank (moves (f g)) CHR ''X'' (grid (f g))" "player_x g2 = me"
    "moves g2 = moves (f g)" "game_status g2 = GAME_PLAYING" using move_of_x [OF s1 h1(1,4)] unfolding f_def by metis
  let ?b2 = "?b1(1 := (?b1 1)(1 := CHR ''X''))"
  have n2: "grid g2 = ?b2" using g2(2) h1(2,3) m b' by simp
  then have s2: "game_status (f (f g)) = GAME_PLAYING" using g2(1,5) b' by (simp add: c numeral_3_eq_3)
  show "game_status (f (f g)) = GAME_PLAYING" by (fact s2)
  have h2: "player_x (f (f g)) = me" "moves (f (f g)) = ?m" "grid (f (f g)) = ?b2" "moves (f (f g)) \<noteq> []" using g2 n2 h1(2) m by (simp_all add: moves_kept)
  obtain g3 where g3: "f (f (f g)) = wait_for_turn me (check_for_winner me g3)" "grid g3 = first_blank (moves (f (f g))) CHR ''X'' (grid (f (f g)))"
    "game_status g3 = GAME_PLAYING" using move_of_x [OF s2 h2(1,4)] unfolding f_def by metis
  have "grid g3 = ?b2(0 := (?b2 0)(2 := CHR ''X''))" using g3(2) h2(2,3) m b' by simp
  then show "game_status (f (f (f g))) = GAME_DONE" using g3(1,3) b' by (simp add: c say_def)
qed

end
