(* ===== verification/Poetry.thy ===== *)
theory Poetry imports Strings Tictactoe begin

text \<open>
  The poem that the threads of the mutex demonstration write (\<open>src/60-330/poetry.c\<close>): six strings of a
  structure in memory, copied from tables of constants by \<open>strncpy\<close>.  \<open>poem_data\<close> gives the addresses of the
  structure and of the tables, \<open>tbl\<close> is the table \<open>g_rand\<close> and the index into it is \<open>rand_i\<close> of \<open>Tictactoe\<close>.
\<close>

section \<open>The structure and the tables\<close>

definition POEM_WORD_LENGTH :: nat where "POEM_WORD_LENGTH = 15"
definition POEM_CLAUSE_LENGTH :: nat where "POEM_CLAUSE_LENGTH = 50"
definition POEM_NUM_FLOWER :: nat where "POEM_NUM_FLOWER = 8"
definition POEM_NUM_COLOUR :: nat where "POEM_NUM_COLOUR = 9"
definition POEM_NUM_STATEMENT :: nat where "POEM_NUM_STATEMENT = 6"
definition POEM_NUM_CADENCE :: nat where "POEM_NUM_CADENCE = 7"

record poem_data =
  s_poem :: nat
  s_flowers :: nat
  s_colours :: nat
  s_statement :: nat
  s_cadence :: nat

text \<open>The offsets of the fields of \<open>struct poem_t\<close>, and its size.\<close>

definition poem_offsets :: "nat list" where "poem_offsets = [0, 15, 30, 45, 60, 110]"
definition sizeof_poem :: nat where "sizeof_poem = 160"

definition flowers :: "string list" where
  "flowers = [''Roses'', ''Daisies'', ''Sunflowers'', ''Daffodils'', ''Lilies'', ''Irises'', ''Tulips'', ''Poppies'']"
definition colours :: "string list" where
  "colours = [''red'', ''yellow'', ''blue'', ''orange'', ''purple'', ''green'', ''brown'', ''black'', ''white'']"
definition statements :: "string list" where
  "statements = [''Bicycles rock'', ''Sugar is sweet'', ''Trucks drink gas'', ''Words suck'', ''Sheep are fun'', ''Rhyming is hard'']"
definition cadences :: "string list" where
  "cadences = [''I like ponies.'', ''And so are you.'', ''Where's my car?'', ''SEGFAULT...'', ''Who ate my chips?'', ''I am so smrt.'',
     ''Supercalifragilisticexpialidocious'']"

section \<open>Writing and printing\<close>

text \<open>One of the six statements of \<open>write_poem\<close>: the row of a table with \<open>n\<close> rows of \<open>w\<close> bytes is chosen and
  copied.\<close>

definition copy_random :: "nat list \<Rightarrow> nat \<Rightarrow> nat \<Rightarrow> nat \<Rightarrow> nat \<Rightarrow> byte_mem \<times> game \<Rightarrow> byte_mem \<times> game" where
  "copy_random tbl dst table n w = (\<lambda>(m, g). let (k, g) = next_rand tbl n g in (strncpy dst (table + w * k) w m, g))"

definition choose_words :: "nat list \<Rightarrow> poem_data \<Rightarrow> byte_mem \<times> game \<Rightarrow> byte_mem \<times> game" where
  "choose_words tbl d s =
     (let s = copy_random tbl (s_poem d) (s_flowers d) POEM_NUM_FLOWER POEM_WORD_LENGTH s;
          s = copy_random tbl (s_poem d + 15) (s_colours d) POEM_NUM_COLOUR POEM_WORD_LENGTH s;
          s = copy_random tbl (s_poem d + 30) (s_flowers d) POEM_NUM_FLOWER POEM_WORD_LENGTH s;
          s = copy_random tbl (s_poem d + 45) (s_colours d) POEM_NUM_COLOUR POEM_WORD_LENGTH s;
          s = copy_random tbl (s_poem d + 60) (s_statement d) POEM_NUM_STATEMENT POEM_CLAUSE_LENGTH s;
          s = copy_random tbl (s_poem d + 110) (s_cadence d) POEM_NUM_CADENCE POEM_CLAUSE_LENGTH s
      in s)"

text \<open>A string argument of \<open>cons_printf\<close>.\<close>

definition read_string :: "byte_mem \<Rightarrow> nat \<Rightarrow> u8 list option" where
  "read_string m a = do { n \<leftarrow> strlen m a; Some (map m [a..<a + n]) }"

text \<open>The call of \<open>cons_printf\<close> in \<open>print_poem\<close>: the format and its six strings.\<close>

definition poem_format :: string where
  "poem_format = ''\<newline>'' @ [CHR 0x09] @ ''~~~~~~~~~~~~~~~\<newline>'' @ [CHR 0x09] @ ''%s are %s,\<newline>'' @ [CHR 0x09] @ ''%s are %s,\<newline>''
     @ [CHR 0x09] @ ''%s,\<newline>'' @ [CHR 0x09] @ ''%s\<newline>'' @ [CHR 0x09] @ ''~~~~~~~~~~~~~~~\<newline>\<newline>''"

fun read_strings :: "byte_mem \<Rightarrow> nat list \<Rightarrow> u8 list list option" where
  "read_strings m [] = Some []"
| "read_strings m (a # as) = do { s \<leftarrow> read_string m a; ss \<leftarrow> read_strings m as; Some (s # ss) }"

definition print_poem :: "poem_data \<Rightarrow> byte_mem \<Rightarrow> (string \<times> u8 list list) option" where
  "print_poem d m = do { ws \<leftarrow> read_strings m (map (\<lambda>k. s_poem d + k) poem_offsets); Some (poem_format, ws) }"

section \<open>What is written is what is printed\<close>

definition chars_of :: "string \<Rightarrow> u8 list" where
  "chars_of s = map of_char s"

text \<open>The tables as the compiler lays them out: rows of fixed width.\<close>

definition table_at :: "byte_mem \<Rightarrow> nat \<Rightarrow> nat \<Rightarrow> string list \<Rightarrow> bool" where
  "table_at m a w ws \<longleftrightarrow> (\<forall>k < length ws. cstring m (a + w * k) (chars_of (ws ! k)))"

definition poem_loaded :: "poem_data \<Rightarrow> byte_mem \<Rightarrow> bool" where
  "poem_loaded d m \<longleftrightarrow> table_at m (s_flowers d) POEM_WORD_LENGTH flowers \<and> table_at m (s_colours d) POEM_WORD_LENGTH colours
     \<and> table_at m (s_statement d) POEM_CLAUSE_LENGTH statements \<and> table_at m (s_cadence d) POEM_CLAUSE_LENGTH cadences"

text \<open>No table overlaps the structure.\<close>

definition poem_apart :: "poem_data \<Rightarrow> bool" where
  "poem_apart d \<longleftrightarrow> (\<forall>(a, n) \<in> {(s_flowers d, 8 * 15), (s_colours d, 9 * 15), (s_statement d, 6 * 50), (s_cadence d, 7 * 50)}.
     a + n \<le> s_poem d \<or> s_poem d + sizeof_poem \<le> a)"

lemma read_cstring:
  assumes "cstring m a xs"
  shows "read_string m a = Some xs"
proof -
  have "map m [a..<a + length xs] = xs"
    using assms by (intro nth_equalityI) (auto simp: cstring_def bytes_at_def nth_append)
  then show ?thesis using assms by (simp add: read_string_def strlen_cstring)
qed

lemma cstring_same:
  assumes "cstring m a xs" and "\<And>b. a \<le> b \<Longrightarrow> b \<le> a + length xs \<Longrightarrow> m' b = m b"
  shows "cstring m' a xs"
  using assms by (auto simp: cstring_def bytes_at_def)

text \<open>Outside of the structure nothing has changed since \<open>m0\<close>.\<close>

definition same_outside :: "poem_data \<Rightarrow> byte_mem \<Rightarrow> byte_mem \<Rightarrow> bool" where
  "same_outside d m0 m \<longleftrightarrow> (\<forall>a. a < s_poem d \<or> s_poem d + sizeof_poem \<le> a \<longrightarrow> m a = m0 a)"

text \<open>A field of \<open>w\<close> bytes at offset \<open>k\<close> holds one of the words.\<close>

definition holds_word :: "poem_data \<Rightarrow> nat \<Rightarrow> nat \<Rightarrow> string list \<Rightarrow> byte_mem \<Rightarrow> bool" where
  "holds_word d k w ws m \<longleftrightarrow> (\<exists>v \<in> set ws. length v < w \<and> cstring m (s_poem d + k) (chars_of v))"

lemma copy_random_ok:
  assumes tab: "table_at m0 a w ws" and same: "same_outside d m0 m" and ws: "ws \<noteq> []" "\<forall>v \<in> set ws. length v < w"
    and apart: "a + length ws * w \<le> s_poem d \<or> s_poem d + sizeof_poem \<le> a" and k: "k + w \<le> sizeof_poem"
  obtains m' g' where "copy_random tbl (s_poem d + k) a (length ws) w (m, g) = (m', g')" "same_outside d m0 m'"
    "holds_word d k w ws m'" "\<And>j v us. holds_word d j v us m \<Longrightarrow> j + v \<le> k \<Longrightarrow> holds_word d j v us m'"
    "rand_i g' = rand_i g + 1"
proof -
  obtain i g' where r: "next_rand tbl (length ws) g = (i, g')" by fastforce
  have i: "i < length ws" using r ws(1) by (auto simp: next_rand_def)
  let ?v = "ws ! i" and ?m = "strncpy (s_poem d + k) (a + w * i) w m"
  have v: "?v \<in> set ws" "length (chars_of ?v) < w" using i ws(2) by (auto simp: chars_of_def)
  have "w * (i + 1) \<le> w * length ws" using i by (intro mult_le_mono) simp_all
  then have top: "w * i + w \<le> length ws * w" by (simp add: mult.commute)
  have "cstring m (a + w * i) (chars_of ?v)"
  proof (rule cstring_same)
    show "cstring m0 (a + w * i) (chars_of ?v)" using tab i by (simp add: table_at_def)
    show "m b = m0 b" if "a + w * i \<le> b" "b \<le> a + w * i + length (chars_of ?v)" for b
      using same apart that top v(2) unfolding same_outside_def by force
  qed
  moreover have "s_poem d + k + w \<le> a + w * i \<or> a + w * i + length (chars_of ?v) < s_poem d + k"
    using apart top v(2) k by linarith
  ultimately have c: "cstring ?m (s_poem d + k) (chars_of ?v)" using strncpy_copies v(2) by blast
  show ?thesis
  proof (rule that [of ?m g'])
    show "copy_random tbl (s_poem d + k) a (length ws) w (m, g) = (?m, g')" using r by (simp add: copy_random_def)
    show "same_outside d m0 ?m" using same k by (auto simp: same_outside_def strncpy_other)
    show "holds_word d k w ws ?m" using c v ws(2) by (auto simp: holds_word_def)
    show "holds_word d j l us ?m" if h: "holds_word d j l us m" "j + l \<le> k" for j l us
    proof -
      obtain u where u: "u \<in> set us" "length u < l" "cstring m (s_poem d + j) (chars_of u)" using h(1) by (auto simp: holds_word_def)
      have "cstring ?m (s_poem d + j) (chars_of u)"
        by (rule cstring_same [OF u(3)]) (use u(2) h(2) in \<open>simp add: strncpy_other chars_of_def\<close>)
      then show ?thesis using u(1,2) by (auto simp: holds_word_def)
    qed
    show "rand_i g' = rand_i g + 1" using r by (auto simp: next_rand_def)
  qed
qed

text \<open>The fields that have been written, last one first.\<close>

definition written :: "poem_data \<Rightarrow> byte_mem \<Rightarrow> (nat \<times> nat \<times> string list) list \<Rightarrow> byte_mem \<Rightarrow> bool" where
  "written d m0 fs m \<longleftrightarrow> same_outside d m0 m \<and> (\<forall>(k, w, ws) \<in> set fs. holds_word d k w ws m)"

lemma copy_written:
  assumes "written d m0 fs m" and "table_at m0 a w ws" and "ws \<noteq> []" and "\<forall>v \<in> set ws. length v < w"
    and "a + length ws * w \<le> s_poem d \<or> s_poem d + sizeof_poem \<le> a" and "k + w \<le> sizeof_poem"
    and "\<forall>(j, v, us) \<in> set fs. j + v \<le> k"
  obtains m' g' where "copy_random tbl (s_poem d + k) a (length ws) w (m, g) = (m', g')" "written d m0 ((k, w, ws) # fs) m'"
    "rand_i g' = rand_i g + 1"
proof -
  have "same_outside d m0 m" using assms(1) by (simp add: written_def)
  from copy_random_ok [OF assms(2) this assms(3-6), of tbl g] obtain m' g' where
    m': "copy_random tbl (s_poem d + k) a (length ws) w (m, g) = (m', g')" "same_outside d m0 m'" "holds_word d k w ws m'"
      "\<And>j v us. holds_word d j v us m \<Longrightarrow> j + v \<le> k \<Longrightarrow> holds_word d j v us m'" "rand_i g' = rand_i g + 1" by metis
  have new: "written d m0 ((k, w, ws) # fs) m'" using m'(2-4) assms(1,7) unfolding written_def by fastforce
  show ?thesis by (rule that [OF m'(1) new m'(5)])
qed

lemma print_words:
  assumes "holds_word d 0 15 flowers m" "holds_word d 15 15 colours m" "holds_word d 30 15 flowers m" "holds_word d 45 15 colours m"
    "holds_word d 60 50 statements m" "holds_word d 110 50 cadences m"
  shows "\<exists>f1 \<in> set flowers. \<exists>c1 \<in> set colours. \<exists>f2 \<in> set flowers. \<exists>c2 \<in> set colours. \<exists>st \<in> set statements. \<exists>ca \<in> set cadences.
    print_poem d m = Some (poem_format, map chars_of [f1, c1, f2, c2, st, ca])"
proof -
  have r: "\<exists>v \<in> set ws. read_string m (s_poem d + k) = Some (chars_of v)" if "holds_word d k w ws m" for k w ws
    using that read_cstring by (auto simp: holds_word_def)
  obtain f1 c1 f2 c2 st ca where v: "f1 \<in> set flowers" "c1 \<in> set colours" "f2 \<in> set flowers" "c2 \<in> set colours" "st \<in> set statements" "ca \<in> set cadences"
    "read_string m (s_poem d + 0) = Some (chars_of f1)" "read_string m (s_poem d + 15) = Some (chars_of c1)"
    "read_string m (s_poem d + 30) = Some (chars_of f2)" "read_string m (s_poem d + 45) = Some (chars_of c2)"
    "read_string m (s_poem d + 60) = Some (chars_of st)" "read_string m (s_poem d + 110) = Some (chars_of ca)"
    using r [OF assms(1)] r [OF assms(2)] r [OF assms(3)] r [OF assms(4)] r [OF assms(5)] r [OF assms(6)] by blast
  then have "print_poem d m = Some (poem_format, map chars_of [f1, c1, f2, c2, st, ca])" by (simp add: print_poem_def poem_offsets_def)
  with v(1-6) show ?thesis by blast
qed

lemma word_lengths:
  "length flowers = POEM_NUM_FLOWER" "length colours = POEM_NUM_COLOUR" "length statements = POEM_NUM_STATEMENT" "length cadences = POEM_NUM_CADENCE"
  "\<forall>v \<in> set flowers. length v < 15" "\<forall>v \<in> set colours. length v < 15" "\<forall>v \<in> set statements. length v < 50" "\<forall>v \<in> set cadences. length v < 50"
  "flowers \<noteq> []" "colours \<noteq> []" "statements \<noteq> []" "cadences \<noteq> []"
  by (simp_all add: flowers_def colours_def statements_def cadences_def POEM_NUM_FLOWER_def POEM_NUM_COLOUR_def POEM_NUM_STATEMENT_def
      POEM_NUM_CADENCE_def)

text \<open>Whatever the numbers, the printed poem consists of whole words of the right tables, in the right
  places, and only the structure was written.\<close>

lemma poem_words:
  assumes "poem_loaded d m" and "poem_apart d"
  shows "\<exists>m' g'. choose_words tbl d (m, g) = (m', g') \<and> same_outside d m m' \<and> rand_i g' = rand_i g + 6
    \<and> (\<exists>f1 \<in> set flowers. \<exists>c1 \<in> set colours. \<exists>f2 \<in> set flowers. \<exists>c2 \<in> set colours. \<exists>st \<in> set statements. \<exists>ca \<in> set cadences.
         print_poem d m' = Some (poem_format, map chars_of [f1, c1, f2, c2, st, ca]))"
proof -
  have t: "table_at m (s_flowers d) 15 flowers" "table_at m (s_colours d) 15 colours" "table_at m (s_statement d) 50 statements"
    "table_at m (s_cadence d) 50 cadences"
    using assms(1) by (simp_all add: poem_loaded_def POEM_WORD_LENGTH_def POEM_CLAUSE_LENGTH_def)
  have a: "s_flowers d + length flowers * 15 \<le> s_poem d \<or> s_poem d + sizeof_poem \<le> s_flowers d"
    "s_colours d + length colours * 15 \<le> s_poem d \<or> s_poem d + sizeof_poem \<le> s_colours d"
    "s_statement d + length statements * 50 \<le> s_poem d \<or> s_poem d + sizeof_poem \<le> s_statement d"
    "s_cadence d + length cadences * 50 \<le> s_poem d \<or> s_poem d + sizeof_poem \<le> s_cadence d"
    using assms(2) by (simp_all add: poem_apart_def word_lengths POEM_NUM_FLOWER_def POEM_NUM_COLOUR_def POEM_NUM_STATEMENT_def POEM_NUM_CADENCE_def)
  note c = copy_written [where d = d and ?m0.0 = m and tbl = tbl]
  have 0: "written d m [] m" by (simp add: written_def same_outside_def)
  obtain m1 g1 where 1: "copy_random tbl (s_poem d + 0) (s_flowers d) (length flowers) 15 (m, g) = (m1, g1)"
    "written d m [(0, 15, flowers)] m1" "rand_i g1 = rand_i g + 1"
    by (rule c [OF 0 t(1) word_lengths(9,5) a(1), of 0 g]) (simp_all add: sizeof_poem_def)
  obtain m2 g2 where 2: "copy_random tbl (s_poem d + 15) (s_colours d) (length colours) 15 (m1, g1) = (m2, g2)"
    "written d m [(15, 15, colours), (0, 15, flowers)] m2" "rand_i g2 = rand_i g1 + 1"
    by (rule c [OF 1(2) t(2) word_lengths(10,6) a(2), of 15 g1]) (simp_all add: sizeof_poem_def)
  obtain m3 g3 where 3: "copy_random tbl (s_poem d + 30) (s_flowers d) (length flowers) 15 (m2, g2) = (m3, g3)"
    "written d m [(30, 15, flowers), (15, 15, colours), (0, 15, flowers)] m3" "rand_i g3 = rand_i g2 + 1"
    by (rule c [OF 2(2) t(1) word_lengths(9,5) a(1), of 30 g2]) (simp_all add: sizeof_poem_def)
  obtain m4 g4 where 4: "copy_random tbl (s_poem d + 45) (s_colours d) (length colours) 15 (m3, g3) = (m4, g4)"
    "written d m [(45, 15, colours), (30, 15, flowers), (15, 15, colours), (0, 15, flowers)] m4" "rand_i g4 = rand_i g3 + 1"
    by (rule c [OF 3(2) t(2) word_lengths(10,6) a(2), of 45 g3]) (simp_all add: sizeof_poem_def)
  obtain m5 g5 where 5: "copy_random tbl (s_poem d + 60) (s_statement d) (length statements) 50 (m4, g4) = (m5, g5)"
    "written d m [(60, 50, statements), (45, 15, colours), (30, 15, flowers), (15, 15, colours), (0, 15, flowers)] m5"
    "rand_i g5 = rand_i g4 + 1"
    by (rule c [OF 4(2) t(3) word_lengths(11,7) a(3), of 60 g4]) (simp_all add: sizeof_poem_def)
  obtain m6 g6 where 6: "copy_random tbl (s_poem d + 110) (s_cadence d) (length cadences) 50 (m5, g5) = (m6, g6)"
    "written d m [(110, 50, cadences), (60, 50, statements), (45, 15, colours), (30, 15, flowers), (15, 15, colours), (0, 15, flowers)] m6"
    "rand_i g6 = rand_i g5 + 1"
    by (rule c [OF 5(2) t(4) word_lengths(12,8) a(4), of 110 g5]) (simp_all add: sizeof_poem_def)
  have run: "choose_words tbl d (m, g) = (m6, g6)"
    using 1(1) 2(1) 3(1) 4(1) 5(1) 6(1)
    by (simp add: choose_words_def word_lengths(1-4) POEM_WORD_LENGTH_def POEM_CLAUSE_LENGTH_def)
  with 6(2) 1(3) 2(3) 3(3) 4(3) 5(3) 6(3) print_words [of d m6] show ?thesis by (simp add: written_def)
qed

text \<open>A memory that holds the tables one after the other.\<close>

definition row_byte :: "string list \<Rightarrow> nat \<Rightarrow> nat \<Rightarrow> u8" where
  "row_byte ws w i = (let v = ws ! (i div w) in if i mod w < length v then of_char (v ! (i mod w)) else 0)"

lemma table_row_byte:
  assumes "\<forall>v \<in> set ws. length v < w \<and> 0 \<notin> set (chars_of v)" and m: "\<And>i. i < length ws * w \<Longrightarrow> m (a + i) = row_byte ws w i"
  shows "table_at m a w ws"
  unfolding table_at_def cstring_def bytes_at_def
proof (intro allI impI conjI)
  fix k
  assume k: "k < length ws"
  let ?v = "ws ! k"
  have v: "length ?v < w" "0 \<notin> set (chars_of ?v)" using assms(1) k by auto
  then show "0 \<notin> set (chars_of ?v)" by simp
  fix i
  assume "i < length (chars_of ?v @ [0])"
  then have i: "i \<le> length ?v" "i < w" using v(1) by (simp_all add: chars_of_def)
  have "w * (k + 1) \<le> w * length ws" using k by (intro mult_le_mono) simp_all
  then have "w * k + i < length ws * w" using i(2) by (simp add: mult.commute)
  then have "m (a + w * k + i) = row_byte ws w (w * k + i)" using m [of "w * k + i"] by (simp add: add.assoc)
  then show "m (a + w * k + i) = (chars_of ?v @ [0]) ! i" using i by (simp add: row_byte_def chars_of_def nth_append)
qed

definition poem_example :: byte_mem where
  "poem_example a =
     (if a < 2000 then row_byte flowers 15 (a - 1000) else if a < 3000 then row_byte colours 15 (a - 2000)
      else if a < 4000 then row_byte statements 50 (a - 3000) else row_byte cadences 50 (a - 4000))"

definition poem_addresses :: poem_data where
  "poem_addresses = \<lparr>s_poem = 500, s_flowers = 1000, s_colours = 2000, s_statement = 3000, s_cadence = 4000\<rparr>"

lemma poem_example_loaded: "poem_loaded poem_addresses poem_example" "poem_apart poem_addresses"
proof -
  have z: "\<forall>v \<in> set flowers \<union> set colours \<union> set statements \<union> set cadences. 0 \<notin> set (chars_of v)"
    by (simp add: flowers_def colours_def statements_def cadences_def chars_of_def of_char_def)
  show "poem_loaded poem_addresses poem_example"
    unfolding poem_loaded_def using z word_lengths
    by (auto intro!: table_row_byte simp: poem_example_def poem_addresses_def POEM_WORD_LENGTH_def POEM_CLAUSE_LENGTH_def
        POEM_NUM_FLOWER_def POEM_NUM_COLOUR_def POEM_NUM_STATEMENT_def POEM_NUM_CADENCE_def)
  show "poem_apart poem_addresses" by (simp add: poem_apart_def poem_addresses_def sizeof_poem_def)
qed

end
