(* ===== verification/Jobs.thy ===== *)
theory Jobs imports Menu Poetry Timer_Device begin

text \<open>
  The jobs of the simulations (\<open>src/60-330/job.c\<close>, and the parts of \<open>poetry.c\<close> that print and wait) as scripts: the
  list of the statements that the function executes.  \<open>job_step\<close> runs the first statement of a script on the
  kernel, and the timer interrupts it in between; a statement that waits for ticks is tried again and again.
  The function that plays tic-tac-toe is in \<open>Players\<close>.
\<close>

section \<open>Scripts\<close>

datatype arg = Pid | Prio | Number int

datatype job_action =
  First_response string | Busy_wait u32 | Say string "arg list" | Begin_atomic | End_atomic
| Lock_mutex nat | Unlock_mutex nat | Choose_words | Print_poem | Exit int

definition JOB_DELAY :: u32 where "JOB_DELAY = 10"

definition fn1 :: "job_action list" where
  "fn1 =
    [First_response ''fn1'', Busy_wait JOB_DELAY, Say ''PID %d (%d): Fn1: Running.\<newline>'' [Pid, Prio],
     Busy_wait JOB_DELAY, Say ''PID %d (%d): Fn1: Running..\<newline>'' [Pid, Prio], Busy_wait JOB_DELAY,
     Say ''PID %d (%d): Fn1: Running...\<newline>'' [Pid, Prio], Busy_wait JOB_DELAY, Exit 42]"

definition fn2 :: "job_action list" where
  "fn2 =
    [First_response ''fn2'', Busy_wait JOB_DELAY, Say ''PID %d (%d): Fn2: Running.\<newline>'' [Pid, Prio],
     Busy_wait JOB_DELAY, Say ''PID %d (%d): Fn2: Running..\<newline>'' [Pid, Prio], Busy_wait JOB_DELAY,
     Say ''PID %d (%d): Fn2: Running...\<newline>'' [Pid, Prio], Busy_wait JOB_DELAY,
     Say ''PID %d (%d): Fn2: Running....\<newline>'' [Pid, Prio], Busy_wait JOB_DELAY,
     Say ''PID %d (%d): Fn2: Running.....\<newline>'' [Pid, Prio], Busy_wait JOB_DELAY,
     Say ''PID %d (%d): Fn2: Running......\<newline>'' [Pid, Prio], Busy_wait JOB_DELAY, Exit 42]"

definition fn3 :: "job_action list" where
  "fn3 =
    [First_response ''fn3'', Busy_wait JOB_DELAY, Say ''PID %d (%d): Fn3: Running.\<newline>'' [Pid, Prio],
     Busy_wait JOB_DELAY, Say ''PID %d (%d): Fn3: Running..\<newline>'' [Pid, Prio], Busy_wait JOB_DELAY,
     Say ''PID %d (%d): Fn3: Running...\<newline>'' [Pid, Prio], Busy_wait JOB_DELAY,
     Say ''PID %d (%d): Fn3: Running....\<newline>'' [Pid, Prio], Busy_wait JOB_DELAY,
     Say ''PID %d (%d): Fn3: Running.....\<newline>'' [Pid, Prio], Busy_wait JOB_DELAY,
     Say ''PID %d (%d): Fn3: Running......\<newline>'' [Pid, Prio], Busy_wait JOB_DELAY,
     Say ''PID %d (%d): Fn3: Running.......\<newline>'' [Pid, Prio], Busy_wait JOB_DELAY,
     Say ''PID %d (%d): Fn3: Running........\<newline>'' [Pid, Prio], Busy_wait JOB_DELAY, Exit 42]"

text \<open>The loop of \<open>interrupt_toggler\<close>: what it prints from \<open>i\<close> on.  The counter has 32 bits and stays below.\<close>

definition BIG_NUM :: nat where "BIG_NUM = 500000000"
definition BIG_INTERVAL :: nat where "BIG_INTERVAL = 100000000"

function big_count :: "nat \<Rightarrow> job_action list" where
  "big_count i =
     (if i \<le> BIG_NUM
      then (if i mod BIG_INTERVAL = 0 then [Say ''PID %d: %lu\<newline>'' [Pid, Number (int i)]] else []) @ big_count (i + 1)
      else [])"
  by auto
termination by (relation "measure (\<lambda>i. Suc BIG_NUM - i)") auto

declare big_count.simps [simp del]

definition interrupt_toggler :: "job_action list" where
  "interrupt_toggler =
    [First_response ''Important process'', Busy_wait JOB_DELAY, Say ''PID %d: Important process: Running.\<newline>'' [Pid],
     Busy_wait JOB_DELAY, Say ''PID %d: Important process: Running..\<newline>'' [Pid], Busy_wait JOB_DELAY, Begin_atomic,
     Say ''\<newline>Interrupts disabled!\<newline>'' [], Say ''PID %d: Important process: Entering critical section...\<newline>'' [Pid],
     Say ''PID %d: Counting to %lu\<newline>'' [Pid, Number (int BIG_NUM)]]
    @ big_count 1 @
    [Say ''PID %d: Done!\<newline>'' [Pid], Say ''PID %d: Important process: Exiting critical section...\<newline>'' [Pid],
     Say ''Interrupts enabled!\<newline>\<newline>'' [], End_atomic, Say ''PID %d: Important process: Running...\<newline>'' [Pid],
     Busy_wait JOB_DELAY, Say ''PID %d: Important process: Running....\<newline>'' [Pid], Busy_wait JOB_DELAY, Exit 42]"

definition plan_poem :: "job_action list" where
  "plan_poem =
    [Say ''PID %d: The poet is thinking.\<newline>'' [Pid], Busy_wait JOB_DELAY, Say ''PID %d: The poet is thinking..\<newline>'' [Pid],
     Busy_wait JOB_DELAY, Say ''PID %d: The poet is thinking...\<newline>'' [Pid], Busy_wait JOB_DELAY]"

definition savour_poem :: "job_action list" where
  "savour_poem =
    [Say ''PID %d: The poet is savouring the poem.\<newline>'' [Pid], Busy_wait JOB_DELAY,
     Say ''PID %d: I have written an amazing poem!\<newline>'' [Pid], Busy_wait JOB_DELAY]"

definition wait_to_write_poem :: "job_action list" where
  "wait_to_write_poem = [Say ''PID %d: A poet is waiting...\<newline>'' [Pid], Busy_wait JOB_DELAY]"

definition write_poem :: "job_action list" where
  "write_poem = plan_poem @ [Choose_words, Print_poem] @ savour_poem"

text \<open>\<open>m\<close> is the address of \<open>s_job_mutex\<close>.\<close>

definition mutex_poet :: "nat \<Rightarrow> job_action list" where
  "mutex_poet m = [First_response ''Poet'', Lock_mutex m] @ write_poem @ [Unlock_mutex m, Exit 42]"

definition s_job_mutex_init :: "nat \<Rightarrow> kernel \<Rightarrow> kernel" where
  "s_job_mutex_init m = mutex_init m"

section \<open>Running a script\<close>

text \<open>The limit of the loop of \<open>busy_wait\<close> while it runs, and the local variable \<open>iflag\<close>; what has been printed.\<close>

datatype job_line = Line string "int list" | Poem string "u8 list list"

record job_run =
  job_kernel :: kernel
  job_data :: "byte_mem \<times> game"
  script :: "job_action list"
  wait_end :: "u32 option"
  iflag_var :: bool
  job_lines :: "job_line list"

definition arg_value :: "process \<Rightarrow> arg \<Rightarrow> int" where
  "arg_value p a = (case a of Pid \<Rightarrow> pid p | Prio \<Rightarrow> priority p | Number n \<Rightarrow> n)"

definition next_action :: "job_run \<Rightarrow> job_run" where
  "next_action s = s\<lparr>script := tl (script s), wait_end := None\<rparr>"

text \<open>A statement that gives up the processor has \<open>Inl\<close> as its result.\<close>

definition job_action :: "nat list \<Rightarrow> poem_data \<Rightarrow> job_action \<Rightarrow> job_run \<Rightarrow> (job_run + job_run) option" where
  "job_action tbl d a s = (let k = job_kernel s in case a of
     First_response f \<Rightarrow> do { k \<leftarrow> first_response f k; Some (Inr (next_action (s\<lparr>job_kernel := k\<rparr>))) }
   | Busy_wait n \<Rightarrow> (case wait_end s of
         None \<Rightarrow> Some (Inr (s\<lparr>wait_end := Some (g_numticks k + n)\<rparr>))
       | Some e \<Rightarrow> Some (Inr (if g_numticks k < e then s else next_action s)))
   | Say fmt args \<Rightarrow> do {
       p \<leftarrow> process_of (g_current k) k;
       Some (Inr (next_action (s\<lparr>job_lines := job_lines s @ [Line fmt (map (arg_value p) args)]\<rparr>)))
     }
   | Begin_atomic \<Rightarrow> do { (i, k) \<leftarrow> int_begin_atomic k; Some (Inr (next_action (s\<lparr>job_kernel := k, iflag_var := i\<rparr>))) }
   | End_atomic \<Rightarrow> do { k \<leftarrow> int_end_atomic (iflag_var s) k; Some (Inr (next_action (s\<lparr>job_kernel := k\<rparr>))) }
   | Lock_mutex m \<Rightarrow> do {
       r \<leftarrow> mutex_lock m k;
       case r of Inl k \<Rightarrow> Some (Inl (s\<lparr>job_kernel := k\<rparr>)) | Inr (_, k) \<Rightarrow> Some (Inr (next_action (s\<lparr>job_kernel := k\<rparr>)))
     }
   | Unlock_mutex m \<Rightarrow> do { k \<leftarrow> mutex_unlock m k; Some (Inr (next_action (s\<lparr>job_kernel := k\<rparr>))) }
   | Choose_words \<Rightarrow> Some (Inr (next_action (s\<lparr>job_data := choose_words tbl d (job_data s)\<rparr>)))
   | Print_poem \<Rightarrow> do {
       (fmt, ws) \<leftarrow> print_poem d (fst (job_data s));
       Some (Inr (next_action (s\<lparr>job_lines := job_lines s @ [Poem fmt ws]\<rparr>)))
     }
   | Exit c \<Rightarrow> do {
       r \<leftarrow> thread_exit c k;
       case r of Inl k \<Rightarrow> Some (Inl (s\<lparr>job_kernel := k\<rparr>)) | Inr (_, k) \<Rightarrow> Some (Inl (next_action (s\<lparr>job_kernel := k\<rparr>)))
     })"

definition job_step :: "nat list \<Rightarrow> poem_data \<Rightarrow> job_run \<Rightarrow> (job_run + job_run) option" where
  "job_step tbl d s = (case script s of [] \<Rightarrow> Some (Inr s) | a # as \<Rightarrow> job_action tbl d a s)"

text \<open>A timer interrupt while interrupts are enabled.\<close>

definition job_tick :: "job_run \<Rightarrow> job_run option" where
  "job_tick s = (if int_flag (job_kernel s) then do { k \<leftarrow> timer_interrupt (job_kernel s); Some (s\<lparr>job_kernel := k\<rparr>) } else Some s)"

datatype job_event = Act | Tick

fun job_events :: "nat list \<Rightarrow> poem_data \<Rightarrow> job_event list \<Rightarrow> job_run \<Rightarrow> (job_run + job_run) option" where
  "job_events tbl d [] s = Some (Inr s)"
| "job_events tbl d (Tick # es) s = do { s \<leftarrow> job_tick s; job_events tbl d es s }"
| "job_events tbl d (Act # es) s = do {
     r \<leftarrow> job_step tbl d s;
     case r of Inl s \<Rightarrow> Some (Inl s) | Inr s \<Rightarrow> job_events tbl d es s
   }"

section \<open>A job keeps the processor under a scheduler without preemption\<close>

text \<open>A timer interrupt goes back to the thread that it interrupted, and counts one tick.\<close>

definition ticks_of :: "kernel \<Rightarrow> u32 option" where
  "ticks_of k = map_option (\<lambda>th. running (time (process th))) (threads k (g_current k))"

text \<open>What is the same before and after, but for the ticks: \<open>n\<close> of them have passed.\<close>

definition kept :: "(qid \<Rightarrow> nat list) \<Rightarrow> kernel \<Rightarrow> nat \<Rightarrow> kernel \<Rightarrow> bool" where
  "kept A k0 n k \<longleftrightarrow> sched_inv A k \<and> g_current k = g_current k0 \<and> int_flag k \<and> g_scheduler k \<noteq> RR \<and> \<not> g_need_reschedule k
     \<and> g_numticks k = g_numticks k0 + of_nat n \<and> ticks_of k = map_option (\<lambda>r. r + of_nat n) (ticks_of k0)"

lemma kept_start:
  "sched_inv A k \<Longrightarrow> int_flag k \<Longrightarrow> g_scheduler k \<noteq> RR \<Longrightarrow> \<not> g_need_reschedule k \<Longrightarrow> kept A k 0 k"
  by (simp add: kept_def option.map_ident)

lemma kept_tick:
  assumes "kept A k0 n k"
  shows "\<exists>k'. timer_interrupt k = Some k' \<and> kept A k0 (Suc n) k'"
proof -
  note h = assms [unfolded kept_def]
  let ?k = "k\<lparr>int_flag := False, esp := esp k - 12 - 8 - 44\<rparr>"
  have "sched_inv A ?k" using h by simp
  from tick_ok [OF this] h obtain k1 th th' where k1: "timer_process_tick ?k = Some k1" "sched_inv A k1" "g_current k1 = g_current k"
    "\<not> int_flag k1" "g_scheduler k1 = g_scheduler k" "g_numticks k1 = g_numticks k + 1" "\<not> g_need_reschedule k1"
    "threads k (g_current k) = Some th" "threads k1 (g_current k) = Some th'"
    "running (time (process th')) = running (time (process th)) + 1"
    by auto
  have "timer_interrupt k = Some (k1\<lparr>esp := esp k1 + 64, int_flag := int_flag k\<rparr>)"
    using k1(1) interrupt_return_ok(1) [OF k1(2,4), of "int_flag k"] k1(7) by (simp add: timer_interrupt_def Let_def)
  moreover have "ticks_of k1 = map_option (\<lambda>r. r + 1) (ticks_of k)" using k1(3,8-10) by (simp add: ticks_of_def)
  then have "ticks_of k1 = map_option (\<lambda>r. r + of_nat (Suc n)) (ticks_of k0)"
    using h by (simp add: option.map_comp comp_def ac_simps)
  ultimately show ?thesis using h k1(2-7)
    by (intro exI [of _ "k1\<lparr>esp := esp k1 + 64, int_flag := int_flag k\<rparr>"]) (simp add: kept_def ticks_of_def ac_simps)
qed

lemma kept_first_response:
  assumes "kept A k0 n k"
  shows "\<exists>k'. first_response f k = Some k' \<and> kept A k0 n k'"
proof -
  note h = assms [unfolded kept_def]
  obtain th where th: "threads k (g_current k) = Some th" "process_ptr th \<noteq> 0"
    by (rule sched_inv_current [of A k]) (use h in auto)
  let ?k = "upd_process (g_current k) (\<lambda>p. p\<lparr>time := (time p)\<lparr>first_resp := g_numticks k\<rparr>\<rparr>)
      (k\<lparr>int_flag := False, klog := klog k @ [Starting (pid (process th)) (priority (process th)) f]\<rparr>)"
  have "first_response f k = Some (?k\<lparr>int_flag := True\<rparr>)"
    using th h by (simp add: first_response_def process_of_def halt_simps Let_def upd_process_def)
  moreover have "kept A k0 n (?k\<lparr>int_flag := True\<rparr>)"
    using h th by (simp add: kept_def ticks_of_def) (simp add: upd_process_def)
  ultimately show ?thesis by blast
qed

section \<open>The ticks that a script waits for\<close>

fun waits_of :: "job_action list \<Rightarrow> nat" where
  "waits_of [] = 0"
| "waits_of (Busy_wait n # as) = unat n + waits_of as"
| "waits_of (_ # as) = waits_of as"

definition plain :: "job_action \<Rightarrow> bool" where
  "plain a \<longleftrightarrow> (case a of First_response _ \<Rightarrow> True | Busy_wait _ \<Rightarrow> True | Say _ _ \<Rightarrow> True | _ \<Rightarrow> False)"

text \<open>After \<open>n\<close> ticks: the waits that are behind account for ticks that have passed, and a wait that is under
  way began at a tick \<open>b\<close> that has passed, after them.\<close>

definition waits_inv :: "job_action list \<Rightarrow> kernel \<Rightarrow> nat \<Rightarrow> job_run \<Rightarrow> bool" where
  "waits_inv scr k0 n s \<longleftrightarrow> waits_of (script s) \<le> waits_of scr \<and> list_all plain (script s) \<and>
     (case wait_end s of
        None \<Rightarrow> waits_of scr - waits_of (script s) \<le> n
      | Some e \<Rightarrow> \<exists>b w as. script s = Busy_wait w # as \<and> b \<le> n \<and> waits_of scr - waits_of (script s) \<le> b
          \<and> e = g_numticks k0 + of_nat b + w)"

lemma word_not_less_add:
  fixes t :: u32
  assumes "unat t + n < 2 ^ 32" and "unat t + (b + unat w) < 2 ^ 32" and "\<not> t + of_nat n < t + of_nat b + w"
  shows "b + unat w \<le> n"
proof -
  have n: "unat (t + of_nat n) = unat t + n" using assms(1) by (simp add: unat_word_ariths unat_of_nat)
  have "unat (t + of_nat b) = unat t + b" using assms(2) by (simp add: unat_word_ariths unat_of_nat)
  then have "unat (t + of_nat b + w) = unat t + b + unat w" using assms(2) by (subst unat_plus_no_wrap) simp_all
  with n assms(3) show ?thesis by (simp add: word_less_nat_alt)
qed

lemma waits_of_Cons: "waits_of (a # as) = (case a of Busy_wait n \<Rightarrow> unat n | _ \<Rightarrow> 0) + waits_of as"
  by (cases a) simp_all

text \<open>A statement of a plain script never gives up the processor and never fails.\<close>

lemma act_at_once:
  assumes k: "kept A k0 n (job_kernel s)" and sc: "script s = a # as" "plain a" "\<forall>w. a \<noteq> Busy_wait w"
  shows "\<exists>k' ls. job_step tbl d s = Some (Inr (next_action (s\<lparr>job_kernel := k', job_lines := ls\<rparr>))) \<and> kept A k0 n k'"
proof (cases a)
  case (First_response f)
  obtain k' where "first_response f (job_kernel s) = Some k'" "kept A k0 n k'" using kept_first_response [OF k] by blast
  then show ?thesis using sc(1) First_response
    by (intro exI [of _ k'] exI [of _ "job_lines s"]) (simp add: job_step_def job_action_def)
next
  case (Say fmt args)
  obtain th where "threads (job_kernel s) (g_current (job_kernel s)) = Some th" "process_ptr th \<noteq> 0"
    by (rule sched_inv_current [of A "job_kernel s"]) (use k in \<open>auto simp: kept_def\<close>)
  then have "process_of (g_current (job_kernel s)) (job_kernel s) = Some (process th)" by (simp add: process_of_def halt_simps)
  then show ?thesis using sc(1) Say k
    by (intro exI [of _ "job_kernel s"] exI [of _ "job_lines s @ [Line fmt (map (arg_value (process th)) args)]"])
      (simp add: job_step_def job_action_def)
qed (use sc in \<open>simp_all add: plain_def\<close>)

lemma plain_act:
  assumes k: "kept A k0 n (job_kernel s)" and w: "waits_inv scr k0 n s" and small: "unat (g_numticks k0) + n + waits_of scr < 2 ^ 32"
  shows "\<exists>s'. job_step tbl d s = Some (Inr s') \<and> kept A k0 n (job_kernel s') \<and> waits_inv scr k0 n s'"
proof (cases "script s")
  case Nil
  then show ?thesis using k w by (simp add: job_step_def)
next
  case (Cons a as)
  have p: "plain a" and as: "list_all plain as" and le: "waits_of (a # as) \<le> waits_of scr" using w Cons by (auto simp: waits_inv_def)
  show ?thesis
  proof (cases "\<exists>v. a = Busy_wait v")
    case False
    then obtain k' ls where "job_step tbl d s = Some (Inr (next_action (s\<lparr>job_kernel := k', job_lines := ls\<rparr>)))" "kept A k0 n k'"
      using act_at_once [OF k Cons p] by blast
    moreover have "waits_inv scr k0 n (next_action (s\<lparr>job_kernel := k', job_lines := ls\<rparr>))"
      using False w Cons le as by (cases a) (auto simp: waits_inv_def next_action_def split: option.splits)
    ultimately show ?thesis by (simp add: next_action_def)
  next
    case True
    then obtain v where Busy_wait: "a = Busy_wait v" by blast
    show ?thesis
    proof (cases "wait_end s")
      case None
      then have "waits_of scr - waits_of (script s) \<le> n" using w by (simp add: waits_inv_def)
      then show ?thesis using Cons Busy_wait None k w
        by (auto simp: job_step_def job_action_def waits_inv_def kept_def intro!: exI [of _ n])
    next
      case (Some e)
      show ?thesis
      proof (cases "g_numticks (job_kernel s) < e")
        case True
        then show ?thesis using Cons Busy_wait Some k w by (simp add: job_step_def job_action_def)
      next
        case False
        obtain b where b: "b \<le> n" "waits_of scr - waits_of (script s) \<le> b" "e = g_numticks k0 + of_nat b + v"
          using w Cons Busy_wait Some by (auto simp: waits_inv_def)
        have "unat v \<le> waits_of scr" using le Busy_wait by simp
        then have "b + unat v \<le> n"
          using word_not_less_add [of "g_numticks k0" n b v] small b(1,3) False k by (simp add: kept_def)
        then have "waits_inv scr k0 n (next_action s)"
          using b(2) le as Cons Busy_wait by (simp add: waits_inv_def next_action_def)
        moreover have "kept A k0 n (job_kernel (next_action s))" using k by (simp add: next_action_def)
        ultimately show ?thesis using Cons Busy_wait Some False by (simp add: job_step_def job_action_def)
      qed
    qed
  qed
qed

definition tick_count :: "job_event list \<Rightarrow> nat" where
  "tick_count es = length (filter (\<lambda>e. e = Tick) es)"

lemma tick_count_simps [simp]:
  "tick_count [] = 0" "tick_count (Tick # es) = Suc (tick_count es)" "tick_count (Act # es) = tick_count es"
  "tick_count (es @ fs) = tick_count es + tick_count fs" "tick_count (replicate n Tick) = n"
  by (simp_all add: tick_count_def)

lemma plain_run:
  assumes "kept A k0 n (job_kernel s)" and "waits_inv scr k0 n s" and "unat (g_numticks k0) + (n + tick_count es) + waits_of scr < 2 ^ 32"
  shows "\<exists>s'. job_events tbl d es s = Some (Inr s') \<and> kept A k0 (n + tick_count es) (job_kernel s') \<and> waits_inv scr k0 (n + tick_count es) s'"
  using assms
proof (induction es arbitrary: n s)
  case (Cons e es)
  show ?case
  proof (cases e)
    case Act
    from plain_act [OF Cons.prems(1,2)] Cons.prems(3) obtain s1 where
      "job_step tbl d s = Some (Inr s1)" "kept A k0 n (job_kernel s1)" "waits_inv scr k0 n s1" by fastforce
    with Cons.IH [of n s1] Cons.prems(3) Act show ?thesis by simp
  next
    case Tick
    obtain k' where k': "timer_interrupt (job_kernel s) = Some k'" "kept A k0 (Suc n) k'" using kept_tick [OF Cons.prems(1)] by blast
    have "waits_inv scr k0 (Suc n) (s\<lparr>job_kernel := k'\<rparr>)"
      using Cons.prems(2) by (auto simp: waits_inv_def split: option.splits intro: le_SucI)
    moreover have "int_flag (job_kernel s)" using Cons.prems(1) by (simp add: kept_def)
    ultimately show ?thesis using Cons.IH [of "Suc n" "s\<lparr>job_kernel := k'\<rparr>"] Cons.prems(3) k' Tick by (simp add: job_tick_def)
  qed
qed simp

text \<open>The events of a run in which nothing else happens: each wait sees exactly the ticks that it asks for.\<close>

fun shortest_run :: "job_action list \<Rightarrow> job_event list" where
  "shortest_run [] = []"
| "shortest_run (Busy_wait n # as) = Act # replicate (unat n) Tick @ Act # shortest_run as"
| "shortest_run (_ # as) = Act # shortest_run as"

lemma tick_count_shortest: "tick_count (shortest_run scr) = waits_of scr"
  by (induction scr rule: shortest_run.induct) simp_all

lemma only_ticks:
  assumes "kept A k0 n (job_kernel s)"
  shows "\<exists>k'. job_events tbl d (replicate m Tick @ es) s = job_events tbl d es (s\<lparr>job_kernel := k'\<rparr>) \<and> kept A k0 (n + m) k'"
  using assms
proof (induction m arbitrary: n s)
  case 0
  then show ?case by (intro exI [of _ "job_kernel s"]) simp
next
  case (Suc m)
  obtain k1 where k1: "timer_interrupt (job_kernel s) = Some k1" "kept A k0 (Suc n) k1" using kept_tick [OF Suc.prems] by blast
  moreover have "int_flag (job_kernel s)" using Suc.prems by (simp add: kept_def)
  moreover obtain k' where "job_events tbl d (replicate m Tick @ es) (s\<lparr>job_kernel := k1\<rparr>) = job_events tbl d es (s\<lparr>job_kernel := k'\<rparr>)"
    "kept A k0 (Suc n + m) k'" using Suc.IH [of "Suc n" "s\<lparr>job_kernel := k1\<rparr>"] k1(2) by auto
  ultimately show ?case by (intro exI [of _ k']) (simp add: job_tick_def)
qed

lemma shortest_run_ends:
  assumes "kept A k0 n (job_kernel s)" and "script s = scr" and "wait_end s = None" and "list_all plain scr"
  shows "\<exists>s'. job_events tbl d (shortest_run scr) s = Some (Inr s') \<and> script s' = []"
  using assms
proof (induction scr arbitrary: n s)
  case (Cons a as)
  show ?case
  proof (cases "\<exists>v. a = Busy_wait v")
    case False
    obtain k' ls where k': "job_step tbl d s = Some (Inr (next_action (s\<lparr>job_kernel := k', job_lines := ls\<rparr>)))" "kept A k0 n k'"
      using act_at_once [OF Cons.prems(1,2), where tbl = tbl and d = d] Cons.prems(4) False by auto
    have "shortest_run (a # as) = Act # shortest_run as" using False by (cases a) simp_all
    then show ?thesis using k' Cons.IH [of n "next_action (s\<lparr>job_kernel := k', job_lines := ls\<rparr>)"] Cons.prems(2,4)
      by (simp add: next_action_def)
  next
    case True
    then obtain v where v: "a = Busy_wait v" by blast
    let ?s = "s\<lparr>wait_end := Some (g_numticks (job_kernel s) + v)\<rparr>"
    have 1: "job_step tbl d s = Some (Inr ?s)" using Cons.prems(2,3) v by (simp add: job_step_def job_action_def)
    obtain k' where k': "job_events tbl d (replicate (unat v) Tick @ Act # shortest_run as) ?s
        = job_events tbl d (Act # shortest_run as) (?s\<lparr>job_kernel := k'\<rparr>)" "kept A k0 (n + unat v) k'"
      using only_ticks [of A k0 n ?s] Cons.prems(1) by fastforce
    have "g_numticks k' = g_numticks (job_kernel s) + v" using k'(2) Cons.prems(1) by (simp add: kept_def)
    then have 2: "job_step tbl d (?s\<lparr>job_kernel := k'\<rparr>) = Some (Inr (next_action (?s\<lparr>job_kernel := k'\<rparr>)))"
      using Cons.prems(2) v by (simp add: job_step_def job_action_def)
    have "\<exists>s'. job_events tbl d (shortest_run as) (next_action (?s\<lparr>job_kernel := k'\<rparr>)) = Some (Inr s') \<and> script s' = []"
      using Cons.IH [of "n + unat v" "next_action (?s\<lparr>job_kernel := k'\<rparr>)"] k'(2) Cons.prems(2,4) by (simp add: next_action_def)
    then show ?thesis using 1 2 k'(1) v by simp
  qed
qed simp

text \<open>A job as it starts.\<close>

definition job_start :: "kernel \<Rightarrow> byte_mem \<times> game \<Rightarrow> job_action list \<Rightarrow> job_run" where
  "job_start k x scr = \<lparr>job_kernel = k, job_data = x, script = scr, wait_end = None, iflag_var = False, job_lines = []\<rparr>"

lemma job_runs_on:
  assumes "sched_inv A k" "int_flag k" "g_scheduler k \<noteq> RR" "\<not> g_need_reschedule k" and "list_all plain scr"
    and "unat (g_numticks k) + tick_count es + waits_of scr < 2 ^ 32"
  shows "\<exists>s'. job_events tbl d es (job_start k x scr) = Some (Inr s') \<and> g_current (job_kernel s') = g_current k \<and> sched_inv A (job_kernel s')
    \<and> ticks_of (job_kernel s') = map_option (\<lambda>r. r + of_nat (tick_count es)) (ticks_of k)
    \<and> (script s' = [] \<longrightarrow> waits_of scr \<le> tick_count es)"
proof -
  have "kept A k 0 (job_kernel (job_start k x scr))" using kept_start [OF assms(1-4)] by (simp add: job_start_def)
  moreover have "waits_inv scr k 0 (job_start k x scr)" using assms(5) by (simp add: waits_inv_def job_start_def)
  ultimately obtain s' where s': "job_events tbl d es (job_start k x scr) = Some (Inr s')" "kept A k (0 + tick_count es) (job_kernel s')"
    "waits_inv scr k (0 + tick_count es) s'" using plain_run [of A k 0 "job_start k x scr" scr es] assms(6) by fastforce
  have "script s' = [] \<longrightarrow> waits_of scr \<le> tick_count es" using s'(3) by (auto simp: waits_inv_def split: option.splits)
  with s'(1,2) show ?thesis by (intro exI [of _ s']) (simp add: kept_def)
qed

lemma job_can_end:
  assumes "sched_inv A k" "int_flag k" "g_scheduler k \<noteq> RR" "\<not> g_need_reschedule k" and "list_all plain scr"
  shows "\<exists>s'. job_events tbl d (shortest_run scr) (job_start k x scr) = Some (Inr s') \<and> script s' = []"
  using shortest_run_ends [of A k 0 "job_start k x scr"] kept_start [OF assms(1-4)] assms(5) by (simp add: job_start_def)

section \<open>The jobs of the tables\<close>

text \<open>The function at an address.\<close>

definition job_at :: "job_addresses \<Rightarrow> nat \<Rightarrow> job_action list" where
  "job_at a f = (if f = fn1_at a then fn1 else if f = fn2_at a then fn2 else if f = fn3_at a then fn3 else [])"

text \<open>The three functions: plain but for the exit at the end, and the ticks that they wait for.\<close>

lemma fn_waits:
  "fn1 = butlast fn1 @ [Exit 42]" "list_all plain (butlast fn1)" "waits_of (butlast fn1) = 40"
  "fn2 = butlast fn2 @ [Exit 42]" "list_all plain (butlast fn2)" "waits_of (butlast fn2) = 70"
  "fn3 = butlast fn3 @ [Exit 42]" "list_all plain (butlast fn3)" "waits_of (butlast fn3) = 90"
  by (simp_all add: fn1_def fn2_def fn3_def plain_def JOB_DELAY_def)

text \<open>The burst that a job declares orders the jobs as their waits do: the shortest job of \<open>SJF\<close> is the shortest
  one.\<close>

lemma bursts_order:
  assumes "js \<in> set (g_scheduler_sim a)" and "j \<in> set js" and "j' \<in> set js" and "distinct [fn1_at a, fn2_at a, fn3_at a]"
  shows "cpu_burst j \<le> cpu_burst j' \<longleftrightarrow> waits_of (job_at a (fn_ptr j)) \<le> waits_of (job_at a (fn_ptr j'))"
proof -
  have w: "waits_of fn1 = 40" "waits_of fn2 = 70" "waits_of fn3 = 90"
    by (simp_all add: fn1_def fn2_def fn3_def JOB_DELAY_def)
  have "(fn_ptr j, cpu_burst j) \<in> {(fn1_at a, 10), (fn2_at a, 20), (fn3_at a, 30)}" if "j \<in> set js" for j
    using assms(1) that by (auto simp: g_scheduler_sim_def a_job_def)
  from this [OF assms(2)] this [OF assms(3)] show ?thesis using assms(4) by (auto simp: job_at_def w)
qed

section \<open>The loop of \<open>interrupt_toggler\<close>\<close>

lemma big_count_upt:
  "big_count i = concat (map (\<lambda>i. if i mod BIG_INTERVAL = 0 then [Say ''PID %d: %lu\<newline>'' [Pid, Number (int i)]] else []) [i..<Suc BIG_NUM])"
proof (induction i rule: big_count.induct)
  case (1 i)
  then show ?case by (subst big_count.simps) (cases "i \<le> BIG_NUM"; simp add: upt_rec [of i "Suc BIG_NUM"] del: upt_Suc)
qed

lemma multiples:
  assumes "0 < (m :: nat)"
  shows "concat (map (\<lambda>i. if i mod m = 0 then [f i] else []) [1..<Suc (q * m)]) = map (\<lambda>k. f (k * m)) [1..<Suc q]"
proof (induction q)
  case (Suc q)
  have 1: "[1..<Suc (Suc q * m)] = [1..<Suc (q * m)] @ [Suc (q * m)..<Suc q * m] @ [Suc q * m]"
  proof -
    have "Suc (q * m) + (m - 1) = Suc q * m" using assms by simp
    then have "[1..<Suc q * m] = [1..<Suc (q * m)] @ [Suc (q * m)..<Suc q * m]"
      using upt_add_eq_append [of 1 "Suc (q * m)" "m - 1"] by (simp only:)
    moreover have "1 \<le> Suc q * m" using assms by simp
    ultimately show ?thesis unfolding upt_Suc by simp
  qed
  have 2: "concat (map (\<lambda>i. if i mod m = 0 then [f i] else []) [Suc (q * m)..<Suc q * m]) = []"
  proof -
    have n: "\<not> m dvd i" if "Suc (q * m) \<le> i" "i < Suc q * m" for i
    proof
      assume "m dvd i"
      then obtain c where "i = c * m" by (metis dvd_def mult.commute)
      with that have "q * m < c * m" "c * m < Suc q * m" by linarith+
      then have "q < c" "c < Suc q" using assms by (simp_all only: mult_less_cancel2)
      then show False by simp
    qed
    show ?thesis by (auto simp del: upt_Suc simp: n)
  qed
  show ?case unfolding 1 map_append concat_append 2 Suc by simp
qed simp

text \<open>The critical section prints five numbers.\<close>

lemma big_count_lines:
  "big_count 1 = map (\<lambda>k. Say ''PID %d: %lu\<newline>'' [Pid, Number (int (k * 100000000))]) [1, 2, 3, 4, 5]"
proof -
  have "Suc BIG_NUM = Suc (5 * BIG_INTERVAL)" "0 < BIG_INTERVAL" by (simp_all add: BIG_NUM_def BIG_INTERVAL_def)
  then have "big_count 1 = map (\<lambda>k. Say ''PID %d: %lu\<newline>'' [Pid, Number (int (k * BIG_INTERVAL))]) [1..<Suc 5]"
    using multiples [where f = "\<lambda>i. Say ''PID %d: %lu\<newline>'' [Pid, Number (int i)]" and q = 5 and m = BIG_INTERVAL]
    unfolding big_count_upt by simp
  moreover have "[1..<Suc 5] = [1, 2, 3, 4, 5]" by (simp add: upt_rec)
  ultimately show ?thesis by (simp add: BIG_INTERVAL_def)
qed

end
