(* ===== verification/Loading.thy ===== *)
theory Loading imports Kernel_Boot begin

text \<open>
  The long term scheduler with enough memory: \<open>thread_create_from_job\<close> for one job, \<open>long_term_scheduler\<close> for a
  list of jobs (\<open>src/60-330/kernel/thread.c\<close>, \<open>src/60-330/scheduler.c\<close>).  The jobs become ready threads in the order of
  the selected scheduler.
\<close>

section \<open>Insertion depends only on the priorities of what is there\<close>

lemma sched_insert_cong:
  assumes "\<forall>x \<in> insert n (set xs). p x = q x"
  shows "sched_insert sc p n xs = sched_insert sc q n xs"
proof -
  have "takeWhile (\<lambda>x. p n < p x) (rev xs) = takeWhile (\<lambda>x. q n < q x) (rev xs)"
    "dropWhile (\<lambda>x. p n < p x) (rev xs) = dropWhile (\<lambda>x. q n < q x) (rev xs)"
    using assms by (auto intro!: takeWhile_cong dropWhile_cong)
  then show ?thesis using assms by (simp add: sched_insert_def ins_at_priority_def ins_behind_def)
qed

lemma fold_insert_cong:
  "\<forall>x \<in> set ns \<union> set xs. p x = q x \<Longrightarrow> fold (sched_insert sc p) ns xs = fold (sched_insert sc q) ns xs"
proof (induction ns arbitrary: xs)
  case (Cons n ns)
  have "sched_insert sc p n xs = sched_insert sc q n xs" by (rule sched_insert_cong) (use Cons.prems in simp)
  moreover have "\<forall>x \<in> set ns \<union> set (sched_insert sc q n xs). p x = q x" using Cons.prems by (auto simp: sched.ins_set)
  ultimately show ?case using Cons.IH by simp
qed simp

section \<open>Allocation from a heap with room at its end\<close>

text \<open>
  Whatever has been freed before: a request that fits behind the used part of the heap is granted, from a free
  block or from the end.  From a heap in which nothing is free the block is the one at the end.
\<close>

lemma alloc_room:
  assumes inv: "kernel_inv A M FA s" and room: "brk (heap s) + sz_t + sz \<le> h_end (heap s)" and sz: "sz_t \<le> sz"
  shows "\<exists>p h n. mem_alloc sz s = Some (Inr (p, s\<lparr>heap := h\<rparr>)) \<and> sz_t < p \<and> M (p - sz_t) = None
    \<and> kernel_inv A (M(p - sz_t \<mapsto> n)) FA (s\<lparr>heap := h\<rparr>) \<and> brk h \<le> brk (heap s) + sz_t + sz \<and> h_end h = h_end (heap s)
    \<and> (\<forall>b. used_to b M s \<longrightarrow> p = b + sz_t \<and> used_to (b + sz_t + sz) (M(p - sz_t \<mapsto> n)) (s\<lparr>heap := h\<rparr>))"
proof (cases "\<exists>b. used_to b M s")
  case True
  then obtain b where u: "used_to b M s" by blast
  have b: "brk (heap s) = b" "0 < b" using u by (simp_all add: used_to_def)
  obtain h where h: "mem_alloc sz s = Some (Inr (b + sz_t, s\<lparr>heap := h\<rparr>))" "M b = None"
    "used_to (b + sz_t + sz) (M(b \<mapsto> sz)) (s\<lparr>heap := h\<rparr>)" "h_end h = h_end (heap s)"
    using alloc_fresh [OF u _ sz] room b(1) by blast
  have "brk h = b + sz_t + sz" using h(3) by (simp add: used_to_def)
  moreover have "c = b" if "used_to c M s" for c using that b(1) by (simp add: used_to_def)
  ultimately show ?thesis using h b kernel_inv_alloc [OF inv h(3) refl]
    by (intro exI [of _ "b + sz_t"] exI [of _ h] exI [of _ sz]) auto
next
  case False
  obtain F where F: "heap_inv (heap s) F M" using kernel_invD(2) [OF inv] by (auto simp: mem_inv_def)
  have c: "chunk_len sz = sz" using sz by (simp add: chunk_len_def)
  from malloc_cases [OF F, of sz] obtain a n h F' where
    m: "malloc sz (heap s) = Some (a + sz_t, h)" "M a = None" "0 < a" "heap_inv h F' (M(a \<mapsto> n))"
      "brk h \<le> brk (heap s) + sz_t + sz" "h_end h = h_end (heap s)"
    unfolding c using room by (elim disjE exE conjE) (blast, linarith)
  have "mem_alloc sz s = Some (Inr (a + sz_t, s\<lparr>heap := h\<rparr>))"
    using m(1,3) by (simp add: mem_alloc_def mem_alloc_loop_def Let_def)
  moreover have "objects (s\<lparr>heap := h\<rparr>) = objects s" by (simp add: objects_def)
  then have "kernel_inv A (M(a \<mapsto> n)) FA (s\<lparr>heap := h\<rparr>)"
    using inv m(4) objects_allocated_mono [of M s "s\<lparr>heap := h\<rparr>" a n] by (auto simp: kernel_inv_def mem_inv_def frames_inv_def)
  ultimately show ?thesis using m(2,3,5,6) False by (intro exI [of _ "a + sz_t"] exI [of _ h] exI [of _ n]) simp
qed

section \<open>One job\<close>

definition job_priority :: "scheduler \<Rightarrow> job \<Rightarrow> int" where
  "job_priority sc j = (if sc = SJF then cpu_burst j else if sc = PRIORITY then jpriority j else DEFAULT_PRIORITY)"

lemma make_new_ok:
  assumes inv: "sched_inv A s" and t: "threads s t = None" "t \<noteq> 0" and th: "process_ptr th \<noteq> 0"
  shows "\<exists>s'. thread_make_new t (put_thread t th s) = Some s'
    \<and> sched_inv (A(NewQ := sched_insert (g_scheduler s) (prio s') t (A NewQ))) s'
    \<and> threads s' = (threads s)(t \<mapsto> th\<lparr>tstate := THREAD_NEW,
         process := (process th)\<lparr>time := (time (process th))\<lparr>arrival := g_numticks s\<rparr>\<rparr>\<rparr>)
    \<and> g_current s' = g_current s \<and> int_flag s' = int_flag s \<and> rest s' = rest s"
proof -
  have off: "on_no_list t A" using on_no_list_unknown [OF sched_invD(1) [OF inv] t(1)] .
  have c: "t \<noteq> g_current s" using sched_invD(5) [OF inv] t(1) by auto
  let ?th = "th\<lparr>tstate := THREAD_NEW, process := (process th)\<lparr>time := (time (process th))\<lparr>arrival := g_numticks s\<rparr>\<rparr>\<rparr>"
  let ?s0 = "put_thread t th s"
  let ?s1 = "upd_process t (\<lambda>p. p\<lparr>time := (time p)\<lparr>arrival := g_numticks s\<rparr>\<rparr>)
      (upd_thread t (\<lambda>th. th\<lparr>tstate := THREAD_NEW\<rparr>)
        (?s0\<lparr>int_flag := False, klog := klog s @ [Making_new (pid (process th)) (priority (process th))]\<rparr>))"
  have thr: "threads ?s1 = (threads s)(t \<mapsto> ?th)" by (simp add: put_thread_def)
  have pr: "prio_of ?s1 y = Some (prio ?s1 y)" if "y \<in> insert t (set (A NewQ))" for y
  proof (cases "y = t")
    case True
    then show ?thesis using thr th by (simp add: prio_def prio_of_def process_of_def)
  next
    case False
    with that have "queued_ok s NewQ y" using queues_invD(2) [OF sched_invD(1) [OF inv]] by simp
    then have "queued_ok ?s1 NewQ y" using False thr by (simp add: queued_ok_def)
    then show ?thesis by (rule queued_prio)
  qed
  let ?A = "A(NewQ := sched_insert (g_scheduler s) (prio ?s1) t (A NewQ))"
  obtain l where l: "SCHEDULER (g_scheduler s) (prio_of ?s1) NewQ t (tqs s) = Some l" "lists_rep l ?A"
    using lists_SCHEDULER [OF queues_invD(1) [OF sched_invD(1) [OF inv]] off, of NewQ "prio_of ?s1" "prio ?s1" "g_scheduler s"] pr by auto
  let ?s' = "(?s1\<lparr>tqs := l\<rparr>)\<lparr>int_flag := int_flag s\<rparr>"
  have sel: "threads ?s0 t = Some th" "g_scheduler ?s1 = g_scheduler s" "tqs ?s1 = tqs s" "g_current ?s' = g_current s"
    "threads ?s' = (threads s)(t \<mapsto> ?th)"
    using thr by (simp_all add: put_thread_def)
  have p: "prio ?s' = prio ?s1" by (simp add: fun_eq_iff prio_def prio_of_def process_of_def)
  have run: "thread_make_new t ?s0 = Some ?s'"
    using sel(1) th l(1) by (simp add: thread_make_new_def process_of_def halt_simps Let_def put_thread_def)
  have set: "set (?A NewQ) = insert t (set (A NewQ))" by (simp add: sched.ins_set)
  have "queues_inv ?A ?s'"
  proof (rule queues_inv_move [OF sched_invD(1) [OF inv] l(2)])
    show "threads ?s' x = threads s x" if "r \<noteq> NewQ" "x \<in> set (A r)" for r x
      using that off sel(5) by (auto simp: on_no_list_def)
    show "queued_ok ?s' NewQ x" if "x \<in> set (sched_insert (g_scheduler s) (prio ?s1) t (A NewQ))" for x
      using that th t(2) sel(5) queues_invD(2) [OF sched_invD(1) [OF inv], of x NewQ] by (auto simp: sched.ins_set queued_ok_def)
  qed simp
  moreover have "no_thread_lost {g_current s} ?A ?s'"
  proof (rule no_thread_lostI)
    fix x th'
    assume x: "threads ?s' x = Some th'" "tstate th' \<notin> {THREAD_EXITED, THREAD_KILLED}" "x \<notin> {g_current s}"
    show "\<exists>q. x \<in> set (?A q)"
    proof (cases "x = t")
      case True
      then show ?thesis using set by blast
    next
      case False
      with x sel(5) obtain q where "x \<in> set (A q)" using no_thread_lostD [OF sched_invD(2) [OF inv]] by auto
      then have "x \<in> set (?A q)" by (auto simp: sched.ins_set)
      then show ?thesis by blast
    qed
  qed
  moreover have "on_no_list (g_current s) ?A" using sched_invD(3) [OF inv] c by (auto simp: on_no_list_def sched.ins_set)
  moreover have "queued_ok ?s' (MutexWaitQ 0) (g_current s)" using inv c sel(5) by (simp add: sched_inv_def queued_ok_def)
  ultimately have "sched_inv ?A ?s'" using sel(4) by (simp add: sched_inv_def)
  moreover have "rest ?s' = rest s" by (simp add: rest_def upd_process_def upd_thread_def put_thread_def)
  ultimately show ?thesis using run p sel(4,5) by (intro exI [of _ ?s']) simp
qed

text \<open>What is said of the thread of a job, wherever it is queued.\<close>

definition thread_of_job :: "job \<Rightarrow> u32 \<Rightarrow> thread_mode \<Rightarrow> scheduler \<Rightarrow> int \<Rightarrow> thread \<Rightarrow> bool" where
  "thread_of_job j arg mode sc n th \<longleftrightarrow> start_func th = fn_ptr j \<and> start_arg th = arg \<and> refcount th = (if mode = THREAD_ATTACHED then 2 else 1)
     \<and> pid (process th) = n \<and> priority (process th) = job_priority sc j"

lemma job_create_room:
  assumes inv: "kernel_inv A M FA s" and room: "brk (heap s) + 80 \<le> h_end (heap s)" and f: "FA FreeFrames = f # fs"
  shows "\<exists>t s' M' th. thread_create_from_job j arg mode s = Some (Inr (t, s')) \<and> t \<noteq> 0
    \<and> kernel_inv (A(NewQ := sched_insert (g_scheduler s) (prio s') t (A NewQ))) M' (FA(FreeFrames := fs)) s'
    \<and> brk (heap s') \<le> brk (heap s) + 80 \<and> h_end (heap s') = h_end (heap s)
    \<and> g_current s' = g_current s \<and> g_scheduler s' = g_scheduler s \<and> int_flag s' = int_flag s \<and> next_pid s' = next_pid s + 1
    \<and> threads s t = None \<and> threads s' = (threads s)(t \<mapsto> th)
    \<and> thread_of_job j arg mode (g_scheduler s) (next_pid s) th \<and> process_ptr th \<noteq> 0
    \<and> (\<forall>b. used_to b M s \<longrightarrow> t = b + 4 \<and> used_to (b + 80) M' s')"
proof -
  have r1: "brk (heap s) + sz_t + sizeof_thread \<le> h_end (heap s)" "sz_t \<le> sizeof_thread" using room by simp_all
  obtain t h1 n1 where a1: "mem_alloc sizeof_thread s = Some (Inr (t, s\<lparr>heap := h1\<rparr>))" "sz_t < t" "M (t - sz_t) = None"
      "kernel_inv A (M(t - sz_t \<mapsto> n1)) FA (s\<lparr>heap := h1\<rparr>)" "brk h1 \<le> brk (heap s) + sz_t + sizeof_thread" "h_end h1 = h_end (heap s)"
      "\<forall>b. used_to b M s \<longrightarrow> t = b + sz_t \<and> used_to (b + sz_t + sizeof_thread) (M(t - sz_t \<mapsto> n1)) (s\<lparr>heap := h1\<rparr>)"
    using alloc_room [OF inv r1] by blast
  let ?M1 = "M(t - sz_t \<mapsto> n1)"
  obtain s2 l where a2: "mem_alloc_frame FRAME_KSTACK 0 (s\<lparr>heap := h1\<rparr>) = Some (Inr (f, s2))"
      "kernel_inv A ?M1 (FA(FreeFrames := fs)) s2"
      "s2 = upd_frame f (\<lambda>fr. fr\<lparr>f_state := FRAME_KSTACK, f_refcount := 0\<rparr>) (s\<lparr>heap := h1\<rparr>\<lparr>flists := l\<rparr>)"
    using frame_fresh [OF a1(4) f, of FRAME_KSTACK 0] by blast
  have s2: "threads s2 = threads s" "g_current s2 = g_current s" "g_scheduler s2 = g_scheduler s" "next_pid s2 = next_pid s"
    "int_flag s2 = int_flag s" "heap s2 = h1"
    using a2(3) by (simp_all add: upd_frame_def)
  have r2: "brk (heap s2) + sz_t + sizeof_process \<le> h_end (heap s2)" "sz_t \<le> sizeof_process" using room a1(5,6) s2(6) by simp_all
  obtain p h3 n3 where h3: "mem_alloc sizeof_process s2 = Some (Inr (p, s2\<lparr>heap := h3\<rparr>))" "sz_t < p" "?M1 (p - sz_t) = None"
      "kernel_inv A (?M1(p - sz_t \<mapsto> n3)) (FA(FreeFrames := fs)) (s2\<lparr>heap := h3\<rparr>)" "brk h3 \<le> brk (heap s2) + sz_t + sizeof_process"
      "h_end h3 = h_end (heap s2)"
      "\<forall>b. used_to b ?M1 s2 \<longrightarrow> p = b + sz_t \<and> used_to (b + sz_t + sizeof_process) (?M1(p - sz_t \<mapsto> n3)) (s2\<lparr>heap := h3\<rparr>)"
    using alloc_room [OF a2(2) r2] by blast
  let ?M = "?M1(p - sz_t \<mapsto> n3)" and ?FA = "FA(FreeFrames := fs)"
  let ?s3 = "s2\<lparr>heap := h3, g_num_threads := next_pid s2 + 1, next_pid := next_pid s2 + 1\<rparr>"
  have k3: "kernel_inv A ?M ?FA ?s3"
    using h3(4) by (simp add: kernel_inv_def mem_inv_def frames_inv_def objects_allocated_def objects_def)
  have t: "threads s t = None"
    using fresh_object [OF kernel_invD(4) [OF inv] a1(3)] by (auto simp: objects_def)
  let ?th = "thread_bootstrap ((attach mode s2 (zero_thread\<lparr>stack := mem_frame_to_pa f, refcount := 1\<rparr>))\<lparr>process_ptr := p,
      process := zero_process\<lparr>pid := next_pid s2, priority := job_priority (g_scheduler s2) j\<rparr>\<rparr>) (fn_ptr j) arg"
  let ?th' = "?th\<lparr>tstate := THREAD_NEW, process := (process ?th)\<lparr>time := (time (process ?th))\<lparr>arrival := g_numticks ?s3\<rparr>\<rparr>\<rparr>"
  have t3: "threads ?s3 t = None" "t \<noteq> 0" "process_ptr ?th \<noteq> 0" using t s2(1) a1(2) h3(2) by simp_all
  obtain s' where s': "thread_make_new t (put_thread t ?th ?s3) = Some s'"
    "sched_inv (A(NewQ := sched_insert (g_scheduler ?s3) (prio s') t (A NewQ))) s'" "threads s' = (threads ?s3)(t \<mapsto> ?th')"
    "g_current s' = g_current ?s3" "int_flag s' = int_flag ?s3" "rest s' = rest ?s3"
    using make_new_ok [OF kernel_invD(1) [OF k3] t3] by blast
  have thr: "threads s' = (threads s)(t \<mapsto> ?th')" using s'(3) s2(1) by simp
  have nz: "stack_ptr ?th \<noteq> 0" by (rule bootstrap_nonzero [of _ f]) (simp add: zero_thread_def attach_def)
  have run: "thread_create_from_job j arg mode s = Some (Inr (t, s'))"
    using s'(1) nz s2(3) h3(1)
    by (simp add: thread_create_from_job_def a1(1) a2(1) gen_pid_def Let_def halt_simps job_priority_def split del: if_split cong: if_cong)
  have ob: "objects s' \<subseteq> insert t (insert p (objects s))"
    using s'(3,6) rest_sel(10) [OF s'(6)] s2(1) a2(3) by (auto simp: objects_def upd_frame_def split: if_splits)
  have "objects_allocated M s" by (rule kernel_invD(4) [OF inv])
  then have "?M (a - sz_t) \<noteq> None" if "a \<in> objects s'" for a
    using ob that by (cases "a = t"; cases "a = p") (auto simp: objects_allocated_def)
  then have "objects_allocated ?M s'" by (simp only: objects_allocated_def) blast
  moreover have "mem_inv ?M s'" "frames_inv ?FA s'"
    using kernel_invD(2,3) [OF k3] rest_sel(7-9) [OF s'(6)] by (simp_all add: mem_inv_def frames_inv_def)
  ultimately have k': "kernel_inv (A(NewQ := sched_insert (g_scheduler s) (prio s') t (A NewQ))) ?M ?FA s'"
    using s'(2) s2(3) by (simp add: kernel_inv_def)
  have hp: "heap s' = h3" using rest_sel(7) [OF s'(6)] by simp
  have u: "t = b + 4 \<and> used_to (b + 80) ?M s'" if "used_to b M s" for b
  proof -
    have 1: "t = b + sz_t" "used_to (b + 52) ?M1 s2" using a1(7) that s2(6) by (auto simp: used_to_def)
    have "used_to (b + 52 + sz_t + sizeof_process) ?M (s2\<lparr>heap := h3\<rparr>)" using h3(7) [rule_format, OF 1(2)] by blast
    moreover have "b + 52 + sz_t + sizeof_process = b + 80" by simp
    ultimately have "used_to (b + 80) ?M (s2\<lparr>heap := h3\<rparr>)" by (simp only:)
    then show ?thesis using 1(1) hp by (simp add: used_to_def)
  qed
  have h: "brk (heap s') \<le> brk (heap s) + 80" "h_end (heap s') = h_end (heap s)" using hp h3(5,6) a1(5,6) s2(6) by simp_all
  moreover have "g_scheduler s' = g_scheduler s" "next_pid s' = next_pid s + 1"
    using rest_sel(2,15) [OF s'(6)] s2(3,4) by simp_all
  moreover have "thread_of_job j arg mode (g_scheduler s) (next_pid s) ?th'"
    using s2(3,4) by (simp add: thread_of_job_def attach_def zero_thread_def)
  moreover have "\<forall>b. used_to b M s \<longrightarrow> t = b + 4 \<and> used_to (b + 80) ?M s'" using u by blast
  ultimately show ?thesis using run k' s'(4,5) s2(2,5) thr t t3(2,3)
    by (intro exI [of _ t] exI [of _ s'] exI [of _ ?M] exI [of _ ?th'] conjI; (assumption | simp; fail))
qed

section \<open>A list of jobs\<close>

text \<open>The addresses of \<open>n\<close> threads that are created one after the other at the end \<open>b\<close> of the used heap.\<close>

fun batch :: "nat \<Rightarrow> nat \<Rightarrow> nat list" where
  "batch b 0 = []"
| "batch b (Suc n) = (b + 4) # batch (b + 80) n"

lemma length_batch [simp]: "length (batch b n) = n"
  by (induction b n rule: batch.induct) simp_all

lemma batch_above: "x \<in> set (batch b n) \<Longrightarrow> b < x"
  by (induction b n rule: batch.induct) auto

lemma distinct_batch: "distinct (batch b n)"
  by (induction b n rule: batch.induct) (auto dest: batch_above)

lemma prio_same: "threads s' x = threads s x \<Longrightarrow> prio s' x = prio s x"
  by (simp add: prio_def prio_of_def process_of_def)

lemma create_jobs_room:
  assumes "kernel_inv A M FA s" and "brk (heap s) + 80 * length js \<le> h_end (heap s)"
    and "FA FreeFrames = fs @ gs" and "length fs = length js"
  shows "\<exists>ts s' M'. create_jobs js mode s = Some (Inr (ts, s')) \<and> length ts = length js \<and> distinct ts
    \<and> kernel_inv (A(NewQ := fold (sched_insert (g_scheduler s) (prio s')) ts (A NewQ))) M' (FA(FreeFrames := gs)) s'
    \<and> brk (heap s') \<le> brk (heap s) + 80 * length js \<and> h_end (heap s') = h_end (heap s)
    \<and> g_current s' = g_current s \<and> g_scheduler s' = g_scheduler s \<and> int_flag s' = int_flag s
    \<and> (\<forall>x. x \<notin> set ts \<longrightarrow> threads s' x = threads s x) \<and> (\<forall>x \<in> set ts. threads s x = None)
    \<and> (\<forall>i < length js. \<exists>th. threads s' (ts ! i) = Some th
         \<and> thread_of_job (js ! i) 0 mode (g_scheduler s) (next_pid s + int i) th)
    \<and> (\<forall>b. used_to b M s \<longrightarrow> ts = batch b (length js) \<and> used_to (b + 80 * length js) M' s')"
  using assms
proof (induction js arbitrary: A M FA s fs)
  case Nil
  then have "FA(FreeFrames := gs) = FA" by auto
  with Nil show ?case by (intro exI [of _ "[]"] exI [of _ s] exI [of _ M]) simp
next
  case (Cons j js)
  let ?sc = "g_scheduler s"
  obtain f fs' where fs: "fs = f # fs'" "length fs' = length js" using Cons.prems(4) by (cases fs) auto
  have r: "brk (heap s) + 80 \<le> h_end (heap s)" "FA FreeFrames = f # (fs' @ gs)" using Cons.prems(2,3) fs by simp_all
  obtain t s1 M1 th where s1: "thread_create_from_job j 0 mode s = Some (Inr (t, s1))"
    "kernel_inv (A(NewQ := sched_insert ?sc (prio s1) t (A NewQ))) M1 (FA(FreeFrames := fs' @ gs)) s1"
    "brk (heap s1) \<le> brk (heap s) + 80" "h_end (heap s1) = h_end (heap s)" "g_current s1 = g_current s" "g_scheduler s1 = ?sc"
    "int_flag s1 = int_flag s" "next_pid s1 = next_pid s + 1" "threads s t = None" "threads s1 = (threads s)(t \<mapsto> th)"
    "thread_of_job j 0 mode ?sc (next_pid s) th" "\<forall>b. used_to b M s \<longrightarrow> t = b + 4 \<and> used_to (b + 80) M1 s1"
    using job_create_room [OF Cons.prems(1) r, of j 0 mode] by blast
  have r1: "brk (heap s1) + 80 * length js \<le> h_end (heap s1)" "(FA(FreeFrames := fs' @ gs)) FreeFrames = fs' @ gs"
    using Cons.prems(2) s1(3,4) by simp_all
  obtain ts s' M' where s': "create_jobs js mode s1 = Some (Inr (ts, s'))" "length ts = length js" "distinct ts"
    "kernel_inv ((A(NewQ := sched_insert ?sc (prio s1) t (A NewQ)))(NewQ := fold (sched_insert (g_scheduler s1) (prio s')) ts
        ((A(NewQ := sched_insert ?sc (prio s1) t (A NewQ))) NewQ))) M' (FA(FreeFrames := fs' @ gs, FreeFrames := gs)) s'"
    "brk (heap s') \<le> brk (heap s1) + 80 * length js" "h_end (heap s') = h_end (heap s1)" "g_current s' = g_current s1"
    "g_scheduler s' = g_scheduler s1" "int_flag s' = int_flag s1" "\<forall>x. x \<notin> set ts \<longrightarrow> threads s' x = threads s1 x"
    "\<forall>x \<in> set ts. threads s1 x = None" "\<forall>i < length js. \<exists>th. threads s' (ts ! i) = Some th
         \<and> thread_of_job (js ! i) 0 mode (g_scheduler s1) (next_pid s1 + int i) th"
    "\<forall>b. used_to b M1 s1 \<longrightarrow> ts = batch b (length js) \<and> used_to (b + 80 * length js) M' s'"
    using Cons.IH [OF s1(2) r1 fs(2)] by blast
  have old: "x \<notin> set ts" if "threads s1 x \<noteq> None" for x using s'(11) that by auto
  have "prio s1 x = prio s' x" if "x \<in> insert t (set (A NewQ))" for x
  proof -
    have "threads s1 x \<noteq> None"
      using that s1(10) queues_invD(2) [OF sched_invD(1) [OF kernel_invD(1) [OF Cons.prems(1)]], of x NewQ] by (auto simp: queued_ok_def)
    then show ?thesis using prio_same [of s' x s1] s'(10) old by simp
  qed
  then have c: "sched_insert ?sc (prio s1) t (A NewQ) = sched_insert ?sc (prio s') t (A NewQ)"
    by (intro sched_insert_cong) simp
  have "kernel_inv (A(NewQ := fold (sched_insert ?sc (prio s')) (t # ts) (A NewQ))) M' (FA(FreeFrames := gs)) s'"
    using s'(4) s1(6) c by simp
  moreover have "\<exists>th. threads s' ((t # ts) ! i) = Some th
         \<and> thread_of_job ((j # js) ! i) 0 mode ?sc (next_pid s + int i) th" if "i < length (j # js)" for i
  proof (cases i)
    case 0
    have "threads s' t = Some th" using s'(10) old [of t] s1(10) by simp
    then show ?thesis using 0 s1(11) by simp
  next
    case (Suc k)
    then show ?thesis using s'(12) that s1(6,8) by (auto simp: algebra_simps)
  qed
  moreover have "threads s x = None" if "x \<in> set (t # ts)" for x
    using that s1(9,10) s'(11) by (auto split: if_splits)
  moreover have "threads s' x = threads s x" if "x \<notin> set (t # ts)" for x
    using that s'(10) s1(10) by simp
  moreover have "create_jobs (j # js) mode s = Some (Inr (t # ts, s'))" using s1(1) s'(1) by simp
  moreover have "length (t # ts) = length (j # js)" "distinct (t # ts)" using s'(2,3) old [of t] s1(10) by simp_all
  moreover have "t # ts = batch b (length (j # js)) \<and> used_to (b + 80 * length (j # js)) M' s'" if "used_to b M s" for b
    using s1(12) s'(13) that by (auto simp: ac_simps)
  moreover have "brk (heap s') \<le> brk (heap s) + 80 * length (j # js)" using s'(5) s1(3) by simp
  moreover have "h_end (heap s') = h_end (heap s)" "g_current s' = g_current s" "g_scheduler s' = ?sc" "int_flag s' = int_flag s"
    using s1(4-7) s'(6-9) by simp_all
  ultimately show ?case by blast
qed

text \<open>After the merge: all threads of the batch are ready.\<close>

lemma core_job: "core th' = core th \<Longrightarrow> thread_of_job j arg mode sc n th' = thread_of_job j arg mode sc n th"
proof -
  assume c: "core th' = core th"
  have "g (core x) = g x" if "g \<in> {start_func}" for x :: thread and g :: "thread \<Rightarrow> nat" using that by (simp add: core_def)
  moreover have "start_arg (core x) = start_arg x" for x by (simp add: core_def)
  ultimately show ?thesis using c core_upd unfolding thread_of_job_def by (metis insertI1)
qed

text \<open>The queue of a batch that is sorted into an empty new queue and then merged.\<close>

definition loaded_queue :: "scheduler \<Rightarrow> (nat \<Rightarrow> int) \<Rightarrow> nat list \<Rightarrow> nat list \<Rightarrow> nat list" where
  "loaded_queue sc p ts run = fold (sched_insert sc p) (fold (sched_insert sc p) ts []) run"

lemma loaded_queue_order:
  "mset (loaded_queue sc p ts run) = mset ts + mset run"
  "sc \<in> {FCFS, RR} \<Longrightarrow> loaded_queue sc p ts run = run @ ts"
  "sc \<in> {SJF, PRIORITY} \<Longrightarrow> sorted (map p run) \<Longrightarrow> sorted (map p (loaded_queue sc p ts run))
     \<and> (\<forall>k. filter (\<lambda>t. p t = k) (loaded_queue sc p ts run) = filter (\<lambda>t. p t = k) (run @ ts))"
  using merged_run_queue [of sc p ts "[]"] merged_run_queue [of sc p "fold (sched_insert sc p) ts []" run]
  unfolding loaded_queue_def by auto

lemma load_jobs:
  assumes inv: "kernel_inv A M FA s" and e: "A NewQ = []" and room: "brk (heap s) + 80 * length js \<le> h_end (heap s)"
    and free: "length js \<le> length (FA FreeFrames)"
  shows "\<exists>ts s' M'. long_term_scheduler js mode s = Some (Inr (ts, s')) \<and> length ts = length js \<and> distinct ts
    \<and> kernel_inv (A(RunQ := loaded_queue (g_scheduler s) (prio s') ts (A RunQ))) M'
        (FA(FreeFrames := drop (length js) (FA FreeFrames))) s'
    \<and> brk (heap s') \<le> brk (heap s) + 80 * length js \<and> h_end (heap s') = h_end (heap s) \<and> g_current s' = g_current s
    \<and> g_scheduler s' = g_scheduler s \<and> int_flag s' = int_flag s \<and> (\<forall>x \<in> set (A RunQ). prio s' x = prio s x)
    \<and> (\<forall>x. x \<notin> set ts \<longrightarrow> map_option core (threads s' x) = map_option core (threads s x))
    \<and> (\<forall>i < length js. threads s (ts ! i) = None \<and> (\<exists>th. threads s' (ts ! i) = Some th
         \<and> tstate th = THREAD_READY \<and> thread_of_job (js ! i) 0 mode (g_scheduler s) (next_pid s + int i) th))
    \<and> (\<forall>b. used_to b M s \<longrightarrow> ts = batch b (length js) \<and> used_to (b + 80 * length js) M' s')"
proof -
  let ?sc = "g_scheduler s" and ?gs = "drop (length js) (FA FreeFrames)"
  have f: "FA FreeFrames = take (length js) (FA FreeFrames) @ ?gs" "length (take (length js) (FA FreeFrames)) = length js"
    using free by simp_all
  obtain ts s1 M1 where s1: "create_jobs js mode s = Some (Inr (ts, s1))"
    "kernel_inv (A(NewQ := fold (sched_insert ?sc (prio s1)) ts (A NewQ))) M1 (FA(FreeFrames := ?gs)) s1"
    "brk (heap s1) \<le> brk (heap s) + 80 * length js" "h_end (heap s1) = h_end (heap s)" "g_current s1 = g_current s" "g_scheduler s1 = ?sc"
    "int_flag s1 = int_flag s" "\<forall>x. x \<notin> set ts \<longrightarrow> threads s1 x = threads s x" "\<forall>x \<in> set ts. threads s x = None"
    "\<forall>i < length js. \<exists>th. threads s1 (ts ! i) = Some th \<and> thread_of_job (js ! i) 0 mode ?sc (next_pid s + int i) th"
    "length ts = length js" "distinct ts" "\<forall>b. used_to b M s \<longrightarrow> ts = batch b (length js) \<and> used_to (b + 80 * length js) M1 s1"
    using create_jobs_room [OF inv room f, of mode] by blast
  let ?A1 = "A(NewQ := fold (sched_insert ?sc (prio s1)) ts [])" and ?R = "loaded_queue ?sc (prio s1) ts (A RunQ)"
  have k1: "kernel_inv ?A1 M1 (FA(FreeFrames := ?gs)) s1" using s1(2) e by simp
  obtain s2 where s2: "merge_new_with_runnable s1 = Some s2" "undisturbed s1 s2" "sched_inv (merged (g_scheduler s1) (prio s1) ?A1) s2"
    using merge_ok [OF kernel_invD(1) [OF k1]] by blast
  note un = undisturbedD [OF s2(2)]
  have m: "merged (g_scheduler s1) (prio s1) ?A1 = A(RunQ := ?R)" using e s1(6) by (auto simp: merged_def loaded_queue_def)
  have k2: "kernel_inv (A(RunQ := ?R)) M1 (FA(FreeFrames := ?gs)) s2"
    by (rule kernel_inv_switched [OF k1 _ un(4,3)]) (use s2(3) m in simp)
  have h2: "brk (heap s2) \<le> brk (heap s) + 80 * length js" "h_end (heap s2) = h_end (heap s)"
    using s1(3,4) rest_sel(7) [OF un(3)] by simp_all
  have u2: "\<forall>b. used_to b M s \<longrightarrow> ts = batch b (length js) \<and> used_to (b + 80 * length js) M1 s2"
    using s1(13) rest_sel(7) [OF un(3)] by (auto simp: used_to_def)
  have old: "\<forall>x. x \<notin> set ts \<longrightarrow> map_option core (threads s2 x) = map_option core (threads s x)"
    using s1(8) un(4) by (simp add: same_threads_def)
  have ready: "tstate th = THREAD_READY" if "x \<in> set ts" "threads s2 x = Some th" for x th
  proof -
    have "x \<in> set ?R" using that(1) loaded_queue_order(1) [of ?sc "prio s1" ts "A RunQ"] by (metis Un_iff set_mset_mset set_mset_union)
    then show ?thesis using queues_invD(2) [OF sched_invD(1) [OF kernel_invD(1) [OF k2]], of x RunQ] that(2) by (simp add: queued_ok_def)
  qed
  have new: "\<exists>th. threads s2 (ts ! i) = Some th \<and> tstate th = THREAD_READY \<and> thread_of_job (js ! i) 0 mode ?sc (next_pid s + int i) th"
    if i: "i < length js" for i
  proof -
    obtain th1 where th1: "threads s1 (ts ! i) = Some th1" "thread_of_job (js ! i) 0 mode ?sc (next_pid s + int i) th1" using s1(10) i by blast
    have "map_option core (threads s2 (ts ! i)) = map_option core (threads s1 (ts ! i))" using un(4) by (simp add: same_threads_def)
    then obtain th2 where th2: "threads s2 (ts ! i) = Some th2" "core th2 = core th1" using th1(1) by auto
    then show ?thesis using th1(2) core_job [OF th2(2)] ready [of "ts ! i" th2] i s1(11) by simp
  qed
  have "prio s2 x = prio s x" if "x \<in> set (A RunQ)" for x
  proof -
    have "threads s x \<noteq> None" using that queues_invD(2) [OF sched_invD(1) [OF kernel_invD(1) [OF inv]], of x RunQ] by (auto simp: queued_ok_def)
    then have "x \<notin> set ts" using s1(9) by auto
    then have "threads s1 x = threads s x" using s1(8) by blast
    then show ?thesis using prio_same [of s1 x s] un(5) by simp
  qed
  moreover have "long_term_scheduler js mode s = Some (Inr (ts, s2))" using s1(1) s2(1) by (simp add: long_term_scheduler_def)
  ultimately show ?thesis using k2 h2 u2 old un(1,2,5,6) s1(5-7,9,11,12) new
    by (intro exI [of _ ts] exI [of _ s2] exI [of _ M1]) simp
qed

end
