(* ===== verification/Machine.thy ===== *)
theory Machine imports Loading Menu Ata Block_Device Console Timer_Device Jobs begin

text \<open>
  The whole of \<open>geekos_main\<close> (\<open>src/60-330/kernel/main.c\<close>) over the states of all components: the initialisation in
  the order of the code, and the loop that runs simulations until too many threads have been created.  \<open>machine\<close>
  holds what is not in the kernel's own state; \<open>hardware\<close> holds the addresses that the linker chooses and what
  the devices deliver.
\<close>

section \<open>Initialisation\<close>

datatype said_arg = Say_num int | Say_text string

record machine =
  m_console :: console
  m_segs :: segments
  m_int :: int_state
  m_irq :: irq_state
  m_mmu :: mmu
  m_keyb :: keyb
  m_devs :: devices
  m_said :: "(string \<times> said_arg list) list"

record hardware =
  linker_end :: u32
  gdt_start :: u32
  tss_start :: u32
  stubs_start :: u32
  stubs_stop :: u32
  idt_start :: u32
  unexpected_fn :: nat
  timer_fn :: nat
  keyboard_fn :: nat
  idle_fn :: nat
  worker_fn :: nat
  ramdsk_buf :: nat
  job_mutex :: nat
  pse_feature :: "bool option"
  ata_status :: "nat \<Rightarrow> u8"
  ata_info :: "u16 list"
  ps2_status :: "nat \<Rightarrow> u8"

definition m_say :: "string \<Rightarrow> said_arg list \<Rightarrow> machine \<Rightarrow> machine" where
  "m_say fmt args m = m\<lparr>m_said := m_said m @ [(fmt, args)]\<rparr>"

definition GEEKOS_MAJOR :: int where "GEEKOS_MAJOR = 0"
definition GEEKOS_MINOR :: int where "GEEKOS_MINOR = 4"
definition GEEKOS_PATCH :: int where "GEEKOS_PATCH = 0"

text \<open>The operations of the components on their parts of the state.\<close>

definition console_start :: "kernel \<times> machine \<Rightarrow> (kernel \<times> machine) option" where
  "console_start = (\<lambda>(k, m). do {
     (rc, c) \<leftarrow> cons_init (m_console m);
     (u, k, c) \<leftarrow> cons_clear (k, c);
     Some (k, m\<lparr>m_console := c\<rparr>)
   })"

definition int_start :: "hardware \<Rightarrow> kernel \<times> machine \<Rightarrow> (kernel \<times> machine) option" where
  "int_start hw = (\<lambda>(k, m). do {
     t \<leftarrow> int_init (stubs_start hw) (stubs_stop hw) (idt_start hw) (unexpected_fn hw);
     Some (k, m\<lparr>m_int := t\<rparr>)
   })"

definition paging_start :: "hardware \<Rightarrow> multiboot_info \<Rightarrow> kernel \<times> machine \<Rightarrow> (machine, unit) waits" where
  "paging_start hw boot_record = (\<lambda>(k, m).
     and_then (with_kernel (vm_init_paging (pse_feature hw) boot_record (m_mmu m)) (k, m)) (\<lambda>cpu (k, m).
       give () (k, m\<lparr>m_mmu := cpu\<rparr>)))"

definition ata_start :: "hardware \<Rightarrow> kernel \<times> machine \<Rightarrow> (kernel \<times> machine) option" where
  "ata_start hw = (\<lambda>(k, m). do {
     a \<leftarrow> ata_init (ata_status hw) (ata_info hw) (irq_state.extend (m_irq m) (ata.fields 0 []));
     Some (k, m\<lparr>m_irq := irq_state.truncate a, m_said := m_said m @ map (\<lambda>(fmt, args). (fmt, map Say_num args)) (ata_printed a)\<rparr>)
   })"

definition timer_start :: "hardware \<Rightarrow> kernel \<times> machine \<Rightarrow> (kernel \<times> machine) option" where
  "timer_start hw = (\<lambda>(k, m). do {
     (k, t, i) \<leftarrow> timer_init_device (timer_fn hw) (k, m_int m, m_irq m);
     Some (k, m\<lparr>m_int := t, m_irq := i\<rparr>)
   })"

definition with_devs :: "(kernel \<times> devices \<Rightarrow> (devices, 'a) waits) \<Rightarrow> kernel \<times> machine \<Rightarrow> (machine, 'a) waits" where
  "with_devs f = (\<lambda>(k, m). do {
     r \<leftarrow> f (k, m_devs m);
     Some (case r of Inl (k, d) \<Rightarrow> Inl (k, m\<lparr>m_devs := d\<rparr>) | Inr (v, k, d) \<Rightarrow> Inr (v, k, m\<lparr>m_devs := d\<rparr>))
   })"

definition keyboard_start :: "hardware \<Rightarrow> kernel \<times> machine \<Rightarrow> (kernel \<times> machine) option" where
  "keyboard_start hw = (\<lambda>(k, m). do {
     (k, t, i, b) \<leftarrow> keyboard_init (keyboard_fn hw) (ps2_status hw) (k, m_int m, m_irq m, m_keyb m);
     Some (k, m\<lparr>m_int := t, m_irq := i, m_keyb := b\<rparr>)
   })"

text \<open>After the kernel's own threads exist: the devices and the greeting.  \<open>blockdev_pager_create\<close> returns an
  error code that chooses the text.\<close>

definition start_devices :: "hardware \<Rightarrow> kernel \<times> machine \<Rightarrow> (machine, unit) waits" where
  "start_devices hw s = do {
     s \<leftarrow> ata_start hw s;
     s \<leftarrow> timer_start hw s;
     and_then (with_devs (ramdisk_create (ramdsk_buf hw) 1024) s) (\<lambda>ramdsk s.
     and_then (with_devs (blockdev_pager_create ramdsk (lba_from_num 0) 2) s) (\<lambda>(rc, vmp) (k, m). do {
       let m = m_say ''Created block device pager .....%s\<newline>'' [Say_text (if rc \<noteq> 0 then '' [Failed]'' else ''.... [OK]'')] m;
       (k, m) \<leftarrow> keyboard_start hw (k, m);
       let k = s_job_mutex_init (job_mutex hw) k;
       give () (k, m_say ''\<newline>Welcome to Todd, Chris, Aaron, and Nik's OS!\<newline>'' [] m)
     }))
   }"

definition geekos_main :: "hardware \<Rightarrow> u32 \<Rightarrow> multiboot_info \<Rightarrow> machine \<Rightarrow> (machine, unit) waits" where
  "geekos_main hw loader_magic boot_record m = do {
     (k, m) \<leftarrow> console_start (mem_clear_bss, m);
     panic_if (loader_magic \<noteq> MB_LOADER_MAGIC);
     let m = m_say ''GeekOS %d.%d.%d on %s\<newline>'' [Say_num GEEKOS_MAJOR, Say_num GEEKOS_MINOR, Say_num GEEKOS_PATCH, Say_text ''x86''] m;
     (segs, framelist, k) \<leftarrow> mem_init (gdt_start hw) (tss_start hw) (linker_end hw) boot_record k;
     let m = m\<lparr>m_segs := segs\<rparr>;
     (k, m) \<leftarrow> int_start hw (k, m);
     and_then (paging_start hw boot_record (k, m)) (\<lambda>_ (k, m).
     let m = m\<lparr>m_irq := irq_init (m_irq m)\<rparr> in
     and_then (with_kernel (thread_init (idle_fn hw)) (k, m)) (\<lambda>_ s.
     and_then (with_kernel (workqueue_init (worker_fn hw)) s) (\<lambda>_ s.
       start_devices hw s)))
   }"

section \<open>The loop of simulations\<close>

text \<open>One round up to the wait for the children; \<open>None\<close> in the first component is the end of the loop.\<close>

definition main_round ::
  "job_addresses \<Rightarrow> kernel \<times> irq_state \<times> menu_io \<Rightarrow> (irq_state \<times> menu_io, nat list) waits option" where
  "main_round a = (\<lambda>(k, i, m).
     if g_num_threads k < MAX_THREADS
     then Some (do { ((sim, len), k, m) \<leftarrow> main_menu a (k, m); run_simulation sim len (k, i, m) })
     else None)"

definition farewell :: "menu_io \<Rightarrow> menu_io" where
  "farewell = show_text (''\<newline>~~~~~~~~~~~~~~~~~~~~~~~~~~~~~~~~~~~~~~\<newline>\<newline>'' @ [CHR 0x09] @ ''Thank You for using GeeokOS!\<newline>'' @ [CHR 0x09]
     @ ''Please reboot to run more simulations\<newline>\<newline>'') []"

section \<open>What allocation and the creation of threads leave alone\<close>

lemma then_do_Inr: "then_do m f = Some (Inr r) \<longleftrightarrow> (\<exists>v s. m = Some (Inr (v, s)) \<and> f v s = Some (Inr r))"
proof (cases m)
  case (Some q)
  then show ?thesis by (cases q) auto
qed simp

text \<open>The parts of the state that scheduling and memory management do not touch.\<close>

definition elsewhere :: "kernel \<Rightarrow> ring \<times> (nat \<Rightarrow> mutex) \<times> int \<times> int" where
  "elsewhere s = (keys s, mutexes s, next_pid s, g_num_threads s)"

lemma elsewhere_simps [simp]:
  "elsewhere (s\<lparr>heap := h\<rparr>) = elsewhere s" "elsewhere (s\<lparr>frames := fr\<rparr>) = elsewhere s" "elsewhere (s\<lparr>flists := l\<rparr>) = elsewhere s" "elsewhere (s\<lparr>tqs := q\<rparr>) = elsewhere s"
  "elsewhere (s\<lparr>int_flag := b\<rparr>) = elsewhere s" "elsewhere (s\<lparr>klog := k\<rparr>) = elsewhere s" "elsewhere (s\<lparr>g_current := c\<rparr>) = elsewhere s" "elsewhere (s\<lparr>g_scheduler := sc\<rparr>) = elsewhere s"
  "elsewhere (put_thread t th s) = elsewhere s" "elsewhere (upd_thread t f s) = elsewhere s" "elsewhere (upd_process t g s) = elsewhere s" "elsewhere (narrator p m s) = elsewhere s"
  by (simp_all add: elsewhere_def put_thread_def upd_thread_def upd_process_def narrator_def)

lemma end_atomic_elsewhere: "int_end_atomic b s = Some s' \<Longrightarrow> elsewhere s' = elsewhere s"
  by (auto simp: int_end_atomic_def int_enable_def bind_eq_Some_conv split: if_splits)

lemma alloc_elsewhere:
  "mem_alloc sz s = Some (Inr (a, s')) \<Longrightarrow> elsewhere s' = elsewhere s"
  "mem_alloc_frame st rc s = Some (Inr (f, s')) \<Longrightarrow> elsewhere s' = elsewhere s"
  by (auto simp: mem_alloc_def mem_alloc_loop_def mem_alloc_frame_def mem_alloc_frame_loop_def upd_frame_def bind_eq_Some_conv Let_def
      split: if_splits)

lemma make_runnable_elsewhere: "thread_make_runnable t s = Some s' \<Longrightarrow> elsewhere s' = elsewhere s"
  by (auto simp: thread_make_runnable_def bind_eq_Some_conv Let_def)

lemma make_new_elsewhere: "thread_make_new t s = Some s' \<Longrightarrow> elsewhere s' = elsewhere s"
  by (auto simp: thread_make_new_def bind_eq_Some_conv Let_def)

text \<open>A new process id.\<close>

definition one_more :: "ring \<times> (nat \<Rightarrow> mutex) \<times> int \<times> int \<Rightarrow> ring \<times> (nat \<Rightarrow> mutex) \<times> int \<times> int" where
  "one_more = (\<lambda>(q, m, n, c). (q, m, n + 1, n + 1))"

lemma gen_pid_elsewhere: "elsewhere (s\<lparr>g_num_threads := next_pid s + 1, next_pid := next_pid s + 1\<rparr>) = one_more (elsewhere s)"
  by (simp add: elsewhere_def one_more_def)

lemma thread_create_elsewhere:
  assumes "thread_create f arg mode s = Some (Inr (t, s'))"
  shows "elsewhere s' = one_more (elsewhere s)"
  using assms
  by (auto simp: thread_create_def then_do_Inr Let_def bind_eq_Some_conv gen_pid_def gen_pid_elsewhere
      dest!: alloc_elsewhere make_runnable_elsewhere)

lemma thread_create_from_job_elsewhere:
  assumes "thread_create_from_job j arg mode s = Some (Inr (t, s'))"
  shows "elsewhere s' = one_more (elsewhere s)"
  using assms
  by (auto simp: thread_create_from_job_def then_do_Inr Let_def bind_eq_Some_conv gen_pid_def gen_pid_elsewhere
      dest!: alloc_elsewhere make_new_elsewhere)

lemma create_jobs_elsewhere: "create_jobs js mode s = Some (Inr (ts, s')) \<Longrightarrow> elsewhere s' = (one_more ^^ length js) (elsewhere s)"
proof (induction js arbitrary: ts s)
  case (Cons j js)
  then obtain t s1 ts1 where "thread_create_from_job j 0 mode s = Some (Inr (t, s1))" "create_jobs js mode s1 = Some (Inr (ts1, s'))"
    by (auto simp: then_do_Inr)
  with Cons.IH thread_create_from_job_elsewhere show ?case by (simp add: funpow_swap1)
qed simp

lemma one_more_pow: "(one_more ^^ n) (q, m, p, c) = (q, m, p + int n, if n = 0 then c else p + int n)"
  by (induction n) (auto simp: one_more_def)

lemma merge_loop_elsewhere:
  assumes "merge_loop s = Some s'"
  shows "elsewhere s' = elsewhere s"
proof (rule merge_loop.raw_induct [OF _ assms])
  fix f :: "kernel \<Rightarrow> kernel option" and s s'
  assume IH: "\<And>s s'. f s = Some s' \<Longrightarrow> elsewhere s' = elsewhere s"
    and r: "(if \<not> list_is_empty NewQ (tqs s) then do {
        (t, l) \<leftarrow> list_remove_first NewQ (tqs s);
        let s = s\<lparr>tqs := l\<rparr>;
        p \<leftarrow> process_of t s;
        let s = narrator (pid p) ''ready'' s;
        let s = upd_thread t (\<lambda>th. th\<lparr>tstate := THREAD_READY\<rparr>) s;
        q \<leftarrow> SCHEDULER (g_scheduler s) (prio_of s) RunQ t (tqs s);
        f (s\<lparr>tqs := q\<rparr>)
      } else Some s) = Some s'"
  then show "elsewhere s' = elsewhere s" by (auto simp: bind_eq_Some_conv Let_def split: if_splits dest!: IH)
qed

lemma long_term_scheduler_elsewhere:
  assumes "long_term_scheduler js mode s = Some (Inr (ts, s'))"
  shows "elsewhere s' = (one_more ^^ length js) (elsewhere s)"
  using assms
  by (auto simp: long_term_scheduler_def merge_new_with_runnable_def then_do_Inr Let_def bind_eq_Some_conv
      dest!: create_jobs_elsewhere merge_loop_elsewhere end_atomic_elsewhere)

text \<open>A run of a simulation adds as many threads as the list has jobs.\<close>

lemma run_simulation_threads:
  assumes "run_simulation sim n (k, i, m) = Some (Inr (ts, k', i', m'))" and "next_pid k = g_num_threads k"
  shows "next_pid k' = g_num_threads k + int (min (length sim) n)" and "g_num_threads k' = next_pid k'"
proof -
  have e: "elsewhere k1 = elsewhere k" if "irq_enable KEYB_IRQ (k, i) = Some (k1, i1) \<or> irq_disable KEYB_IRQ (k, i) = Some (k1, i1)" for k1 i1
    using that by (auto simp: irq_enable_def irq_disable_def MODIFY_IRQ_MASK_def bind_eq_Some_conv)
  obtain k1 i1 where k1: "irq_disable KEYB_IRQ (k, i) = Some (k1, i1)"
    "long_term_scheduler (take n sim) THREAD_ATTACHED (k1\<lparr>g_simulation_active := True\<rparr>) = Some (Inr (ts, k'))"
    using assms(1) by (auto simp: run_simulation_def bind_eq_Some_conv with_kernel_Inr)
  have "elsewhere k' = (one_more ^^ length (take n sim)) (elsewhere k)"
    using long_term_scheduler_elsewhere [OF k1(2)] e [of k1 i1] k1(1) by (simp add: elsewhere_def)
  then show "next_pid k' = g_num_threads k + int (min (length sim) n)" "g_num_threads k' = next_pid k'"
    using assms(2) by (auto simp: elsewhere_def one_more_pow split: if_splits)
qed

text \<open>The rounds of the loop, from a state in which \<open>k0\<close> is the kernel: between the start of a simulation and
  the return of \<open>wait_for_children\<close> the other threads run, of which none creates a thread.\<close>

inductive rounds :: "job_addresses \<Rightarrow> kernel \<Rightarrow> nat \<Rightarrow> kernel \<Rightarrow> bool" for a k0 where
  no_round: "rounds a k0 0 k0"
| next_round: "rounds a k0 n k \<Longrightarrow> main_round a (k, i, m) = Some (Some (Inr (ts, k1, i1, m1))) \<Longrightarrow>
    next_pid k2 = next_pid k1 \<Longrightarrow> g_num_threads k2 = g_num_threads k1 \<Longrightarrow>
    run_simulation_end stats (k2, i2, m2) = Some (k3, i3, m3) \<Longrightarrow> rounds a k0 (Suc n) k3"

lemma run_simulation_end_threads:
  assumes "run_simulation_end stats (k, i, m) = Some (k', i', m')"
  shows "next_pid k' = next_pid k" "g_num_threads k' = g_num_threads k"
proof -
  have "elsewhere k' = elsewhere (k\<lparr>g_simulation_active := False\<rparr>)"
    using assms by (auto simp: run_simulation_end_def irq_enable_def MODIFY_IRQ_MASK_def bind_eq_Some_conv)
  then show "next_pid k' = next_pid k" "g_num_threads k' = g_num_threads k" by (simp_all add: elsewhere_def)
qed

lemma main_round_threads:
  assumes "main_round a (k, i, m) = Some (Some (Inr (ts, k', i', m')))" and "next_pid k = g_num_threads k"
  shows "g_num_threads k < 24" "g_num_threads k + 2 \<le> g_num_threads k'" "g_num_threads k' \<le> g_num_threads k + 6" "next_pid k' = g_num_threads k'"
proof -
  show "g_num_threads k < 24" using assms(1) by (auto simp: main_round_def MAX_THREADS_def split: if_splits)
  obtain sim n k1 m1 where r: "main_menu a (k, m) = Some ((sim, n), k1, m1)" "run_simulation sim n (k1, i, m1) = Some (Inr (ts, k', i', m'))"
    using assms(1) by (auto simp: main_round_def bind_eq_Some_conv split: if_splits)
  note c = main_menu_choice [OF r(1)]
  have "next_pid k1 = g_num_threads k1" "g_num_threads k1 = g_num_threads k" using c(4) assms(2) by auto
  with run_simulation_threads [OF r(2)] c(2) have "g_num_threads k' = g_num_threads k + int n" "next_pid k' = g_num_threads k'" by simp_all
  moreover have "length sim \<in> {2, 3, 5, 6}"
  proof -
    have "\<forall>l \<in> set (g_scheduler_sim a) \<union> set (g_synch_sim a). length l \<in> {2, 3, 5, 6}"
      by (simp add: g_scheduler_sim_def g_synch_sim_def g_preemption_toggle_sim_def g_peterson_sim_def g_mutex_sim_def)
    with c(1) show ?thesis by blast
  qed
  ultimately show "g_num_threads k + 2 \<le> g_num_threads k'" "g_num_threads k' \<le> g_num_threads k + 6" "next_pid k' = g_num_threads k'"
    using c(2) by auto
qed

text \<open>The loop ends: with the three threads of the kernel it goes round at most 11 times, and never has more than
  29 threads been created.\<close>

lemma rounds_bound:
  assumes "rounds a k0 n k" and "next_pid k0 = g_num_threads k0" and "g_num_threads k0 \<le> 29"
  shows "next_pid k = g_num_threads k" "g_num_threads k \<le> 29" "g_num_threads k0 + 2 * int n \<le> g_num_threads k"
    "0 < n \<Longrightarrow> g_num_threads k0 + 2 * int (n - 1) < 24"
proof -
  have "next_pid k = g_num_threads k \<and> g_num_threads k \<le> 29 \<and> g_num_threads k0 + 2 * int n \<le> g_num_threads k
    \<and> (0 < n \<longrightarrow> g_num_threads k0 + 2 * int (n - 1) < 24)"
    using assms(1)
  proof induction
    case no_round
    then show ?case using assms(2,3) by simp
  next
    case (next_round n k i m ts k1 i1 m1 k2 stats i2 m2 k3 i3 m3)
    have "next_pid k = g_num_threads k" using next_round.IH by simp
    from main_round_threads [OF next_round.hyps(2) this] run_simulation_end_threads [OF next_round.hyps(5)] next_round.IH next_round.hyps(3,4)
    show ?case by auto
  qed
  then show "next_pid k = g_num_threads k" "g_num_threads k \<le> 29" "g_num_threads k0 + 2 * int n \<le> g_num_threads k"
    "0 < n \<Longrightarrow> g_num_threads k0 + 2 * int (n - 1) < 24" by blast+
qed

text \<open>A simulation starts: the keyboard is masked and the jobs are ready.\<close>

lemma run_simulation_loads:
  assumes inv: "kernel_inv A M FA k" and e: "A NewQ = []" and room: "brk (heap k) + 80 * length (take n sim) \<le> h_end (heap k)"
    and free: "length (take n sim) \<le> length (FA FreeFrames)" and i: "irq_inv i"
  shows "\<exists>ts k' i' M'. run_simulation sim n (k, i, m) = Some (Inr (ts, k', i', m)) \<and> length ts = length (take n sim) \<and> distinct ts
    \<and> irq_inv i' \<and> line_masked i' 1
    \<and> kernel_inv (A(RunQ := loaded_queue (g_scheduler k) (prio k') ts (A RunQ))) M'
        (FA(FreeFrames := drop (length (take n sim)) (FA FreeFrames))) k'
    \<and> g_current k' = g_current k \<and> int_flag k' = int_flag k \<and> (\<forall>x \<in> set (A RunQ). prio k' x = prio k x)
    \<and> (\<forall>j < length (take n sim). threads k (ts ! j) = None \<and>
         (\<exists>th. threads k' (ts ! j) = Some th \<and> tstate th = THREAD_READY
           \<and> thread_of_job (take n sim ! j) 0 THREAD_ATTACHED (g_scheduler k) (next_pid k + int j) th))
    \<and> (\<forall>x. x \<notin> set ts \<longrightarrow> map_option core (threads k' x) = map_option core (threads k x))
    \<and> (\<forall>b. used_to b M k \<longrightarrow> ts = batch b (length (take n sim)))"
proof -
  let ?k = "k\<lparr>g_simulation_active := True\<rparr>"
  have v: "VALID_IRQ KEYB_IRQ" by (simp add: VALID_IRQ_def KEYB_IRQ_def NUM_IRQS_def)
  obtain i1 where i1: "irq_disable KEYB_IRQ (k, i) = Some (k, i1)" "irq_inv i1" "s_irqmask i1 = s_irqmask i OR push_bit (nat KEYB_IRQ) 1"
    using modify_mask_ok [OF i v] unfolding irq_disable_def by blast
  have "bit (s_irqmask i1) 1" unfolding i1(3) by (simp add: KEYB_IRQ_def bit_simps)
  then have masked: "line_masked i1 1" using line_masked_iff [OF i1(2), of 1] by simp
  have k: "kernel_inv A M FA ?k" "heap ?k = heap k" "\<And>b. used_to b M ?k = used_to b M k"
    using inv by (simp_all add: used_to_def kernel_inv_def mem_inv_def frames_inv_def objects_allocated_def objects_def sched_inv_def
        queues_inv_def queued_ok_def no_thread_lost_def)
  have p: "prio ?k = prio k" by (simp add: fun_eq_iff prio_def prio_of_def process_of_def)
  show ?thesis
    using load_jobs [OF k(1) e, of "take n sim" THREAD_ATTACHED] room free i1(1,2) masked
    by (auto simp: run_simulation_def with_kernel_def p k(2,3))
qed

section \<open>The initialisation of the whole machine\<close>

lemma console_start_ok: "\<exists>c. console_start (k, m) = Some (k, m\<lparr>m_console := c\<rparr>)"
proof -
  have clr: "\<exists>c'. x86cons_clear c = Some c' \<and> s_console c' = s_console c" for c
  proof -
    have n: "(0 :: int) \<le> 0" "(0 :: int) \<le> 2000" "0 * 80 + 0 + 2000 \<le> (2000 :: int)" by simp_all
    show ?thesis using clear_area_ok(1) [OF n(1,1,2,3), of c]
      by (simp add: x86cons_clear_def VGA_NUMROWS_def VGA_NUMCOLS_def x86cons_movecurs_def x86cons_updatecurs_def cons_outb_def Let_def)
  qed
  obtain c1 where c1: "cons_init (m_console m) = Some (0, c1)" "s_console c1"
    using clr [of "snd (cons_getdefault (m_console m))"] by (auto simp: cons_init_def cons_getdefault_def Let_def)
  obtain c2 where "x86cons_clear c1 = Some c2" using clr by blast
  then have "cons_clear (k, c1) = Some ((), k, c2)"
    using c1(2) by (simp add: cons_clear_def cons_atomic_def no_result_def halt_simps)
  with c1(1) show ?thesis by (intro exI [of _ c2]) (simp add: console_start_def)
qed

text \<open>The disk driver writes to its own ports.\<close>

definition own_ports :: "ata \<Rightarrow> ata \<Rightarrow> bool" where
  "own_ports s s' \<longleftrightarrow> s_irqmask s' = s_irqmask s
     \<and> (\<exists>ws. port_out s' = port_out s @ ws \<and> (\<forall>(p, v) \<in> set ws. p \<noteq> 0x21 \<and> p \<noteq> 0xA1))"

lemma own_ports_refl [simp]: "own_ports s s"
  by (simp add: own_ports_def)

lemma own_ports_trans: "own_ports s1 s2 \<Longrightarrow> own_ports s2 s3 \<Longrightarrow> own_ports s1 s3"
  by (auto simp: own_ports_def)

lemma own_ports_upd [simp]:
  "own_ports s (s'\<lparr>reads := n\<rparr>) = own_ports s s'" "own_ports s (ata_print f as s') = own_ports s s'"
  by (simp_all add: own_ports_def ata_print_def)

lemma own_ports_outb: "p \<noteq> 0x21 \<Longrightarrow> p \<noteq> 0xA1 \<Longrightarrow> own_ports s s' \<Longrightarrow> own_ports s (ata_outb p v s')"
  by (auto simp: own_ports_def ata_outb_def)

lemma ata_init_ports:
  assumes "ata_init status info s = Some s'"
  shows "own_ports s s'"
proof -
  have w: "ata_wait status s1 = Some s2 \<Longrightarrow> own_ports s s1 \<Longrightarrow> own_ports s s2" for s1 s2
    by (auto simp: ata_wait_def bind_eq_Some_conv)
  note ports = ATA_DRIVE_HEAD_REG_def ATA_CMD_REG_def ATA_DEV_CTRL_REG_def
  have c: "ata_read_drive_config status info d s1 = Some (rc, s2) \<Longrightarrow> own_ports s s1 \<Longrightarrow> own_ports s s2" for d s1 s2 rc
    unfolding ata_read_drive_config_def
    by (auto simp: bind_eq_Some_conv Let_def ports split: if_splits intro!: own_ports_outb dest!: w)
  show ?thesis using assms
    by (auto simp: ata_init_def bind_eq_Some_conv Let_def ports split: if_splits intro!: own_ports_outb dest!: w c)
qed

lemma ata_start_ok:
  assumes ready: "\<forall>n. \<exists>j \<ge> n. ready (ata_status hw) j" and inv: "irq_inv (m_irq m)"
  shows "\<exists>i ls. ata_start hw (k, m) = Some (k, m\<lparr>m_irq := i, m_said := m_said m @ ls\<rparr>) \<and> irq_inv i \<and> s_irqmask i = s_irqmask (m_irq m)"
proof -
  let ?s = "irq_state.extend (m_irq m) (ata.fields 0 [])"
  obtain s' where s': "ata_init (ata_status hw) (ata_info hw) ?s = Some s'" using ata_init_ends [OF ready] by blast
  have "own_ports ?s s'" by (rule ata_init_ports [OF s'])
  then obtain ws where ws: "s_irqmask s' = s_irqmask (m_irq m)" "port_out s' = port_out (m_irq m) @ ws" "\<forall>(p, v) \<in> set ws. p \<noteq> 0x21 \<and> p \<noteq> 0xA1"
    by (auto simp: own_ports_def irq_state.extend_def)
  have "map_of (rev ws) p = None" if "p = 0x21 \<or> p = 0xA1" for p using ws(3) that by (auto simp: map_of_eq_None_iff)
  then have "irq_inv (irq_state.truncate s')"
    using inv ws(1,2) by (simp add: irq_inv_def mask_register_def irq_state.truncate_def map_add_def)
  with s' ws(1) show ?thesis
    by (intro exI [of _ "irq_state.truncate s'"] exI [of _ "map (\<lambda>(fmt, args). (fmt, map Say_num args)) (ata_printed s')"])
      (simp add: ata_start_def irq_state.truncate_def)
qed

lemma kernel_inv_flags [simp]:
  "kernel_inv A M FA (s\<lparr>g_preemption := b\<rparr>) = kernel_inv A M FA s" "kernel_inv A M FA (s\<lparr>keys := q\<rparr>) = kernel_inv A M FA s"
  "kernel_inv A M FA (s\<lparr>g_scheduler := sc\<rparr>) = kernel_inv A M FA s" "kernel_inv A M FA (s\<lparr>g_quantum := n\<rparr>) = kernel_inv A M FA s"
  by (simp_all add: kernel_inv_def mem_inv_def frames_inv_def objects_allocated_def objects_def sched_inv_def queues_inv_def queued_ok_def
      no_thread_lost_def)

lemma mutex_init_ok:
  assumes "kernel_inv A M FA s" and "A (MutexWaitQ j) = []"
  shows "kernel_inv A M FA (mutex_init j s)" "m_state (mutexes (mutex_init j s) j) = MUTEX_UNLOCKED"
proof -
  have "lists_rep (list_clear (MutexWaitQ j) (tqs s)) A"
    by (rule list_clear_nothing [OF queues_invD(1) [OF sched_invD(1) [OF kernel_invD(1) [OF assms(1)]]] assms(2)])
  then show "kernel_inv A M FA (mutex_init j s)"
    using assms(1) by (simp add: mutex_init_def set_mutex_def kernel_inv_def mem_inv_def frames_inv_def objects_allocated_def objects_def
        sched_inv_def queues_inv_def queued_ok_def no_thread_lost_def)
  show "m_state (mutexes (mutex_init j s) j) = MUTEX_UNLOCKED" by (simp add: mutex_init_def set_mutex_def)
qed

lemma mutex_init_sel [simp]:
  "threads (mutex_init j s) = threads s" "g_current (mutex_init j s) = g_current s" "int_flag (mutex_init j s) = int_flag s"
  "g_preemption (mutex_init j s) = g_preemption s" "keys (mutex_init j s) = keys s" "next_pid (mutex_init j s) = next_pid s"
  "g_num_threads (mutex_init j s) = g_num_threads s" "g_scheduler (mutex_init j s) = g_scheduler s"
  by (simp_all add: mutex_init_def set_mutex_def)

text \<open>The RAM disk and its pager in a heap in which nothing was freed.\<close>

lemma ramdisk_create_fresh:
  assumes k: "kernel_inv A M FA k" "used_to b M k" and room: "b + 24 \<le> h_end (heap k)"
  shows "\<exists>h M'. ramdisk_create buf sz (k, d) = Some (Inr (b + 4, k\<lparr>heap := h\<rparr>, d\<lparr>ramdisks := (ramdisks d)(b + 16 \<mapsto> \<lparr>rd_buf = buf, rd_size = sz\<rparr>),
        devs := (devs d)(b + 4 \<mapsto> \<lparr>dev_ops = S_ramdisk_blockdev_ops, dev_data = b + 16\<rparr>)\<rparr>))
    \<and> kernel_inv A M' FA (k\<lparr>heap := h\<rparr>) \<and> used_to (b + 24) M' (k\<lparr>heap := h\<rparr>) \<and> h_end h = h_end (heap k)"
proof -
  have r1: "b + sz_t + 8 \<le> h_end (heap k)" "sz_t \<le> 8" using room by simp_all
  obtain h1 where h1: "mem_alloc 8 k = Some (Inr (b + sz_t, k\<lparr>heap := h1\<rparr>))" "used_to (b + sz_t + 8) (M(b \<mapsto> 8)) (k\<lparr>heap := h1\<rparr>)"
    "h_end h1 = h_end (heap k)" using alloc_fresh [OF k(2) r1] by blast
  have r2: "b + sz_t + 8 + sz_t + 8 \<le> h_end (heap (k\<lparr>heap := h1\<rparr>))" using room h1(3) by simp
  obtain h2 where h2: "mem_alloc 8 (k\<lparr>heap := h1\<rparr>) = Some (Inr (b + sz_t + 8 + sz_t, k\<lparr>heap := h1\<rparr>\<lparr>heap := h2\<rparr>))"
    "used_to (b + sz_t + 8 + sz_t + 8) (M(b \<mapsto> 8, b + sz_t + 8 \<mapsto> 8)) (k\<lparr>heap := h1\<rparr>\<lparr>heap := h2\<rparr>)" "h_end h2 = h_end (heap (k\<lparr>heap := h1\<rparr>))"
    using alloc_fresh [OF h1(2) r2 r1(2)] by blast
  have "kernel_inv A (M(b \<mapsto> 8, b + sz_t + 8 \<mapsto> 8)) FA (k\<lparr>heap := h1\<rparr>\<lparr>heap := h2\<rparr>)"
    by (rule kernel_inv_alloc [OF kernel_inv_alloc [OF k(1) h1(2) refl] h2(2) refl])
  moreover have "ramdisk_create buf sz (k, d) = Some (Inr (b + 4, k\<lparr>heap := h2\<rparr>, d\<lparr>ramdisks := (ramdisks d)(b + 16 \<mapsto> \<lparr>rd_buf = buf, rd_size = sz\<rparr>),
        devs := (devs d)(b + 4 \<mapsto> \<lparr>dev_ops = S_ramdisk_blockdev_ops, dev_data = b + 16\<rparr>)\<rparr>))"
    using h1(1) h2(1) by (simp add: ramdisk_create_def give_def add.commute [of _ b])
  ultimately show ?thesis using h2(2,3) h1(3)
    by (intro exI [of _ h2] exI [of _ "M(b \<mapsto> 8, b + sz_t + 8 \<mapsto> 8)"]) (simp add: ac_simps)
qed

lemma pager_create_fresh:
  assumes k: "kernel_inv A M FA k" "used_to b M k" and room: "b + 32 \<le> h_end (heap k)"
    and d: "devs d dev = Some \<lparr>dev_ops = S_ramdisk_blockdev_ops, dev_data = rd\<rparr>" "ramdisks d rd = Some \<lparr>rd_buf = buf, rd_size = 1024\<rparr>"
  shows "\<exists>h M'. blockdev_pager_create dev (lba_from_num 0) 2 (k, d) = Some (Inr ((0, b + 24), k\<lparr>heap := h\<rparr>,
        d\<lparr>blkdev_pagers := (blkdev_pagers d)(b + 4 \<mapsto> \<lparr>pg_dev = dev, pg_start = lba_from_num 0, pg_num_blocks = 2, num_blocks_per_page = 8\<rparr>),
          pagers := (pagers d)(b + 24 \<mapsto> \<lparr>pager_p = b + 4\<rparr>)\<rparr>))
    \<and> kernel_inv A M' FA (k\<lparr>heap := h\<rparr>) \<and> used_to (b + 32) M' (k\<lparr>heap := h\<rparr>) \<and> h_end h = h_end (heap k)"
proof -
  have r1: "b + sz_t + 16 \<le> h_end (heap k)" "sz_t \<le> 16" using room by simp_all
  obtain h1 where h1: "mem_alloc 16 k = Some (Inr (b + sz_t, k\<lparr>heap := h1\<rparr>))" "used_to (b + sz_t + 16) (M(b \<mapsto> 16)) (k\<lparr>heap := h1\<rparr>)"
    "h_end h1 = h_end (heap k)" using alloc_fresh [OF k(2) r1] by blast
  have r2: "b + sz_t + 16 + sz_t + 8 \<le> h_end (heap (k\<lparr>heap := h1\<rparr>))" "sz_t \<le> 8" using room h1(3) by simp_all
  obtain h2 where h2: "mem_alloc 8 (k\<lparr>heap := h1\<rparr>) = Some (Inr (b + sz_t + 16 + sz_t, k\<lparr>heap := h1\<rparr>\<lparr>heap := h2\<rparr>))"
    "used_to (b + sz_t + 16 + sz_t + 8) (M(b \<mapsto> 16, b + sz_t + 16 \<mapsto> 8)) (k\<lparr>heap := h1\<rparr>\<lparr>heap := h2\<rparr>)" "h_end h2 = h_end (heap (k\<lparr>heap := h1\<rparr>))"
    using alloc_fresh [OF h1(2) r2] by blast
  have inv: "kernel_inv A (M(b \<mapsto> 16, b + sz_t + 16 \<mapsto> 8)) FA (k\<lparr>heap := h1\<rparr>\<lparr>heap := h2\<rparr>)"
    by (rule kernel_inv_alloc [OF kernel_inv_alloc [OF k(1) h1(2) refl] h2(2) refl])
  have n: "blockdev_get_num_blocks dev d = Some 2" "blockdev_get_block_size dev d = Some \<lparr>bs_size = 512\<rparr>"
    using d by (simp_all add: blockdev_get_num_blocks_def blockdev_get_block_size_def ramdisk_get_num_blocks_def ramdisk_get_block_size_def
        RAMDISK_NUM_BLOCKS_def RAMDISK_BLOCK_SIZE_def blocksize_size_def)
  have "range_is_power_of_two 512" "range_is_power_of_two 4096" "lba_is_range_valid (lba_from_num 0) 2 2"
    by code_simp+
  then have "blockdev_pager_create dev (lba_from_num 0) 2 (k, d) = Some (Inr ((0, b + 24), k\<lparr>heap := h2\<rparr>,
        d\<lparr>blkdev_pagers := (blkdev_pagers d)(b + 4 \<mapsto> \<lparr>pg_dev = dev, pg_start = lba_from_num 0, pg_num_blocks = 2, num_blocks_per_page = 8\<rparr>),
          pagers := (pagers d)(b + 24 \<mapsto> \<lparr>pager_p = b + 4\<rparr>)\<rparr>))"
    using h1(1) h2(1) n by (simp add: blockdev_pager_create_def vm_pager_create_def give_def halt_simps PAGE_SIZE_def blocksize_size_def Let_def add.commute [of _ b])
  with inv h2(2,3) h1(3) show ?thesis
    by (intro exI [of _ h2] exI [of _ "M(b \<mapsto> 16, b + sz_t + 16 \<mapsto> 8)"]) (simp add: ac_simps)
qed

lemma gen_pid_elsewhere_init: "elsewhere (s\<lparr>g_scheduler := sc, g_num_threads := next_pid s + 1, next_pid := next_pid s + 1\<rparr>) = one_more (elsewhere s)"
  by (simp add: elsewhere_def one_more_def)

lemma thread_init_elsewhere:
  assumes "thread_init idle s = Some (Inr (t, s'))"
  shows "elsewhere s' = one_more (one_more (elsewhere s))"
  using assms
  by (auto simp: thread_init_def then_do_Inr Let_def bind_eq_Some_conv gen_pid_def gen_pid_elsewhere_init
      dest!: alloc_elsewhere thread_create_elsewhere)

text \<open>The kernel between \<open>workqueue_init\<close> and the devices.\<close>

lemma boot_parts:
  assumes lay: "x86mem_init_layout end_sym mb = L" and ke: "kernel_end L = 4096 * n" "258 \<le> n"
    and N: "numframes L = N" "n < N" "N < 2 ^ 20" and fl: "0 < framelist_numframes L" "framelist_numframes L < 4096"
  shows "\<exists>segs s1 cpu' s2 s3 k M t0 t1 t2. mem_init s_gdt_at s_tss_at end_sym mb mem_clear_bss = Some (segs, 4096 * n, s1)
    \<and> flat_segments s_gdt_at s_tss_at segs
    \<and> vm_init_paging (Some True) mb cpu s1 = Some (Inr (cpu', s2))
    \<and> thread_init idle s2 = Some (Inr (4180, s3)) \<and> workqueue_init work s3 = Some (Inr (4260, k))
    \<and> kernel_inv ((\<lambda>_. [])(RunQ := [4180, 4260])) M ((\<lambda>_. [])(FreeFrames := [133..<160] @ [n..<N])) k
    \<and> used_to 4336 M k \<and> h_end (heap k) = 528384 \<and> \<not> int_flag k \<and> g_current k = 4100 \<and> g_scheduler k = FCFS
    \<and> keys k = empty_ring \<and> next_pid k = 3 \<and> g_num_threads k = 3
    \<and> (\<forall>v. translate cpu' v = (if kernel_mapped (paging_mem_max mb) v then Some v else None))
    \<and> threads k = [4100 \<mapsto> t0, 4180 \<mapsto> t1, 4260 \<mapsto> t2] \<and> start_func t1 = idle \<and> start_func t2 = work"
proof -
  obtain cpu' s M t0 t1 t2 where
    r: "geekos_boot s_gdt_at s_tss_at MB_LOADER_MAGIC end_sym mb (Some True) cpu idle work = Some (Inr ((cpu', 4180, 4260), s))"
    and inv: "kernel_inv ((\<lambda>_. [])(RunQ := [4180, 4260])) M ((\<lambda>_. [])(FreeFrames := [133..<160] @ [n..<N])) s"
    and u: "used_to 4336 M s" "h_end (heap s) = 528384" "g_current s = 4100" "g_scheduler s = FCFS"
    and tr: "\<forall>v. translate cpu' v = (if kernel_mapped (paging_mem_max mb) v then Some v else None)"
    and thr: "threads s = [4100 \<mapsto> t0, 4180 \<mapsto> t1, 4260 \<mapsto> t2]" "start_func t1 = idle" "start_func t2 = work"
    using geekos_boot_ok [OF assms, of s_gdt_at s_tss_at cpu idle work] by metis
  obtain segs fr l where mi: "mem_init s_gdt_at s_tss_at end_sym mb mem_clear_bss = Some (segs, 4096 * n,
      mem_clear_bss\<lparr>s_numframes := N, heap := mem_heap_init 4096 (4096 + HEAP_SIZE) (heap mem_clear_bss), frames := fr, flists := l\<rparr>)"
    and flat: "flat_segments s_gdt_at s_tss_at segs"
    using mem_init_ok [OF lay ke N fl, of mem_clear_bss s_gdt_at s_tss_at] by (auto simp: mem_clear_bss_def)
  define s1 where "s1 = mem_clear_bss\<lparr>s_numframes := N, heap := mem_heap_init 4096 (4096 + HEAP_SIZE) (heap mem_clear_bss), frames := fr, flists := l\<rparr>"
  note mi = mi [folded s1_def]
  obtain s2 s3 k where p: "vm_init_paging (Some True) mb cpu s1 = Some (Inr (cpu', s2))" "thread_init idle s2 = Some (Inr (4180, s3))"
    "workqueue_init work s3 = Some (Inr (4260, k))" "timer_init k = Some s"
    using r mi by (auto simp: geekos_boot_def bind_eq_Some_conv then_do_Inr)
  have off: "\<not> int_flag k" and s: "s = k\<lparr>int_flag := True, g_preemption := True\<rparr>"
    using p(4) by (auto simp: timer_init_def int_enable_def int_enabled_def bind_eq_Some_conv)
  have "elsewhere s1 = (empty_ring, mutexes mem_clear_bss, 0, 0)" by (simp add: s1_def elsewhere_def mem_clear_bss_def)
  moreover have "elsewhere s2 = elsewhere s1" using p(1)
    by (auto simp: vm_init_paging_def then_do_Inr Let_def bind_eq_Some_conv split: if_splits dest!: alloc_elsewhere)
  moreover have "elsewhere s3 = one_more (one_more (elsewhere s2))" by (rule thread_init_elsewhere [OF p(2)])
  moreover have "elsewhere k = one_more (elsewhere s3)" using thread_create_elsewhere p(3) by (simp add: workqueue_init_def)
  ultimately have "keys k = empty_ring" "next_pid k = 3" "g_num_threads k = 3" by (simp_all add: elsewhere_def one_more_def)
  moreover have "kernel_inv ((\<lambda>_. [])(RunQ := [4180, 4260])) M ((\<lambda>_. [])(FreeFrames := [133..<160] @ [n..<N])) k"
    using inv unfolding s by (simp only: kernel_inv_flags kernel_inv_int_flag)
  moreover have "used_to 4336 M k" "h_end (heap k) = 528384" "g_current k = 4100" "g_scheduler k = FCFS"
    "threads k = [4100 \<mapsto> t0, 4180 \<mapsto> t1, 4260 \<mapsto> t2]"
    using u thr(1) by (simp_all add: s used_to_def)
  ultimately show ?thesis using mi flat p(1-3) off thr(2,3) tr by blast
qed


text \<open>The devices: interrupts of the timer and the keyboard are let in, and the flags of the kernel are set.\<close>

lemma start_devices_ok:
  assumes k: "kernel_inv A M FA k" "used_to b M k" "b + 56 \<le> h_end (heap k)" "\<not> int_flag k"
    and A: "A (MutexWaitQ (job_mutex hw)) = []"
    and m: "irq_inv (m_irq m)" "length (g_int_handler_table (m_int m)) = INT_NUM_INTERRUPTS"
    and q: "length (s_queue (keys k)) = QUEUE_SIZE"
    and ready: "\<forall>n. \<exists>j \<ge> n. ready (ata_status hw) j" and ps2: "ps2_status hw c AND PS2_OUTPUT_FULL = 0"
  shows "\<exists>k' m' M'. start_devices hw (k, m) = Some (Inr ((), k', m'))
    \<and> kernel_inv A M' FA k' \<and> used_to (b + 56) M' k' \<and> g_current k' = g_current k \<and> threads k' = threads k
    \<and> g_scheduler k' = g_scheduler k \<and> next_pid k' = next_pid k \<and> g_num_threads k' = g_num_threads k
    \<and> int_flag k' \<and> g_preemption k' \<and> ring_rep (keys k') [] \<and> m_state (mutexes k' (job_mutex hw)) = MUTEX_UNLOCKED
    \<and> irq_inv (m_irq m') \<and> s_irqmask (m_irq m') = s_irqmask (m_irq m) AND NOT (push_bit 0 1) AND NOT (push_bit 1 1)
    \<and> g_int_handler_table (m_int m') = (g_int_handler_table (m_int m))[32 := timer_fn hw, 33 := keyboard_fn hw]
    \<and> s_shiftstate (m_keyb m') = shift_word {} \<and> m_mmu m' = m_mmu m \<and> m_segs m' = m_segs m
    \<and> devs (m_devs m') (b + 4) = Some \<lparr>dev_ops = S_ramdisk_blockdev_ops, dev_data = b + 16\<rparr>
    \<and> pagers (m_devs m') (b + 48) = Some \<lparr>pager_p = b + 28\<rparr>
    \<and> blkdev_pagers (m_devs m') (b + 28) = Some \<lparr>pg_dev = b + 4, pg_start = lba_from_num 0, pg_num_blocks = 2, num_blocks_per_page = 8\<rparr>"
proof -
  obtain i1 ls where a: "ata_start hw (k, m) = Some (k, m\<lparr>m_irq := i1, m_said := m_said m @ ls\<rparr>)" "irq_inv i1" "s_irqmask i1 = s_irqmask (m_irq m)"
    using ata_start_ok [OF ready m(1)] by blast
  let ?k1 = "k\<lparr>int_flag := True, g_preemption := True\<rparr>"
  obtain t2 i2 where t: "timer_init_device (timer_fn hw) (k, m_int m, i1) = Some (?k1, t2, i2)" "irq_inv i2"
    "s_irqmask i2 = s_irqmask i1 AND NOT (push_bit 0 1)" "g_int_handler_table t2 = (g_int_handler_table (m_int m))[32 := timer_fn hw]"
    using timer_init_device_ok [OF a(2) m(2) k(4)] by blast
  let ?m2 = "m\<lparr>m_irq := i2, m_int := t2, m_said := m_said m @ ls\<rparr>"
  have k1: "kernel_inv A M FA ?k1" "used_to b M ?k1" "b + 24 \<le> h_end (heap ?k1)" using k(1-3) by (simp_all add: used_to_def)
  let ?d1 = "(m_devs m)\<lparr>ramdisks := (ramdisks (m_devs m))(b + 16 \<mapsto> \<lparr>rd_buf = ramdsk_buf hw, rd_size = 1024\<rparr>),
      devs := (devs (m_devs m))(b + 4 \<mapsto> \<lparr>dev_ops = S_ramdisk_blockdev_ops, dev_data = b + 16\<rparr>)\<rparr>"
  obtain h1 M1 where r: "ramdisk_create (ramdsk_buf hw) 1024 (?k1, m_devs m) = Some (Inr (b + 4, ?k1\<lparr>heap := h1\<rparr>, ?d1))"
    "kernel_inv A M1 FA (?k1\<lparr>heap := h1\<rparr>)" "used_to (b + 24) M1 (?k1\<lparr>heap := h1\<rparr>)" "h_end h1 = h_end (heap ?k1)"
    using ramdisk_create_fresh [OF k1, of "ramdsk_buf hw" 1024 "m_devs m"] by blast
  have r2: "b + 24 + 32 \<le> h_end (heap (?k1\<lparr>heap := h1\<rparr>))" using k(3) r(4) by simp
  have d1: "devs ?d1 (b + 4) = Some \<lparr>dev_ops = S_ramdisk_blockdev_ops, dev_data = b + 16\<rparr>"
    "ramdisks ?d1 (b + 16) = Some \<lparr>rd_buf = ramdsk_buf hw, rd_size = 1024\<rparr>" by simp_all
  let ?d2 = "?d1\<lparr>blkdev_pagers := (blkdev_pagers ?d1)(b + 24 + 4 \<mapsto> \<lparr>pg_dev = b + 4, pg_start = lba_from_num 0, pg_num_blocks = 2, num_blocks_per_page = 8\<rparr>),
          pagers := (pagers ?d1)(b + 24 + 24 \<mapsto> \<lparr>pager_p = b + 24 + 4\<rparr>)\<rparr>"
  obtain h2 M2 where p: "blockdev_pager_create (b + 4) (lba_from_num 0) 2 (?k1\<lparr>heap := h1\<rparr>, ?d1)
      = Some (Inr ((0, b + 24 + 24), ?k1\<lparr>heap := h1\<rparr>\<lparr>heap := h2\<rparr>, ?d2))"
    "kernel_inv A M2 FA (?k1\<lparr>heap := h1\<rparr>\<lparr>heap := h2\<rparr>)" "used_to (b + 24 + 32) M2 (?k1\<lparr>heap := h1\<rparr>\<lparr>heap := h2\<rparr>)"
    using pager_create_fresh [OF r(2,3) r2 d1] by blast
  let ?k2 = "?k1\<lparr>heap := h1\<rparr>\<lparr>heap := h2\<rparr>"
  have t2: "length (g_int_handler_table t2) = INT_NUM_INTERRUPTS" using t(4) m(2) by simp
  have q2: "length (s_queue (keys ?k2)) = QUEUE_SIZE" using q by simp
  obtain k3 t3 i3 b3 where y: "keyboard_init (keyboard_fn hw) (ps2_status hw) (?k2, t2, i2, m_keyb m) = Some (k3, t3, i3, b3)"
    "k3 = ?k2\<lparr>int_flag := True, g_preemption := True, keys := (keys ?k2)\<lparr>s_queue_head := 0, s_queue_tail := 0\<rparr>\<rparr>"
    "ring_rep (keys k3) []" "s_shiftstate b3 = shift_word {}" "irq_inv i3" "s_irqmask i3 = s_irqmask i2 AND NOT (push_bit 1 1)"
    "g_int_handler_table t3 = (g_int_handler_table t2)[33 := keyboard_fn hw]"
    using keyboard_init_ok [where status = "ps2_status hw" and m = c and i = i2 and k = "?k2" and t = t2 and handler = "keyboard_fn hw" and b = "m_keyb m",
        OF ps2 t(2) q2 t2] by blast
  let ?k4 = "mutex_init (job_mutex hw) k3"
  have "?k2 = k\<lparr>heap := h2\<rparr>\<lparr>int_flag := True, g_preemption := True\<rparr>" by simp
  with p(2) have "kernel_inv A M2 FA (k\<lparr>heap := h2\<rparr>\<lparr>int_flag := True, g_preemption := True\<rparr>)" by simp
  moreover have "k3 = k\<lparr>heap := h2\<rparr>\<lparr>keys := (keys k)\<lparr>s_queue_head := 0, s_queue_tail := 0\<rparr>\<rparr>\<lparr>int_flag := True, g_preemption := True\<rparr>"
    by (simp add: y(2))
  ultimately have inv3: "kernel_inv A M2 FA k3" by (simp only: kernel_inv_flags kernel_inv_int_flag)
  note mi = mutex_init_ok [OF inv3 A]
  have u: "used_to (b + 56) M2 ?k4" using p(3) y(2) by (simp add: used_to_def mutex_init_def set_mutex_def)
  obtain m' where m': "start_devices hw (k, m) = Some (Inr ((), ?k4, m'))" "m_irq m' = i3" "m_int m' = t3" "m_keyb m' = b3" "m_devs m' = ?d2" "m_mmu m' = m_mmu m" "m_segs m' = m_segs m"
    using a(1) t(1) r(1) p(1) y(1)
    by (simp add: start_devices_def timer_start_def with_devs_def keyboard_start_def s_job_mutex_init_def m_say_def give_def Let_def)
  show ?thesis
    using mi u y t(3,4) a(3) m'(2-)
    by (intro exI [of _ ?k4] exI [of _ m'] exI [of _ M2] conjI m'(1)) (simp_all add: add.commute [of _ b] and.assoc)
qed


lemma irq_init_masks: "s_irqmask (irq_init s) AND NOT (push_bit 0 1) AND NOT (push_bit 1 1) = 0xFFF8"
proof -
  have "s_irqmask (irq_init s) = 0xFFFB" by (simp add: irq_init_def ioport_outb_def Let_def)
  then show ?thesis by simp
qed

text \<open>
  All of \<open>geekos_main\<close> up to the loop, on a machine whose layout is as in \<open>mem_init_ok\<close>, whose processor has
  4 MB pages, whose disk becomes ready again and again, and whose keyboard controller has at some time nothing to
  deliver.
\<close>

lemma geekos_main_ok:
  assumes lay: "x86mem_init_layout (linker_end hw) mb = L" and ke: "kernel_end L = 4096 * n" "258 \<le> n"
    and N: "numframes L = N" "n < N" "N < 2 ^ 20" and fl: "0 < framelist_numframes L" "framelist_numframes L < 4096"
    and stubs: "stubs_stop hw = stubs_start hw + of_nat (INT_NUM_INTERRUPTS * INT_HANDLER_STUB_LEN)"
    and pse: "pse_feature hw = Some True"
    and ready: "\<forall>n. \<exists>j \<ge> n. ready (ata_status hw) j" and ps2: "ps2_status hw c AND PS2_OUTPUT_FULL = 0"
  shows "\<exists>k' m' M'. geekos_main hw MB_LOADER_MAGIC mb m = Some (Inr ((), k', m'))
    \<and> kernel_inv ((\<lambda>_. [])(RunQ := [4180, 4260])) M' ((\<lambda>_. [])(FreeFrames := [133..<160] @ [n..<N])) k' \<and> used_to 4392 M' k'
    \<and> g_current k' = 4100 \<and> g_scheduler k' = FCFS \<and> next_pid k' = 3 \<and> g_num_threads k' = 3
    \<and> (\<exists>t0 t1 t2. threads k' = [4100 \<mapsto> t0, 4180 \<mapsto> t1, 4260 \<mapsto> t2] \<and> start_func t1 = idle_fn hw \<and> start_func t2 = worker_fn hw)
    \<and> int_flag k' \<and> g_preemption k' \<and> ring_rep (keys k') [] \<and> m_state (mutexes k' (job_mutex hw)) = MUTEX_UNLOCKED
    \<and> irq_inv (m_irq m') \<and> s_irqmask (m_irq m') = 0xFFF8
    \<and> g_int_handler_table (m_int m') = (replicate 64 (unexpected_fn hw))[32 := timer_fn hw, 33 := keyboard_fn hw]
    \<and> s_shiftstate (m_keyb m') = shift_word {} \<and> flat_segments (gdt_start hw) (tss_start hw) (m_segs m')
    \<and> (\<forall>v. translate (m_mmu m') v = (if kernel_mapped (paging_mem_max mb) v then Some v else None))
    \<and> devs (m_devs m') 4340 = Some \<lparr>dev_ops = S_ramdisk_blockdev_ops, dev_data = 4352\<rparr>
    \<and> pagers (m_devs m') 4384 = Some \<lparr>pager_p = 4364\<rparr>
    \<and> blkdev_pagers (m_devs m') 4364 = Some \<lparr>pg_dev = 4340, pg_start = lba_from_num 0, pg_num_blocks = 2, num_blocks_per_page = 8\<rparr>"
proof -
  obtain con where con: "console_start (mem_clear_bss, m) = Some (mem_clear_bss, m\<lparr>m_console := con\<rparr>)"
    using console_start_ok by blast
  let ?m1 = "m_say ''GeekOS %d.%d.%d on %s\<newline>'' [Say_num GEEKOS_MAJOR, Say_num GEEKOS_MINOR, Say_num GEEKOS_PATCH, Say_text ''x86''] (m\<lparr>m_console := con\<rparr>)"
  obtain t where t: "int_init (stubs_start hw) (stubs_stop hw) (idt_start hw) (unexpected_fn hw) = Some t"
    "g_int_handler_table t = replicate 64 (unexpected_fn hw)" using int_init_ok [OF stubs] by blast
  obtain segs s1 cpu' s2 s3 k M t0 t1 t2 where b: "mem_init (gdt_start hw) (tss_start hw) (linker_end hw) mb mem_clear_bss = Some (segs, 4096 * n, s1)"
    "vm_init_paging (Some True) mb (m_mmu ?m1) s1 = Some (Inr (cpu', s2))"
    "thread_init (idle_fn hw) s2 = Some (Inr (4180, s3))" "workqueue_init (worker_fn hw) s3 = Some (Inr (4260, k))"
    and flat: "flat_segments (gdt_start hw) (tss_start hw) segs"
    and k: "kernel_inv ((\<lambda>_. [])(RunQ := [4180, 4260])) M ((\<lambda>_. [])(FreeFrames := [133..<160] @ [n..<N])) k" "used_to 4336 M k"
      "h_end (heap k) = 528384" "\<not> int_flag k" "g_current k = 4100" "g_scheduler k = FCFS"
      "keys k = empty_ring" "next_pid k = 3" "g_num_threads k = 3"
      "\<forall>v. translate cpu' v = (if kernel_mapped (paging_mem_max mb) v then Some v else None)"
      "threads k = [4100 \<mapsto> t0, 4180 \<mapsto> t1, 4260 \<mapsto> t2]" "start_func t1 = idle_fn hw" "start_func t2 = worker_fn hw"
    using boot_parts [OF lay ke N fl, of "gdt_start hw" "tss_start hw" "m_mmu ?m1" "idle_fn hw" "worker_fn hw"] by metis
  define m2 where "m2 = ?m1\<lparr>m_segs := segs, m_int := t, m_mmu := cpu', m_irq := irq_init (m_irq ?m1)\<rparr>"
  have m2: "m_irq m2 = irq_init (m_irq m)" "m_int m2 = t" "m_mmu m2 = cpu'" "m_segs m2 = segs" by (simp_all add: m2_def m_say_def)
  have run: "geekos_main hw MB_LOADER_MAGIC mb m = start_devices hw (k, m2)"
    using con t(1) b unfolding m2_def
    by (simp add: geekos_main_def halt_simps int_start_def paging_start_def pse give_def with_kernel_Inr Let_def)
  have r: "4336 + 56 \<le> h_end (heap k)" by (simp add: k(3))
  have A: "((\<lambda>_. [])(RunQ := [4180, 4260])) (MutexWaitQ (job_mutex hw)) = []" by simp
  have i: "irq_inv (m_irq m2)" unfolding m2(1) by (rule irq_init_inv)
  have l: "length (g_int_handler_table (m_int m2)) = INT_NUM_INTERRUPTS" by (simp add: m2 t(2) INT_NUM_INTERRUPTS_def)
  have q: "length (s_queue (keys k)) = QUEUE_SIZE" by (simp add: k(7) empty_ring_def)
  have n: "(4336 :: nat) + 4 = 4340" "(4336 :: nat) + 16 = 4352" "(4336 :: nat) + 48 = 4384" "(4336 :: nat) + 28 = 4364" "(4336 :: nat) + 56 = 4392" by simp_all
  note d = start_devices_ok [OF k(1,2) r k(4) A i l q ready ps2, folded run, unfolded m2 t(2) irq_init_masks n k(5,6,8,9,11)]
  show ?thesis using d k(10,12,13) flat by (elim exE conjE) (intro exI conjI; (assumption | rule refl | simp only:, (rule allI refl)+ | simp only:))
qed

end
