(* ===== verification/Spec2Isabelle.thy ===== *)
theory Spec2Isabelle imports Mutex_System Kernel_Boot Range_Lba Peterson X86_Interrupts Page_Cache Pfat Console_Print Keyboard Timer_Device Tictactoe Menu Ata Players Poetry Jobs Loading Machine begin

text \<open>
  A verification development for GeekOS, a small kernel for x86 processors, in the version of this repository: with a
  simulator of scheduling and synchronisation (the files named \<open>60-330\<close>).

  \<^bold>\<open>The program.\<close>  The boot loader enters \<open>geekos_main\<close> (\<open>src/60-330/kernel/main.c\<close>), which initialises the parts of the
  kernel one after the other and then runs a menu in a loop.  A choice of the menu names a scheduler and a list of
  jobs; \<open>run_simulation\<close> makes one thread per job, and the main thread waits for them and prints their times.  Threads
  wait in queues, which are intrusive doubly linked lists (\<open>include/geekos/list.h\<close>); a scheduler is a function that
  inserts into such a queue.  The timer interrupt counts ticks and preempts a thread under round robin.  Mutexes and
  conditions, the work queue and the keyboard are built from wait queues; whoever changes the kernel's data does so
  with interrupts off.  Memory for threads and buffers comes from a heap (\<open>malloc.c\<close>) and from a list of page frames.
  Block devices, a page cache, a registry of devices and a virtual filesystem are layers on top of them, and the
  console prints for all.

  \<^bold>\<open>The kernel's state.\<close>

  \<^item> \<open>Kernel_Prelude\<close>: halting as the value \<open>None\<close>, the error codes, generic lemmas
    on lists, maps and words, the locale \<open>poll_loop\<close> of loops that read a register until it has some
    value.
  \<^item> \<open>Kernel_List\<close>: the twelve macros of \<open>list.h\<close> on head, tail, next and prev
    pointers; \<open>list_rep\<close> and \<open>lists_rep\<close> say which lists a store holds; the locale
    \<open>fifo_queue\<close>.
  \<^item> \<open>Sched_Queue\<close>: \<open>scheduler.c\<close> and the insertion by priority of
    \<open>thread.c\<close>; the locales \<open>enqueue_policy\<close> and \<open>priority_policy\<close>.
  \<^item> \<open>Malloc\<close>: \<open>malloc\<close> and \<open>free\<close> on the words of the heap;
    \<open>heap_inv\<close>.
  \<^item> \<open>Key_Queue\<close>: the ring buffer of \<open>queue.h\<close>.
  \<^item> \<open>Range_Lba\<close>, \<open>Run_Stat\<close>, \<open>Strings\<close>: \<open>range.c\<close>,
    \<open>lba.c\<close> with the order of block addresses, the times of \<open>stat.c\<close>,
    \<open>string.c\<close> on a memory of bytes.
  \<^item> \<open>Kernel_State\<close>: the record \<open>kernel\<close> of the globals of \<open>thread.c\<close>,
    \<open>mem.c\<close>, \<open>synch.c\<close>, \<open>workqueue.c\<close>, \<open>keyboard.c\<close>, the
    interrupt flag, dispatching, waiting, waking, the timer tick and the return from an interrupt.
  \<^item> \<open>Kernel_Sched\<close>: the invariant \<open>sched_inv\<close> (each queue is well formed, no thread
    is on two, none that lives is lost) and what every scheduling operation does to it.
  \<^item> \<open>Kernel_Memory\<close>, \<open>Memory_Map\<close>, \<open>Paging\<close>: \<open>mem.c\<close>,
    \<open>x86_mem.c\<close>, \<open>x86_vm.c\<close>: allocation that waits, the segments and the state of frames at
    start, the page directory and what the processor translates with it.
  \<^item> \<open>Kernel_Thread\<close>, \<open>Thread_Life\<close>, \<open>Work_Queue\<close>,
    \<open>Thread_End\<close>, \<open>Loading\<close>: the life of a thread from \<open>thread_create\<close> or
    \<open>thread_create_from_job\<close> to its destruction by the worker; \<open>kernel_inv\<close> joins
    \<open>sched_inv\<close>, the heap and the frame lists.
  \<^item> \<open>Kernel_Boot\<close>: the state after the kernel's own threads exist.

  \<^bold>\<open>Synchronisation.\<close>

  \<^item> \<open>Synch\<close>: \<open>synch.c\<close>.
  \<^item> \<open>Mutex_System\<close>: threads that use one mutex and one condition as a step relation, with timer
    interrupts between the pieces that run with interrupts off; reachable states and their invariant.
  \<^item> \<open>Peterson\<close>: \<open>peterson.c\<close>, one step per access to shared data; the locale
    \<open>fair_progress\<close>.
  \<^item> \<open>Tictactoe\<close>, \<open>Players\<close>: the game (\<open>tictactoe.c\<close>,
    \<open>rand.c\<close>), and the two threads that play it under \<open>peterson\<close>
    (\<open>peterson_player\<close> in \<open>job.c\<close>): each of their steps is a step of
    \<open>Peterson\<close>, as long as one of them joined the game of the other; a call of
    \<open>play_tictactoe\<close> or \<open>wait_for_turn\<close> is one step.

  \<^bold>\<open>Processor and devices.\<close>

  \<^item> \<open>X86_Cpu\<close>, \<open>X86_Interrupts\<close>: descriptors, gates, segment registers, entry and exit of
    interrupts, the handler table, the masks of the controllers.
  \<^item> \<open>Keyboard\<close>, \<open>Timer_Device\<close>, \<open>Ata\<close>: the drivers with their port
    output; what the devices deliver is a stream, a function from the number of the read.
  \<^item> \<open>Console\<close>, \<open>Console_Print\<close>: the text screen, and \<open>cons_printf\<close>.
  \<^item> \<open>Wait_Lift\<close>: operations that may wait, over the kernel and a further state.
  \<^item> \<open>Block_Device\<close>, \<open>Page_Cache\<close>, \<open>Device_Registry\<close>,
    \<open>Vfs\<close>, \<open>Pfat\<close>: \<open>blockdev.c\<close>, \<open>ramdisk.c\<close>,
    \<open>blockdev_pager.c\<close>, \<open>vm.c\<close>, \<open>dev.c\<close>, \<open>vfs.c\<close>,
    \<open>pfat.c\<close>.

  \<^bold>\<open>The simulator.\<close>

  \<^item> \<open>Menu\<close>: \<open>menu.c\<close>, \<open>simulation.c\<close> and the table of
    \<open>stat.c\<close> over the keys that are typed.
  \<^item> \<open>Poetry\<close>, \<open>Jobs\<close>: \<open>poetry.c\<close> and \<open>job.c\<close>; a job is
    the list of its statements, which run on the kernel with timer interrupts in between.
  \<^item> \<open>Machine\<close>: all of \<open>geekos_main\<close> over the states of all components, and the loop
    of simulations.

  \<^bold>\<open>Conventions.\<close>  A failed assertion, a panic and a loop that does not end are \<open>None\<close>.  An operation that may put its thread to
  sleep returns \<open>Inl\<close> of the state in which the next thread runs, or \<open>Inr\<close> of its result; the states from which it goes on
  are those in which it was woken up again.  Loops without an evident bound are \<open>partial_function (option)\<close>, so that their end
  is proved where it is claimed; no fuel is used.  Machine integers are 32, 16 and 8 bit words where they wrap around.
  Addresses of threads, buffers and frames are natural numbers, 0 is the null pointer.  Prints of the kernel are recorded.
  \<open>sizeof\<close> of a structure is a constant with the value that the compiler gives it.  The bounds: 255 keys in the ring,
  11 rounds of the menu (C33), 29 threads, the layout hypotheses of C1.

  \<^bold>\<open>What is proved.\<close>  The properties C1 to C40 below: initialisation establishes every invariant and every operation keeps them;
  the schedulers refine insertion into a list; mutual exclusion and progress of the mutex and of Peterson's algorithm; the
  allocator; round trips of context switch, interrupt, RAM disk; termination of polling loops and of the menu; and
  the errors of the code, each as a theorem.  The other theorems of this theory are further facts of the same kind.

  \<^bold>\<open>Interfaces.\<close>  \<open>fifo_queue\<close> is interpreted by the intrusive lists (\<open>intrusive\<close>), the key ring (\<open>keys\<close>) and the work queue (\<open>work\<close>);
  \<open>enqueue_policy\<close> by FCFS, insertion by priority and the selected scheduler (\<open>fcfs\<close>, \<open>prio\<close>, \<open>sched\<close>), of which \<open>prio\<close> is a
  \<open>priority_policy\<close>; \<open>fair_progress\<close> by the way into Peterson's critical section (\<open>way\<close>) and by the end of a match (\<open>over\<close>);
  \<open>poll_loop\<close> by the clock, the PS/2 controller and the disk (\<open>clock\<close>, \<open>ps2\<close>, \<open>disk\<close>).

  \<^bold>\<open>Not modelled.\<close>  The entry from the boot loader and the accessors of single registers and ports, which are one instruction of
  assembly each; the values of registers on the stacks of threads other than what the switch saves; the idle thread's loop
  of \<open>thread_yield\<close>; the default interrupt handler, which prints and halts; code under \<open>#if 0\<close> or debug switches; the
  contents of the table \<open>g_rand\<close>, which is an argument.  The wait of \<open>wait_for_children\<close> between two simulations is a step
  in which other threads run and of which C33 assumes only that it creates no thread.  A job that waits for a mutex or
  ends gives up the processor, and its script is not followed further.
\<close>

section \<open>Properties\<close>

subsection \<open>The kernel at boot\<close>

text \<open>C1.  \<open>geekos_main\<close> gets to its loop.  On a machine whose layout leaves room above the kernel, whose processor
  has 4 MB pages, whose disk becomes ready again and again and whose keyboard controller has at some time nothing
  to deliver, no assertion fails on the way: the main thread runs, the idle thread and the worker are ready in this
  order, the invariants of the scheduler queues, the heap and the frame lists hold, interrupts and preemption are
  on, exactly the lines of the timer, the keyboard and the second controller are let in and their handlers are
  installed, the keyboard buffer is empty and the mutex of the jobs free, kernel addresses are mapped to themselves,
  the segment registers select the flat segments of the GDT, and the pager of the RAM disk exists.\<close>

theorem machine_boots:
  assumes "x86mem_init_layout (linker_end hw) mb = L" and "kernel_end L = 4096 * n" and "258 \<le> n"
    and "numframes L = N" and "n < N" and "N < 2 ^ 20" and "0 < framelist_numframes L" and "framelist_numframes L < 4096"
    and "stubs_stop hw = stubs_start hw + of_nat (INT_NUM_INTERRUPTS * INT_HANDLER_STUB_LEN)" and "pse_feature hw = Some True"
    and "\<forall>n. \<exists>j \<ge> n. ready (ata_status hw) j" and "ps2_status hw c AND PS2_OUTPUT_FULL = 0"
  shows "\<exists>k' m' M'. geekos_main hw MB_LOADER_MAGIC mb m = Some (Inr ((), k', m'))
    \<and> kernel_inv ((\<lambda>_. [])(RunQ := [4180, 4260])) M' ((\<lambda>_. [])(FreeFrames := [133..<160] @ [n..<N])) k'
    \<and> g_current k' = 4100 \<and> next_pid k' = 3 \<and> g_num_threads k' = 3
    \<and> (\<exists>t0 t1 t2. threads k' = [4100 \<mapsto> t0, 4180 \<mapsto> t1, 4260 \<mapsto> t2] \<and> start_func t1 = idle_fn hw \<and> start_func t2 = worker_fn hw)
    \<and> int_flag k' \<and> g_preemption k' \<and> ring_rep (keys k') [] \<and> m_state (mutexes k' (job_mutex hw)) = MUTEX_UNLOCKED
    \<and> irq_inv (m_irq m') \<and> s_irqmask (m_irq m') = 0xFFF8
    \<and> g_int_handler_table (m_int m') = (replicate 64 (unexpected_fn hw))[32 := timer_fn hw, 33 := keyboard_fn hw]
    \<and> (\<forall>v. translate (m_mmu m') v = (if kernel_mapped (paging_mem_max mb) v then Some v else None))
    \<and> flat_segments (gdt_start hw) (tss_start hw) (m_segs m')
    \<and> pagers (m_devs m') 4384 = Some \<lparr>pager_p = 4364\<rparr>
    \<and> blkdev_pagers (m_devs m') 4364 = Some \<lparr>pg_dev = 4340, pg_start = lba_from_num 0, pg_num_blocks = 2, num_blocks_per_page = 8\<rparr>"
  using geekos_main_ok [OF assms, of m] by (elim exE conjE) (intro exI conjI; assumption)

theorem machine_boots_witness:
  "\<exists>hw m k' m'. geekos_main hw MB_LOADER_MAGIC \<lparr>mb_flags = 1, mem_lower = 640, mem_upper = 7168\<rparr> m = Some (Inr ((), k', m'))
    \<and> g_num_threads k' = 3 \<and> s_irqmask (m_irq m') = 0xFFF8"
proof -
  define hw where "hw = \<lparr>linker_end = 0x10FFF0, gdt_start = 0x103000, tss_start = 0x103020, stubs_start = 0x101000, stubs_stop = 0x101400, idt_start = 0x102000, unexpected_fn = 1,
    timer_fn = 2, keyboard_fn = 3, idle_fn = 4, worker_fn = 5, ramdsk_buf = 0x8000, job_mutex = 6, pse_feature = Some True,
    ata_status = (\<lambda>_. 0x50), ata_info = [], ps2_status = (\<lambda>_. 0)\<rparr>"
  have h: "stubs_stop hw = stubs_start hw + of_nat (INT_NUM_INTERRUPTS * INT_HANDLER_STUB_LEN)" "pse_feature hw = Some True"
    "\<forall>n. \<exists>j \<ge> n. ready (ata_status hw) j" "ps2_status hw 0 AND PS2_OUTPUT_FULL = 0"
    by (auto simp: hw_def INT_NUM_INTERRUPTS_def INT_HANDLER_STUB_LEN_def ready_def ATA_STATUS_DRIVE_BUSY_def)
  have l: "x86mem_init_layout (linker_end hw) \<lparr>mb_flags = 1, mem_lower = 640, mem_upper = 7168\<rparr>
      = \<lparr>kernel_end = 4096 * 272, memsize_kb = 8192, numframes = 2048, framelist_numframes = 14\<rparr>"
    using layout_8mb by (simp add: hw_def)
  show ?thesis
    using machine_boots [where n = 272 and N = 2048, OF l _ _ _ _ _ _ _ h] by (simp del: upt_rec_numeral) blast
qed

text \<open>C2.  \<open>x86_mem.c\<close> adds the number of pages of the frame list, not their size, to the address
  where the kernel ends: after \<open>mem_init\<close> the frame that holds the first entries of
  \<open>s_framelist\<close> is marked available and is on the free list, so \<open>mem_alloc_frame\<close> will hand it out.\<close>

theorem frame_list_is_given_away:
  assumes "x86mem_init_layout end_sym mb = L" and "kernel_end L = 4096 * k" and "258 \<le> k"
    and "numframes L = N" and "k < N" and "N < 2 ^ 20"
    and "0 < framelist_numframes L" and "framelist_numframes L < 4096"
    and "lists_rep (flists s) (\<lambda>_. [])"
  shows "\<exists>segs framelist s' fs. mem_init s_gdt_at s_tss_at end_sym mb s = Some (segs, framelist, s')
    \<and> lists_rep (flists s') ((\<lambda>_. [])(FreeFrames := fs))
    \<and> mem_pa_to_frame framelist \<in> set fs \<and> f_state (frames s' (mem_pa_to_frame framelist)) = FRAME_AVAIL"
proof -
  from mem_init_ok [OF assms, of s_gdt_at s_tss_at] obtain segs s' where
    s': "mem_init s_gdt_at s_tss_at end_sym mb s = Some (segs, 4096 * k, s')"
      "lists_rep (flists s') ((\<lambda>_. [])(FreeFrames := [129..<160] @ [k..<N]))"
      "\<forall>f. f_state (frames s' f) = region_state (4096 * k) f \<and> f_refcount (frames s' f) = 0" by blast
  have "mem_pa_to_frame (4096 * k) = k" by (simp add: mem_pa_to_frame_def PAGE_SIZE_def)
  moreover have "region_state (4096 * k) k = FRAME_AVAIL" using assms(3) by (simp add: region_state_def PAGE_SIZE_def)
  ultimately have "mem_pa_to_frame (4096 * k) \<in> set ([129..<160] @ [k..<N])"
    "f_state (frames s' (mem_pa_to_frame (4096 * k))) = FRAME_AVAIL" using assms(5) s'(3) by (auto simp del: upt_Suc)
  with s'(1,2) show ?thesis by blast
qed

theorem frame_list_is_given_away_witness:
  "\<exists>segs framelist s' fs. mem_init 0x103000 0x103020 0x10FFF0 \<lparr>mb_flags = 1, mem_lower = 640, mem_upper = 7168\<rparr> mem_clear_bss
      = Some (segs, framelist, s')
    \<and> lists_rep (flists s') ((\<lambda>_. [])(FreeFrames := fs)) \<and> mem_pa_to_frame framelist \<in> set fs"
proof -
  define L where "L = \<lparr>kernel_end = 4096 * 272, memsize_kb = 8192, numframes = 2048, framelist_numframes = 14\<rparr>"
  have L: "kernel_end L = 4096 * 272" "numframes L = 2048" "0 < framelist_numframes L" "framelist_numframes L < 4096"
    by (simp_all add: L_def)
  have n: "(258 :: nat) \<le> 272" "(272 :: nat) < 2048" "(2048 :: nat) < 2 ^ 20" by simp_all
  have e: "lists_rep (flists mem_clear_bss) (\<lambda>_. [])" by (simp add: mem_clear_bss_def)
  show ?thesis
    using frame_list_is_given_away [OF layout_8mb [folded L_def] L(1) n(1) L(2) n(2,3) L(3,4) e] by blast
qed

subsection \<open>Mutual exclusion\<close>

text \<open>C3.  Threads that lock, unlock, wait for and signal conditions, interleaved in any order of the pieces of code
  between two points at which the kernel switches threads, with the timer interrupting between any two
  pieces and other threads exiting, waiting and waking up, are never two at a time inside the mutex; the one inside
  is the recorded owner.\<close>

theorem mutual_exclusion:
  assumes "sched_inv A s0" and "m_state (mutexes s0 m) = MUTEX_UNLOCKED" and "A (MutexWaitQ m) = []"
    and "sys_reach m c (s0, \<lambda>_. Outside) (s, pc)" and "pc t = Inside" and "pc u = Inside"
  shows "t = u \<and> m_state (mutexes s m) = MUTEX_LOCKED \<and> m_owner (mutexes s m) = t"
proof -
  have inv: "sys_inv m (s0, \<lambda>_. Outside)" using assms(1-3) by (rule sys_inv_fresh)
  show ?thesis using reach_exclusive [OF assms(4) inv assms(5,6)] reach_owner [OF assms(4) inv assms(5)] by simp
qed

theorem mutual_exclusion_witness:
  "\<exists>s0 s pc. sys_reach 0 0 (s0, \<lambda>_. Outside) (s, pc) \<and> pc 4100 = Inside \<and> m_owner (mutexes s 0) = 4100"
proof -
  obtain s where s: "sched_inv ((\<lambda>_. [])(RunQ := [4180, 4260])) s" "g_current s = 4100" "int_flag s"
    using booted_sched by metis
  let ?s = "set_mutex 0 MUTEX_UNLOCKED 0 s"
  let ?s' = "set_mutex 0 MUTEX_LOCKED 4100 (?s\<lparr>g_preemption := True\<rparr>)" and ?pc = "(\<lambda>_. Outside)(4100 := Inside)"
  have "mutex_lock 0 ?s = Some (Inr ((), ?s'))" using mutex_lock_free [of ?s 0] s(2,3) by simp
  then have "sys_step 0 0 (?s, \<lambda>_. Outside) (?s', ?pc)"
    using sys_step.Lock [of "\<lambda>_. Outside" ?s 0 ?s' 0] s(2) by simp
  then have r: "sys_reach 0 0 (?s, \<lambda>_. Outside) (?s', ?pc)"
    using sys_reach.start sys_reach.step by blast
  have "m_owner (mutexes ?s' 0) = 4100"
    using mutual_exclusion [OF _ _ _ r, of "(\<lambda>_. [])(RunQ := [4180, 4260])" 4100 4100] s(1) by simp
  then show ?thesis using r by (intro exI [of _ ?s] exI [of _ ?s'] exI [of _ ?pc]) simp
qed

text \<open>C4.  No wakeup of the mutex is lost: whenever it is free while threads wait in its queue, a
  thread that is trying to acquire it is running or ready.\<close>

theorem no_lost_wakeup:
  assumes "sched_inv A s0" and "m_state (mutexes s0 m) = MUTEX_UNLOCKED" and "A (MutexWaitQ m) = []"
    and "sys_reach m c (s0, \<lambda>_. Outside) (s, pc)" and "m_state (mutexes s m) = MUTEX_UNLOCKED"
  shows "\<exists>B. lists_rep (tqs s) B \<and> (\<forall>t \<in> set (B (MutexWaitQ m)). pc t = Acquiring)
    \<and> (B (MutexWaitQ m) \<noteq> [] \<longrightarrow> (\<exists>t. pc t = Acquiring \<and> (t = g_current s \<or> t \<in> set (B RunQ))))"
  using reach_no_lost_wakeup [OF assms(4) sys_inv_fresh [OF assms(1-3)] assms(5)] .

text \<open>
  The booted kernel: the main thread locks mutex 0 and yields, the other two threads wait for it one after the other,
  and the main thread unlocks it.  The mutex is free while a thread is in its queue, and the other one is ready.
\<close>

theorem no_lost_wakeup_witness:
  "\<exists>s0 s pc B. g_current s0 = 4100 \<and> sys_reach 0 0 (s0, \<lambda>_. Outside) (s, pc) \<and> m_state (mutexes s 0) = MUTEX_UNLOCKED
    \<and> lists_rep (tqs s) B \<and> B (MutexWaitQ 0) \<noteq> [] \<and> pc 4180 = Acquiring \<and> pc 4260 = Acquiring
    \<and> (\<exists>t. pc t = Acquiring \<and> (t = g_current s \<or> t \<in> set (B RunQ)))"
proof -
  let ?A = "(\<lambda>_. [])(RunQ := [4180, 4260]) :: qid \<Rightarrow> nat list"
  obtain s1 where s1: "sched_inv ?A s1" "g_current s1 = 4100" "g_scheduler s1 = FCFS"
    using booted_sched by metis
  let ?s = "set_mutex 0 MUTEX_UNLOCKED 0 s1"
  have s: "sched_inv ?A ?s" "g_scheduler ?s = FCFS" "m_state (mutexes ?s 0) = MUTEX_UNLOCKED" "4180 \<noteq> g_current ?s"
    "4260 \<noteq> g_current ?s" "g_current ?s = 4100" using s1 by simp_all
  have ne: "(4180 :: nat) \<noteq> 4260" and e: "?A (MutexWaitQ 0) = []" by simp_all
  obtain s' pc where r: "sys_reach 0 0 (?s, \<lambda>_. Outside) (s', pc)" "m_state (mutexes s' 0) = MUTEX_UNLOCKED"
    "sched_inv ((\<lambda>_. [])(MutexWaitQ 0 := [4260], RunQ := [4180])) s'" "pc 4180 = Acquiring" "pc 4260 = Acquiring"
    using run_leaves_a_waiter [OF s(1-5) ne, of 0] by blast
  obtain B where B: "lists_rep (tqs s') B"
    "B (MutexWaitQ 0) \<noteq> [] \<longrightarrow> (\<exists>t. pc t = Acquiring \<and> (t = g_current s' \<or> t \<in> set (B RunQ)))"
    using no_lost_wakeup [OF s(1,3) e r(1,2)] by blast
  have "\<not> list_is_empty (MutexWaitQ 0) (tqs s')"
    using lists_is_empty_iff [OF queues_invD(1) [OF sched_invD(1) [OF r(3)]], of "MutexWaitQ 0"] by simp
  then have "B (MutexWaitQ 0) \<noteq> []" using lists_is_empty_iff [OF B(1), of "MutexWaitQ 0"] by simp
  with B r s(6) show ?thesis by blast
qed

subsection \<open>Scheduling\<close>

text \<open>C5.  Whatever scheduler is selected, adding a thread to a queue with the pointer code of
  \<open>SCHEDULER[g_scheduler]\<close> never halts when every queued thread has a process, puts the thread
  into that queue and leaves every other queue of the kernel as it was; if the queue was sorted
  by priority then under SJF and PRIORITY the new thread is placed behind all threads of
  better or equal priority and before all worse ones, and otherwise it is placed last.\<close>

theorem scheduler_inserts:
  assumes "lists_rep s A" and "on_no_list n A"
    and "\<forall>y \<in> insert n (set (A q)). pr y = Some (p y)" and "sorted (map p (A q))"
  shows "\<exists>s'. SCHEDULER sc pr q n s = Some s' \<and> lists_rep s' (A(q :=
    (if sc = SJF \<or> sc = PRIORITY
     then takeWhile (\<lambda>x. p x \<le> p n) (A q) @ n # dropWhile (\<lambda>x. p x \<le> p n) (A q)
     else A q @ [n])))"
proof -
  have "sched_insert sc p n (A q) = (if sc = SJF \<or> sc = PRIORITY
     then takeWhile (\<lambda>x. p x \<le> p n) (A q) @ n # dropWhile (\<lambda>x. p x \<le> p n) (A q)
     else A q @ [n])"
    using assms(4) by (simp add: sched_insert_def ins_at_priority_stable ins_stable_def)
  with lists_SCHEDULER [OF assms(1-3), where sc = sc] show ?thesis by simp
qed

theorem scheduler_inserts_witness:
  "\<exists>s'. SCHEDULER SJF (\<lambda>n :: nat. Some (int n)) True 5 empty_lists = Some s'
    \<and> lists_rep s' ((\<lambda>_. [])(True := [5]))"
  using scheduler_inserts [of empty_lists "\<lambda>_ :: bool. []" 5 True "\<lambda>n. Some (int n)" int SJF]
  by (simp add: on_no_list_def)

text \<open>C6.  Yielding puts the running thread into the ready queue where the scheduler wants it and
  dispatches the head of that queue; every other queue and all kernel data stay the same, no
  thread is lost, and the yielding thread keeps its interrupt flag for its return.\<close>

theorem yield_dispatches_head:
  assumes "sched_inv A s" and "sched_insert (g_scheduler s) (prio s) (g_current s) (A RunQ) = n # rs"
  shows "\<exists>s'. thread_yield s = Some (int_flag s, s') \<and> g_current s' = n
    \<and> sched_inv (A(RunQ := rs)) s' \<and> rest s' = rest s"
  using yield_ok [OF assms] by blast

theorem yield_dispatches_head_witness:
  "\<exists>s s'. thread_yield s = Some (True, s') \<and> g_current s = 4100 \<and> g_current s' = 4180
    \<and> sched_inv ((\<lambda>_. [])(RunQ := [4260, 4100])) s'"
proof -
  obtain s where s: "sched_inv ((\<lambda>_. [])(RunQ := [4180, 4260])) s" "g_current s = 4100" "int_flag s" "g_scheduler s = FCFS"
    using booted_sched by metis
  have "sched_insert (g_scheduler s) (prio s) (g_current s) (((\<lambda>_. [])(RunQ := [4180, 4260])) RunQ) = 4180 # [4260, 4100]"
    using s by (simp add: sched_insert_def)
  from yield_dispatches_head [OF s(1) this] s(2,3) show ?thesis by (simp only: fun_upd_upd) metis
qed

text \<open>C7.  The context switch saves and restores: when a thread switches away and a later state
  whose record of that thread is the saved one switches back to it, its stack pointer is what it
  was with the return address popped, and its interrupt flag is what it was.\<close>

theorem context_switch_roundtrip:
  assumes "threads s (g_current s) = Some c" and "threads s n = Some th" and "n \<noteq> g_current s"
    and "thread_switch_to n s = Some s1"
    and "threads s2 (g_current s) = threads s1 (g_current s)" and "threads s2 (g_current s2) \<noteq> None"
    and "g_current s2 \<noteq> g_current s"
  shows "\<exists>s3. thread_switch_to (g_current s) s2 = Some s3 \<and> g_current s3 = g_current s
    \<and> esp s3 = esp s + 4 \<and> int_flag s3 = int_flag s"
proof -
  have s1: "threads s1 (g_current s) = Some (c\<lparr>stack_ptr := esp s - 60, saved_if := int_flag s\<rparr>)"
    using switch_to_eq [OF assms(1-3)] assms(4) by auto
  obtain d where d: "threads s2 (g_current s2) = Some d" using assms(6) by blast
  have b: "threads s2 (g_current s) = Some (c\<lparr>stack_ptr := esp s - 60, saved_if := int_flag s\<rparr>)"
    using assms(5) s1 by simp
  have "g_current s \<noteq> g_current s2" using assms(7) by simp
  from switch_to_eq [OF d b this] show ?thesis by simp
qed

theorem context_switch_roundtrip_witness:
  "\<exists>s s1 s3. thread_switch_to 4180 s = Some s1 \<and> g_current s1 = 4180
    \<and> thread_switch_to 4100 s1 = Some s3 \<and> esp s3 = esp s + 4 \<and> int_flag s3"
proof -
  obtain s :: kernel and t0 t1 t2 where s: "threads s = [4100 \<mapsto> t0, 4180 \<mapsto> t1, 4260 \<mapsto> t2]" "g_current s = 4100" "int_flag s"
    by (rule booted_sched, rule that, assumption+)
  have th: "threads s (g_current s) = Some t0" "threads s 4180 = Some t1" "4180 \<noteq> g_current s" using s by simp_all
  note sw = switch_to_eq [OF th]
  let ?s1 = "s\<lparr>threads := (threads s)(g_current s \<mapsto> t0\<lparr>stack_ptr := esp s - 60, saved_if := int_flag s\<rparr>),
      g_current := 4180, esp := stack_ptr t1 + 64, int_flag := saved_if t1\<rparr>"
  have g: "g_current ?s1 = 4180" by simp
  have "threads ?s1 (g_current ?s1) \<noteq> None" "g_current ?s1 \<noteq> g_current s" using s by simp_all
  from context_switch_roundtrip [OF th sw refl this] obtain s3 where
    "thread_switch_to 4100 ?s1 = Some s3" "esp s3 = esp s + 4" "int_flag s3" using s(2,3) by auto
  with sw g show ?thesis by blast
qed

text \<open>Waking up a wait queue makes every waiting thread ready, in the order in which they
  began to wait, inserted one by one as the scheduler wants; nobody else moves.\<close>

theorem wakeup_in_order:
  assumes "sched_inv A s" and "\<not> int_flag s" and "wait_queue q"
  shows "\<exists>s'. thread_wakeup q s = Some s' \<and> g_current s' = g_current s \<and> rest s' = rest s
    \<and> sched_inv (A(q := [], RunQ := fold (sched_insert (g_scheduler s) (prio s)) (A q) (A RunQ))) s'"
  using wakeup_ok [OF assms] undisturbedD unfolding wake_all_def by blast

theorem wakeup_in_order_witness:
  "\<exists>s s1 s2. thread_wait WorkWaitQ s = Some s1 \<and> thread_wakeup WorkWaitQ (s1\<lparr>int_flag := False\<rparr>) = Some s2
    \<and> sched_inv ((\<lambda>_. [])(WorkWaitQ := [], RunQ := [4260, 4100])) s2"
proof -
  let ?B = "(\<lambda>_. [])(WorkWaitQ := [4100], RunQ := [4260]) :: qid \<Rightarrow> nat list"
  obtain s s1 where s: "thread_wait WorkWaitQ s = Some s1" "sched_inv ?B (s1\<lparr>int_flag := False\<rparr>)" "g_scheduler s1 = FCFS"
    using booted_waiting by metis
  have d: "?B(WorkWaitQ := [], RunQ := [4260, 4100]) = (\<lambda>_. [])(WorkWaitQ := [], RunQ := [4260, 4100])" by auto
  have "fold (sched_insert (g_scheduler (s1\<lparr>int_flag := False\<rparr>)) (prio (s1\<lparr>int_flag := False\<rparr>))) (?B WorkWaitQ) (?B RunQ)
      = [4260, 4100]"
    using s(3) by (simp add: sched_insert_def)
  with wakeup_in_order [OF s(2), of WorkWaitQ] s(1) d show ?thesis by auto
qed

text \<open>C9.  A timer interrupt under round robin.  A reschedule is due when one was pending already or when the
  running thread has now used up its quantum.  When one is due and preemption is allowed, the running thread
  goes to the back of the ready queue, the thread at the front of the queue runs, and nothing is pending any
  more; in every other case the same thread goes on, with the stack pointer and the interrupt flag it had,
  and a reschedule that is due stays pending.\<close>

theorem round_robin_preempts:
  assumes "sched_inv A s" and "g_scheduler s = RR" and "threads s (g_current s) = Some th"
    and "due = (g_need_reschedule s \<or> of_int (g_quantum s) < num_ticks th + 1)"
  shows "(g_preemption s \<longrightarrow> due \<longrightarrow> A RunQ @ [g_current s] = n # rs \<longrightarrow>
      (\<exists>s'. timer_interrupt s = Some s' \<and> g_current s' = n \<and> sched_inv (A(RunQ := rs)) s' \<and> \<not> g_need_reschedule s'))
    \<and> (\<not> (g_preemption s \<and> due) \<longrightarrow>
      (\<exists>s'. timer_interrupt s = Some s' \<and> g_current s' = g_current s \<and> sched_inv A s'
        \<and> esp s' = esp s \<and> int_flag s' = int_flag s \<and> g_need_reschedule s' = due))"
  using timer_interrupt_RR [OF assms] .

theorem round_robin_preempts_witness:
  "\<exists>s s' s1. g_current s = 4100 \<and> timer_interrupt s = Some s' \<and> g_current s' = 4180
    \<and> timer_interrupt (s\<lparr>g_preemption := False\<rparr>) = Some s1 \<and> g_current s1 = 4100 \<and> g_need_reschedule s1"
proof -
  obtain s t0 t1 t2 where s: "sched_inv ((\<lambda>_. [])(RunQ := [4180, 4260])) s" "g_current s = 4100"
    "threads s = [4100 \<mapsto> t0, 4180 \<mapsto> t1, 4260 \<mapsto> t2]" "g_preemption s"
    by (rule booted_sched, rule that, assumption+)
  let ?s = "(upd_thread 4100 (\<lambda>th. th\<lparr>num_ticks := 24\<rparr>) s)\<lparr>g_scheduler := RR, g_quantum := 24, g_need_reschedule := False\<rparr>"
  have "sched_inv ((\<lambda>_. [])(RunQ := [4180, 4260])) (upd_thread 4100 (\<lambda>th. th\<lparr>num_ticks := 24\<rparr>) s)"
    using s(1) by (subst sched_inv_upd_data) simp_all
  then have i: "sched_inv ((\<lambda>_. [])(RunQ := [4180, 4260])) ?s"
    by (simp add: sched_inv_def queues_inv_def no_thread_lost_def queued_ok_def)
  have t: "threads ?s (g_current ?s) = Some (t0\<lparr>num_ticks := 24\<rparr>)" using s(2,3) by simp
  have p: "g_scheduler ?s = RR" "g_preemption ?s" using s(4) by simp_all
  have q: "True = (g_need_reschedule ?s \<or> of_int (g_quantum ?s) < num_ticks (t0\<lparr>num_ticks := 24\<rparr>) + 1)"
    "((\<lambda>_. [])(RunQ := [4180, 4260])) RunQ @ [g_current ?s] = 4180 # [4260, 4100]" using s(2) by simp_all
  have g: "g_current ?s = 4100" using s(2) by simp
  let ?u = "?s\<lparr>g_preemption := False\<rparr>"
  have iu: "sched_inv ((\<lambda>_. [])(RunQ := [4180, 4260])) ?u" using i by simp
  have tu: "g_scheduler ?u = RR" "threads ?u (g_current ?u) = Some (t0\<lparr>num_ticks := 24\<rparr>)" using p t by simp_all
  have qu: "True = (g_need_reschedule ?u \<or> of_int (g_quantum ?u) < num_ticks (t0\<lparr>num_ticks := 24\<rparr>) + 1)" by simp
  have "\<not> (g_preemption ?u \<and> True)" by simp
  with round_robin_preempts [OF iu tu qu] obtain s1 where s1: "timer_interrupt ?u = Some s1" "g_current s1 = g_current ?u"
    "g_need_reschedule s1" by blast
  have "g_current s1 = 4100" using s1(2) g by simp
  with s1 round_robin_preempts [OF i p(1) t q(1)] p(2) q(2) g show ?thesis by blast
qed

text \<open>C10.  A simulation starts as its scheduler wants.  While the heap has room for the threads behind its used part
  (80 bytes each; blocks that were freed before may be used, too) and frames are free, \<open>run_simulation\<close> masks the
  keyboard, creates one attached thread for every job, with the priority that the scheduler looks at, consecutive
  process ids and two references, and makes all of them ready: FCFS and RR append them in the order of the list, SJF
  and PRIORITY keep the ready queue sorted and threads of equal priority in order; the addresses are new, the other
  threads keep what scheduling does not change, and the running thread goes on.  In a heap in which nothing was freed
  the addresses are those of \<open>batch\<close>.\<close>

theorem simulation_loaded:
  assumes "kernel_inv A M FA k" and "A NewQ = []" and "brk (heap k) + 80 * length js \<le> h_end (heap k)"
    and "length js \<le> length (FA FreeFrames)" and "irq_inv i"
  shows "\<exists>ts k' i' M' R. run_simulation js (length js) (k, i, m) = Some (Inr (ts, k', i', m))
    \<and> length ts = length js \<and> distinct ts \<and> (\<forall>t \<in> set ts. threads k t = None)
    \<and> line_masked i' 1 \<and> kernel_inv (A(RunQ := R)) M' (FA(FreeFrames := drop (length js) (FA FreeFrames))) k'
    \<and> g_current k' = g_current k \<and> mset R = mset ts + mset (A RunQ)
    \<and> (g_scheduler k \<in> {FCFS, RR} \<longrightarrow> R = A RunQ @ ts)
    \<and> (g_scheduler k \<in> {SJF, PRIORITY} \<longrightarrow> sorted (map (prio k) (A RunQ)) \<longrightarrow> sorted (map (prio k') R)
         \<and> (\<forall>p. filter (\<lambda>t. prio k' t = p) R = filter (\<lambda>t. prio k' t = p) (A RunQ @ ts)))
    \<and> (\<forall>j < length js. \<exists>th. threads k' (ts ! j) = Some th \<and> tstate th = THREAD_READY
         \<and> start_func th = fn_ptr (js ! j) \<and> pid (process th) = next_pid k + int j \<and> refcount th = 2
         \<and> priority (process th) = job_priority (g_scheduler k) (js ! j))
    \<and> (\<forall>x. x \<notin> set ts \<longrightarrow> map_option core (threads k' x) = map_option core (threads k x))
    \<and> (\<forall>b. used_to b M k \<longrightarrow> ts = batch b (length js))"
proof -
  obtain ts k' i' M' where r: "run_simulation js (length js) (k, i, m) = Some (Inr (ts, k', i', m))" "line_masked i' 1"
    "kernel_inv (A(RunQ := loaded_queue (g_scheduler k) (prio k') ts (A RunQ))) M' (FA(FreeFrames := drop (length js) (FA FreeFrames))) k'"
    "g_current k' = g_current k" "\<forall>x \<in> set (A RunQ). prio k' x = prio k x"
    "\<forall>j < length js. threads k (ts ! j) = None \<and> (\<exists>th. threads k' (ts ! j) = Some th \<and> tstate th = THREAD_READY
       \<and> thread_of_job (js ! j) 0 THREAD_ATTACHED (g_scheduler k) (next_pid k + int j) th)"
    "length ts = length js" "distinct ts" "\<forall>x. x \<notin> set ts \<longrightarrow> map_option core (threads k' x) = map_option core (threads k x)"
    "\<forall>b. used_to b M k \<longrightarrow> ts = batch b (length js)"
    using run_simulation_loads [OF assms(1,2), of "length js" js i m] assms(3-5) by auto
  let ?R = "loaded_queue (g_scheduler k) (prio k') ts (A RunQ)"
  note o = loaded_queue_order [where p = "prio k'" and ts = ts and run = "A RunQ"]
  have e: "map (prio k) (A RunQ) = map (prio k') (A RunQ)" using r(5) by simp
  have s: "g_scheduler k \<in> {SJF, PRIORITY} \<longrightarrow> sorted (map (prio k) (A RunQ)) \<longrightarrow> sorted (map (prio k') ?R)
         \<and> (\<forall>p. filter (\<lambda>t. prio k' t = p) ?R = filter (\<lambda>t. prio k' t = p) (A RunQ @ ts))"
    unfolding e using o(3) [of "g_scheduler k"] by blast
  have n: "\<forall>j < length js. \<exists>th. threads k' (ts ! j) = Some th \<and> tstate th = THREAD_READY
         \<and> start_func th = fn_ptr (js ! j) \<and> pid (process th) = next_pid k + int j \<and> refcount th = 2
         \<and> priority (process th) = job_priority (g_scheduler k) (js ! j)"
    using r(6) by (fastforce simp: thread_of_job_def)
  have new: "\<forall>t \<in> set ts. threads k t = None" using r(6,7) by (auto simp: in_set_conv_nth)
  have f: "g_scheduler k \<in> {FCFS, RR} \<longrightarrow> ?R = A RunQ @ ts" using o(2) by blast
  show ?thesis using r(1-4,7-10) o(1) f s n new
    by (intro exI [of _ ts] exI [of _ k'] exI [of _ i'] exI [of _ M'] exI [of _ ?R] conjI) assumption+
qed

text \<open>The demonstration of mutexes: on a heap in which nothing was freed, and on one in which a block is free.\<close>

theorem simulation_loaded_witness:
  "(\<exists>k k' i' R. run_simulation (g_mutex_sim \<lparr>fn1_at = 1, fn2_at = 2, fn3_at = 3, interrupt_toggler_at = 4, peterson_player_at = 5, mutex_poet_at = 6\<rparr>) 5
      (k, irq_init \<lparr>s_irqmask = 0, port_out = []\<rparr>, \<lparr>typed = [], shown = []\<rparr>)
    = Some (Inr ([4340, 4420, 4500, 4580, 4660], k', i', \<lparr>typed = [], shown = []\<rparr>))
    \<and> sched_inv ((\<lambda>_. [])(RunQ := [4180, 4260, 4340, 4420, 4500, 4580, 4660])) k' \<and> line_masked i' 1)
   \<and> (\<exists>k ts k' i'. h_flp (heap k) = 4336 \<and> run_simulation (g_mutex_sim \<lparr>fn1_at = 1, fn2_at = 2, fn3_at = 3, interrupt_toggler_at = 4, peterson_player_at = 5, mutex_poet_at = 6\<rparr>) 5
      (k, irq_init \<lparr>s_irqmask = 0, port_out = []\<rparr>, \<lparr>typed = [], shown = []\<rparr>) = Some (Inr (ts, k', i', \<lparr>typed = [], shown = []\<rparr>))
    \<and> distinct ts \<and> sched_inv ((\<lambda>_. [])(RunQ := [4180, 4260] @ ts)) k')"
proof -
  let ?A = "(\<lambda>_. [])(RunQ := [4180, 4260]) :: qid \<Rightarrow> nat list" and ?FA = "(\<lambda>_. [])(FreeFrames := [133..<160] @ [272..<2048]) :: flist \<Rightarrow> nat list"
  let ?js = "g_mutex_sim \<lparr>fn1_at = 1, fn2_at = 2, fn3_at = 3, interrupt_toggler_at = 4, peterson_player_at = 5, mutex_poet_at = 6\<rparr>"
  let ?i = "irq_init \<lparr>s_irqmask = 0, port_out = []\<rparr>" and ?m = "\<lparr>typed = [], shown = []\<rparr>"
  have l: "length ?js = 5" by (simp add: g_mutex_sim_def)
  have a: "?A NewQ = []" and fr: "length ?js \<le> length (?FA FreeFrames)" using l by simp_all
  obtain s M where s: "kernel_inv ?A M ?FA s" "used_to 4336 M s" "h_end (heap s) = 528384" "g_scheduler s = FCFS"
    by (rule booted_sched, rule that, assumption+)
  have c: "brk (heap s) + 80 * length ?js \<le> h_end (heap s)" using s(2,3) l by (simp add: used_to_def)
  have b: "batch 4336 5 = [4340, 4420, 4500, 4580, 4660]" by (simp add: eval_nat_numeral)
  obtain ts k' i' M' R where r: "run_simulation ?js 5 (s, ?i, ?m) = Some (Inr (ts, k', i', ?m))" "line_masked i' 1"
    "kernel_inv (?A(RunQ := R)) M' (?FA(FreeFrames := drop 5 (?FA FreeFrames))) k'" "g_scheduler s \<in> {FCFS, RR} \<longrightarrow> R = ?A RunQ @ ts"
    "\<forall>b. used_to b M s \<longrightarrow> ts = batch b 5"
    using simulation_loaded [OF s(1) a c fr irq_init_inv, of "\<lparr>s_irqmask = 0, port_out = []\<rparr>" ?m, unfolded l] by metis
  have ts: "ts = [4340, 4420, 4500, 4580, 4660]" using r(5) s(2) b by metis
  have "?A(RunQ := R) = (\<lambda>_. [])(RunQ := [4180, 4260, 4340, 4420, 4500, 4580, 4660])" using r(4) s(4) ts by simp
  with kernel_invD(1) [OF r(3)] have "sched_inv ((\<lambda>_. [])(RunQ := [4180, 4260, 4340, 4420, 4500, 4580, 4660])) k'" by simp
  note first = r(1,2) [unfolded ts] this
  obtain u N where u: "kernel_inv ?A N ?FA u" "h_flp (heap u) = 4336" "brk (heap u) = 4388" "h_end (heap u) = 528384" "g_scheduler u = FCFS"
    by (rule booted_freed, rule that, assumption+)
  have d: "brk (heap u) + 80 * length ?js \<le> h_end (heap u)" using u(3,4) l by simp
  obtain us k2 i2 N' Q where q: "run_simulation ?js 5 (u, ?i, ?m) = Some (Inr (us, k2, i2, ?m))" "distinct us"
    "kernel_inv (?A(RunQ := Q)) N' (?FA(FreeFrames := drop 5 (?FA FreeFrames))) k2" "g_scheduler u \<in> {FCFS, RR} \<longrightarrow> Q = ?A RunQ @ us"
    using simulation_loaded [OF u(1) a d fr irq_init_inv, of "\<lparr>s_irqmask = 0, port_out = []\<rparr>" ?m, unfolded l] by metis
  have "?A(RunQ := Q) = (\<lambda>_. [])(RunQ := [4180, 4260] @ us)" using q(4) u(5) by simp
  with kernel_invD(1) [OF q(3)] have "sched_inv ((\<lambda>_. [])(RunQ := [4180, 4260] @ us)) k2" by simp
  with first q(1,2) u(2) show ?thesis by blast
qed

subsection \<open>Threads\<close>

text \<open>C11.  \<open>thread_create\<close> never halts while a thread is ready: either the caller waits for memory
  and the next thread runs, or the new thread is in the ready queue with the default
  priority, a fresh pid, one reference (two when attached) and its start function; but it was
  inserted while its priority field was still 0.\<close>

theorem thread_create_publishes:
  assumes "kernel_inv A M FA s" and "A RunQ = n # rs"
  shows "(\<exists>A' M' FA' s'. thread_create f arg mode s = Some (Inl s') \<and> kernel_inv A' M' FA' s' \<and> g_current s' = n)
    \<or> (\<exists>t s' th M' FA'. thread_create f arg mode s = Some (Inr (t, s')) \<and> threads s t = None
        \<and> kernel_inv (A(RunQ := sched_insert (g_scheduler s) ((prio s)(t := 0)) t (A RunQ))) M' FA' s'
        \<and> threads s' = (threads s)(t \<mapsto> th) \<and> pid (process th) = next_pid s \<and> priority (process th) = DEFAULT_PRIORITY
        \<and> refcount th = (if mode = THREAD_ATTACHED then 2 else 1) \<and> start_func th = f \<and> start_arg th = arg
        \<and> g_current s' = g_current s \<and> next_pid s' = next_pid s + 1)"
proof -
  from thread_create_cases [OF assms, of f arg mode] show ?thesis
  proof (elim disjE exE conjE)
    fix t s' frame p M' FA'
    assume c: "thread_create f arg mode s = Some (Inr (t, s'))" "threads s t = None"
      "kernel_inv (A(RunQ := sched_insert (g_scheduler s) ((prio s)(t := 0)) t (A RunQ))) M' FA' s'"
      "threads s' = (threads s)(t \<mapsto> (created_thread f arg mode s frame p)\<lparr>tstate := THREAD_READY,
             process := zero_process\<lparr>pid := next_pid s, priority := DEFAULT_PRIORITY, time := zero_time\<lparr>
               arrival := (if g_numticks s > 0 then g_numticks s else 1)\<rparr>\<rparr>\<rparr>)"
      "g_current s' = g_current s" "next_pid s' = next_pid s + 1"
    let ?th = "(created_thread f arg mode s frame p)\<lparr>tstate := THREAD_READY,
             process := zero_process\<lparr>pid := next_pid s, priority := DEFAULT_PRIORITY, time := zero_time\<lparr>
               arrival := (if g_numticks s > 0 then g_numticks s else 1)\<rparr>\<rparr>\<rparr>"
    have "pid (process ?th) = next_pid s" "priority (process ?th) = DEFAULT_PRIORITY"
      "refcount ?th = (if mode = THREAD_ATTACHED then 2 else 1)" "start_func ?th = f" "start_arg ?th = arg"
      by (simp_all add: created_fields)
    with c show ?thesis by (intro disjI2) blast
  qed blast
qed

theorem thread_create_publishes_witness:
  "\<exists>s r. thread_create 7 0 THREAD_ATTACHED s = Some r \<and> g_current s = 4100"
proof -
  obtain s M where s: "g_current s = 4100"
    "kernel_inv ((\<lambda>_. [])(RunQ := [4180, 4260])) M ((\<lambda>_. [])(FreeFrames := [133..<160] @ [272..<2048])) s"
    by (rule booted_sched, rule that, assumption+)
  have "((\<lambda>_. [])(RunQ := [4180, 4260])) RunQ = 4180 # [4260]" by simp
  from thread_create_publishes [OF s(2) this, of 7 0 THREAD_ATTACHED] s(1) show ?thesis by blast
qed

text \<open>C12.  An attached thread that exits becomes \<open>THREAD_EXITED\<close> with its exit code and the time of
  its end, gives up its own reference, makes every thread that waits for it ready, and is on
  no queue; the next ready thread runs.\<close>

theorem exit_wakes_joiners:
  assumes "sched_inv A s" and "threads s (g_current s) = Some th" and "refcount th > 1"
    and "wake_all (g_scheduler s) (prio s) (ThreadWaitQ (g_current s)) A RunQ = n # rs"
  shows "\<exists>s' th'. thread_exit code s = Some (Inr ((), s')) \<and> g_current s' = n
    \<and> sched_inv (A(ThreadWaitQ (g_current s) := [], RunQ := rs)) s'
    \<and> threads s' (g_current s) = Some th' \<and> tstate th' = THREAD_EXITED \<and> exitcode th' = code
    \<and> refcount th' = refcount th - 1 \<and> termination_t (time (process th')) = g_numticks s"
proof -
  have e: "(wake_all (g_scheduler s) (prio s) (ThreadWaitQ (g_current s)) A)(RunQ := rs)
      = A(ThreadWaitQ (g_current s) := [], RunQ := rs)"
    by (simp add: wake_all_def)
  from thread_exit_attached [OF assms, of code] show ?thesis unfolding e by fastforce
qed

theorem exit_wakes_joiners_witness:
  "\<exists>s s' th'. g_current s = 4100 \<and> thread_exit 9 s = Some (Inr ((), s')) \<and> g_current s' = 4180
    \<and> threads s' 4100 = Some th' \<and> exitcode th' = 9"
proof -
  obtain s t0 t1 t2 where s: "sched_inv ((\<lambda>_. [])(RunQ := [4180, 4260])) s" "g_current s = 4100"
    "threads s = [4100 \<mapsto> t0, 4180 \<mapsto> t1, 4260 \<mapsto> t2]"
    by (rule booted_sched, rule that, assumption+)
  let ?s = "upd_thread 4100 (\<lambda>th. th\<lparr>refcount := 2\<rparr>) s"
  have "sched_inv ((\<lambda>_. [])(RunQ := [4180, 4260])) ?s" using s(1) by (subst sched_inv_upd_data) simp_all
  moreover have "threads ?s (g_current ?s) = Some (t0\<lparr>refcount := 2\<rparr>)" using s(2,3) by simp
  moreover have "refcount (t0\<lparr>refcount := 2\<rparr>) > 1" by simp
  moreover have "wake_all (g_scheduler ?s) (prio ?s) (ThreadWaitQ (g_current ?s)) ((\<lambda>_. [])(RunQ := [4180, 4260])) RunQ = 4180 # [4260]"
    by (simp add: wake_all_def)
  ultimately obtain s' th' where "thread_exit 9 ?s = Some (Inr ((), s'))" "g_current s' = 4180"
    "threads s' (g_current ?s) = Some th'" "exitcode th' = 9"
    using exit_wakes_joiners by blast
  moreover have "g_current ?s = 4100" using s(2) by simp
  ultimately show ?thesis by metis
qed

text \<open>C13.  Joining a child that has ended returns its exit code without waiting, drops the last
  reference and hands the child to the work queue, whose thread becomes ready: the child's count is zero
  afterwards and the rest of its record is as it was, and the caller goes on with its interrupt flag.\<close>

theorem join_returns_exitcode:
  assumes "sched_inv A s" and "wq_rep s xs" and "threads s c = Some th" and "refcount th = 1"
    and "parent th = g_current s" and "process_ptr th \<noteq> 0" and "tstate th = THREAD_EXITED"
    and "A WorkWaitQ = t # ts" and "mem_alloc sizeof_item s = Some (Inr (i, s\<lparr>heap := h\<rparr>))"
    and "i \<noteq> 0" and "i \<notin> fst ` set xs"
  shows "\<exists>s'. thread_join c s = Some (Inr (exitcode th, s')) \<and> g_current s' = g_current s \<and> int_flag s' = int_flag s
    \<and> wq_rep s' (xs @ [(i, c)])
    \<and> sched_inv (A(WorkWaitQ := ts, RunQ := sched_insert (g_scheduler s) (prio s) t (A RunQ))) s'
    \<and> (\<exists>th'. threads s' c = Some th' \<and> refcount th' = 0 \<and> core th' = core (th\<lparr>refcount := 0\<rparr>))"
  using thread_join_ended [OF assms] by blast

theorem join_returns_exitcode_witness:
  "\<exists>s s'. thread_join 4340 s = Some (Inr (7, s')) \<and> wq_rep s' [(8196, 4340)]
    \<and> (\<exists>th'. threads s' 4340 = Some th' \<and> refcount th' = 0)"
proof -
  let ?B = "(\<lambda>_. [])(WorkWaitQ := [4100], RunQ := [4260]) :: qid \<Rightarrow> nat list"
  obtain s1 where s1: "sched_inv ?B (s1\<lparr>int_flag := False\<rparr>)" "g_current s1 = 4180"
    using booted_waiting by metis
  let ?p = "put_thread 4340 (dead_thread 4180) (s1\<lparr>int_flag := False\<rparr>)"
  let ?s = "?p\<lparr>heap := mem_heap_init 8192 16384 empty_heap, s_workqueue_head := 0, s_workqueue_tail := 0\<rparr>"
  have "sched_inv ?B ?p"
    using s1 by (intro sched_inv_add_dead) (auto simp: on_no_list_def dead_thread_def)
  then have i: "sched_inv ?B ?s" by simp
  have rep: "wq_rep ?s []" by (simp add: wq_rep_def)
  have th: "threads ?s 4340 = Some (dead_thread 4180)" "g_current ?s = 4180" using s1(2) by (simp_all add: put_thread_def)
  have u: "used_to 8192 Map.empty ?s"
    using heap_inv_init [of 8192 16384] by (simp add: used_to_def brk_def mem_heap_init_def empty_heap_def)
  have r: "8192 + sz_t + sizeof_item \<le> h_end (heap ?s)" "sz_t \<le> sizeof_item" by (simp_all add: mem_heap_init_def)
  obtain h where h: "mem_alloc sizeof_item ?s = Some (Inr (8192 + sz_t, ?s\<lparr>heap := h\<rparr>))" using alloc_fresh [OF u r] by blast
  have d: "refcount (dead_thread 4180) = 1" "parent (dead_thread 4180) = g_current ?s" "process_ptr (dead_thread 4180) \<noteq> 0"
    "tstate (dead_thread 4180) = THREAD_EXITED" "exitcode (dead_thread 4180) = 7" using th(2) by (simp_all add: dead_thread_def)
  have w: "?B WorkWaitQ = 4100 # []" by simp
  have n: "8192 + sz_t \<noteq> 0" "8192 + sz_t \<notin> fst ` set []" by simp_all
  obtain s' where "thread_join 4340 ?s = Some (Inr (exitcode (dead_thread 4180), s'))" "wq_rep s' ([] @ [(8192 + sz_t, 4340)])"
    "\<exists>th'. threads s' 4340 = Some th' \<and> refcount th' = 0"
    using join_returns_exitcode [OF i rep th(1) d(1-2) d(3,4) w h n] by blast
  then show ?thesis using d(5) by auto
qed

text \<open>C14.  Destroying an ended thread gives back its process, its stack frame and its record: the two
  buffers are free, the frame is at the end of the free list, the record is gone, and the
  threads that waited for memory or for a frame are ready.\<close>

theorem destroy_releases_resources:
  assumes "sched_inv A s" and "mem_inv M s" and "frames_inv FA s" and "threads s t = Some th"
    and "tstate th = THREAD_EXITED" and "t \<noteq> g_current s" and "on_no_list t A"
    and "M (process_ptr th - sz_t) = Some k1" and "M (t - sz_t) = Some k2" and "sz_t \<le> process_ptr th" and "sz_t \<le> t"
    and "process_ptr th - sz_t \<noteq> t - sz_t" and "on_no_list (mem_pa_to_frame (stack th)) FA"
    and "f_refcount (frames s (mem_pa_to_frame (stack th))) = 0"
  shows "\<exists>s'. thread_destroy t s = Some s' \<and> threads s' t = None \<and> g_current s' = g_current s
    \<and> mem_inv (M(process_ptr th - sz_t := None, t - sz_t := None)) s'
    \<and> frames_inv (FA(FreeFrames := FA FreeFrames @ [mem_pa_to_frame (stack th)])) s'
    \<and> (\<exists>R. sched_inv (A(HeapWaitQ := [], FrameWaitQ := [], RunQ := R)) s'
         \<and> mset R = mset (A HeapWaitQ) + mset (A FrameWaitQ) + mset (A RunQ))"
  using thread_destroy_ok [OF assms] after_destroy_queues [of "g_scheduler s" "prio s" A] by fastforce

theorem destroy_releases_resources_witness:
  "\<exists>s s'. threads s 4340 = Some (dead_thread 4100) \<and> thread_destroy 4340 s = Some s' \<and> threads s' 4340 = None"
proof -
  obtain s M where s: "sched_inv ((\<lambda>_. [])(RunQ := [4180, 4260])) s" "mem_inv M s"
    "frames_inv ((\<lambda>_. [])(FreeFrames := [134..<160] @ [272..<2048])) s"
    "threads s 4340 = Some (dead_thread 4100)" "g_current s = 4100"
    "M 4336 = Some 48" "M 4388 = Some 24" "f_refcount (frames s 133) = 0"
    by (rule booted_dead, rule that, assumption+)
  have st: "mem_pa_to_frame (stack (dead_thread 4100)) = 133"
    by (simp add: dead_thread_def frame_pa_roundtrip PAGE_SIZE_def)
  have q: "tstate (dead_thread 4100) = THREAD_EXITED" "4340 \<noteq> g_current s" "on_no_list (4340 :: nat) ((\<lambda>_. [])(RunQ := [4180, 4260]))"
    "M (process_ptr (dead_thread 4100) - sz_t) = Some 24" "M (4340 - sz_t) = Some 48"
    "sz_t \<le> process_ptr (dead_thread 4100)" "sz_t \<le> 4340" "process_ptr (dead_thread 4100) - sz_t \<noteq> 4340 - sz_t"
    using s(5-7) by (simp_all add: dead_thread_def on_no_list_def)
  have f: "on_no_list (mem_pa_to_frame (stack (dead_thread 4100))) ((\<lambda>_. [])(FreeFrames := [134..<160] @ [272..<2048]))"
    "f_refcount (frames s (mem_pa_to_frame (stack (dead_thread 4100)))) = 0"
    unfolding st using s(8) by (auto simp: on_no_list_def simp del: upt_rec_numeral)
  from destroy_releases_resources [OF s(1-4) q f] s(4) show ?thesis by blast
qed

text \<open>C15.  Scheduling work while the worker is busy stops the kernel: \<open>workqueue_schedule_work\<close>
  wakes the worker with \<open>thread_wakeup_one\<close>, which asserts that a thread is waiting.\<close>

theorem schedule_work_busy_halts:
  assumes "sched_inv A s" and "wq_rep s xs" and "A WorkWaitQ = []"
    and "mem_alloc sizeof_item s = Some (Inr (i, s\<lparr>heap := h\<rparr>))" and "i \<noteq> 0" and "i \<notin> fst ` set xs"
  shows "workqueue_schedule_work Thread_destroy d s = None"
  using schedule_work_halts [OF assms] .

theorem schedule_work_busy_halts_witness:
  "\<exists>s. g_current s = 4100 \<and> workqueue_schedule_work Thread_destroy 4340 s = None"
proof -
  obtain s where s: "sched_inv ((\<lambda>_. [])(RunQ := [4180, 4260])) s" "g_current s = 4100"
    by (rule booted_sched, rule that, assumption+)
  let ?s = "s\<lparr>heap := mem_heap_init 8192 16384 empty_heap, s_workqueue_head := 0, s_workqueue_tail := 0\<rparr>"
  have i: "sched_inv ((\<lambda>_. [])(RunQ := [4180, 4260])) ?s" using s(1) by simp
  have rep: "wq_rep ?s []" by (simp add: wq_rep_def)
  have u: "used_to 8192 Map.empty ?s"
    using heap_inv_init [of 8192 16384] by (simp add: used_to_def brk_def mem_heap_init_def empty_heap_def)
  have r: "8192 + sz_t + sizeof_item \<le> h_end (heap ?s)" "sz_t \<le> sizeof_item" by (simp_all add: mem_heap_init_def)
  obtain h where h: "mem_alloc sizeof_item ?s = Some (Inr (8192 + sz_t, ?s\<lparr>heap := h\<rparr>))" using alloc_fresh [OF u r] by blast
  have "workqueue_schedule_work Thread_destroy 4340 ?s = None"
    by (rule schedule_work_busy_halts [OF i rep _ h]) simp_all
  moreover have "g_current ?s = 4100" using s(2) by simp
  ultimately show ?thesis by metis
qed

subsection \<open>Memory\<close>

text \<open>C16.  \<open>malloc\<close> on a well-formed heap either returns a block of at least the requested size that
  lies in the heap and overlaps no allocated block, or returns 0, and then neither a free block
  nor the untouched end of the heap is large enough; the heap stays well formed.\<close>

theorem malloc_fresh_block:
  assumes "heap_inv h F A"
  shows "\<exists>p h' F' A'. malloc len h = Some (p, h') \<and> heap_inv h' F' A'
    \<and> (p = 0 \<longrightarrow> A' = A \<and> (\<forall>c \<in> set F. snd c < len \<or> snd c < sz_t) \<and> h_end h < brk h + sz_t + chunk_len len)
    \<and> (p \<noteq> 0 \<longrightarrow> h_start h' \<le> p \<and> p + len \<le> h_end h' \<and> A (p - sz_t) = None \<and> (\<exists>n \<ge> len. A' = A(p - sz_t \<mapsto> n))
         \<and> (\<forall>a n. A a = Some n \<longrightarrow> {a + sz_t ..< a + sz_t + n} \<inter> {p ..< p + len} = {}))"
  using malloc_block [OF assms] .

theorem malloc_fresh_block_witness:
  "\<exists>p h' F' A'. malloc 100 (mem_heap_init 4096 8192 empty_heap) = Some (p, h') \<and> heap_inv h' F' A'"
  using malloc_fresh_block [OF heap_inv_init [of 4096 8192], of 100] by fastforce

text \<open>C17.  Freeing an allocated block succeeds and keeps the heap well formed, whatever its
  neighbours are; when the last block is freed, all free memory has been merged into one block
  that covers everything between the start of the heap and its break.\<close>

theorem free_coalesces:
  assumes "heap_inv h F A" and "A a = Some n"
  shows "\<exists>h' F'. free (a + sz_t) h = Some h' \<and> heap_inv h' F' (A(a := None))
    \<and> (A(a := None) = Map.empty \<longrightarrow> h_start h' < brk h' \<longrightarrow> F' = [(h_start h', brk h' - h_start h' - sz_t)])"
  using free_ok [OF assms] all_freed_coalesces by metis

theorem free_coalesces_witness:
  "\<exists>h h'. malloc 100 (mem_heap_init 4096 8192 empty_heap) = Some (4100, h) \<and> free 4100 h = Some h'"
proof -
  have i: "heap_inv (mem_heap_init 4096 8192 empty_heap) [] Map.empty" by (rule heap_inv_init) simp_all
  have b: "brk (mem_heap_init 4096 8192 empty_heap) = 4096" "h_end (mem_heap_init 4096 8192 empty_heap) = 8192"
    by (simp_all add: brk_def mem_heap_init_def empty_heap_def)
  have r: "4096 + sz_t + 100 \<le> h_end (mem_heap_init 4096 8192 empty_heap)" "sz_t \<le> 100" by (simp_all add: b)
  note m = malloc_fresh [OF i, unfolded b(1), OF r]
  from free_coalesces [OF m(3), of 4096 100] m(1) show ?thesis by auto
qed

text \<open>Rounding an address to its page rounds up to a multiple of 4096, and frame numbers and
  frame addresses convert back and forth, for every frame of a 4 GB address space.\<close>

theorem page_rounding:
  assumes "unat addr \<le> 2 ^ 32 - 4096" and "f < 2 ^ 20"
  shows "unat (mem_round_to_page addr) = 4096 * ((unat addr + 4095) div 4096)
    \<and> mem_pa_to_frame (mem_frame_to_pa f) = f"
  using mem_round_to_page_ceil [OF assms(1)] frame_pa_roundtrip [of f] assms(2) by (simp add: PAGE_SIZE_def)

theorem page_rounding_witness:
  "unat (mem_round_to_page 4097) = 8192 \<and> mem_pa_to_frame (mem_frame_to_pa 3) = 3"
  using page_rounding [of 4097 3] by simp

subsection \<open>Queues\<close>

text \<open>The work queue is first in, first out: items appended to an empty queue are taken in the
  order in which they were scheduled, and then it is empty.\<close>

theorem work_queue_fifo:
  assumes "wq_rep s []" and "distinct (map fst xs)" and "0 \<notin> fst ` set xs"
  shows "\<exists>s' s''. enq_list wq_push xs s = Some s' \<and> deq_many wq_pop (length xs) s' = Some (xs, s'')
    \<and> s_workqueue_head s'' = 0"
proof -
  have ok: "fst x \<noteq> 0 \<and> fst x \<notin> fst ` set us" if "xs = us @ x # vs" for us x vs
    using assms(2,3) that by force
  have "\<exists>s' s''. enq_list wq_push xs s = Some s' \<and> deq_many wq_pop (length xs) s' = Some (xs, s'')
    \<and> wq_rep s'' [] \<and> s_workqueue_head s'' = 0"
    by (rule work.fifo_order [OF assms(1)]) (rule ok)
  then show ?thesis by blast
qed

theorem work_queue_fifo_witness:
  "\<exists>s' s''. enq_list wq_push [(16, 1), (32, 2)] mem_clear_bss = Some s' \<and> deq_many wq_pop 2 s' = Some ([(16, 1), (32, 2)], s'')"
proof -
  have "wq_rep mem_clear_bss []" by (simp add: wq_rep_def mem_clear_bss_def)
  from work_queue_fifo [OF this, of "[(16, 1), (32, 2)]"] show ?thesis by (auto simp: eval_nat_numeral)
qed

text \<open>The keyboard queue delivers up to 255 key codes in the order in which they were typed,
  wherever the ring stands, and an overflowing one drops the new code and keeps the others.\<close>

theorem key_queue_fifo:
  assumes "ring_rep r []" and "length xs \<le> 255"
  shows "\<exists>r' r''. enq_list (\<lambda>x r. Some (enqueue x r)) xs r = Some r' \<and> deq_many dequeue (length xs) r' = Some (xs, r'')
    \<and> is_queue_empty r'' \<and> (length xs = 255 \<longrightarrow> enqueue k r' = r')"
  using key_fifo [OF assms] .

theorem key_queue_fifo_witness:
  "\<exists>r' r''. enq_list (\<lambda>x r. Some (enqueue x r)) [65, 66] empty_ring = Some r' \<and> deq_many dequeue 2 r' = Some ([65, 66], r'')"
  using key_queue_fifo [OF ring_rep_empty, of "[65, 66]"] by (auto simp: eval_nat_numeral)

subsection \<open>Small components\<close>

text \<open>\<open>lba_get_num_blocks_in_table\<close> is the number of blocks that the table fills, rounded up,
  unless the size of the table in bytes wraps around.\<close>

theorem table_blocks_ceil:
  assumes "bs_size bs \<noteq> 0" and "unat n * unat e < 2 ^ 32"
  shows "\<exists>b. lba_get_num_blocks_in_table bs n e = Some b
    \<and> unat b = (unat n * unat e + unat (bs_size bs) - 1) div unat (bs_size bs)"
  using num_blocks_in_table_ceil [OF assms] .

theorem table_blocks_ceil_witness:
  "\<exists>b. lba_get_num_blocks_in_table \<lparr>bs_size = 512\<rparr> 200 4 = Some b \<and> unat b = 2"
  using table_blocks_ceil [of "\<lparr>bs_size = 512\<rparr>" 200 4] by simp

text \<open>A table of \<open>2 ^ 30\<close> entries of 4 bytes is said to need no blocks at all.\<close>

theorem table_blocks_wrap: "lba_get_num_blocks_in_table \<lparr>bs_size = 512\<rparr> (2 ^ 30) 4 = Some 0"
  by (simp add: lba_get_num_blocks_in_table_def)

text \<open>A range is valid exactly when it ends inside the whole, also where the sum would wrap, and
  a number is a power of two exactly when it has one bit set.\<close>

theorem range_checks:
  "(range_is_valid_u32 start num n \<longleftrightarrow> unat start + unat num \<le> unat n)
   \<and> (range_is_power_of_two v \<longleftrightarrow> (\<exists>k < 32. v = 2 ^ k))"
  using range_valid_iff power_of_two_iff by blast

text \<open>The statistics of a run exist exactly when the four time stamps are nonzero, and the average
  waiting time of a nonempty list is the truncated mean when the sum does not wrap; a run with
  no jobs divides by zero.\<close>

theorem statistics:
  "((\<exists>st. calculate_simulation_stat t p = Some st) \<longleftrightarrow>
     termination_t t \<noteq> 0 \<and> arrival t \<noteq> 0 \<and> running t \<noteq> 0 \<and> first_resp t \<noteq> 0)
   \<and> (sum_list (map (unat \<circ> st_wait) sts) < 2 ^ 32 \<longrightarrow> 0 < length sts \<longrightarrow> length sts < 2 ^ 32 \<longrightarrow>
        (\<exists>a. calculate_simulation_stat_average sts = Some a
          \<and> unat (st_wait a) = sum_list (map (unat \<circ> st_wait) sts) div length sts))
   \<and> calculate_simulation_stat_average [] = None"
  using simulation_stat_defined_iff average_wait [of sts] average_nothing by blast

theorem statistics_witness:
  "\<exists>a. calculate_simulation_stat_average
      [\<lparr>st_pid = 3, st_wait = 4, st_response = 1, st_turnaround = 9\<rparr>,
       \<lparr>st_pid = 4, st_wait = 7, st_response = 2, st_turnaround = 12\<rparr>] = Some a \<and> unat (st_wait a) = 5"
  using statistics [of undefined undefined
      "[\<lparr>st_pid = 3, st_wait = 4, st_response = 1, st_turnaround = 9\<rparr>,
       \<lparr>st_pid = 4, st_wait = 7, st_response = 2, st_turnaround = 12\<rparr>]"]
  by (auto simp: numeral_2_eq_2 [symmetric])

subsection \<open>Concurrency without the kernel: Peterson's algorithm\<close>

text \<open>C25.  In every interleaving of the memory accesses of two threads that call \<open>peterson\<close> again and
  again, at most one of them is in its critical section, and the flag of a thread tells whether it
  competes.\<close>

theorem peterson_exclusion:
  "let (pc, p, w) = play cs rs sched n (players_start w) in
     \<not> (inside (pc P_I) \<and> inside (pc P_J)) \<and> (\<forall>i. flag p i \<longleftrightarrow> holds_flag (pc i))"
proof -
  obtain pc p w' where e: "play cs rs sched n (players_start w) = (pc, p, w')" by (metis prod.exhaust)
  have "players_inv (pc, p, w')" unfolding e [symmetric] by (rule players_inv_play [OF players_inv_start])
  moreover have "other P_I = P_J" by (simp add: other_def)
  ultimately show ?thesis by (auto simp: e players_inv_def)
qed

text \<open>C26.  Nobody starves: when both threads are scheduled again and again, a thread that has called
  \<open>peterson\<close> leaves the loop and reaches its critical section, however often the other one
  calls it too.\<close>

theorem peterson_no_starvation:
  assumes fair: "\<And>i k. \<exists>m \<ge> k. fst (sched m) = i"
    and "fst (play cs rs sched n (players_start w)) i \<in> {Set_flag, Set_turn, Test_flag, Test_turn}"
  shows "\<exists>m \<ge> n. fst (play cs rs sched m (players_start w)) i = Critical"
  by (rule enters [OF fair players_inv_start assms(2)])

theorem peterson_no_starvation_witness:
  "\<exists>m \<ge> 1. fst (play (\<lambda>n. n + 1) id (\<lambda>k. (if even k then P_I else P_J, True)) m (players_start (0 :: nat))) P_I = Critical"
proof (rule peterson_no_starvation)
  fix i and k :: nat
  show "\<exists>m \<ge> k. fst ((\<lambda>k. (if even k then P_I else P_J, True)) m) = i"
    by (cases i) (auto intro: exI [of _ "2 * k"] exI [of _ "2 * k + 1"])
  show "fst (play (\<lambda>n. n + 1) id (\<lambda>k. (if even k then P_I else P_J, True)) 1 (players_start (0 :: nat))) P_I
      \<in> {Set_flag, Set_turn, Test_flag, Test_turn}"
    by (simp add: players_start_def player_step_def)
qed

subsection \<open>Interrupts\<close>





text \<open>C29.  After initialisation and any sequence of requests to enable and disable interrupt lines,
  the mask registers of the two controllers agree with the mask that the kernel keeps, and a line
  is masked exactly when the last request for it was to disable it, or there was none and it is
  not the line of the second controller.\<close>

theorem irq_masks_agree:
  assumes "\<forall>(irq, on) \<in> set rs. VALID_IRQ irq"
  shows "\<exists>s'. irq_requests rs (k, irq_init s) = Some (k, s') \<and> irq_get_mask s' = s_irqmask s'
    \<and> (\<forall>n < 16. line_masked s' n \<longleftrightarrow> bit (s_irqmask s') n)
    \<and> (\<forall>n < 16. line_masked s' n \<longleftrightarrow> (case map_of (rev rs) (int n) of Some on \<Rightarrow> \<not> on | None \<Rightarrow> n \<noteq> 2))"
proof -
  obtain s' where s': "irq_requests rs (k, irq_init s) = Some (k, s')" "irq_inv s'"
    "\<forall>n < 16. bit (s_irqmask s') n \<longleftrightarrow>
         (case map_of (rev rs) (int n) of Some on \<Rightarrow> \<not> on | None \<Rightarrow> bit (s_irqmask (irq_init s)) n)"
    using irq_requests_ok [OF irq_init_inv assms] by blast
  with line_masked_iff [OF s'(2)] irq_init_mask show ?thesis
    by (intro exI [of _ s']) (auto simp: irq_get_mask_def split: option.splits)
qed

theorem irq_masks_agree_witness:
  "\<exists>s'. irq_requests [(0, True), (1, True), (0, False)] (mem_clear_bss, irq_init \<lparr>s_irqmask = 0, port_out = []\<rparr>) = Some (mem_clear_bss, s')
    \<and> line_masked s' 0 \<and> \<not> line_masked s' 1 \<and> \<not> line_masked s' 2 \<and> line_masked s' 14"
proof -
  have "\<forall>(irq, on) \<in> set [(0, True), (1, True), (0, False)]. VALID_IRQ irq" by (simp add: VALID_IRQ_def NUM_IRQS_def)
  from irq_masks_agree [OF this, of mem_clear_bss "\<lparr>s_irqmask = 0, port_out = []\<rparr>"] obtain s' where
    s': "irq_requests [(0, True), (1, True), (0, False)] (mem_clear_bss, irq_init \<lparr>s_irqmask = 0, port_out = []\<rparr>) = Some (mem_clear_bss, s')"
    and m: "\<forall>n < 16. line_masked s' n \<longleftrightarrow>
      (case map_of (rev [(0, True), (1, True), (0, False)]) (int n) of Some on \<Rightarrow> \<not> on | None \<Rightarrow> n \<noteq> 2)" by blast
  show ?thesis using s' m [rule_format, of 0] m [rule_format, of 1] m [rule_format, of 2] m [rule_format, of 14]
    by (intro exI [of _ s']) simp
qed

subsection \<open>Strings\<close>

text \<open>C30.  The functions of \<open>string.c\<close> on byte lists.  On terminated strings \<open>strlen\<close> and \<open>strnlen\<close> give the length, the
  latter cut at the limit; \<open>strcmp\<close> and \<open>strncmp\<close> compare in the order of \<^emph>\<open>signed\<close> bytes (the C standard compares them
  unsigned), the latter the two strings cut at the limit; \<open>strncpy\<close> copies the source cut at the limit, terminates the
  copy only when the source is shorter than the limit, and writes nothing else (the C standard fills the rest with
  zeroes).  \<open>memcpy\<close> copies exactly its \<open>k\<close> bytes when the target does not overlap the source from above, and \<open>memset\<close> stores
  the low byte of its argument in exactly \<open>k\<close> bytes.\<close>

theorem string_functions:
  assumes "cstring m a xs" and "cstring m b ys"
  shows "strlen m a = Some (length xs) \<and> strnlen m a n = min n (length xs)
    \<and> strcmp m a b = Some (lex_cmp xs ys) \<and> strncmp m a b n = lex_cmp (take n xs) (take n ys)
    \<and> (strncmp m a b n = 0 \<longleftrightarrow> take n xs = take n ys)
    \<and> (d + n \<le> a \<or> a + length xs < d \<longrightarrow> bytes_at (strncpy d a n m) d (take n xs)
         \<and> (length xs < n \<longrightarrow> cstring (strncpy d a n m) d xs)
         \<and> (\<forall>x. x < d \<or> d + min n (length xs + 1) \<le> x \<longrightarrow> strncpy d a n m x = m x))
    \<and> (d \<le> s \<or> s + k \<le> d \<longrightarrow> memcpy d s k m = (\<lambda>x. if d \<le> x \<and> x < d + k then m (s + (x - d)) else m x))
    \<and> memset d c k m = (\<lambda>x. if d \<le> x \<and> x < d + k then word_of_int c else m x)"
proof -
  have mc: "d \<le> s \<or> s + k \<le> d \<longrightarrow> memcpy d s k m = (\<lambda>x. if d \<le> x \<and> x < d + k then m (s + (x - d)) else m x)"
    using memcpy_at [of d s k m] by blast
  have ms: "memset d c k m = (\<lambda>x. if d \<le> x \<and> x < d + k then word_of_int c else m x)" by (simp add: fun_eq_iff memset_at)
  have sc: "d + n \<le> a \<or> a + length xs < d \<longrightarrow> (\<forall>x. x < d \<or> d + min n (length xs + 1) \<le> x \<longrightarrow> strncpy d a n m x = m x)"
    using strncpy_writes [OF assms(1)] by blast
  show ?thesis
    using strlen_cstring [OF assms(1)] strnlen_cstring [OF assms(1)] strcmp_cstring [OF assms] strncmp_cstring [OF assms]
      strncmp_eq [OF assms] strncpy_copies [OF assms(1)] mc ms sc by blast
qed

theorem string_functions_witness:
  "let m = (\<lambda>_. 0)(10 := 97, 11 := 98, 20 := 97, 21 := 200) in
     strlen m 10 = Some 2 \<and> strcmp m 10 20 = Some 154 \<and> strncmp m 10 20 1 = 0 \<and> cstring (strncpy 30 10 8 m) 30 [97, 98]
     \<and> memcpy 40 10 2 m 41 = 98 \<and> memset 50 255 4 m 53 = 255 \<and> strncpy 30 10 8 (memset 30 7 8 m) 33 = 7"
proof -
  let ?m = "(\<lambda>_. 0)(10 := 97, 11 := 98, 20 := 97, 21 := 200) :: byte_mem"
  have c: "cstring ?m 10 [97, 98]" "cstring ?m 20 [97, 200]" by simp_all
  note s = string_functions [OF c]
  have e: "memset 30 7 8 ?m = (\<lambda>x. if 30 \<le> x \<and> x < 30 + 8 then word_of_int 7 else ?m x)"
    using s [where n = 1 and d = 30 and s = 0 and k = 8 and c = 7] by blast
  have c2: "cstring (memset 30 7 8 ?m) 10 [97, 98]" "cstring (memset 30 7 8 ?m) 20 [97, 200]" unfolding e by simp_all
  have "strncpy 30 10 8 (memset 30 7 8 ?m) 33 = memset 30 7 8 ?m 33"
    using string_functions [OF c2, where n = 8 and d = 30 and s = 0 and k = 0 and c = 0] by simp
  then have p: "strncpy 30 10 8 (memset 30 7 8 ?m) 33 = 7" unfolding e by simp
  have ov: "(40 :: nat) \<le> 10 \<or> (10 :: nat) + 2 \<le> 40" by simp
  have f: "memcpy 40 10 2 ?m = (\<lambda>x. if 40 \<le> x \<and> x < 40 + 2 then ?m (10 + (x - 40)) else ?m x)"
    using s [where n = 1 and d = 40 and s = 10 and k = 2 and c = 0] ov by blast
  have g: "memset 50 255 4 ?m = (\<lambda>x. if 50 \<le> x \<and> x < 50 + 4 then word_of_int 255 else ?m x)"
    using s [where n = 1 and d = 50 and s = 0 and k = 4 and c = 255] by blast
  have "memcpy 40 10 2 ?m 41 = 98" "memset 50 255 4 ?m 53 = 255" unfolding f g by simp_all
  moreover have "strlen ?m 10 = Some (length [97 :: 8 word, 98])" "strcmp ?m 10 20 = Some (lex_cmp [97, 98] [97, 200])"
    "strncmp ?m 10 20 1 = lex_cmp (take 1 [97, 98]) (take 1 [97, 200])"
    using s [where n = 1 and d = 0 and s = 0 and k = 0 and c = 0] by blast+
  moreover have "lex_cmp [97, 98] [97, 200] = 154" "lex_cmp (take 1 [97, 98]) (take 1 [97, 200]) = 0" by simp_all
  moreover have "length [97 :: 8 word, 98] = 2" by simp
  moreover have "cstring (strncpy 30 10 8 ?m) 30 [97, 98]"
  proof -
    have "(30 :: nat) + 8 \<le> 10 \<or> 10 + length [97 :: 8 word, 98] < 30" "length [97 :: 8 word, 98] < 8" by simp_all
    then show ?thesis using s [where n = 8 and d = 30 and s = 0 and k = 0 and c = 0] by blast
  qed
  ultimately show ?thesis using p by (simp only: Let_def simp_thms)
qed

subsection \<open>Block devices\<close>

text \<open>A kernel after boot whose mutexes are all free, in which an allocation succeeds.\<close>

lemma booted_unused:
  assumes "sz_t \<le> n" and "n \<le> 1000"
  obtains s M h where "sched_inv ((\<lambda>_. [])(RunQ := [4180, 4260])) s" "\<And>m. unused m s" "g_current s = 4100" "mem_inv M s"
    "lists_rep (flists s) ((\<lambda>_. [])(FreeFrames := [133..<160] @ [272..<2048]))"
    "malloc n (heap s) = Some (4340, h)" "mem_alloc n s = Some (Inr (4340, s\<lparr>heap := h\<rparr>))"
proof -
  obtain s M where s: "kernel_inv ((\<lambda>_. [])(RunQ := [4180, 4260])) M ((\<lambda>_. [])(FreeFrames := [133..<160] @ [272..<2048])) s"
    "used_to 4336 M s" "h_end (heap s) = 528384" "g_current s = 4100" "int_flag s"
    by (rule booted_sched, rule that, assumption+)
  let ?s = "s\<lparr>mutexes := \<lambda>_. \<lparr>m_state = MUTEX_UNLOCKED, m_owner = 0\<rparr>\<rparr>"
  have i: "sched_inv ((\<lambda>_. [])(RunQ := [4180, 4260])) ?s"
    using kernel_invD(1) [OF s(1)] by (simp add: sched_inv_def queues_inv_def no_thread_lost_def queued_ok_def)
  have l: "lists_rep (tqs ?s) ((\<lambda>_. [])(RunQ := [4180, 4260]))"
    using sched_invD(1) [OF i] by (simp add: queues_inv_def)
  have un: "unused m ?s" for m
    unfolding unused_def quiet_def using l s(5) by (intro conjI exI [of _ "(\<lambda>_. [])(RunQ := [4180, 4260])"]) simp_all
  have b: "brk (heap s) = 4336" "heap_inv (heap s) [] M" using s(2) by (simp_all add: used_to_def)
  have "brk (heap s) + sz_t + n \<le> h_end (heap s)" using s(3) assms b(1) by simp
  note h = malloc_fresh(1) [OF b(2) this assms(1), unfolded b(1)]
  have h': "malloc n (heap ?s) = Some (4340, heap s\<lparr>h_brkval := 4336 + sz_t + n, h_sz := (h_sz (heap s))(4336 := n)\<rparr>)"
    using h by simp
  have m: "mem_inv M ?s" using kernel_invD(2) [OF s(1)] by (simp add: mem_inv_def)
  have f: "lists_rep (flists ?s) ((\<lambda>_. [])(FreeFrames := [133..<160] @ [272..<2048]))"
    using kernel_invD(3) [OF s(1)] by (simp add: frames_inv_def del: upt_rec_numeral)
  have c: "g_current ?s = 4100" using s(4) by simp
  have a: "(4340 :: nat) \<noteq> 0" by simp
  show ?thesis by (rule that [OF i un c m f h' mem_alloc_some [OF h' a]])
qed

text \<open>C31.  What is written to blocks of the RAM disk is read back: when the worker thread handles a
  write request and then a read request for the same blocks, both finish with code 0 and the
  buffer of the second one holds the bytes of the first one.\<close>

theorem ramdisk_roundtrip:
  assumes "sched_inv A k" and w: "reqs d w = Some rw" and r: "reqs d r = Some rr" "w \<noteq> r"
    and dev: "devs d (req_dev rw) = Some b" "req_dev rr = req_dev rw" "ramdisks d (dev_data b) = Some rd"
    and ty: "req_type rw = BLOCKDEV_REQ_WRITE" "req_type rr = BLOCKDEV_REQ_READ"
    and same: "req_lba rr = req_lba rw" "num_blocks rr = num_blocks rw" and ok: "disk_range_ok rd rw"
    and bw: "req_buf rw + disk_len rw \<le> rd_buf rd \<or> rd_buf rd + unat (rd_size rd) \<le> req_buf rw"
    and br: "req_buf rr + disk_len rw \<le> rd_buf rd \<or> rd_buf rd + unat (rd_size rd) \<le> req_buf rr"
    and xs: "bytes_at (bytes d) (req_buf rw) xs" "length xs = disk_len rw"
  shows "\<exists>k1 d1 k2 d2 q1 q2. ramdisk_handle_request w (k, d) = Some (k1, d1) \<and> ramdisk_handle_request r (k1, d1) = Some (k2, d2)
    \<and> bytes_at (bytes d2) (req_buf rr) xs \<and> reqs d1 w = Some q1 \<and> req_state q1 = BLOCKDEV_REQ_FINISHED \<and> req_rc q1 = 0
    \<and> reqs d2 r = Some q2 \<and> req_state q2 = BLOCKDEV_REQ_FINISHED \<and> req_rc q2 = 0"
proof -
  let ?d1 = "upd_req w (\<lambda>r. r\<lparr>req_state := BLOCKDEV_REQ_FINISHED, req_rc := 0\<rparr>) (d\<lparr>bytes := moved rd rw (bytes d)\<rparr>)"
  obtain k1 where k1: "ramdisk_handle_request w (k, d) = Some (k1, ?d1)" "sched_inv (wake_all (g_scheduler k) (prio k) (ReqWaitQ w) A) k1"
    using handle_request_ok [OF assms(1) w dev(1,3)] ok w by (auto simp: upd_req_def)
  have ok2: "disk_range_ok rd rr" using ok same by (simp add: disk_range_ok_def)
  have "reqs ?d1 r = Some rr" "devs ?d1 (req_dev rr) = Some b" "ramdisks ?d1 (dev_data b) = Some rd"
    using r dev by simp_all
  from handle_request_ok [OF k1(2) this] ok2 this(1) obtain k2 where
    k2: "ramdisk_handle_request r (k1, ?d1) = Some (k2, upd_req r (\<lambda>r. r\<lparr>req_state := BLOCKDEV_REQ_FINISHED, req_rc := 0\<rparr>)
        (?d1\<lparr>bytes := moved rd rr (bytes ?d1)\<rparr>))" by (auto simp: upd_req_def)
  have "bytes_at (moved rd rr (moved rd rw (bytes d))) (req_buf rr) xs"
    by (rule moved_roundtrip [OF ty same ok bw br xs])
  then show ?thesis using k1(1) k2 w r by (simp add: upd_req_def)
qed

theorem ramdisk_roundtrip_witness:
  "\<exists>k k1 d1 k2 d2. let b = (\<lambda>a. of_nat a) :: byte_mem;
       q = \<lparr>req_lba = \<lparr>lba_val = 3\<rparr>, num_blocks = 1, req_buf = 0x1000, req_type = BLOCKDEV_REQ_WRITE,
              req_state = BLOCKDEV_REQ_PENDING, req_rc = 0, req_dev = 8\<rparr>;
       d = \<lparr>reqs = [100 \<mapsto> q, 200 \<mapsto> q\<lparr>req_type := BLOCKDEV_REQ_READ, req_buf := 0x2000\<rparr>],
             devs = [8 \<mapsto> \<lparr>dev_ops = S_ramdisk_blockdev_ops, dev_data = 16\<rparr>], ramdisks = [16 \<mapsto> \<lparr>rd_buf = 0x8000, rd_size = 4096\<rparr>],
             blkdev_pagers = Map.empty, pagers = Map.empty, pgcaches = Map.empty, bytes = b\<rparr>
     in ramdisk_handle_request 100 (k, d) = Some (k1, d1) \<and> ramdisk_handle_request 200 (k1, d1) = Some (k2, d2)
        \<and> bytes d2 0x2001 = 1"
proof -
  obtain k where k: "sched_inv ((\<lambda>_. [])(RunQ := [4180, 4260])) k" by (rule booted_sched, rule that, assumption+)
  let ?b = "(\<lambda>a. of_nat a) :: byte_mem"
  let ?q = "\<lparr>req_lba = \<lparr>lba_val = 3\<rparr>, num_blocks = 1, req_buf = 0x1000, req_type = BLOCKDEV_REQ_WRITE,
              req_state = BLOCKDEV_REQ_PENDING, req_rc = 0, req_dev = 8\<rparr>"
  let ?d = "\<lparr>reqs = [100 \<mapsto> ?q, 200 \<mapsto> ?q\<lparr>req_type := BLOCKDEV_REQ_READ, req_buf := 0x2000\<rparr>],
             devs = [8 \<mapsto> \<lparr>dev_ops = S_ramdisk_blockdev_ops, dev_data = 16\<rparr>], ramdisks = [16 \<mapsto> \<lparr>rd_buf = 0x8000, rd_size = 4096\<rparr>],
             blkdev_pagers = Map.empty, pagers = Map.empty, pgcaches = Map.empty, bytes = ?b\<rparr>"
  let ?xs = "map (\<lambda>i. of_nat (0x1000 + i)) [0..<512] :: u8 list"
  have "bytes_at (bytes ?d) (req_buf ?q) ?xs" "length ?xs = disk_len ?q" by (simp_all add: bytes_at_def disk_len_def del: upt_rec_numeral)
  note x = this
  let ?r = "?q\<lparr>req_type := BLOCKDEV_REQ_READ, req_buf := 0x2000\<rparr>" and ?rd = "\<lparr>rd_buf = 0x8000, rd_size = 4096\<rparr> :: ramdisk_data"
  have q: "reqs ?d 100 = Some ?q" "reqs ?d 200 = Some ?r" "(100 :: nat) \<noteq> 200"
    "devs ?d (req_dev ?q) = Some \<lparr>dev_ops = S_ramdisk_blockdev_ops, dev_data = 16\<rparr>" "req_dev ?r = req_dev ?q"
    "ramdisks ?d (dev_data \<lparr>dev_ops = S_ramdisk_blockdev_ops, dev_data = 16\<rparr>) = Some ?rd"
    "req_type ?q = BLOCKDEV_REQ_WRITE" "req_type ?r = BLOCKDEV_REQ_READ" "req_lba ?r = req_lba ?q" "num_blocks ?r = num_blocks ?q"
    by simp_all
  have "disk_range_ok ?rd ?q" "req_buf ?q + disk_len ?q \<le> rd_buf ?rd \<or> rd_buf ?rd + unat (rd_size ?rd) \<le> req_buf ?q"
    "req_buf ?r + disk_len ?q \<le> rd_buf ?rd \<or> rd_buf ?rd + unat (rd_size ?rd) \<le> req_buf ?r"
    by (simp_all add: disk_range_ok_def disk_len_def)
  from ramdisk_roundtrip [OF k q this x]
  obtain k1 d1 k2 d2 where 1: "ramdisk_handle_request 100 (k, ?d) = Some (k1, d1)" "ramdisk_handle_request 200 (k1, d1) = Some (k2, d2)"
    and 2: "bytes_at (bytes d2) 0x2000 ?xs" by auto
  have "1 < length ?xs" by simp
  with 2 have "bytes d2 (0x2000 + 1) = ?xs ! 1" unfolding bytes_at_def by blast
  also have "\<dots> = of_nat (0x1000 + ([0..<512] ! 1))" by (rule nth_map) simp
  also have "\<dots> = 1" by simp
  finally have "bytes d2 0x2001 = 1" by simp
  with 1 show ?thesis unfolding Let_def by blast
qed

text \<open>C32.  No synchronous transfer returns: \<open>blockdev_issue_sync\<close> waits for the request to complete,
  and when the thread goes on after the worker has handled the request, whatever its result, the wait returns
  the return code, 0 or an error, which is asserted to be the value of \<open>BLOCKDEV_REQ_FINISHED\<close> before anything else
  happens: the assertion fails and the kernel halts, with the request not yet freed.\<close>

theorem sync_io_halts:
  assumes "ramdisk_handle_request req (k, d) = Some (k', d')" and "\<not> int_flag k''"
  shows "blockdev_issue_sync dev l n buf ty s \<noteq> Some (Inr res) \<and> blockdev_issue_sync_resume iflag req (k'', d') = None
    \<and> (\<exists>rc k1. blockdev_wait_loop iflag req (k'', d') = Some (Inr (rc, k1, d')) \<and> rc \<in> {0, EINVAL}
         \<and> rc \<noteq> state_num BLOCKDEV_REQ_FINISHED) \<and> reqs d' req \<noteq> None"
proof -
  obtain r where r: "reqs d' req = Some r" "req_state r = BLOCKDEV_REQ_FINISHED" "req_rc r \<in> {0, EINVAL}"
    using handled_rc [OF assms(1)] by blast
  have "\<exists>k1. blockdev_wait_loop iflag req (k'', d') = Some (Inr (req_rc r, k1, d'))"
    using r assms(2) by (simp add: blockdev_wait_loop_def give_def)
  moreover have "req_rc r \<noteq> state_num BLOCKDEV_REQ_FINISHED" using r(3) by (auto simp: EINVAL_def)
  moreover have "blockdev_issue_sync_resume iflag req (k'', d') = None"
    using r assms(2) by (auto intro: issue_resume_halts)
  ultimately show ?thesis using r issue_sync_never_returns by blast
qed

theorem sync_io_halts_witness:
  "\<exists>(k :: kernel) d' req. reqs d' req \<noteq> None \<and> blockdev_issue_sync_resume True req (k, d') = None"
proof -
  obtain k where k: "sched_inv ((\<lambda>_. [])(RunQ := [4180, 4260])) k" by (rule booted_sched, rule that, assumption+)
  let ?q = "\<lparr>req_lba = \<lparr>lba_val = 3\<rparr>, num_blocks = 1, req_buf = 0x1000, req_type = BLOCKDEV_REQ_READ,
              req_state = BLOCKDEV_REQ_PENDING, req_rc = 0, req_dev = 8\<rparr>"
  let ?d = "\<lparr>reqs = [100 \<mapsto> ?q], devs = [8 \<mapsto> \<lparr>dev_ops = S_ramdisk_blockdev_ops, dev_data = 16\<rparr>],
             ramdisks = [16 \<mapsto> \<lparr>rd_buf = 0x8000, rd_size = 4096\<rparr>],
             blkdev_pagers = Map.empty, pagers = Map.empty, pgcaches = Map.empty, bytes = \<lambda>_. 0\<rparr>"
  have "reqs ?d 100 = Some ?q" "devs ?d (req_dev ?q) = Some \<lparr>dev_ops = S_ramdisk_blockdev_ops, dev_data = 16\<rparr>"
    "ramdisks ?d (dev_data \<lparr>dev_ops = S_ramdisk_blockdev_ops, dev_data = 16\<rparr>) = Some \<lparr>rd_buf = 0x8000, rd_size = 4096\<rparr>"
    by simp_all
  from handle_request_ok [OF k this] obtain k' d' where h: "ramdisk_handle_request 100 (k, ?d) = Some (k', d')" by blast
  have "\<not> int_flag (k\<lparr>int_flag := False\<rparr>)" by simp
  from sync_io_halts [OF h this] show ?thesis by blast
qed

text \<open>C34.  A page cache hands out wrong pages: a page that is read into a new frame is never given its
  number, so that a thread which then locks the page whose number the frame happens to have gets
  the frame of the first page, and a return code that was never assigned.\<close>

theorem page_cache_wrong_page:
  assumes "quiet obj k" and "m_state (mutexes k obj) = MUTEX_UNLOCKED" and "lists_rep (flists k) FA"
    and "FA (PgCacheFrames obj) = []" and "FA FreeFrames = f # fs" and "pgcaches d obj = Some pc"
    and "\<And>k'. read_page (pc_pager pc) (mem_frame_to_pa f) p (k', d) = give 0 (k', d')"
    and "vm_pgcache_page_num (frames k f) = p'" and "p' \<noteq> p"
  shows "\<exists>k1 k2. vm_lock_page read_page junk obj p (k, d) = Some (Inr ((0, Some f), k1, d'))
    \<and> vm_lock_page read_page junk obj p' (k1, d') = Some (Inr ((junk, Some f), k2, d'))
    \<and> f_refcount (frames k2 f) = 2"
  by (rule lock_wrong_page [where read_page = read_page and junk = junk and f = f and d = d and d' = d' and pc = pc and p = p,
        OF assms(1-8)])

theorem page_cache_wrong_page_witness:
  "\<exists>(k :: kernel) k1 d p' junk. vm_lock_page (\<lambda>_ _ _. give 0) junk 50 (p' + 1) (k, d) = Some (Inr ((0, Some 133), k1, d))
    \<and> junk = 7 \<and> (\<exists>k2. vm_lock_page (\<lambda>_ _ _. give 0) junk 50 p' (k1, d) = Some (Inr ((7, Some 133), k2, d)))"
proof -
  have n: "sz_t \<le> 4" "(4 :: nat) \<le> 1000" by simp_all
  obtain k where k: "\<And>m. unused m k" "lists_rep (flists k) ((\<lambda>_. [])(FreeFrames := [133..<160] @ [272..<2048]))"
    by (rule booted_unused [OF n], rule that, assumption+)
  let ?d = "\<lparr>reqs = Map.empty, devs = Map.empty, ramdisks = Map.empty, blkdev_pagers = Map.empty, pagers = Map.empty,
      pgcaches = [50 \<mapsto> \<lparr>pc_pager = 60\<rparr>], bytes = \<lambda>_. 0\<rparr>"
  have u: "quiet 50 k" "m_state (mutexes k 50) = MUTEX_UNLOCKED" using k(1) by (simp_all add: unused_def)
  have f: "((\<lambda>_. [])(FreeFrames := [133..<160] @ [272..<2048])) (PgCacheFrames 50) = []"
    "((\<lambda>_. [])(FreeFrames := [133..<160] @ [272..<2048])) FreeFrames = 133 # [134..<160] @ [272..<2048]"
    by (simp_all add: upt_rec [of 133] del: upt_rec_numeral)
  have pc: "pgcaches ?d 50 = Some \<lparr>pc_pager = 60\<rparr>" by simp
  have ne: "vm_pgcache_page_num (frames k 133) \<noteq> vm_pgcache_page_num (frames k 133) + 1" by simp
  show ?thesis
    using page_cache_wrong_page [where read_page = "\<lambda>_ _ _. give 0" and junk = 7, OF u k(2) f pc refl refl ne] by blast
qed

text \<open>A block device that is registered under a new name is found under every name with the same
  first 31 bytes, other names find what they found before, and a second registration of the name
  is refused.\<close>

theorem device_registry:
  assumes "unused S_DEVLIST_MUTEX k" and "reg_rep r ds" and "is_cstr name" and "\<forall>(a, d) \<in> set ds. dev_name d \<noteq> clip name"
    and "malloc sizeof_device (heap k) = Some (a, h)" and "a \<noteq> 0" and "a \<notin> fst ` set ds" and "is_cstr n" and "obj \<noteq> 0"
  shows "\<exists>k1 r1 k2 k3. dev_register_blockdev name obj (k, r) = Some (Inr (0, k1, r1))
    \<and> dev_find_blockdev n (k1, r1) = Some (Inr (if clip n = clip name then (0, obj) else
        (case find_block n ds of Some p \<Rightarrow> if p = 0 then (ENODEV, 0) else (0, p) | None \<Rightarrow> (ENODEV, 0)), k2, r1))
    \<and> dev_register_blockdev name obj' (k1, r1) = Some (Inr (EEXIST, k3, r1))"
  by (rule register_find [OF assms])

theorem device_registry_witness:
  "\<exists>(k :: kernel) r k1 r1 k2. dev_register_blockdev [114, 100, 48] 8 (k, r) = Some (Inr (0, k1, r1))
    \<and> dev_find_blockdev [114, 100, 48] (k1, r1) = Some (Inr ((0, 8), k2, r1))
    \<and> (\<exists>k3. dev_find_blockdev [114, 100] (k1, r1) = Some (Inr ((ENODEV, 0), k3, r1)))"
proof -
  have n: "sz_t \<le> sizeof_device" "sizeof_device \<le> 1000" by simp_all
  obtain k h where k: "\<And>m. unused m k" "malloc sizeof_device (heap k) = Some (4340, h)"
    by (rule booted_unused [OF n], rule that, assumption+)
  let ?r = "\<lparr>device_at = Map.empty, s_devlist = empty_lists\<rparr>"
  have r: "reg_rep ?r []" by (simp add: reg_rep_def)
  have c: "is_cstr [114, 100, 48]" "is_cstr [114, 100]" by (simp_all add: is_cstr_def)
  have e: "clip [114, 100, 48] = [114, 100, 48]" "clip [114, 100] = [114, 100]" by (simp_all add: clip_def DEV_NAME_MAXLEN_def)
  note d = device_registry [OF k(1) r c(1) _ k(2), where obj = 8 and obj' = 9]
  from d [of "[114, 100, 48]"] c obtain k1 r1 k2 where 1: "dev_register_blockdev [114, 100, 48] 8 (k, ?r) = Some (Inr (0, k1, r1))"
    "dev_find_blockdev [114, 100, 48] (k1, r1) = Some (Inr ((0, 8), k2, r1))" by auto
  from d [of "[114, 100]"] c e 1(1) obtain k3 where "dev_find_blockdev [114, 100] (k1, r1) = Some (Inr ((ENODEV, 0), k3, r1))"
    by (auto simp: find_block_def)
  with 1 show ?thesis by blast
qed

text \<open>Path names are taken apart as they are put together: from a relative path of legal names,
  each followed by any number of separators, \<open>vfs_get_next_path_element\<close> extracts exactly these
  names, in order, until \<open>vfs_has_more_path_elements\<close> says that the path is at its end.\<close>

theorem path_elements_roundtrip:
  assumes "good_path ps"
  shows "path_elements (path_of ps) = Some (map fst ps)
    \<and> (\<forall>n k qs. ps = (n, k) # qs \<longrightarrow> vfs_has_more_path_elements (path_of ps)
         \<and> vfs_get_next_path_element (path_of ps) = Some (Inr (n, path_of qs)))"
  using path_elements_of [OF assms] next_path_element_ok assms by (auto simp: vfs_has_more_path_elements_def)

theorem path_elements_roundtrip_witness:
  "path_elements [0x75, 0x73, SLASH, SLASH, 0x62, SLASH] = Some [[0x75, 0x73], [0x62]]"
proof -
  have "good_path [([0x75, 0x73], 2), ([0x62], 1)]" by (simp add: SLASH_def VFS_NAMELEN_MAX_def)
  from path_elements_roundtrip [OF this] show ?thesis by (simp add: eval_nat_numeral)
qed

text \<open>C37.  A lookup that fails at the first element of the path gives everything back: when the directory is not locked and has
  no cached child and the filesystem does not know the first name of the path, \<open>vfs_lookup_inode\<close>
  returns the filesystem's error code; the inodes are as before, with all reference counts and with the
  directory unlocked, the name buffer is freed, the mutex of the filesystems is free again with nobody waiting for it or for
  the directory, every other mutex is as it was, and the caller goes on.\<close>

theorem failed_lookup_restores:
  assumes "sched_inv A k" and "mem_inv M k" and "unused S_FS_MUTEX k" and "quiet dir k" and "dir \<noteq> S_FS_MUTEX" and "dir \<noteq> 0"
    and "inodes v dir = Some d" and "i_type d = VFS_DIR" and "\<not> i_busy d" and "0 < i_refcount d"
    and "list_rep (child_lists v) dir []" and "parent_chain v dir xs"
    and "\<forall>x \<in> set xs. \<forall>n. inodes v x = Some n \<longrightarrow> 0 \<le> i_refcount n"
    and "vfs_has_more_path_elements path" and "vfs_get_next_path_element path = Some (Inr (name, rst))"
    and "length path \<le> VFS_PATHLEN_MAX"
    and "\<And>k v. op_lookup ops dir name (k, v) = give (rc, 0) (k, v)" and "rc \<noteq> 0"
    and "mem_alloc (VFS_NAMELEN_MAX + 1) k = Some (Inr (buf, k\<lparr>heap := h\<rparr>))"
  shows "\<exists>k'. vfs_lookup_inode ops dir path (k, v) = Some (Inr ((rc, 0), k', v)) \<and> mem_inv M k'
    \<and> sched_inv (wake_all (g_scheduler k) (prio k) HeapWaitQ A) k'
    \<and> mutexes k' = (mutexes k)(S_FS_MUTEX := \<lparr>m_state = MUTEX_UNLOCKED, m_owner = 0\<rparr>)
    \<and> unused S_FS_MUTEX k' \<and> quiet dir k' \<and> g_current k' = g_current k \<and> int_flag k' = int_flag k"
  by (rule lookup_inode_fails [where ops = ops and name = name and rst = rst, OF assms])

theorem failed_lookup_restores_witness:
  "\<exists>(k :: kernel) k' v. i_refcount (the (inodes v 70)) = 2 \<and> inodes v 80 \<noteq> None
    \<and> vfs_lookup_inode \<lparr>op_get_name = \<lambda>_. [], op_create_instance = \<lambda>_ _ _. give (EINVAL, 0), op_get_root = \<lambda>_. give (EINVAL, 0),
        op_close_instance = \<lambda>_. give EINVAL, op_lookup = \<lambda>_ _. give (ENODEV, 0)\<rparr> 80 [0x61, SLASH, 0x62] (k, v)
      = Some (Inr ((ENODEV, 0), k', v))
    \<and> m_state (mutexes k' S_FS_MUTEX) = MUTEX_UNLOCKED"
proof -
  have n: "sz_t \<le> VFS_NAMELEN_MAX + 1" "VFS_NAMELEN_MAX + 1 \<le> 1000" by (simp_all add: VFS_NAMELEN_MAX_def)
  obtain k M h where k: "sched_inv ((\<lambda>_. [])(RunQ := [4180, 4260])) k" "\<And>m. unused m k" "mem_inv M k"
    "mem_alloc (VFS_NAMELEN_MAX + 1) k = Some (Inr (4340, k\<lparr>heap := h\<rparr>))"
    by (rule booted_unused [OF n], rule that, assumption+)
  let ?i = "\<lparr>i_fs_inst = 90, i_parent = 0, i_type = VFS_DIR, i_name = None, i_mount = 0, i_refcount = 2, i_busy = False, i_p = 0\<rparr>"
  let ?d = "?i\<lparr>i_parent := 70, i_name := Some [0x7a], i_refcount := 1\<rparr>"
  obtain dv :: devices and rg :: registry where True by blast
  define v where "v = \<lparr>inodes = [70 \<mapsto> ?i, 80 \<mapsto> ?d], child_lists = empty_lists, fs_drivers = Map.empty, s_driver_list = 0,
    fs_instances = Map.empty, s_inst_list = empty_lists, s_root_instance = 0, s_root_dir = 70, vfs_registry = rg,
    vfs_devices = dv, pfat_instances = Map.empty, pfat_inodes = Map.empty\<rparr>"
  let ?ops = "\<lparr>op_get_name = \<lambda>_. [], op_create_instance = \<lambda>_ _ _. give (EINVAL, 0), op_get_root = \<lambda>_. give (EINVAL, 0),
        op_close_instance = \<lambda>_. give EINVAL, op_lookup = \<lambda>_ _. give (ENODEV, 0)\<rparr>"
  have q: "quiet 80 k" using k(2) by (simp add: unused_def)
  have i: "inodes v 80 = Some ?d" "i_type ?d = VFS_DIR" "\<not> i_busy ?d" "0 < i_refcount ?d" "list_rep (child_lists v) 80 []"
    "parent_chain v 80 [80, 70]" "\<forall>x \<in> set [80, 70]. \<forall>n. inodes v x = Some n \<longrightarrow> 0 \<le> i_refcount n"
    by (simp_all add: v_def)
  have p: "vfs_has_more_path_elements [0x61, SLASH, 0x62]"
    "vfs_get_next_path_element [0x61, SLASH, 0x62] = Some (Inr ([0x61], [0x62]))" "length [0x61, SLASH, 0x62] \<le> VFS_PATHLEN_MAX"
    by (simp_all add: vfs_has_more_path_elements_def vfs_get_next_path_element_def SLASH_def VFS_NAMELEN_MAX_def VFS_PATHLEN_MAX_def halt_simps)
  have o: "op_lookup ?ops 80 [0x61] (k, v) = give (ENODEV, 0) (k, v)" "ENODEV \<noteq> 0" for k v by (simp_all add: ENODEV_def)
  have d: "(80 :: nat) \<noteq> S_FS_MUTEX" "(80 :: nat) \<noteq> 0" by (simp_all add: S_FS_MUTEX_def)
  from failed_lookup_restores [where ops = ?ops, OF k(1,3) k(2) q d i p o k(4)]
  obtain k' where "vfs_lookup_inode ?ops 80 [0x61, SLASH, 0x62] (k, v) = Some (Inr ((ENODEV, 0), k', v))"
    "mutexes k' = (mutexes k)(S_FS_MUTEX := \<lparr>m_state = MUTEX_UNLOCKED, m_owner = 0\<rparr>)" by blast
  then show ?thesis by (intro exI [of _ k] exI [of _ k'] exI [of _ v]) (simp add: v_def)
qed

text \<open>C38.  No filesystem can be used: mounting a PFAT filesystem never succeeds, whatever the device
  holds (the superblock that has been read is not handed back), and asking for the root directory
  halts, because the mutex is locked a second time where it should be unlocked.\<close>

theorem no_filesystem:
  assumes "vfs_mount_root (pfat_ops read_sync) name init opts s = Some (Inr (rc, s'))" and "unused S_FS_MUTEX k"
  shows "rc \<noteq> 0 \<and> vfs_get_root_dir (k, v) = None \<and> vfs_mount ops path name' init' opts' (k, v) = None"
  using mount_root_pfat_fails [OF assms(1)] get_root_dir_halts [OF assms(2)] by (simp add: vfs_mount_def)

theorem no_filesystem_witness:
  "\<exists>(k :: kernel) v s'. vfs_mount_root (pfat_ops blockdev_read_sync) [0x65, 0x78, 0x74] [] [] (k, v) = Some (Inr (EINVAL, s'))
    \<and> EINVAL \<noteq> 0 \<and> vfs_get_root_dir (k, v) = None"
proof -
  have n: "sz_t \<le> 4" "(4 :: nat) \<le> 1000" by simp_all
  obtain k where k: "\<And>m. unused m k" by (rule booted_unused [OF n], rule that, assumption+)
  obtain v0 :: vfs where True by blast
  define v where "v = v0\<lparr>s_driver_list := 0, s_root_instance := 0\<rparr>"
  let ?k1 = "set_mutex S_FS_MUTEX MUTEX_LOCKED (g_current k) (k\<lparr>g_preemption := True\<rparr>)"
  have l1: "mutex_lock S_FS_MUTEX k = Some (Inr ((), ?k1))" using k by (intro lock_quiet) (simp_all add: unused_def)
  have ne: "S_DRIVER_LIST_MUTEX \<noteq> S_FS_MUTEX" by (simp add: S_DRIVER_LIST_MUTEX_def S_FS_MUTEX_def)
  let ?k2 = "set_mutex S_DRIVER_LIST_MUTEX MUTEX_LOCKED (g_current ?k1) (?k1\<lparr>g_preemption := True\<rparr>)"
  have l2: "mutex_lock S_DRIVER_LIST_MUTEX ?k1 = Some (Inr ((), ?k2))"
  proof (rule lock_quiet)
    show "quiet S_DRIVER_LIST_MUTEX ?k1" using k by (simp add: unused_def)
    show "m_state (mutexes ?k1 S_DRIVER_LIST_MUTEX) = MUTEX_UNLOCKED" using k ne by (simp add: unused_def set_mutex_def)
  qed
  let ?k3 = "set_mutex S_DRIVER_LIST_MUTEX MUTEX_UNLOCKED 0 (?k2\<lparr>g_preemption := True\<rparr>)"
  have u2: "mutex_unlock S_DRIVER_LIST_MUTEX ?k2 = Some ?k3"
    using k by (intro unlock_alone) (simp_all add: unused_def)
  have h: "MUTEX_IS_HELD S_FS_MUTEX ?k1" "MUTEX_IS_HELD S_FS_MUTEX ?k3"
    using ne by (simp_all add: MUTEX_IS_HELD_def set_mutex_def)
  have "quiet S_FS_MUTEX ?k3" using k by (simp add: unused_def)
  note u1 = unlock_alone [OF this h(2)]
  have f: "vfs_find_fs_driver (pfat_ops blockdev_read_sync) [0x65, 0x78, 0x74] (?k1, v) = give (EINVAL, 0) (?k3, v)"
    using l2 u2 by (simp add: vfs_find_fs_driver_def v_def find_driver_loop.simps give_def)
  have m: "vfs_do_mount (pfat_ops blockdev_read_sync) [0x65, 0x78, 0x74] 0 [] [] (?k1, v) = give (EINVAL, 0) (?k3, v)"
    using h(1) f by (simp add: vfs_do_mount_def mount_failed_def halt_simps v_def EINVAL_def)
  have "\<exists>s'. vfs_mount_root (pfat_ops blockdev_read_sync) [0x65, 0x78, 0x74] [] [] (k, v) = Some (Inr (EINVAL, s'))"
    using l1 m u1 by (simp add: vfs_mount_root_def give_def EINVAL_def)
  then obtain s' where s': "vfs_mount_root (pfat_ops blockdev_read_sync) [0x65, 0x78, 0x74] [] [] (k, v) = Some (Inr (EINVAL, s'))" by blast
  from no_filesystem [OF s' k] s' show ?thesis by blast
qed

section \<open>The console\<close>

text \<open>C39.  Printing keeps to the screen: from a cursor on the screen every character, tabs, newlines and
  scrolling included, and every string leave the cursor on the screen, change no memory outside the
  screen, give back the interrupt flag and the index of the CRT controller, and leave the position
  of the cursor in the controller's registers.\<close>

definition on_screen_step :: "console \<Rightarrow> console \<Rightarrow> bool" where
  "on_screen_step c c' \<longleftrightarrow> cons_ok c' \<and> s_console c' \<and> (\<forall>a. off_screen a \<longrightarrow> cmem c' a = cmem c a) \<and> crt_index c' = crt_index c"

lemma on_screen_local:
  assumes "local_op f c" and "s_console c" and "f c = Some c'" and "crt_index c' = crt_index c"
  shows "on_screen_step c c'"
proof -
  have "cmem (with_mem (cmem c) c') a = cmem c a" if "off_screen a" for a using that by (simp add: merge_at)
  then show ?thesis using local_op_mem [OF assms(1,3)] assms by (auto simp: on_screen_step_def elim!: local_opD)
qed

theorem screen_safe:
  assumes ok: "cons_ok c" and s: "s_console c"
  shows "(\<exists>c'. cons_putchar ch (k, c) = Some ((), k, c') \<and> on_screen_step c c' \<and> cursor_shown c')
    \<and> (cstring (cmem c) str xs \<longrightarrow> (\<forall>i \<le> length xs. off_screen (str + i)) \<longrightarrow>
        (\<exists>c'. cons_write str (k, c) = Some ((), k, c') \<and> on_screen_step c c' \<and> (xs \<noteq> [] \<longrightarrow> cursor_shown c')))"
proof (intro conjI impI)
  obtain c' where c': "x86cons_putchar ch c = Some c'" using putchar_local [OF ok] by (rule local_opD)
  then have "cons_putchar ch (k, c) = Some ((), k, c')"
    unfolding cons_putchar_def by (intro cons_atomic_run [OF s]) (simp add: no_result_def)
  with putchar_index [OF ok c'] on_screen_local [OF putchar_local [OF ok] s c']
  show "\<exists>c'. cons_putchar ch (k, c) = Some ((), k, c') \<and> on_screen_step c c' \<and> cursor_shown c'" by blast
next
  assume "cstring (cmem c) str xs" and "\<forall>i \<le> length xs. off_screen (str + i)"
  then have w: "x86cons_write str c = put_all xs c" by (rule write_cstring [OF ok])
  obtain c' where c': "put_all xs c = Some c'" using put_all_local [OF ok] by (rule local_opD)
  then have "cons_write str (k, c) = Some ((), k, c')"
    unfolding cons_write_def by (intro cons_atomic_run [OF s]) (simp add: no_result_def w)
  with put_all_index [OF ok c'] on_screen_local [OF put_all_local [OF ok] s c']
  show "\<exists>c'. cons_write str (k, c) = Some ((), k, c') \<and> on_screen_step c c' \<and> (xs \<noteq> [] \<longrightarrow> cursor_shown c')" by blast
qed

definition blank_console :: console where
  "blank_console = \<lparr>c_y = 24, c_x = 79, c_attr = 7, s_console = True, cmem = (\<lambda>a. 0), crt_index = 5,
     crt_regs = (\<lambda>r. 0), tty = []\<rparr>"

theorem screen_safe_witness:
  "\<forall>k. \<exists>c'. cons_putchar 65 (k, blank_console) = Some ((), k, c') \<and> on_screen_step blank_console c' \<and> cursor_shown c'"
proof
  fix k
  show "\<exists>c'. cons_putchar 65 (k, blank_console) = Some ((), k, c') \<and> on_screen_step blank_console c' \<and> cursor_shown c'"
    using screen_safe [of blank_console 65 k 0 "[]"] by (auto simp: blank_console_def cons_ok_def cons_defs)
qed

text \<open>C40.  \<open>cons_printf\<close> prints the formatted text: the effect on the console is that of writing the
  characters of \<open>format_text\<close> one after the other (decimal numbers with their sign, eight hexadecimal
  digits, characters, strings and plain text), although the numbers are first converted in the buffer;
  only the screen and the buffer change.  Reading the decimal digits back gives the number.\<close>

theorem printf_prints_text:
  assumes "cons_ok c" and "s_console c" and "safe_buf buf" and "safe_str buf (cmem c) p fmt"
    and "list_all2 (arg_word buf (cmem c)) as ws" and "format_text fmt as = Some t"
  shows "\<exists>c' c1. cons_printf buf p ws (k, c) = Some (k, c') \<and> put_all t c = Some c1 \<and> c' = with_mem (cmem c') c1
    \<and> (\<forall>a. apart buf a \<longrightarrow> cmem c' a = cmem c a) \<and> undec (dec n) = n"
proof -
  have p: "printing (cmem c) buf c" using assms(1,2) by (simp add: printing_def)
  obtain c' where c': "printf_loop buf p ws (k\<lparr>int_flag := False\<rparr>, c) = Some (k\<lparr>int_flag := False\<rparr>, c')" "prints (cmem c) buf c t c'"
    using printf_loop_ok [OF p _ assms(3,5,4,6), of "k\<lparr>int_flag := False\<rparr>"] by auto
  have "k\<lparr>int_flag := int_flag k\<rparr> = k" by (cases k) simp
  then have "cons_printf buf p ws (k, c) = Some (k, c')" using c'(1) by (simp add: cons_printf_def)
  then show ?thesis using c'(2) by (auto simp: prints_def printing_def undec_dec)
qed

text \<open>\<open>%d\<close> with \<open>-5\<close>, at the last position of the screen, so that it scrolls.\<close>

theorem printf_prints_text_witness:
  "\<forall>k. \<exists>(c :: console) c' c1. cons_printf 1000 16 [- 5] (k, c) = Some (k, c') \<and> put_all [0x2D, 0x35] c = Some c1
    \<and> c' = with_mem (cmem c') c1"
proof
  fix k
  define c where "c = blank_console\<lparr>cmem := (\<lambda>a. 0)(16 := 0x25, 17 := 0x64)\<rparr>"
  have "dec 5 = [0x35]" by (subst dec.simps) simp
  then have t: "format_text [0x25, 0x64] [Num (- 5)] = Some [0x2D, 0x35]" by (simp add: dec_int_def)
  have "\<exists>c' c1. cons_printf 1000 16 [- 5] (k, c) = Some (k, c') \<and> put_all [0x2D, 0x35] c = Some c1 \<and> c' = with_mem (cmem c') c1
    \<and> (\<forall>a. apart 1000 a \<longrightarrow> cmem c' a = cmem c a) \<and> undec (dec 0) = 0"
    by (rule printf_prints_text [OF _ _ _ _ _ t])
      (simp_all add: c_def blank_console_def cons_ok_def cons_defs safe_buf_def off_screen_def safe_str_Cons safe_str_Nil apart_def MAXDIGITS_def)
  then show "\<exists>(c :: console) c' c1. cons_printf 1000 16 [- 5] (k, c) = Some (k, c') \<and> put_all [0x2D, 0x35] c = Some c1
    \<and> c' = with_mem (cmem c') c1" by blast
qed

text \<open>C24.  Scrolling blanks the wrong place: \<open>x86cons_scroll\<close> passes row and column to
  \<open>x86cons_clear_area\<close> in the wrong order.  Every row moves up, but the last row keeps what it showed
  (so that it is there twice), and the 80 positions from column 24 of the first row on are blanked.\<close>

theorem scroll_blanks_wrong_row:
  assumes "cons_ok c"
  shows "\<exists>c'. x86cons_scroll c = Some c'
    \<and> (\<forall>x y. 0 \<le> x \<longrightarrow> x < 80 \<longrightarrow> 0 \<le> y \<longrightarrow> y < 25 \<longrightarrow> cmem c' (ADDR x y) =
         (if 24 \<le> y * 80 + x \<and> y * 80 + x < 104 then 0x20 else if y = 24 then cmem c (ADDR x 24) else cmem c (ADDR x (y + 1))))"
proof -
  obtain c' where c': "x86cons_scroll c = Some c'"
    "\<And>a. cmem c' a = (if VGA_VIDMEM + 48 \<le> int a \<and> int a < VGA_VIDMEM + 208 then if even a then 0x20 else c_attr c
       else if VGA_VIDMEM \<le> int a \<and> int a < ROW_ADDR 24 then cmem c (a + 160) else cmem c a)"
    using scroll_result [OF assms] by blast
  have "cmem c' (ADDR x y) = (if 24 \<le> y * 80 + x \<and> y * 80 + x < 104 then 0x20 else if y = 24 then cmem c (ADDR x 24) else cmem c (ADDR x (y + 1)))"
    if "0 \<le> x" "x < 80" "0 \<le> y" "y < 25" for x y
  proof -
    have i: "int (ADDR x y) = 753664 + 2 * (y * 80 + x)" using that by (simp add: cons_defs)
    then have "even (int (ADDR x y))" by simp
    then have "even (ADDR x y)" by simp
    moreover have "ADDR x y + 160 = ADDR x (y + 1)" using that by (simp add: cons_defs nat_add_distrib [symmetric])
    ultimately show ?thesis unfolding c'(2) using i that by (auto simp: VGA_VIDMEM_def ROW_ADDR_def VGA_BYTES_PER_ROW_def VGA_NUMCOLS_def)
  qed
  with c'(1) show ?thesis by blast
qed

theorem scroll_blanks_wrong_row_witness:
  "\<exists>c'. x86cons_scroll blank_console = Some c' \<and> cmem c' (ADDR 30 0) = 0x20 \<and> cmem c' (ADDR 30 24) = 0"
proof -
  have "cons_ok blank_console" by (simp add: blank_console_def cons_ok_def cons_defs)
  from scroll_blanks_wrong_row [OF this] obtain c' where c': "x86cons_scroll blank_console = Some c'"
    "\<forall>x y. 0 \<le> x \<longrightarrow> x < 80 \<longrightarrow> 0 \<le> y \<longrightarrow> y < 25 \<longrightarrow> cmem c' (ADDR x y) =
       (if 24 \<le> y * 80 + x \<and> y * 80 + x < 104 then 0x20
        else if y = 24 then cmem blank_console (ADDR x 24) else cmem blank_console (ADDR x (y + 1)))" by blast
  have "cmem c' (ADDR 30 0) = 0x20" using c'(2) [rule_format, of 30 0] by simp
  moreover have "cmem c' (ADDR 30 24) = 0" using c'(2) [rule_format, of 30 24] by (simp add: blank_console_def)
  ultimately show ?thesis using c'(1) by blast
qed

section \<open>The keyboard\<close>

text \<open>C18.  The keyboard driver implements an ideal keyboard: after any sequence of scan codes the shift
  state says which modifier keys are held down, the buffer holds the codes of the other keys in the order
  in which they were pressed and released (up to 255 of them, the rest is dropped), the scheduler's
  invariant holds, and \<open>wait_for_key\<close> returns the oldest code.  In each code the low ten bits are the
  entry of the table and the upper bits tell the state of shift, control and alt and a release.\<close>

theorem keyboard_refinement:
  assumes "sched_inv A k" and "\<not> int_flag k" and "ring_rep (keys k) xs" and "s_shiftstate b = shift_word H"
    and "keyboard_context c" and "st AND PS2_OUTPUT_FULL \<noteq> 0"
  shows "(\<exists>k' i' b' A'. keyboard_interrupts c st ds (k, i, b) = Some (k', i', b') \<and> sched_inv A' k'
      \<and> s_shiftstate b' = shift_word (fst (ideal_keys ds H))
      \<and> ring_rep (keys k') (take 255 (xs @ snd (ideal_keys ds H)))
      \<and> (\<forall>x ys. take 255 (xs @ snd (ideal_keys ds H)) = x # ys \<longrightarrow>
           (\<exists>q. wait_for_key k' = Some (Inr (x, k'\<lparr>keys := q\<rparr>)) \<and> ring_rep q ys)))
    \<and> (n < 91 \<longrightarrow> key_code H release n AND 0x3FF = table_entry H n \<and> (key_code H release n AND KEY_SHIFT_FLAG \<noteq> 0 \<longleftrightarrow> shifted H)
      \<and> (key_code H release n AND KEY_CTRL_FLAG \<noteq> 0 \<longleftrightarrow> LCtrl \<in> H) \<and> (key_code H release n AND KEY_ALT_FLAG \<noteq> 0 \<longleftrightarrow> LAlt \<in> H)
      \<and> (key_code H release n AND KEY_RELEASE_FLAG \<noteq> 0 \<longleftrightarrow> release))"
  using interrupts_ok [OF assms, of ds i] key_code_fields [of n H release] wait_for_key_ready by metis

text \<open>Shift is pressed, then the key \<open>a\<close>.\<close>

theorem keyboard_refinement_witness:
  "\<exists>k c i b k' i' b'. keyboard_interrupts c 1 [0x2A, 0x1E] (k, i, b) = Some (k', i', b') \<and> ring_rep (keys k') [0x1041]"
proof -
  obtain s where s: "sched_inv ((\<lambda>_. [])(RunQ := [4180, 4260])) s" by (rule booted_sched, rule that, assumption+)
  let ?k = "s\<lparr>int_flag := False, keys := empty_ring\<rparr>"
  have i: "sched_inv ((\<lambda>_. [])(RunQ := [4180, 4260])) ?k"
    using s by (simp add: sched_inv_def queues_inv_def no_thread_lost_def queued_ok_def)
  obtain t :: thread_context where True by blast
  let ?c = "t\<lparr>tc_int_num := 33\<rparr>" and ?b = "\<lparr>s_shiftstate = 0, kb_printed = []\<rparr>"
  have h: "ring_rep (keys ?k) []" "s_shiftstate ?b = shift_word {}" "keyboard_context ?c" "(1 :: u8) AND PS2_OUTPUT_FULL \<noteq> 0"
    by (simp_all add: ring_rep_empty shift_word_def keyboard_context_def FIRST_IRQ_def KEYB_IRQ_def PS2_OUTPUT_FULL_def)
  have t: "s_scan_table_with_shift ! 30 = 0x41" by code_simp
  have "ideal_keys [0x2A, 0x1E] {} = ({LShift}, [0x1041])"
    by (simp add: ideal_key_def modifier_at_def key_code_def table_entry_def shifted_def t)
  with keyboard_refinement [OF i _ h, of "[0x2A, 0x1E]" undefined 0 False]
  show ?thesis by fastforce
qed

text \<open>C20.  The keyboard can take the worker's wake-up away: readers of the keyboard wait in the queue that
  the worker uses.  When a reader is the first one there, scheduling work makes the reader ready and
  leaves the worker waiting; the reader, running again with no key in the buffer, goes back to waiting,
  and the new item stays where it is.\<close>

theorem keyboard_takes_wakeup:
  assumes "sched_inv A s" and "wq_rep s xs" and "A WorkWaitQ = reader # ts"
    and "mem_alloc sizeof_item s = Some (Inr (i, s\<lparr>heap := h\<rparr>))" and "i \<noteq> 0" and "i \<notin> fst ` set xs"
  shows "\<exists>s' A'. workqueue_schedule_work Thread_destroy d s = Some (Inr ((), s')) \<and> sched_inv A' s'
    \<and> A' WorkWaitQ = ts \<and> reader \<in> set (A' RunQ) \<and> wq_rep s' (xs @ [(i, d)])
    \<and> (\<forall>s2 A2 n rs ys iflag. sched_inv A2 s2 \<longrightarrow> g_current s2 = reader \<longrightarrow> \<not> int_flag s2 \<longrightarrow> ring_rep (keys s2) []
        \<longrightarrow> wq_rep s2 ys \<longrightarrow> A2 RunQ = n # rs \<longrightarrow>
        (\<exists>s3 A3. wait_for_key_rest iflag s2 = Some (Inl s3) \<and> sched_inv A3 s3 \<and> A3 WorkWaitQ = A2 WorkWaitQ @ [reader]
          \<and> wq_rep s3 ys))"
proof -
  let ?A = "A(WorkWaitQ := ts, RunQ := sched_insert (g_scheduler s) (prio s) reader (A RunQ))"
  obtain s' where s': "workqueue_schedule_work Thread_destroy d s = Some (Inr ((), s'))" "sched_inv ?A s'" "wq_rep s' (xs @ [(i, d)])"
    using schedule_work_ok [OF assms] by blast
  have "\<exists>s3 A3. wait_for_key_rest iflag s2 = Some (Inl s3) \<and> sched_inv A3 s3 \<and> A3 WorkWaitQ = A2 WorkWaitQ @ [reader] \<and> wq_rep s3 ys"
    if r: "sched_inv A2 s2" "g_current s2 = reader" "\<not> int_flag s2" "ring_rep (keys s2) []" "wq_rep s2 ys" "A2 RunQ = n # rs"
    for s2 A2 n rs ys iflag
  proof -
    obtain s3 where s3: "wait_for_key_rest iflag s2 = Some (Inl s3)"
      "sched_inv (A2(WorkWaitQ := A2 WorkWaitQ @ [reader], RunQ := rs)) s3" "rest s3 = rest s2"
      using wait_for_key_waits [OF r(1,3,4,6), of iflag] r(2) by blast
    then show ?thesis using wq_rep_rest [OF s3(3), of ys] r(5) by (intro exI [of _ s3] exI) auto
  qed
  moreover have "?A WorkWaitQ = ts" "reader \<in> set (?A RunQ)" by (simp_all add: sched.ins_set)
  ultimately show ?thesis using s' by (intro exI [of _ s'] exI [of _ ?A]) blast
qed

theorem keyboard_takes_wakeup_witness:
  "\<exists>s s' A'. workqueue_schedule_work Thread_destroy 4340 s = Some (Inr ((), s')) \<and> sched_inv A' s' \<and> A' WorkWaitQ = []
    \<and> 4100 \<in> set (A' RunQ)"
proof -
  obtain s where s: "sched_inv ((\<lambda>_. [])(WorkWaitQ := [4100], RunQ := [4260])) s" by (rule booted_waiting, rule that, assumption+)
  let ?s = "s\<lparr>heap := mem_heap_init 8192 16384 empty_heap, s_workqueue_head := 0, s_workqueue_tail := 0\<rparr>"
  let ?A = "(\<lambda>_. [])(WorkWaitQ := [4100], RunQ := [4260])"
  have i: "sched_inv ?A ?s" using s by simp
  have rep: "wq_rep ?s []" by (simp add: wq_rep_def)
  have u: "used_to 8192 Map.empty ?s"
    using heap_inv_init [of 8192 16384] by (simp add: used_to_def brk_def mem_heap_init_def empty_heap_def)
  have r: "8192 + sz_t + sizeof_item \<le> h_end (heap ?s)" "sz_t \<le> sizeof_item" by (simp_all add: mem_heap_init_def)
  obtain h where h: "mem_alloc sizeof_item ?s = Some (Inr (8192 + sz_t, ?s\<lparr>heap := h\<rparr>))" using alloc_fresh [OF u r] by blast
  have w: "?A WorkWaitQ = 4100 # []" by simp
  from keyboard_takes_wakeup [OF i rep w h, of 4340] show ?thesis by auto
qed

section \<open>Waiting for time and for devices\<close>

text \<open>C21.  Busy waiting ends.  While the timer ticks, \<open>busy_wait\<close> returns at the first look at the clock at
  which exactly \<open>ticks\<close> ticks have passed as long as the sum of clock and ticks fits in 32 bits.  When the sum
  exceeds 32 bits it returns at its first look at the clock, without waiting, but for one case: when the
  clock itself goes from its greatest value to zero between the first two readings, it waits as it should.
  Initialising the keyboard ends exactly when the controller reports an empty buffer at some time.\<close>

theorem busy_wait_ends:
  assumes "ticking reading d" and "0 < ticks"
  shows "(unat (reading 0) + unat ticks < 2 ^ 32 \<or> reading 0 = - 1 \<and> reading 1 = 0 \<longrightarrow>
      (\<exists>n. busy_wait reading ticks = Some (n + 1) \<and> d n = unat ticks \<and> (\<forall>j < n. d j < unat ticks)))
    \<and> (\<not> unat (reading 0) + unat ticks < 2 ^ 32 \<and> \<not> (reading 0 = - 1 \<and> reading 1 = 0) \<longrightarrow> busy_wait reading ticks = Some 2)
    \<and> ((\<exists>i'. x86_ps2_init status i = Some i') \<longleftrightarrow> (\<exists>m. status m AND PS2_OUTPUT_FULL = 0))"
  using busy_wait_exact [OF assms] busy_wait_both_wrap [OF assms] busy_wait_wraps [OF assms(1), of ticks] ps2_init_ends
  by (simp add: not_less)

text \<open>
  A clock that is read twice between ticks; in the second case it starts ten ticks before it overflows,
  in the third one the overflow falls between the first two readings.
\<close>

theorem busy_wait_ends_witness:
  "(\<exists>n. busy_wait (\<lambda>n. of_nat (n div 2)) 10 = Some (n + 1) \<and> n div 2 = 10)
    \<and> busy_wait (\<lambda>n. - 10 + of_nat (n div 2)) 10 = Some 2
    \<and> (\<exists>n. busy_wait (\<lambda>n. - 1 + of_nat n) 10 = Some (n + 1) \<and> n = 10)"
proof -
  have d: "d0 \<le> Suc n div 2 \<and> Suc n div 2 \<le> Suc (n div 2)" if "d0 = n div 2" for d0 n :: nat
    unfolding that by (intro conjI div_le_mono) (simp_all add: div_le_mono less_Suc_eq_le)
  have u: "\<exists>n. m \<le> n div 2" for m :: nat by (intro exI [of _ "2 * m"]) simp
  have t: "ticking (\<lambda>n. x + of_nat (n div 2)) (\<lambda>n. n div 2)" for x
    unfolding ticking_def using d u by simp
  have t1: "ticking (\<lambda>n. - 1 + of_nat n) (\<lambda>n. n)" unfolding ticking_def by auto
  have p: "(0 :: u32) < 10" by simp
  have "\<exists>n. busy_wait (\<lambda>n. 0 + of_nat (n div 2)) 10 = Some (n + 1) \<and> n div 2 = unat (10 :: u32) \<and> (\<forall>j < n. j div 2 < unat (10 :: u32))"
    by (rule busy_wait_ends [OF t p, THEN conjunct1, rule_format]) simp
  moreover have "busy_wait (\<lambda>n. - 10 + of_nat (n div 2)) 10 = Some 2"
    by (rule busy_wait_ends [OF t p, THEN conjunct2, THEN conjunct1, rule_format]) simp
  moreover have "\<exists>n. busy_wait (\<lambda>n. - 1 + of_nat n) 10 = Some (n + 1) \<and> n = unat (10 :: u32) \<and> (\<forall>j < n. j < unat (10 :: u32))"
    by (rule busy_wait_ends [OF t1 p, THEN conjunct1, rule_format]) simp
  ultimately show ?thesis by auto
qed

section \<open>Tic-tac-toe\<close>

text \<open>C22.  A move is legal and the winner is found: the player's symbol goes to one empty field of the
  board, or the board is full and nothing changes; and the check ends the game with a winner exactly when
  one of the eight lines is filled, the winner then having filled one.\<close>

theorem tictactoe_winner:
  assumes "moves_ok g" and "game_status g = GAME_PLAYING"
  shows "((\<exists>(x, y) \<in> board. grid g x y = CHR '' '' \<and> grid (choose_move tbl me g) = (grid g)(x := (grid g x)(y := symbol me g)))
      \<or> (\<forall>(x, y) \<in> board. grid g x y \<noteq> CHR '' '') \<and> grid (choose_move tbl me g) = grid g)
    \<and> moves_ok (choose_move tbl me g)
    \<and> ((\<exists>c. filled (grid g) c) \<longrightarrow> game_status (check_for_winner me g) = GAME_DONE
        \<and> (\<exists>c. filled (grid g) c \<and> winner (check_for_winner me g) = (if c = CHR ''X'' then player_x g else player_o g)))
    \<and> (\<not> (\<exists>c. filled (grid g) c) \<longrightarrow> \<not> all_blank (grid g) \<longrightarrow> check_for_winner me g = g)"
proof (intro conjI impI)
  show "(\<exists>(x, y) \<in> board. grid g x y = CHR '' '' \<and> grid (choose_move tbl me g) = (grid g)(x := (grid g x)(y := symbol me g)))
      \<or> (\<forall>(x, y) \<in> board. grid g x y \<noteq> CHR '' '') \<and> grid (choose_move tbl me g) = grid g"
    and "moves_ok (choose_move tbl me g)" using choose_move_ok [OF assms] by blast+
next
  assume "\<exists>c. filled (grid g) c"
  then obtain c where c: "the_winner (grid g) = Some c" using the_winner_None by blast
  then show "game_status (check_for_winner me g) = GAME_DONE"
    and "\<exists>c. filled (grid g) c \<and> winner (check_for_winner me g) = (if c = CHR ''X'' then player_x g else player_o g)"
    using assms(2) the_winner_filled [OF c] by (auto simp: check_for_winner_eq)
next
  assume "\<not> (\<exists>c. filled (grid g) c)" and "\<not> all_blank (grid g)"
  then show "check_for_winner me g = g"
    using the_winner_filled [of "grid g"] by (cases "the_winner (grid g)") (auto simp: check_for_winner_eq)
qed

theorem tictactoe_winner_witness:
  "\<exists>g. game_status (check_for_winner 5 g) = GAME_DONE \<and> winner (check_for_winner 5 g) = 5"
proof -
  let ?g = "s_tictactoe\<lparr>grid := (\<lambda>i j. if i = 1 then CHR ''X'' else CHR '' ''), player_x := 5, player_o := 5, game_status := GAME_PLAYING\<rparr>"
  have m: "moves_ok ?g" using moves_ok_start by simp
  have f: "filled (grid ?g) CHR ''X''" by (simp add: filled_disj)
  have st: "game_status ?g = GAME_PLAYING" by simp
  from tictactoe_winner [OF m st, of "[]" 5] f show ?thesis by (intro exI [of _ ?g]) auto
qed

text \<open>C23.  A drawn game never ends: the test for a draw asks for an empty board instead of a full one, so
  that on a full board without a filled line every turn of either player leaves the board and the state
  \<open>GAME_PLAYING\<close> as they are, for ever, and the players' loops do not stop.\<close>

theorem draw_never_ends:
  assumes "moves_ok g" and "\<forall>(x, y) \<in> board. grid g x y \<noteq> CHR '' ''" and "\<not> (\<exists>c. filled (grid g) c)"
    and "game_status g = GAME_PLAYING"
  shows "game_status (turns tbl ms g) = GAME_PLAYING \<and> grid (turns tbl ms g) = grid g"
proof -
  have "the_winner (grid g) = None" using assms(3) the_winner_filled by (cases "the_winner (grid g)") auto
  then have "stuck g" using assms by (simp add: stuck_def full_def)
  from stuck_forever [OF this, of tbl ms] show ?thesis by (simp add: stuck_def)
qed

theorem draw_never_ends_witness:
  "\<exists>g. game_status (turns [] [5, 6, 5] g) = GAME_PLAYING \<and> grid g 0 0 = CHR ''X'' \<and> grid g 0 1 = CHR ''O''"
proof -
  let ?gr = "\<lambda>i j. if (i, j) \<in> {(0, 0), (0, 2), (1, 0), (1, 1), (2, 1)} then CHR ''X'' else CHR ''O''"
  let ?g = "s_tictactoe\<lparr>grid := ?gr, player_x := 5, player_o := 6, game_status := GAME_PLAYING\<rparr>"
  have m: "moves_ok ?g" using moves_ok_start by simp
  have f: "\<not> (\<exists>c. filled (grid ?g) c)" by (auto simp: filled_disj)
  have b: "\<forall>(x, y) \<in> board. grid ?g x y \<noteq> CHR '' ''" by auto
  have st: "game_status ?g = GAME_PLAYING" by simp
  from draw_never_ends [OF m b f st, of "[]" "[5, 6, 5]"] show ?thesis by (intro exI [of _ ?g]) simp
qed

subsection \<open>The jobs and the main loop\<close>

text \<open>C8.  The race in \<open>join_tictactoe_game\<close>.  The function tests whether a game is open before it switches the
  interrupts off: when the other thread makes its test before the first one has opened a game, both open one, both
  play X, the game never leaves the state in which it waits for a second player, and neither thread ever ends.\<close>

theorem join_race:
  assumes "game_status g \<noteq> GAME_READY" and "fst (sched 0) = x" and "fst (sched 1) = other x" and "2 \<le> n"
  shows "\<exists>pc p g'. match_run tbl ids sched n (match_start g) = (pc, p, g')
    \<and> (\<forall>t. pc t \<in> {Enter False, Loop CHR ''X''} \<or> (\<exists>q. pc t = In_turn CHR ''X'' q))
    \<and> ((\<exists>t. pc t \<noteq> Enter False) \<longrightarrow> game_status g' = GAME_READY)"
proof -
  obtain pc p g' where r: "match_run tbl ids sched n (match_start g) = (pc, p, g')" by (metis prod.exhaust)
  have u: "unmatched (pc, p, g')" using unmatched_run [OF assms(4) unmatched_start [OF assms(1-3), of tbl ids]] unfolding r .
  have "pc t \<in> {Enter False, Loop CHR ''X''} \<or> (\<exists>q. pc t = In_turn CHR ''X'' q)" for t
    using u by (cases "pc t") (auto simp: unmatched_def plays_def dest: spec [of _ t])
  with r u show ?thesis unfolding unmatched_def by (intro exI [of _ pc] exI [of _ p] exI [of _ g']) auto
qed

theorem join_race_witness:
  "\<exists>pc p g'. match_run [3, 1, 4] (\<lambda>i. if i = P_I then 4 else 5) (\<lambda>n. (if even n then P_I else P_J, ())) 100 (match_start s_tictactoe) = (pc, p, g')
    \<and> (\<forall>t. pc t \<in> {Enter False, Loop CHR ''X''} \<or> (\<exists>q. pc t = In_turn CHR ''X'' q))"
proof -
  have "game_status s_tictactoe \<noteq> GAME_READY" by (simp add: s_tictactoe_def)
  from join_race [OF this, of "\<lambda>n. (if even n then P_I else P_J, ())" P_I 100] show ?thesis by (simp add: other_def) blast
qed

text \<open>C19.  A match under Peterson's algorithm.  When one player has opened the game before the other one looks, they
  keep their symbols and are never both at the call of \<open>play_tictactoe\<close>, in every interleaving of their steps, where a step is one
  access to the variables of the lock, one test of the state of the game, or one whole call of \<open>play_tictactoe\<close> or
  \<open>wait_for_turn\<close>; and when the game is over and both threads are scheduled again and again, both of them end.\<close>

theorem match_by_peterson:
  assumes "game_status g \<noteq> GAME_READY" and "fst (sched 0) = x" and "fst (sched 1) = x" and "2 \<le> n"
    and fair: "\<forall>t k. \<exists>m \<ge> k. fst (sched m) = t"
  shows "\<exists>pc p g'. match_run tbl ids sched n (match_start g) = (pc, p, g') \<and> player_x g' = ids x
    \<and> (game_status g' = GAME_READY \<or> player_o g' = ids (other x))
    \<and> (\<forall>c q. pc x = In_turn c q \<longrightarrow> c = CHR ''X'') \<and> (\<forall>c q. pc (other x) = In_turn c q \<longrightarrow> c = CHR ''O'')
    \<and> \<not> (pc x = In_turn CHR ''X'' Critical \<and> pc (other x) = In_turn CHR ''O'' Critical)
    \<and> (game_status g' = GAME_DONE \<longrightarrow> (\<exists>m \<ge> n. \<forall>t. fst (match_run tbl ids sched m (match_start g)) t = Exited))"
proof -
  obtain pc p g' where r: "match_run tbl ids sched n (match_start g) = (pc, p, g')" by (metis prod.exhaust)
  have ok: "match_ok ids x (match_run tbl ids sched n (match_start g))" by (rule match_ok_after [OF assms(1-4)])
  have "\<exists>m \<ge> n. \<forall>t. fst (match_run tbl ids sched m (match_start g)) t = Exited" if "game_status g' = GAME_DONE"
    by (rule match_ends [OF _ ok]) (use fair r that in auto)
  with match_ok_facts [OF ok [unfolded r]] show ?thesis using r by blast
qed

theorem match_by_peterson_witness:
  "\<exists>m. \<forall>t. fst (match_run (replicate NUM_RAND 0) (\<lambda>i. if i = P_I then 4 else 5)
      (\<lambda>n. (if n < 2 then P_I else if n < 4 then P_J else if n < 25 \<or> even n then P_I else P_J, ())) m (match_start s_tictactoe)) t = Exited"
proof -
  let ?s = "\<lambda>n :: nat. (if n < 2 then P_I else if n < 4 then P_J else if n < 25 \<or> even n then P_I else P_J, ())"
  let ?tbl = "replicate NUM_RAND 0" and ?ids = "\<lambda>i. if i = P_I then 4 else 5"
  let ?r = "\<lambda>n. match_run ?tbl ?ids ?s n (match_start s_tictactoe)"
  define g where "g = snd (join_rest True 5 (start_tictactoe_game 4 s_tictactoe))"
  define f where "f = (\<lambda>g. wait_for_turn 4 (play_tictactoe ?tbl 4 g))"
  have w: "game_status (f g) = GAME_PLAYING" "game_status (f (f g)) = GAME_PLAYING" "game_status (f (f (f g))) = GAME_DONE"
    and g: "game_status g = GAME_PLAYING"
    using wins_alone [of g 4] unfolding f_def
    by (simp_all add: first_move_def g_def join_rest_def say_def start_tictactoe_game_def s_tictactoe_def)
  define pc where "pc = (\<lambda>i. Loop (if i = P_I then CHR ''X'' else CHR ''O''))"
  define q where "q = (\<lambda>i. \<lparr>flag = \<lambda>_. False, turn = i\<rparr>)"
  have st: "?s 0 = (P_I, ())" "?s 1 = (P_I, ())" "?s 2 = (P_J, ())" "?s 3 = (P_J, ())" by simp_all
  have n: "(4 :: nat) = Suc 3" "(3 :: nat) = Suc 2" "(2 :: nat) = Suc 1" "(1 :: nat) = Suc 0" by simp_all
  have "?r 4 = match_step ?tbl ?ids (P_J, ()) (match_step ?tbl ?ids (P_J, ()) (match_step ?tbl ?ids (P_I, ()) (match_step ?tbl ?ids (P_I, ())
      (match_start s_tictactoe))))"
    using st unfolding n match_run.simps by (simp only: One_nat_def)
  also have "\<dots> = ((\<lambda>_. Test_ready)(P_I := Loop CHR ''X'', P_J := Loop CHR ''O''), q P_I, g)"
    by (simp add: match_start_def match_step_eq peterson_player_def join_rest_def start_tictactoe_game_def say_def s_tictactoe_def g_def q_def)
  finally have "?r 4 = ((\<lambda>_. Test_ready)(P_I := Loop CHR ''X'', P_J := Loop CHR ''O''), q P_I, g)" .
  moreover have "(\<lambda>_. Test_ready)(P_I := Loop CHR ''X'', P_J := Loop CHR ''O'') = pc"
  proof
    show "((\<lambda>_. Test_ready)(P_I := Loop CHR ''X'', P_J := Loop CHR ''O'')) i = pc i" for i by (cases i) (simp_all add: pc_def)
  qed
  ultimately have r4: "?r 4 = (pc, q P_I, g)" by (simp only:)
  have step: "?r (n + 7) = (pc, q P_J, f h)" if "?r n = (pc, q i, h)" "game_status h \<noteq> GAME_DONE" "4 \<le> n" "n \<le> 18" for n i h
    using turn_alone [OF that(1), of P_I "CHR ''X''"] that(2-4) by (simp add: pc_def q_def f_def other_def)
  have r: "?r 11 = (pc, q P_J, f g)" "?r 18 = (pc, q P_J, f (f g))" "?r 25 = (pc, q P_J, f (f (f g)))"
    using step [OF r4] g step [of 11] w step [of 18] by simp_all
  have "\<exists>m \<ge> k. fst (?s m) = t" for t and k :: nat
    by (cases t; rule exI [of _ "2 * (k + 15) + (if t = P_I then 0 else 1)"]) auto
  then have fair: "\<forall>t k. \<exists>m \<ge> k. fst (?s m) = t" by blast
  have s: "game_status s_tictactoe \<noteq> GAME_READY" "fst (?s 0) = P_I" "fst (?s 1) = P_I" "2 \<le> (25 :: nat)" by (simp_all add: s_tictactoe_def)
  obtain pc' p' g' where e: "?r 25 = (pc', p', g')" and ends: "game_status g' = GAME_DONE \<longrightarrow> (\<exists>m \<ge> 25. \<forall>t. fst (?r m) t = Exited)"
    using match_by_peterson [OF s fair, of ?tbl ?ids] by (elim exE conjE) (rule that)
  have "g' = f (f (f g))" using e unfolding r(3) prod.inject by (elim conjE) (rule sym)
  then show ?thesis using ends w(3) by blast
qed

text \<open>C33.  The loop of \<open>geekos_main\<close> is bounded: from the three threads of the kernel it goes round at most 11 times
  and creates at most 29 threads, the limit of 30 that its comment gives; it stops exactly when 24 threads have
  been created.\<close>

theorem main_loop_bound:
  assumes "rounds a k0 n k" and "next_pid k0 = 3" and "g_num_threads k0 = 3"
  shows "n \<le> 11 \<and> g_num_threads k \<le> 29 \<and> next_pid k = g_num_threads k
    \<and> (main_round a (k, i, m) = None \<longleftrightarrow> 24 \<le> g_num_threads k) \<and> (n = 11 \<longrightarrow> main_round a (k, i, m) = None)"
proof -
  note b = rounds_bound [OF assms(1)]
  have "0 < n \<Longrightarrow> n \<le> 11" using b(4) assms(2,3) by simp
  then have "n \<le> 11" by (cases n) auto
  moreover have "n = 11 \<Longrightarrow> 24 \<le> g_num_threads k" using b(3) assms(2,3) by simp
  moreover have "main_round a (k, i, m) = None \<longleftrightarrow> 24 \<le> g_num_threads k" by (auto simp: main_round_def MAX_THREADS_def)
  ultimately show ?thesis using b(1,2) assms(2,3) by auto
qed

theorem main_loop_bound_witness:
  "\<exists>a k0 k. rounds a k0 1 k \<and> g_num_threads k0 = 3 \<and> next_pid k = g_num_threads k \<and> g_num_threads k \<le> 29"
proof -
  define L where "L = \<lparr>kernel_end = 4096 * 272, memsize_kb = 8192, numframes = 2048, framelist_numframes = 14\<rparr>"
  have L: "kernel_end L = 4096 * 272" "(258 :: nat) \<le> 272" "numframes L = 2048" "(272 :: nat) < 2048" "(2048 :: nat) < 2 ^ 20"
    "0 < framelist_numframes L" "framelist_numframes L < 4096"
    by (simp_all add: L_def)
  obtain k M where k: "kernel_inv ((\<lambda>_. [])(RunQ := [4180, 4260])) M ((\<lambda>_. [])(FreeFrames := [133..<160] @ [272..<2048])) k"
    "used_to 4336 M k" "h_end (heap k) = 528384" "next_pid k = 3" "g_num_threads k = 3"
    using boot_parts [OF layout_8mb [folded L_def] L] by blast
  let ?a = "\<lparr>fn1_at = 1, fn2_at = 2, fn3_at = 3, interrupt_toggler_at = 4, peterson_player_at = 5, mutex_poet_at = 6\<rparr>"
  let ?i = "irq_init \<lparr>s_irqmask = 0, port_out = []\<rparr>" and ?m = "\<lparr>typed = [0x41, 0x31, 0x32], shown = []\<rparr>"
  let ?k = "k\<lparr>g_scheduler := RR, g_quantum := 24\<rparr>"
  obtain m1 where m1: "main_menu ?a (k, ?m) = Some ((g_peterson_sim ?a, 2), ?k, m1)"
    by (simp add: main_menu_def ask_digit_def get_synch_simulation_def show_text_def g_synch_sim_def g_synch_sim_length_def)
  have l: "length (take 2 (g_peterson_sim ?a)) = 2" by (simp add: g_peterson_sim_def)
  have inv: "kernel_inv ((\<lambda>_. [])(RunQ := [4180, 4260])) M ((\<lambda>_. [])(FreeFrames := [133..<160] @ [272..<2048])) ?k" "used_to 4336 M ?k"
    using k(1) by (simp only: kernel_inv_flags) (use k(2) in \<open>simp add: used_to_def\<close>)
  have c: "((\<lambda>_. [])(RunQ := [4180, 4260])) NewQ = []" "brk (heap ?k) + 80 * length (take 2 (g_peterson_sim ?a)) \<le> h_end (heap ?k)"
    "length (take 2 (g_peterson_sim ?a)) \<le> length (((\<lambda>_. [])(FreeFrames := [133..<160] @ [272..<2048])) FreeFrames)" using k(2,3) l by (simp_all add: used_to_def)
  obtain k1 i1 where r1: "run_simulation (g_peterson_sim ?a) 2 (?k, ?i, m1) = Some (Inr (batch 4336 (length (take 2 (g_peterson_sim ?a))), k1, i1, m1))"
    "irq_inv i1"
    using run_simulation_loads [OF inv(1) c irq_init_inv, of _ m1] inv(2) by blast
  have round: "main_round ?a (k, ?i, ?m) = Some (Some (Inr (batch 4336 (length (take 2 (g_peterson_sim ?a))), k1, i1, m1)))"
    using r1(1) k(5) by (simp only: main_round_def m1 prod.case bind.bind_lunit) (simp add: MAX_THREADS_def)
  let ?stats = "[\<lparr>st_pid = 4, st_wait = 1, st_response = 1, st_turnaround = 2\<rparr>]"
  have v: "VALID_IRQ KEYB_IRQ" by (simp add: VALID_IRQ_def KEYB_IRQ_def NUM_IRQS_def)
  obtain i2 where "irq_enable KEYB_IRQ (k1\<lparr>g_simulation_active := False\<rparr>, i1) = Some (k1\<lparr>g_simulation_active := False\<rparr>, i2)"
    using modify_mask_ok [OF r1(2) v] unfolding irq_enable_def by blast
  then obtain k3 m3 where "run_simulation_end ?stats (k1, i1, \<lparr>typed = [0x6E], shown = []\<rparr>) = Some (k3, i2, m3)"
    by (simp add: run_simulation_end_def calculate_simulation_stat_average_def ask_for_stats_def show_text_def)
  from next_round [OF no_round round refl refl this] have "rounds ?a k 1 k3" by simp
  from this main_loop_bound [OF this k(4,5)] k(5) show ?thesis by blast
qed

text \<open>C35.  The poem is made of whole words.  Whatever the random numbers are, \<open>write_poem\<close> copies six whole strings out
  of the right tables into the fields of the structure, writes nothing else, uses six random numbers, and
  \<open>print_poem\<close> prints these strings in the right places of its format.\<close>

theorem poem_is_whole:
  assumes "poem_loaded d m" and "poem_apart d"
  shows "\<exists>m' g'. choose_words tbl d (m, g) = (m', g') \<and> same_outside d m m' \<and> rand_i g' = rand_i g + 6
    \<and> (\<exists>f1 \<in> set flowers. \<exists>c1 \<in> set colours. \<exists>f2 \<in> set flowers. \<exists>c2 \<in> set colours. \<exists>st \<in> set statements. \<exists>ca \<in> set cadences.
         print_poem d m' = Some (poem_format, map chars_of [f1, c1, f2, c2, st, ca]))"
  by (rule poem_words [OF assms])

theorem poem_is_whole_witness:
  "\<exists>m' g' st. choose_words [3, 1, 4] poem_addresses (poem_example, s_tictactoe) = (m', g') \<and> rand_i g' = 6
    \<and> (\<exists>ws. print_poem poem_addresses m' = Some (poem_format, ws) \<and> ws ! 4 = chars_of st \<and> st \<in> set statements)"
proof -
  have "rand_i s_tictactoe + 6 = 6" by (simp add: s_tictactoe_def)
  with poem_is_whole [OF poem_example_loaded, of "[3, 1, 4]" s_tictactoe] show ?thesis by fastforce
qed

text \<open>C36.  A job uses the processor for the ticks that it asks for.  Under a scheduler without preemption, however timer
  interrupts and the statements of \<open>fn1\<close>, \<open>fn2\<close> or \<open>fn3\<close> interleave, no assertion fails, the job keeps the processor
  until it calls \<open>thread_exit\<close>, its running time counts every tick, and it gets there after no less than 40, 70 or 90
  ticks; and there is a run that gets there after exactly these.\<close>

theorem job_needs_its_ticks:
  assumes "sched_inv A k" and "int_flag k" and "g_scheduler k \<noteq> RR" and "\<not> g_need_reschedule k"
    and "(scr, w) \<in> {(fn1, 40), (fn2, 70), (fn3, 90)}" and "unat (g_numticks k) + tick_count es + w < 2 ^ 32"
  shows "\<exists>s'. job_events tbl d es (job_start k x (butlast scr)) = Some (Inr s') \<and> last scr = Exit 42
    \<and> g_current (job_kernel s') = g_current k \<and> sched_inv A (job_kernel s')
    \<and> ticks_of (job_kernel s') = map_option (\<lambda>r. r + of_nat (tick_count es)) (ticks_of k)
    \<and> (script s' = [] \<longrightarrow> w \<le> tick_count es)
    \<and> (\<exists>fs s''. tick_count fs = w \<and> job_events tbl d fs (job_start k x (butlast scr)) = Some (Inr s'') \<and> script s'' = [])"
proof -
  have s: "list_all plain (butlast scr)" "waits_of (butlast scr) = w" "last scr = Exit 42"
    using assms(5) fn_waits by (auto simp: fn1_def fn2_def fn3_def)
  have "tick_count (shortest_run (butlast scr)) = w" using tick_count_shortest s(2) by simp
  with job_runs_on [OF assms(1-4) s(1), of es tbl d x] job_can_end [OF assms(1-4) s(1), of tbl d x] assms(6) s(2,3)
  show ?thesis by auto
qed

theorem job_needs_its_ticks_witness:
  "\<exists>k s s''. g_scheduler k = FCFS \<and> job_events [] poem_addresses (replicate 39 Tick) (job_start k (poem_example, s_tictactoe) (butlast fn1)) = Some (Inr s)
    \<and> script s \<noteq> [] \<and> g_current (job_kernel s) = 4100
    \<and> (\<exists>fs. tick_count fs = 40 \<and> job_events [] poem_addresses fs (job_start k (poem_example, s_tictactoe) (butlast fn1)) = Some (Inr s'') \<and> script s'' = [])"
proof -
  obtain s0 where s0: "sched_inv ((\<lambda>_. [])(RunQ := [4180, 4260])) s0" "int_flag s0" "g_scheduler s0 = FCFS" "g_current s0 = 4100"
    using booted_sched by metis
  let ?k = "s0\<lparr>g_need_reschedule := False, g_numticks := 0\<rparr>"
  have i: "sched_inv ((\<lambda>_. [])(RunQ := [4180, 4260])) ?k"
    using s0(1) by (simp add: sched_inv_def queues_inv_def no_thread_lost_def queued_ok_def)
  have k: "int_flag ?k" "g_scheduler ?k \<noteq> RR" "\<not> g_need_reschedule ?k" "(fn1, 40 :: nat) \<in> {(fn1, 40), (fn2, 70), (fn3, 90)}"
    "unat (g_numticks ?k) + tick_count (replicate 39 Tick) + 40 < 2 ^ 32" using s0(2,3) by simp_all
  obtain s fs s'' where r: "job_events [] poem_addresses (replicate 39 Tick) (job_start ?k (poem_example, s_tictactoe) (butlast fn1)) = Some (Inr s)"
    "g_current (job_kernel s) = g_current ?k" "script s = [] \<longrightarrow> 40 \<le> tick_count (replicate 39 Tick)" "tick_count fs = 40"
    "job_events [] poem_addresses fs (job_start ?k (poem_example, s_tictactoe) (butlast fn1)) = Some (Inr s'')" "script s'' = []"
    using job_needs_its_ticks [OF i k, of "[]" poem_addresses "(poem_example, s_tictactoe)"] by blast
  have "g_scheduler ?k = FCFS" "script s \<noteq> []" "g_current (job_kernel s) = 4100" using r(2,3) s0(3,4) by auto
  with r(1,4-6) show ?thesis by blast
qed

end
